(* ===== verification/Vault_Prelude.thy ===== *)
theory Vault_Prelude
  imports Main "HOL-Library.Word" "HOL-Library.Char_ord" "HOL-Library.List_Lexorder"
begin

text \<open>
  Shared vocabulary of the development: byte strings and text, results with an error, hexadecimal
  and decimal text, big-endian integers, and the generic lemmas on them.

  Text is represented by its UTF-8 bytes, so \<open>s.encode("utf-8")\<close> is the identity and a byte
  string and a text value have the same type.  Where the program counts characters the model uses
  \<open>str_len\<close>, which counts code points.  UTF-8 keeps the order of code points, so comparing two
  texts compares their bytes.
\<close>

type_synonym bytes = "char list"
type_synonym ustr = "char list"

named_theorems model_defs "definitions a component unfolds when its operations are evaluated"

section \<open>Results\<close>

text \<open>A raised exception is \<open>Inl\<close>, a returned value \<open>Inr\<close>.\<close>

definition bindE :: "'e + 'a \<Rightarrow> ('a \<Rightarrow> 'e + 'b) \<Rightarrow> 'e + 'b" where
  "bindE r f = (case r of Inl e \<Rightarrow> Inl e | Inr x \<Rightarrow> f x)"

definition requireE :: "bool \<Rightarrow> 'e \<Rightarrow> 'e + unit" where
  "requireE b e = (if b then Inr () else Inl e)"

lemma bindE_simps [simp]:
  "bindE (Inl e) f = Inl e"
  "bindE (Inr x) f = f x"
  by (simp_all add: bindE_def)

lemma requireE_simps [simp]:
  "requireE True e = Inr ()"
  "requireE False e = Inl e"
  by (simp_all add: requireE_def)

lemma bindE_Inr: "bindE r f = Inr y \<longleftrightarrow> (\<exists>x. r = Inr x \<and> f x = Inr y)"
  by (cases r) auto

lemma bindE_Inl: "bindE r f = Inl e \<longleftrightarrow> r = Inl e \<or> (\<exists>x. r = Inr x \<and> f x = Inl e)"
  by (cases r) auto

lemma requireE_Inr [simp]: "requireE b e = Inr u \<longleftrightarrow> b"
  by (simp add: requireE_def)

lemma requireE_Inl [simp]: "requireE b e = Inl e' \<longleftrightarrow> \<not> b \<and> e' = e"
  by (auto simp: requireE_def)

section \<open>Characters as bytes\<close>

abbreviation byte_of :: "nat \<Rightarrow> char" where
  "byte_of \<equiv> char_of"

abbreviation code_of :: "char \<Rightarrow> nat" where
  "code_of \<equiv> of_char"

lemma code_of_less [simp]: "code_of c < 256"
  by (metis of_char_of of_char_mod_256 mod_less_divisor zero_less_numeral)

lemma code_of_eq [simp]: "(code_of c = code_of d) = (c = d)"
  by (metis char_of_char)

lemma byte_of_inj: "m < 256 \<Longrightarrow> n < 256 \<Longrightarrow> (byte_of m :: char) = byte_of n \<longleftrightarrow> m = n"
  by (metis mod_less of_char_of)

text \<open>The number of code points of a text: every byte but the UTF-8 continuation bytes.\<close>

definition str_len :: "ustr \<Rightarrow> nat" where
  "str_len s = length (filter (\<lambda>c. code_of c div 64 \<noteq> 2) s)"

lemma str_len_le: "str_len s \<le> length s"
  by (simp add: str_len_def)

section \<open>White space\<close>

text \<open>\<open>str.strip()\<close>: the ASCII white space and separators, and the encoded forms of U+0085, U+00A0,
  U+1680, U+2000 to U+200A, U+2028, U+2029, U+202F, U+205F and U+3000.\<close>

definition space1 :: "char \<Rightarrow> bool" where
  "space1 c \<longleftrightarrow> (9 \<le> code_of c \<and> code_of c \<le> 13) \<or> (28 \<le> code_of c \<and> code_of c \<le> 32)"

definition space2 :: "char \<Rightarrow> char \<Rightarrow> bool" where
  "space2 c d \<longleftrightarrow> code_of c = 194 \<and> (code_of d = 133 \<or> code_of d = 160)"

definition space3 :: "char \<Rightarrow> char \<Rightarrow> char \<Rightarrow> bool" where
  "space3 c d e \<longleftrightarrow>
     (code_of c = 225 \<and> code_of d = 154 \<and> code_of e = 128)
     \<or> (code_of c = 226 \<and> code_of d = 128
         \<and> ((128 \<le> code_of e \<and> code_of e \<le> 138) \<or> code_of e \<in> {168, 169, 175}))
     \<or> (code_of c = 226 \<and> code_of d = 129 \<and> code_of e = 159)
     \<or> (code_of c = 227 \<and> code_of d = 128 \<and> code_of e = 128)"

fun strip_front :: "(char \<Rightarrow> bool) \<Rightarrow> (char \<Rightarrow> char \<Rightarrow> bool) \<Rightarrow> (char \<Rightarrow> char \<Rightarrow> char \<Rightarrow> bool) \<Rightarrow> ustr \<Rightarrow> ustr" where
  "strip_front p1 p2 p3 [] = []"
| "strip_front p1 p2 p3 [c] = (if p1 c then [] else [c])"
| "strip_front p1 p2 p3 [c, d] =
     (if p1 c then strip_front p1 p2 p3 [d] else if p2 c d then [] else [c, d])"
| "strip_front p1 p2 p3 (c # d # e # r) =
     (if p1 c then strip_front p1 p2 p3 (d # e # r)
      else if p2 c d then strip_front p1 p2 p3 (e # r)
      else if p3 c d e then strip_front p1 p2 p3 r
      else c # d # e # r)"

definition strip :: "ustr \<Rightarrow> ustr" where
  "strip s =
     rev (strip_front space1 (\<lambda>c d. space2 d c) (\<lambda>c d e. space3 e d c)
       (rev (strip_front space1 space2 space3 s)))"

section \<open>Hexadecimal\<close>

text \<open>\<open>bytes.hex()\<close> writes lower case; \<open>bytes.fromhex\<close> reads either case and skips ASCII
  whitespace between two bytes, never inside one.\<close>

definition hex_digit :: "nat \<Rightarrow> char" where
  "hex_digit n = (if n < 10 then byte_of (48 + n) else byte_of (87 + n))"

definition nibble :: "char \<Rightarrow> nat option" where
  "nibble c =
     (let n = code_of c in
      if 48 \<le> n \<and> n \<le> 57 then Some (n - 48)
      else if 97 \<le> n \<and> n \<le> 102 then Some (n - 87)
      else if 65 \<le> n \<and> n \<le> 70 then Some (n - 55)
      else None)"

fun to_hex :: "bytes \<Rightarrow> ustr" where
  "to_hex [] = []"
| "to_hex (b # bs) = hex_digit (code_of b div 16) # hex_digit (code_of b mod 16) # to_hex bs"

definition hex_space :: "char \<Rightarrow> bool" where
  "hex_space c \<longleftrightarrow> code_of c = 32 \<or> (9 \<le> code_of c \<and> code_of c \<le> 13)"

fun from_hex :: "ustr \<Rightarrow> bytes option" where
  "from_hex [] = Some []"
| "from_hex (c # cs) =
     (if hex_space c then from_hex cs
      else case cs of
        [] \<Rightarrow> None
      | d # ds \<Rightarrow>
          (case (nibble c, nibble d) of
             (Some h, Some l) \<Rightarrow> map_option ((#) (byte_of (16 * h + l))) (from_hex ds)
           | _ \<Rightarrow> None))"

lemma hex_digit_code: "n < 16 \<Longrightarrow> code_of (hex_digit n) = (if n < 10 then 48 + n else 87 + n)"
  by (simp add: hex_digit_def)

lemma nibble_hex_digit [simp]: "n < 16 \<Longrightarrow> nibble (hex_digit n) = Some n"
  by (auto simp: nibble_def hex_digit_code Let_def)

lemma hex_space_hex_digit [simp]: "n < 16 \<Longrightarrow> \<not> hex_space (hex_digit n)"
  by (auto simp: hex_space_def hex_digit_code)

lemma code_of_halves [simp]: "code_of c div 16 < (16 :: nat)" "code_of c mod 16 < (16 :: nat)"
proof -
  have "code_of c < (16 * 16 :: nat)" using code_of_less [of c] by simp
  then show "code_of c div 16 < (16 :: nat)" by (rule less_mult_imp_div_less)
qed simp

lemma from_hex_to_hex [simp]: "from_hex (to_hex bs) = Some bs"
proof (induction bs)
  case Nil
  show ?case by simp
next
  case (Cons b bs)
  have "16 * (code_of b div 16) + code_of b mod 16 = (code_of b :: nat)" by simp
  with Cons show ?case by simp
qed

lemma length_to_hex [simp]: "length (to_hex bs) = 2 * length bs"
  by (induction bs) auto

lemma to_hex_inj [simp]: "to_hex a = to_hex b \<longleftrightarrow> a = b"
  by (metis from_hex_to_hex option.inject)

section \<open>Decimal\<close>

fun dec_nat :: "nat \<Rightarrow> ustr" where
  "dec_nat n = (if n < 10 then [byte_of (48 + n)] else dec_nat (n div 10) @ [byte_of (48 + n mod 10)])"

declare dec_nat.simps [simp del]

definition dec_int :: "int \<Rightarrow> ustr" where
  "dec_int i = (if i < 0 then CHR ''-'' # dec_nat (nat (- i)) else dec_nat (nat i))"

definition is_digit :: "char \<Rightarrow> bool" where
  "is_digit c \<longleftrightarrow> 48 \<le> code_of c \<and> code_of c \<le> 57"

text \<open>\<open>int(s)\<close> of a text of ASCII digits.\<close>

definition dec_value :: "ustr \<Rightarrow> nat" where
  "dec_value s = foldl (\<lambda>v c. 10 * v + (code_of c - 48)) 0 s"

lemma is_digit_byte [simp]: "n < 10 \<Longrightarrow> is_digit (byte_of (48 + n))"
  by (simp add: is_digit_def)

lemma dec_nat_digits: "\<forall>c \<in> set (dec_nat n). is_digit c"
proof (induction n rule: dec_nat.induct)
  case (1 n)
  then show ?case
    by (subst dec_nat.simps) (auto simp: is_digit_def)
qed

lemma dec_nat_nonempty [simp]: "dec_nat n \<noteq> []"
  by (subst dec_nat.simps) simp

lemma dec_value_snoc: "dec_value (s @ [c]) = 10 * dec_value s + (code_of c - 48)"
  by (simp add: dec_value_def)

lemma dec_value_dec_nat [simp]: "dec_value (dec_nat n) = n"
proof (induction n rule: dec_nat.induct)
  case (1 n)
  show ?case
  proof (cases "n < 10")
    case True
    then show ?thesis by (subst dec_nat.simps) (simp add: dec_value_def)
  next
    case False
    have "dec_value (dec_nat n) = 10 * dec_value (dec_nat (n div 10)) + n mod 10"
      using False by (subst dec_nat.simps) (simp add: dec_value_snoc)
    with "1" False show ?thesis by simp
  qed
qed

lemma dec_nat_inj [simp]: "dec_nat m = dec_nat n \<longleftrightarrow> m = n"
  by (metis dec_value_dec_nat)

lemma minus_not_digit [simp]: "\<not> is_digit (CHR ''-'')"
  by (simp add: is_digit_def)

lemma dec_nat_hd: "is_digit (hd (dec_nat n))"
  using dec_nat_digits [of n] by (cases "dec_nat n") auto

lemma dec_int_inj [simp]: "dec_int i = dec_int j \<longleftrightarrow> i = j"
proof -
  have "dec_nat n \<noteq> CHR ''-'' # s" for n s
    using dec_nat_hd [of n] by (metis list.sel(1) minus_not_digit)
  then show ?thesis
    by (auto simp: dec_int_def split: if_splits dest: sym)
qed

section \<open>Big-endian integers\<close>

definition from_be :: "bytes \<Rightarrow> nat" where
  "from_be bs = foldl (\<lambda>v b. 256 * v + code_of b) 0 bs"

fun to_be :: "nat \<Rightarrow> nat \<Rightarrow> bytes" where
  "to_be 0 n = []"
| "to_be (Suc w) n = to_be w (n div 256) @ [byte_of (n mod 256)]"

lemma length_to_be [simp]: "length (to_be w n) = w"
  by (induction w arbitrary: n) auto

lemma from_be_snoc: "from_be (bs @ [b]) = 256 * from_be bs + code_of b"
  by (simp add: from_be_def)

lemma from_be_to_be: "from_be (to_be w n) = n mod 256 ^ w"
proof (induction w arbitrary: n)
  case 0
  show ?case by (simp add: from_be_def)
next
  case (Suc w)
  have "from_be (to_be (Suc w) n) = 256 * (n div 256 mod 256 ^ w) + n mod 256"
    by (simp add: from_be_snoc Suc)
  also have "\<dots> = n mod 256 ^ Suc w"
    by (simp add: mod_mult2_eq)
  finally show ?case .
qed

lemma to_be_inj: "m < 256 ^ w \<Longrightarrow> n < 256 ^ w \<Longrightarrow> to_be w m = to_be w n \<longleftrightarrow> m = n"
  by (metis from_be_to_be mod_less)

section \<open>Lists\<close>

lemma find_Some_in: "find P xs = Some x \<Longrightarrow> x \<in> set xs \<and> P x"
  by (induction xs) (auto split: if_splits)

text \<open>Two texts that end where a run of characters of one kind ends.\<close>

lemma split_run:
  assumes "a @ r = b @ s"
    and "\<forall>c \<in> set a. P c" "\<forall>c \<in> set b. P c"
    and "r = [] \<or> \<not> P (hd r)" "s = [] \<or> \<not> P (hd s)"
  shows "a = b \<and> r = s"
proof -
  have ta: "takeWhile P (a @ r) = a"
    using assms(2,4) by (cases r) auto
  have tb: "takeWhile P (b @ s) = b"
    using assms(3,5) by (cases s) auto
  from ta tb assms(1) have "a = b" by simp
  with assms(1) show ?thesis by simp
qed

end
