(* ===== verification/Sha256.thy ===== *)
theory Sha256
  imports Vault_Prelude
begin

unbundle bit_operations_syntax

text \<open>
  SHA-256 (FIPS 180-4), the \<open>hashlib.sha256\<close> the program calls, on byte strings, and the
  interface the rest of the development uses of a hash function: every digest is 32 bytes.

  The components take the hash function as an argument.  Their theorems hold for every function of
  the interface and are instantiated with this one; collision resistance is never assumed globally,
  it appears as injectivity on the explicit finite set of inputs a computation hashes.
\<close>

text \<open>The round constants, the cube roots' fractions, and the initial state, in decimal.\<close>

definition K256 :: "32 word list" where
  "K256 =
    [1116352408, 1899447441, 3049323471, 3921009573, 961987163, 1508970993, 2453635748, 2870763221,
     3624381080, 310598401, 607225278, 1426881987, 1925078388, 2162078206, 2614888103, 3248222580,
     3835390401, 4022224774, 264347078, 604807628, 770255983, 1249150122, 1555081692, 1996064986,
     2554220882, 2821834349, 2952996808, 3210313671, 3336571891, 3584528711, 113926993, 338241895,
     666307205, 773529912, 1294757372, 1396182291, 1695183700, 1986661051, 2177026350, 2456956037,
     2730485921, 2820302411, 3259730800, 3345764771, 3516065817, 3600352804, 4094571909, 275423344,
     430227734, 506948616, 659060556, 883997877, 958139571, 1322822218, 1537002063, 1747873779,
     1955562222, 2024104815, 2227730452, 2361852424, 2428436474, 2756734187, 3204031479, 3329325298]"

definition H256 :: "32 word list" where
  "H256 = [1779033703, 3144134277, 1013904242, 2773480762, 1359893119, 2600822924, 528734635, 1541459225]"

definition sha_pad :: "bytes \<Rightarrow> bytes" where
  "sha_pad m =
     (let z = (119 - length m mod 64) mod 64
      in m @ byte_of 128 # replicate z (byte_of 0) @ to_be 8 (8 * length m))"

definition word_of_bytes :: "bytes \<Rightarrow> 32 word" where
  "word_of_bytes bs = foldl (\<lambda>v b. push_bit 8 v OR of_char b) 0 bs"

definition bytes_of_word :: "32 word \<Rightarrow> bytes" where
  "bytes_of_word w = map (\<lambda>k. char_of (uint (drop_bit k w) mod 256)) [24, 16, 8, 0]"

fun be_words :: "bytes \<Rightarrow> 32 word list" where
  "be_words (a # b # c # d # r) = word_of_bytes [a, b, c, d] # be_words r"
| "be_words _ = []"

definition schedule_word :: "32 word list \<Rightarrow> 32 word" where
  "schedule_word w =
     (let n = length w; a = w ! (n - 15); b = w ! (n - 2);
          s0 = word_rotr 7 a XOR word_rotr 18 a XOR drop_bit 3 a;
          s1 = word_rotr 17 b XOR word_rotr 19 b XOR drop_bit 10 b
      in w ! (n - 16) + s0 + w ! (n - 7) + s1)"

fun schedule :: "nat \<Rightarrow> 32 word list \<Rightarrow> 32 word list" where
  "schedule 0 w = w"
| "schedule (Suc k) w = schedule k (w @ [schedule_word w])"

fun sha_round :: "32 word \<times> 32 word \<Rightarrow> 32 word list \<Rightarrow> 32 word list" where
  "sha_round (k, w) [a, b, c, d, e, f, g, h] =
     (let s1 = word_rotr 6 e XOR word_rotr 11 e XOR word_rotr 25 e;
          ch = (e AND f) XOR (NOT e AND g);
          t1 = h + s1 + ch + k + w;
          s0 = word_rotr 2 a XOR word_rotr 13 a XOR word_rotr 22 a;
          maj = (a AND b) XOR (a AND c) XOR (b AND c)
      in [t1 + (s0 + maj), a, b, c, d + t1, e, f, g])"
| "sha_round _ v = v"

definition compress :: "32 word list \<Rightarrow> 32 word list \<Rightarrow> 32 word list" where
  "compress h block = map2 (+) h (fold sha_round (zip K256 (schedule 48 block)) h)"

fun sha_blocks :: "32 word list \<Rightarrow> 32 word list \<Rightarrow> 32 word list" where
  "sha_blocks h [] = h"
| "sha_blocks h (w # ws) = sha_blocks (compress h (take 16 (w # ws))) (drop 16 (w # ws))"

definition sha256 :: "bytes \<Rightarrow> bytes" where
  "sha256 m = concat (map bytes_of_word (sha_blocks H256 (be_words (sha_pad m))))"

lemma length_sha_round: "length v = 8 \<Longrightarrow> length (sha_round kw v) = 8"
  by (cases "(kw, v)" rule: sha_round.cases) (auto simp: Let_def)

lemma length_sha_rounds: "length v = 8 \<Longrightarrow> length (fold sha_round kws v) = 8"
  by (induction kws arbitrary: v) (auto simp: length_sha_round)

lemma length_compress: "length h = 8 \<Longrightarrow> length (compress h b) = 8"
  by (simp add: compress_def length_sha_rounds)

lemma length_sha_blocks: "length h = 8 \<Longrightarrow> length (sha_blocks h ws) = 8"
  by (induction h ws rule: sha_blocks.induct) (auto simp: length_compress)

lemma length_sha256 [simp]: "length (sha256 m) = 32"
  by (simp add: sha256_def length_concat o_def bytes_of_word_def sum_list_triv length_sha_blocks H256_def)

text \<open>The FIPS 180-4 test vector, evaluated by the kernel.\<close>

lemma sha256_abc:
  "to_hex (sha256 ''abc'') = ''ba7816bf8f01cfea414140de5dae2223b00361a396177a9cb410ff61f20015ad''"
  by code_simp

section \<open>The interface of a hash function\<close>

locale hash_function =
  fixes H :: "bytes \<Rightarrow> bytes"
  assumes length_digest [simp]: "length (H x) = 32"
begin

lemma digest_append_eq:
  "x @ H a = y @ H b \<longleftrightarrow> x = y \<and> H a = H b"
  "H a @ x = H b @ y \<longleftrightarrow> H a = H b \<and> x = y"
  by simp_all

lemma length_hex_digest [simp]: "length (to_hex (H x)) = 64"
  by simp

end

interpretation sha: hash_function sha256
  by unfold_locales simp

text \<open>No two of the given inputs collide.\<close>

definition collision_free :: "(bytes \<Rightarrow> bytes) \<Rightarrow> bytes set \<Rightarrow> bool" where
  "collision_free H X \<longleftrightarrow> inj_on H X"

lemma collision_freeD:
  "collision_free H X \<Longrightarrow> H x = H y \<Longrightarrow> x \<in> X \<Longrightarrow> y \<in> X \<Longrightarrow> x = y"
  by (auto simp: collision_free_def dest: inj_onD)

lemma collision_free_subset: "collision_free H X \<Longrightarrow> Y \<subseteq> X \<Longrightarrow> collision_free H Y"
  by (auto simp: collision_free_def intro: inj_on_subset)

end
