(* ===== verification/Merkle_Proofs.thy ===== *)
theory Merkle_Proofs
  imports Merkle
begin

unbundle bit_operations_syntax

text \<open>
  The Merkle tree's theorems.  \<open>tree_hash\<close>, \<open>audit_path\<close> and \<open>prefix_proof\<close> are RFC 6962's
  definitions on lists, which the windowed generators compute; \<open>path_fold\<close> and \<open>prefix_fold\<close> read a
  proof from its last element along the same recursion, and the two loops are shown to compute
  them.  Completeness and soundness are then inductions on the tree.
\<close>

section \<open>RFC 6962 on lists\<close>

lemma split_list_less:
  assumes "Suc 0 < length xs"
  shows "min (length xs) (split_size (length xs)) < length xs"
    "length xs - split_size (length xs) < length xs"
  using split_size_bounds [of "length xs"] assms by auto

function tree_hash :: "(bytes \<Rightarrow> bytes) \<Rightarrow> bytes list \<Rightarrow> bytes" where
  "tree_hash H xs =
     (if xs = [] then EMPTY_ROOT H
      else if length xs = 1 then hd xs
      else hash_children H (tree_hash H (take (split_size (length xs)) xs))
                           (tree_hash H (drop (split_size (length xs)) xs)))"
  by auto
termination
  by (relation "measure (\<lambda>(H, xs). length xs)") (auto simp: split_list_less not_le Suc_lessI)

function audit_path :: "(bytes \<Rightarrow> bytes) \<Rightarrow> bytes list \<Rightarrow> nat \<Rightarrow> bytes list" where
  "audit_path H xs m =
     (if length xs \<le> 1 then []
      else let k = split_size (length xs)
           in if m < k then audit_path H (take k xs) m @ [tree_hash H (drop k xs)]
              else audit_path H (drop k xs) (m - k) @ [tree_hash H (take k xs)])"
  by auto
termination
  by (relation "measure (\<lambda>(H, xs, m). length xs)") (auto simp: split_list_less not_le Suc_lessI)

function prefix_proof :: "(bytes \<Rightarrow> bytes) \<Rightarrow> bytes list \<Rightarrow> nat \<Rightarrow> bool \<Rightarrow> bytes list" where
  "prefix_proof H xs m complete =
     (if m = length xs \<or> length xs \<le> 1 then (if complete then [] else [tree_hash H xs])
      else let k = split_size (length xs)
           in if m \<le> k then prefix_proof H (take k xs) m complete @ [tree_hash H (drop k xs)]
              else prefix_proof H (drop k xs) (m - k) False @ [tree_hash H (take k xs)])"
  by auto
termination
  by (relation "measure (\<lambda>(H, xs, m, c). length xs)") (auto simp: split_list_less not_le Suc_lessI)

declare tree_hash.simps [simp del] audit_path.simps [simp del] prefix_proof.simps [simp del]

lemma window_halves:
  assumes "lo + k \<le> hi" "hi \<le> length xs"
  shows "take k (take (hi - lo) (drop lo xs)) = take (lo + k - lo) (drop lo xs)"
    "drop k (take (hi - lo) (drop lo xs)) = take (hi - (lo + k)) (drop (lo + k) xs)"
  using assms by (auto simp: drop_take ac_simps min_def)

lemma root_window_eq:
  "lo \<le> hi \<Longrightarrow> hi \<le> length xs \<Longrightarrow> root_window H xs lo hi = tree_hash H (take (hi - lo) (drop lo xs))"
proof (induction H xs lo hi rule: root_window.induct)
  case (1 H xs lo hi)
  let ?ys = "take (hi - lo) (drop lo xs)" and ?k = "split_size (hi - lo)"
  have len: "length ?ys = hi - lo" using 1 by simp
  consider "hi - lo = 0" | "hi - lo = 1" | "2 \<le> hi - lo" by linarith
  then show ?case
  proof cases
    case 2
    then have "length ?ys = 1" "hd ?ys = xs ! lo" using len 1 by (simp_all add: hd_drop_conv_nth)
    then show ?thesis using 2
      by (subst root_window.simps, subst tree_hash.simps) (auto simp del: length_take length_drop)
  next
    case 3
    note k = split_size_bounds [OF 3]
    have win: "lo + ?k \<le> hi" using k by simp
    have "root_window H xs lo (lo + ?k) = tree_hash H (take ?k ?ys)"
      "root_window H xs (lo + ?k) hi = tree_hash H (drop ?k ?ys)"
      using "1.IH" [OF refl _ _ refl] "1.prems" 3 win window_halves [OF win "1.prems"(2)] by auto
    then show ?thesis using 3 len
      by (subst root_window.simps, subst tree_hash.simps) (auto simp: Let_def simp del: length_take length_drop)
  qed (auto simp: root_window.simps [of H xs lo hi] tree_hash.simps)
qed

lemma merkle_root_eq: "merkle_root H xs = tree_hash H xs"
  by (simp add: merkle_root_def root_window_eq)

lemma path_window_eq:
  "lo \<le> hi \<Longrightarrow> hi \<le> length xs \<Longrightarrow> path_window H xs lo hi m = audit_path H (take (hi - lo) (drop lo xs)) m"
proof (induction H xs lo hi m rule: path_window.induct)
  case (1 H xs lo hi m)
  let ?ys = "take (hi - lo) (drop lo xs)" and ?k = "split_size (hi - lo)"
  have len: "length ?ys = hi - lo" using 1 by simp
  show ?case
  proof (cases "hi - lo \<le> 1")
    case True
    then show ?thesis using len
      by (subst path_window.simps, subst audit_path.simps) (auto simp: Let_def simp del: length_take length_drop)
  next
    case False
    then have "2 \<le> hi - lo" by simp
    note k = split_size_bounds [OF this]
    have win: "lo + ?k \<le> hi" using k by simp
    note halves = window_halves [OF win "1.prems"(2)]
    have roots: "root_window H xs lo (lo + ?k) = tree_hash H (take ?k ?ys)"
      "root_window H xs (lo + ?k) hi = tree_hash H (drop ?k ?ys)"
      using "1.prems" win halves by (simp_all add: root_window_eq)
    show ?thesis
      using "1.IH" [OF refl False refl] "1.prems" False win halves roots len
      by (subst path_window.simps, subst audit_path.simps) (auto simp: Let_def simp del: length_take length_drop)
  qed
qed

lemma subproof_eq:
  "lo \<le> hi \<Longrightarrow> hi \<le> length xs \<Longrightarrow> subproof H xs lo hi m c = prefix_proof H (take (hi - lo) (drop lo xs)) m c"
proof (induction H xs lo hi m c rule: subproof.induct)
  case (1 H xs lo hi m c)
  let ?ys = "take (hi - lo) (drop lo xs)" and ?k = "split_size (hi - lo)"
  have len: "length ?ys = hi - lo" using 1 by simp
  show ?case
  proof (cases "m = hi - lo \<or> hi - lo \<le> 1")
    case True
    then show ?thesis using len "1.prems"
      by (subst subproof.simps, subst prefix_proof.simps)
        (auto simp: Let_def root_window_eq simp del: length_take length_drop)
  next
    case False
    then have "2 \<le> hi - lo" by simp
    note k = split_size_bounds [OF this]
    have win: "lo + ?k \<le> hi" using k by simp
    note halves = window_halves [OF win "1.prems"(2)]
    have roots: "root_window H xs lo (lo + ?k) = tree_hash H (take ?k ?ys)"
      "root_window H xs (lo + ?k) hi = tree_hash H (drop ?k ?ys)"
      using "1.prems" win halves by (simp_all add: root_window_eq)
    show ?thesis
      using "1.IH" [OF refl False refl] "1.prems" False win halves roots len
      by (subst subproof.simps, subst prefix_proof.simps) (auto simp: Let_def simp del: length_take length_drop)
  qed
qed

section \<open>The loops climb the tree\<close>

text \<open>In the left half the climb of the whole tree is the climb of the left subtree and one step more;
  in the right half both indices carry the subtree's bit and the left sibling comes last.\<close>

definition onto_right :: "('a \<Rightarrow> 'a \<Rightarrow> 'a) \<Rightarrow> 'a list \<Rightarrow> ('a list \<Rightarrow> ('a \<times> 'a) option) \<Rightarrow> ('a \<times> 'a) option" where
  "onto_right hc ps f =
     (if ps = [] then None
      else map_option (\<lambda>(o', w). (o', hc w (last ps))) (f (butlast ps)))"

definition onto_left :: "('a \<Rightarrow> 'a \<Rightarrow> 'a) \<Rightarrow> 'a list \<Rightarrow> ('a list \<Rightarrow> ('a \<times> 'a) option) \<Rightarrow> ('a \<times> 'a) option" where
  "onto_left hc ps f =
     (if ps = [] then None
      else map_option (\<lambda>(o', w). (hc (last ps) o', hc (last ps) w)) (f (butlast ps)))"

lemma strip_even_odd [simp]: "odd fn \<Longrightarrow> strip_even fn sn = (fn, sn)"
  by (simp add: strip_even.simps)

lemma pow_mult_two: "0 < a \<Longrightarrow> (2 :: nat) ^ a = 2 * 2 ^ (a - 1)"
  by (metis Suc_diff_1 power_Suc)

lemma climb_left_half:
  assumes "fn < 2 ^ Suc a" "2 ^ Suc a \<le> sn" "sn < 2 * 2 ^ Suc a"
  shows "climb fn sn = (odd fn, fn div 2, sn div 2)"
    "climb fn (2 ^ Suc a - 1) = (odd fn, fn div 2, 2 ^ a - 1)"
    "fn div 2 < 2 ^ a" "2 ^ a \<le> sn div 2" "sn div 2 < 2 * 2 ^ a"
proof -
  have half: "(2 * 2 ^ a - 1) div 2 = (2 :: nat) ^ a - 1" by simp
  show "climb fn sn = (odd fn, fn div 2, sn div 2)"
    using assms by (auto simp: climb_def)
  show "climb fn (2 ^ Suc a - 1) = (odd fn, fn div 2, 2 ^ a - 1)"
    using half by (auto simp: climb_def)
qed (use assms in auto)

lemma consistency_loop_left:
  assumes "fn < 2 ^ a" "2 ^ a \<le> sn" "sn < 2 * 2 ^ a"
  shows "consistency_loop hc fn sn o1 w1 ps =
    onto_right hc ps (consistency_loop hc fn (2 ^ a - 1) o1 w1)"
  using assms
proof (induction ps arbitrary: a fn sn o1 w1)
  case Nil
  then show ?case by (auto simp: onto_right_def)
next
  case (Cons p ps)
  show ?case
  proof (cases a)
    case 0
    then have "fn = 0" "sn = 1" using Cons.prems by auto
    then show ?thesis using 0 by (cases ps) (auto simp: onto_right_def climb_def)
  next
    case (Suc b)
    note c = climb_left_half [of fn b sn]
    have "(0 :: nat) < 2 ^ b" by simp
    then have "sn \<noteq> 0" "(2 :: nat) ^ Suc b - 1 \<noteq> 0"
      using Cons.prems(2) unfolding Suc power_Suc by linarith+
    then show ?thesis
      using Cons.prems Suc c Cons.IH [of "fn div 2" b "sn div 2"]
      by (cases ps) (auto simp: onto_right_def simp del: power_Suc)
  qed
qed

lemma strip_even_shift:
  assumes "0 < fn" "fn < 2 ^ b"
  shows "\<exists>c fn' . strip_even fn fn = (fn', fn') \<and> strip_even (fn + 2 ^ b) (fn + 2 ^ b) = (fn' + 2 ^ c, fn' + 2 ^ c)
     \<and> odd fn' \<and> fn' < 2 ^ c"
  using assms
proof (induction fn arbitrary: b rule: less_induct)
  case (less fn)
  then obtain b' where b: "b = Suc b'" by (cases b) auto
  show ?case
  proof (cases "odd fn")
    case True
    then show ?thesis using less.prems b by (intro exI [of _ b] exI [of _ fn]) simp
  next
    case False
    then have "strip_even fn fn = strip_even (fn div 2) (fn div 2)"
      "strip_even (fn + 2 ^ b) (fn + 2 ^ b) = strip_even (fn div 2 + 2 ^ b') (fn div 2 + 2 ^ b')"
      using less.prems b by (simp_all add: strip_even.simps [of fn] strip_even.simps [of "fn + 2 * 2 ^ b'"])
    then show ?thesis using less.IH [of "fn div 2" b'] less.prems b False by auto
  qed
qed

lemma strip_even_power: "strip_even (2 ^ b) (2 ^ b) = (1, 1)"
  by (induction b) (simp_all add: strip_even.simps [of "2 * _"])

lemma climb_right_half:
  assumes "0 < sn" "sn < 2 ^ b" "fn \<le> sn"
  shows "\<exists>left fn' sn' c. climb fn sn = (left, fn', sn') \<and> climb (fn + 2 ^ b) (sn + 2 ^ b) = (left, fn' + 2 ^ c, sn' + 2 ^ c)
     \<and> sn' < 2 ^ c \<and> fn' \<le> sn'"
proof -
  obtain b' where b: "b = Suc b'" using assms by (cases b) auto
  show ?thesis
  proof (cases "fn = sn \<and> even fn")
    case True
    then obtain c f where f: "strip_even fn fn = (f, f)"
        "strip_even (fn + 2 ^ b) (fn + 2 ^ b) = (f + 2 ^ c, f + 2 ^ c)" "odd f" "f < 2 ^ c"
      using strip_even_shift [of fn b] assms by auto
    then obtain c' where "c = Suc c'" by (cases c) auto
    with f True show ?thesis
      by (intro exI [of _ True] exI [of _ "f div 2"] exI [of _ c']) (auto simp: climb_def)
  next
    case False
    then show ?thesis using assms b
      by (intro exI [of _ "odd fn"] exI [of _ "fn div 2"] exI [of _ "sn div 2"] exI [of _ b'])
        (auto simp: climb_def div_le_mono)
  qed
qed

lemma consistency_loop_right:
  assumes "sn < 2 ^ b" "fn \<le> sn"
  shows "consistency_loop hc (fn + 2 ^ b) (sn + 2 ^ b) o1 w1 ps =
    onto_left hc ps (consistency_loop hc fn sn o1 w1)"
  using assms
proof (induction ps arbitrary: b fn sn o1 w1)
  case Nil
  then show ?case by (simp add: onto_left_def)
next
  case (Cons p ps)
  show ?case
  proof (cases "sn = 0")
    case True
    then show ?thesis using Cons.prems
      by (cases ps) (auto simp: onto_left_def climb_def strip_even_power)
  next
    case False
    then obtain left fn' sn' c where c: "climb fn sn = (left, fn', sn')"
        "climb (fn + 2 ^ b) (sn + 2 ^ b) = (left, fn' + 2 ^ c, sn' + 2 ^ c)" "sn' < 2 ^ c" "fn' \<le> sn'"
      using climb_right_half [of sn b fn] Cons.prems by auto
    show ?thesis
      using False c Cons.IH [OF c(3,4)] by (cases ps) (auto simp: onto_left_def)
  qed
qed

lemma inclusion_loop_snd:
  "inclusion_loop hc fn sn c ps = map_option snd (consistency_loop hc fn sn o1 c ps)"
  by (induction ps arbitrary: fn sn c o1) (auto split: prod.splits)

function path_fold :: "('a \<Rightarrow> 'a \<Rightarrow> 'a) \<Rightarrow> nat \<Rightarrow> nat \<Rightarrow> 'a \<Rightarrow> 'a list \<Rightarrow> 'a option" where
  "path_fold hc m n c ps =
     (if n \<le> 1 then (if ps = [] then Some c else None)
      else if ps = [] then None
      else let k = split_size n
           in if m < k then map_option (\<lambda>w. hc w (last ps)) (path_fold hc m k c (butlast ps))
              else map_option (\<lambda>w. hc (last ps) w) (path_fold hc (m - k) (n - k) c (butlast ps)))"
  by auto
termination
  by (relation "measure (\<lambda>(hc, m, n, c, ps). n)") (use split_size_bounds in \<open>auto simp: not_le\<close>)

function prefix_fold :: "('a \<Rightarrow> 'a \<Rightarrow> 'a) \<Rightarrow> nat \<Rightarrow> nat \<Rightarrow> 'a \<Rightarrow> 'a list \<Rightarrow> ('a \<times> 'a) option" where
  "prefix_fold hc m n s ps =
     (if m = n \<or> n \<le> 1 then (if ps = [] then Some (s, s) else None)
      else let k = split_size n
           in if m \<le> k then onto_right hc ps (\<lambda>qs. prefix_fold hc m k s qs)
              else onto_left hc ps (\<lambda>qs. prefix_fold hc (m - k) (n - k) s qs))"
  by auto
termination
  by (relation "measure (\<lambda>(hc, m, n, s, ps). n)") (use split_size_bounds in \<open>auto simp: not_le\<close>)

declare path_fold.simps [simp del] prefix_fold.simps [simp del]

lemma map_snd_onto:
  "map_option snd (onto_right hc ps f) =
    (if ps = [] then None else map_option (\<lambda>w. hc w (last ps)) (map_option snd (f (butlast ps))))"
  "map_option snd (onto_left hc ps f) =
    (if ps = [] then None else map_option (\<lambda>w. hc (last ps) w) (map_option snd (f (butlast ps))))"
  by (simp_all add: onto_right_def onto_left_def option.map_comp o_def split_def)

lemma path_fold_step:
  assumes "2 \<le> n"
  shows "path_fold hc m n c [] = None"
    "ps \<noteq> [] \<Longrightarrow> m < split_size n \<Longrightarrow>
      path_fold hc m n c ps = map_option (\<lambda>w. hc w (last ps)) (path_fold hc m (split_size n) c (butlast ps))"
    "ps \<noteq> [] \<Longrightarrow> \<not> m < split_size n \<Longrightarrow>
      path_fold hc m n c ps =
        map_option (\<lambda>w. hc (last ps) w) (path_fold hc (m - split_size n) (n - split_size n) c (butlast ps))"
  using assms by (simp_all add: path_fold.simps [of hc m n c] Let_def)

lemma inclusion_loop_path:
  "m < n \<Longrightarrow> inclusion_loop hc m (n - 1) c ps = path_fold hc m n c ps"
proof (induction hc m n c ps rule: path_fold.induct)
  case (1 hc m n c ps)
  show ?case
  proof (cases "n \<le> 1")
    case True
    then show ?thesis using "1.prems" by (cases ps) (auto simp: path_fold.simps)
  next
    case False
    then have n: "2 \<le> n" by simp
    obtain a where a: "split_size n = 2 ^ a" using split_size_power by blast
    note k = split_size_bounds [OF n, unfolded a]
    show ?thesis
    proof (cases "m < 2 ^ a")
      case True
      have "consistency_loop hc m (n - 1) c c ps = onto_right hc ps (consistency_loop hc m (2 ^ a - 1) c c)"
        using True k by (intro consistency_loop_left) auto
      then show ?thesis
        using "1.IH"(1) [OF False _ refl] a True False
        by (simp add: path_fold.simps [of hc m n] inclusion_loop_snd [where ?o1.0 = c] map_snd_onto
            Let_def del: option.map_comp)
    next
      case m: False
      have "consistency_loop hc ((m - 2 ^ a) + 2 ^ a) ((n - 2 ^ a - 1) + 2 ^ a) c c ps
          = onto_left hc ps (consistency_loop hc (m - 2 ^ a) (n - 2 ^ a - 1) c c)"
        using m k "1.prems" by (intro consistency_loop_right) auto
      moreover have "(m - 2 ^ a) + 2 ^ a = m" "(n - 2 ^ a - 1) + 2 ^ a = n - 1" using m k by auto
      ultimately show ?thesis
        using "1.IH"(2) [OF False _ refl] a m False "1.prems"
        by (simp add: path_fold.simps [of hc m n] inclusion_loop_snd [where ?o1.0 = c] map_snd_onto
            Let_def del: option.map_comp)
    qed
  qed
qed

lemma strip_odd_step: "odd fn \<Longrightarrow> strip_odd fn sn = strip_odd (fn div 2) (sn div 2)"
  by (simp add: strip_odd.simps [of fn])

lemma strip_odd_left:
  assumes "fn < 2 ^ a" "2 ^ a \<le> sn" "sn < 2 * 2 ^ a"
  shows "\<exists>b f g. strip_odd fn sn = (f, g) \<and> strip_odd fn (2 ^ a - 1) = (f, 2 ^ b - 1)
     \<and> f < 2 ^ b \<and> 2 ^ b \<le> g \<and> g < 2 * 2 ^ b"
  using assms
proof (induction fn arbitrary: a sn rule: less_induct)
  case (less fn)
  show ?case
  proof (cases "odd fn")
    case False
    then show ?thesis using less.prems by (auto simp: strip_odd.simps [of fn])
  next
    case True
    then obtain a' where a: "a = Suc a'" using less.prems by (cases a) auto
    have half: "(2 * 2 ^ a' - 1) div 2 = (2 :: nat) ^ a' - 1" by simp
    have "fn div 2 < fn" using True by (auto elim: oddE)
    then show ?thesis
      using less.IH [of "fn div 2" a' "sn div 2"] less.prems True half
      by (auto simp: strip_odd.simps [of fn] a)
  qed
qed

lemma strip_odd_right:
  assumes "Suc fn < 2 ^ a" "fn \<le> sn" "sn < 2 ^ a"
  shows "\<exists>b f g. strip_odd fn sn = (f, g) \<and> strip_odd (fn + 2 ^ a) (sn + 2 ^ a) = (f + 2 ^ b, g + 2 ^ b)
     \<and> f \<le> g \<and> g < 2 ^ b"
  using assms
proof (induction fn arbitrary: a sn rule: less_induct)
  case (less fn)
  then obtain a' where a: "a = Suc a'" by (cases a) auto
  show ?case
  proof (cases "odd fn")
    case False
    then have "strip_odd fn sn = (fn, sn)" "strip_odd (fn + 2 ^ a) (sn + 2 ^ a) = (fn + 2 ^ a, sn + 2 ^ a)"
      by (simp_all add: strip_odd.simps a)
    then show ?thesis using less.prems by auto
  next
    case True
    then obtain q where q: "fn = 2 * q + 1" by (auto elim: oddE)
    have "strip_odd fn sn = strip_odd q (sn div 2)"
      "strip_odd (fn + 2 ^ a) (sn + 2 ^ a) = strip_odd (q + 2 ^ a') (sn div 2 + 2 ^ a')"
      using q by (simp_all add: strip_odd_step a add.commute)
    then show ?thesis
      using less.IH [of q a' "sn div 2"] less.prems q a by (auto simp: div_le_mono)
  qed
qed

lemma strip_odd_full: "strip_odd (2 ^ j - 1) (2 ^ j - 1) = (0, 0)"
proof (induction j)
  case (Suc j)
  have half: "(2 * 2 ^ j - 1) div 2 = (2 :: nat) ^ j - 1" by simp
  have "odd (2 * 2 ^ j - 1 :: nat)" by simp
  then show ?case using Suc half strip_odd_step [of "2 * 2 ^ j - 1" "2 * 2 ^ j - 1"] by (simp only: power_Suc not_False_eq_True)
qed (simp add: strip_odd.simps)

lemma consistency_loop_prefix:
  assumes "0 < m" "m \<le> n" "m = n \<longrightarrow> (\<exists>j. n = 2 ^ j)"
  shows "(case strip_odd (m - 1) (n - 1) of (fn, sn) \<Rightarrow> consistency_loop hc fn sn s s ps) = prefix_fold hc m n s ps"
  using assms
proof (induction hc m n s ps rule: prefix_fold.induct)
  case (1 hc m n s ps)
  show ?case
  proof (cases "m = n \<or> n \<le> 1")
    case True
    with "1.prems" have "m = n" by auto
    with "1.prems" obtain j where j: "n = 2 ^ j" by auto
    then show ?thesis using \<open>m = n\<close> strip_odd_full [of j] by (cases ps) (auto simp: prefix_fold.simps)
  next
    case False
    then have n: "2 \<le> n" by simp
    obtain a where a: "split_size n = 2 ^ a" using split_size_power by blast
    note k = split_size_bounds [OF n, unfolded a]
    show ?thesis
    proof (cases "m \<le> 2 ^ a")
      case True
      obtain b f g where s: "strip_odd (m - 1) (n - 1) = (f, g)" "strip_odd (m - 1) (2 ^ a - 1) = (f, 2 ^ b - 1)"
          "f < 2 ^ b" "2 ^ b \<le> g" "g < 2 * 2 ^ b"
      proof -
        have "m - 1 < 2 ^ a" "2 ^ a \<le> n - 1" "n - 1 < 2 * 2 ^ a" using True k "1.prems" by linarith+
        from strip_odd_left [OF this] show thesis using that by blast
      qed
      have "(\<lambda>qs. prefix_fold hc m (2 ^ a) s qs) = consistency_loop hc f (2 ^ b - 1) s s"
        using "1.IH"(1) [OF False refl] True a s "1.prems" by (auto simp: fun_eq_iff)
      then show ?thesis
        using False True a s consistency_loop_left [OF s(3,4,5)] by (simp add: prefix_fold.simps [of hc m n] Let_def)
    next
      case m: False
      have eq: "(m - 2 ^ a - 1) + 2 ^ a = m - 1" "(n - 2 ^ a - 1) + 2 ^ a = n - 1" using m k by auto
      obtain b f g where s: "strip_odd (m - 2 ^ a - 1) (n - 2 ^ a - 1) = (f, g)"
          "strip_odd (m - 1) (n - 1) = (f + 2 ^ b, g + 2 ^ b)" "f \<le> g" "g < 2 ^ b"
      proof -
        have "Suc (m - 2 ^ a - 1) < 2 ^ a" "m - 2 ^ a - 1 \<le> n - 2 ^ a - 1" "n - 2 ^ a - 1 < 2 ^ a"
          using m k "1.prems" False by linarith+
        from strip_odd_right [OF this, unfolded eq] show thesis using that by blast
      qed
      have "m - 2 ^ a \<noteq> n - 2 ^ a" using m k False by auto
      then have "(\<lambda>qs. prefix_fold hc (m - 2 ^ a) (n - 2 ^ a) s qs) = consistency_loop hc f g s s"
        using "1.IH"(2) [OF False refl] m a s k "1.prems" by (auto simp: fun_eq_iff)
      then show ?thesis
        using False m a s consistency_loop_right [OF s(4,3)] by (simp add: prefix_fold.simps [of hc m n] Let_def)
    qed
  qed
qed

lemma is_power_of_two_iff: "is_power_of_two n \<longleftrightarrow> (\<exists>j. n = 2 ^ j)"
proof (induction n rule: less_induct)
  case (less n)
  show ?case
  proof (cases "even n")
    case True
    then obtain q where q: "n = 2 * q" by blast
    show ?thesis
    proof (cases "q = 0")
      case True
      then show ?thesis using q by (simp add: is_power_of_two_def)
    next
      case False
      have "2 * q AND (2 * q - 1) = 2 * (q AND (q - 1))"
        using False by (cases q) (simp_all add: and_nat_rec [of "2 * _"] and_nat_rec [of "Suc (Suc _)"])
      then have "is_power_of_two n \<longleftrightarrow> is_power_of_two q" using q False by (simp add: is_power_of_two_def)
      moreover have "(\<exists>j. q = 2 ^ j) \<longleftrightarrow> (\<exists>j. n = 2 ^ j)"
      proof
        assume "\<exists>j. n = 2 ^ j"
        then obtain j where "n = 2 ^ j" by blast
        then show "\<exists>j. q = 2 ^ j" using q by (cases j) auto
      qed (metis power_Suc q)
      ultimately show ?thesis using less.IH [of q] q False by simp
    qed
  next
    case False
    then obtain q where q: "n = 2 * q + 1" by (auto elim: oddE)
    have "n AND (n - 1) = 2 * q" unfolding q by (simp add: and_nat_rec [of "Suc (2 * q)"])
    then have "is_power_of_two n \<longleftrightarrow> n = 1" using q by (simp add: is_power_of_two_def)
    moreover have "n = 2 ^ j \<Longrightarrow> n = 1" for j using False by (cases j) auto
    moreover have "n = 1 \<Longrightarrow> n = 2 ^ 0" by simp
    ultimately show ?thesis by metis
  qed
qed

section \<open>Generated proofs are accepted\<close>

lemma tree_hash_halves:
  assumes "2 \<le> length xs"
  shows "tree_hash H xs = hash_children H (tree_hash H (take (split_size (length xs)) xs))
      (tree_hash H (drop (split_size (length xs)) xs))"
  using assms by (subst tree_hash.simps) auto

lemma halves_length:
  assumes "2 \<le> length xs"
  shows "length (take (split_size (length xs)) xs) = split_size (length xs)"
    "length (drop (split_size (length xs)) xs) = length xs - split_size (length xs)"
  using split_size_bounds [OF assms] by auto

lemma path_fold_audit_path:
  "m < length xs \<Longrightarrow>
   path_fold (hash_children H) m (length xs) (xs ! m) (audit_path H xs m) = Some (tree_hash H xs)"
proof (induction H xs m rule: audit_path.induct)
  case (1 H xs m)
  show ?case
  proof (cases "length xs \<le> 1")
    case True
    then have "length xs = 1" using "1.prems" by linarith
    then obtain x where "xs = [x]" by (auto simp: length_Suc_conv)
    then show ?thesis using "1.prems" by (simp add: path_fold.simps audit_path.simps tree_hash.simps)
  next
    case False
    then have n: "2 \<le> length xs" by simp
    note k = split_size_bounds [OF n] and len = halves_length [OF n]
    show ?thesis
      using "1.IH" [OF False refl] False "1.prems" k len
      by (simp add: path_fold.simps [of _ m "length xs"] audit_path.simps [of H xs m] Let_def
          tree_hash_halves [OF n] del: length_take length_drop)
  qed
qed

lemma audit_path_length: "length xs \<le> 2 ^ b \<Longrightarrow> length (audit_path H xs m) \<le> b"
proof (induction H xs m arbitrary: b rule: audit_path.induct)
  case (1 H xs m)
  show ?case
  proof (cases "length xs \<le> 1")
    case True
    then show ?thesis by (simp add: audit_path.simps)
  next
    case False
    then have n: "2 \<le> length xs" by simp
    note k = split_size_bounds [OF n] and len = halves_length [OF n]
    obtain a where a: "split_size (length xs) = 2 ^ a" using split_size_power by blast
    with k "1.prems" have "(2 :: nat) ^ a < 2 ^ b" by linarith
    then have "a < b" by (rule nat_power_less_imp_less [rotated]) simp
    then obtain b' where b: "b = Suc b'" "a \<le> b'" by (cases b) auto
    then have "split_size (length xs) \<le> 2 ^ b'" unfolding a by (simp add: power_increasing)
    then show ?thesis
      using "1.IH" [OF False refl, of b'] False k b len
      by (simp add: audit_path.simps [of H xs m] Let_def del: length_take length_drop)
  qed
qed

text \<open>C14: the inclusion proof generated for any leaf of any log is accepted for it and has at most
  \<open>ceil(log2 n)\<close> hashes; asking for an index that is not in the log is the one error.\<close>

theorem inclusion_complete:
  "case inclusion_proof H leaves index of
     Inl e \<Rightarrow> e = Index_out_of_range \<and> (index < 0 \<or> int (length leaves) \<le> index)
   | Inr proof \<Rightarrow>
       verify_inclusion H (leaves ! nat index) index (int (length leaves)) proof (merkle_root H leaves)
       \<and> length proof \<le> bit_length (length leaves - 1)"
proof (cases "0 \<le> index \<and> index < int (length leaves)")
  case True
  define m where "m = nat index"
  have m: "m < length leaves" and index: "index = int m" using True by (auto simp: m_def)
  have proof_eq: "inclusion_proof H leaves (int m) = Inr (audit_path H leaves m)"
    using m by (simp add: inclusion_proof_def path_window_eq)
  have "length leaves \<le> 2 ^ bit_length (length leaves - 1)"
    using bit_length_bounds [of "length leaves - 1"] by (cases "length leaves - 1 = 0") (auto simp: bit_length.simps [of 0])
  then have "length (audit_path H leaves m) \<le> bit_length (length leaves - 1)" by (rule audit_path_length)
  moreover have "nat (int (length leaves) - 1) = length leaves - 1" by simp
  ultimately show ?thesis
    using m inclusion_loop_path [OF m, of "hash_children H"] path_fold_audit_path [OF m, of H]
    unfolding index proof_eq by (simp add: verify_inclusion_def merkle_root_eq)
next
  case False
  then show ?thesis by (auto simp: inclusion_proof_def)
qed

lemma prefix_proof_step:
  assumes "2 \<le> length xs" "m < length xs"
  shows "m \<le> split_size (length xs) \<Longrightarrow> prefix_proof H xs m c =
      prefix_proof H (take (split_size (length xs)) xs) m c @ [tree_hash H (drop (split_size (length xs)) xs)]"
    "split_size (length xs) < m \<Longrightarrow> prefix_proof H xs m c =
      prefix_proof H (drop (split_size (length xs)) xs) (m - split_size (length xs)) False
      @ [tree_hash H (take (split_size (length xs)) xs)]"
  using assms by (auto simp: prefix_proof.simps [of H xs m c] Let_def)

lemma prefix_fold_step:
  assumes "2 \<le> n" "m < n"
  shows "m \<le> split_size n \<Longrightarrow> prefix_fold hc m n s ps = onto_right hc ps (prefix_fold hc m (split_size n) s)"
    "split_size n < m \<Longrightarrow> prefix_fold hc m n s ps =
      onto_left hc ps (prefix_fold hc (m - split_size n) (n - split_size n) s)"
  using assms by (auto simp: prefix_fold.simps [of hc m n s ps] Let_def)

text \<open>The old tree splits where the new one does, when it reaches into its right half.\<close>

lemma tree_hash_prefix:
  assumes "m \<le> length xs" "split_size (length xs) < m" "2 \<le> length xs"
  shows "split_size m = split_size (length xs)"
    "tree_hash H (take m xs) = hash_children H (tree_hash H (take (split_size (length xs)) xs))
      (tree_hash H (take (m - split_size (length xs)) (drop (split_size (length xs)) xs)))"
proof -
  note k = split_size_bounds [OF assms(3)]
  obtain a where a: "split_size (length xs) = 2 ^ a" using split_size_power by blast
  have m: "2 \<le> m" using assms k by linarith
  show split: "split_size m = split_size (length xs)"
    unfolding a using assms k m by (intro split_size_unique) (simp_all add: a)
  have "tree_hash H (take m xs) = hash_children H (tree_hash H (take (split_size m) (take m xs)))
      (tree_hash H (drop (split_size m) (take m xs)))"
    using tree_hash_halves [of "take m xs" H] assms(1) m by simp
  then show "tree_hash H (take m xs) = hash_children H (tree_hash H (take (split_size (length xs)) xs))
      (tree_hash H (take (m - split_size (length xs)) (drop (split_size (length xs)) xs)))"
    using assms unfolding split by (simp add: drop_take min_def)
qed

lemma prefix_fold_complete:
  assumes "0 < m" "m \<le> length xs"
  shows "\<exists>s rest. prefix_proof H xs m False = s # rest \<and>
    prefix_fold (hash_children H) m (length xs) s rest = Some (tree_hash H (take m xs), tree_hash H xs)"
  using assms
proof (induction xs arbitrary: m rule: length_induct)
  case (1 xs)
  show ?case
  proof (cases "m = length xs")
    case True
    then show ?thesis by (auto simp: prefix_proof.simps [of H xs "length xs"] prefix_fold.simps)
  next
    case False
    with "1.prems" have n: "2 \<le> length xs" and m: "m < length xs" by auto
    let ?k = "split_size (length xs)"
    note k = split_size_bounds [OF n] and len = halves_length [OF n]
    show ?thesis
    proof (cases "m \<le> ?k")
      case True
      obtain s rest where "prefix_proof H (take ?k xs) m False = s # rest"
          "prefix_fold (hash_children H) m ?k s rest = Some (tree_hash H (take m xs), tree_hash H (take ?k xs))"
        using "1.IH" [rule_format, of "take ?k xs" m] "1.prems" True k by auto
      then show ?thesis
        by (simp add: prefix_proof_step(1) [OF n m True] prefix_fold_step(1) [OF n m True] onto_right_def
            tree_hash_halves [OF n])
    next
      case right: False
      then have r: "?k < m" by simp
      have "length (drop ?k xs) < length xs" "0 < m - ?k" "m - ?k \<le> length (drop ?k xs)"
        using k m r by auto
      from "1.IH" [rule_format, OF this] obtain s rest
        where "prefix_proof H (drop ?k xs) (m - ?k) False = s # rest"
          "prefix_fold (hash_children H) (m - ?k) (length xs - ?k) s rest =
            Some (tree_hash H (take (m - ?k) (drop ?k xs)), tree_hash H (drop ?k xs))"
        by (auto simp: len)
      then show ?thesis
        using m tree_hash_prefix(2) [OF _ r n, of H]
        by (simp add: prefix_proof_step(2) [OF n m r] prefix_fold_step(2) [OF n m r] onto_left_def
            tree_hash_halves [OF n])
    qed
  qed
qed

lemma pow_le_split:
  assumes "2 \<le> n" "2 ^ j < n"
  shows "2 ^ j \<le> split_size n"
proof -
  obtain a where a: "split_size n = 2 ^ a" using split_size_power by blast
  with split_size_bounds [OF assms(1)] assms(2) have "(2 :: nat) ^ j < 2 ^ Suc a" by simp
  then have "j < Suc a" by (rule nat_power_less_imp_less [rotated]) simp
  then show ?thesis by (simp add: a power_increasing)
qed

lemma prefix_fold_complete_power:
  assumes "2 ^ j \<le> length xs"
  shows "prefix_fold (hash_children H) (2 ^ j) (length xs) (tree_hash H (take (2 ^ j) xs)) (prefix_proof H xs (2 ^ j) True)
    = Some (tree_hash H (take (2 ^ j) xs), tree_hash H xs)"
  using assms
proof (induction xs rule: length_induct)
  case (1 xs)
  show ?case
  proof (cases "2 ^ j = length xs")
    case True
    then show ?thesis by (auto simp: prefix_proof.simps [of H xs] prefix_fold.simps)
  next
    case False
    then have m: "2 ^ j < length xs" using "1.prems" by simp
    have "(0 :: nat) < 2 ^ j" by simp
    with m have n: "2 \<le> length xs" by linarith
    let ?k = "split_size (length xs)"
    note k = split_size_bounds [OF n] and len = halves_length [OF n] and le = pow_le_split [OF n m]
    show ?thesis
      using "1.IH" [rule_format, of "take ?k xs"] k le len
      by (simp add: prefix_proof_step(1) [OF n m le] prefix_fold_step(1) [OF n m le] onto_right_def
          tree_hash_halves [OF n])
  qed
qed

lemma prefix_proof_incomplete:
  assumes "0 < m" "m < length xs" "\<And>j. m \<noteq> 2 ^ j"
  shows "prefix_proof H xs m True = prefix_proof H xs m False"
  using assms
proof (induction xs rule: length_induct)
  case (1 xs)
  then have n: "2 \<le> length xs" by simp
  let ?k = "split_size (length xs)"
  note k = split_size_bounds [OF n]
  show ?case
  proof (cases "m \<le> ?k")
    case True
    moreover have "m \<noteq> ?k" using "1.prems"(3) split_size_power by metis
    ultimately show ?thesis
      using "1.IH" [rule_format, of "take ?k xs"] "1.prems" k
      by (simp add: prefix_proof_step(1) [OF n "1.prems"(2) True])
  next
    case False
    then show ?thesis by (simp add: prefix_proof_step(2) [OF n "1.prems"(2)])
  qed
qed

text \<open>C16: the consistency proof generated between any two sizes of a log is accepted with the roots of
  the two prefixes; asking for a size the log never had is the one error.\<close>

theorem consistency_complete:
  "case consistency_proof H leaves old_size of
     Inl e \<Rightarrow> e = Size_out_of_range \<and> (old_size < 0 \<or> int (length leaves) < old_size)
   | Inr proof \<Rightarrow>
       verify_consistency H old_size (merkle_root H (take (nat old_size) leaves))
         (int (length leaves)) (merkle_root H leaves) proof"
proof (cases "0 < old_size \<and> old_size < int (length leaves)")
  case False
  then show ?thesis
    by (cases "old_size = int (length leaves)")
      (auto simp: consistency_proof_def verify_consistency_def Let_def split: sum.splits)
next
  case True
  define m where "m = nat old_size"
  have m: "0 < m" "m < length leaves" and old: "old_size = int m" using True by (auto simp: m_def)
  let ?pf = "prefix_proof H leaves m True"
  have proof_eq: "consistency_proof H leaves (int m) = Inr ?pf"
    using m by (simp add: consistency_proof_def subproof_eq Let_def)
  have "consistency_walk (hash_children H) m (tree_hash H (take m leaves)) (length leaves) ?pf =
      Some (tree_hash H (take m leaves), tree_hash H leaves)"
  proof (cases "is_power_of_two m")
    case True
    then obtain j where j: "m = 2 ^ j" using is_power_of_two_iff by blast
    have fold: "prefix_fold (hash_children H) m (length leaves) (tree_hash H (take m leaves)) ?pf =
        Some (tree_hash H (take m leaves), tree_hash H leaves)"
      using prefix_fold_complete_power [of j leaves] m j by simp
    moreover have "?pf \<noteq> []"
      using fold m by (auto simp: prefix_fold.simps [of _ m] Let_def onto_right_def onto_left_def split: if_splits)
    ultimately show ?thesis
      using True m consistency_loop_prefix [of m "length leaves" "hash_children H"]
      by (simp add: consistency_walk_def seed_rest_def)
  next
    case False
    then have "?pf = prefix_proof H leaves m False"
      using m is_power_of_two_iff by (intro prefix_proof_incomplete) auto
    then obtain s rest where rest: "?pf = s # rest"
        "prefix_fold (hash_children H) m (length leaves) s rest = Some (tree_hash H (take m leaves), tree_hash H leaves)"
      using prefix_fold_complete [of m leaves H] m by auto
    moreover have "rest \<noteq> []"
      using rest m by (auto simp: prefix_fold.simps [of _ m] Let_def onto_right_def onto_left_def split: if_splits)
    ultimately show ?thesis
      using False m consistency_loop_prefix [of m "length leaves" "hash_children H"]
      by (simp add: consistency_walk_def seed_rest_def)
  qed
  then show ?thesis unfolding old proof_eq using m by (simp add: verify_consistency_def merkle_root_eq)
qed

section \<open>Accepted proofs are true\<close>

text \<open>What a verification hashes: its loop on nodes that carry the strings hashed to reach them.\<close>

definition tracked :: "(bytes \<Rightarrow> bytes) \<Rightarrow> bytes \<times> bytes set \<Rightarrow> bytes \<times> bytes set \<Rightarrow> bytes \<times> bytes set" where
  "tracked H a b =
     (hash_children H (fst a) (fst b), insert (node_input (fst a) (fst b)) (snd a \<union> snd b))"

definition plain :: "bytes \<Rightarrow> bytes \<times> bytes set" where
  "plain p = (p, {})"

definition inclusion_inputs :: "(bytes \<Rightarrow> bytes) \<Rightarrow> bytes \<Rightarrow> int \<Rightarrow> int \<Rightarrow> bytes list \<Rightarrow> bytes set" where
  "inclusion_inputs H leaf index tree_size proof =
     (case inclusion_loop (tracked H) (nat index) (nat (tree_size - 1)) (plain leaf) (map plain proof) of
        None \<Rightarrow> {} | Some c \<Rightarrow> snd c)"

definition consistency_inputs :: "(bytes \<Rightarrow> bytes) \<Rightarrow> int \<Rightarrow> bytes \<Rightarrow> int \<Rightarrow> bytes list \<Rightarrow> bytes set" where
  "consistency_inputs H old_size old_root new_size proof =
     (case consistency_walk (tracked H) (nat old_size) (plain old_root) (nat new_size) (map plain proof) of
        None \<Rightarrow> {} | Some (o', w) \<Rightarrow> snd o' \<union> snd w)"

function tree_inputs :: "(bytes \<Rightarrow> bytes) \<Rightarrow> bytes list \<Rightarrow> bytes set" where
  "tree_inputs H xs =
     (if length xs \<le> 1 then {}
      else let k = split_size (length xs)
           in insert (node_input (tree_hash H (take k xs)) (tree_hash H (drop k xs)))
                (tree_inputs H (take k xs) \<union> tree_inputs H (drop k xs)))"
  by auto
termination
  by (relation "measure (\<lambda>(H, xs). length xs)") (auto simp: split_list_less not_le Suc_lessI)

declare tree_inputs.simps [simp del]

lemma tree_inputs_halves:
  assumes "2 \<le> length xs"
  shows "tree_inputs H xs =
    insert (node_input (tree_hash H (take (split_size (length xs)) xs)) (tree_hash H (drop (split_size (length xs)) xs)))
      (tree_inputs H (take (split_size (length xs)) xs) \<union> tree_inputs H (drop (split_size (length xs)) xs))"
  using assms by (subst tree_inputs.simps) (simp add: Let_def)

lemma fst_tracked [simp]: "fst (tracked H a b) = hash_children H (fst a) (fst b)"
  by (simp add: tracked_def)

lemma fst_plain [simp]: "fst (plain p) = p" "snd (plain p) = {}"
  by (simp_all add: plain_def)

lemma tracked_plain:
  "tracked H (w, W) (plain p) = (hash_children H w p, insert (node_input w p) W)"
  "tracked H (plain p) (w, W) = (hash_children H p w, insert (node_input p w) W)"
  by (simp_all add: tracked_def)

lemma inclusion_loop_tracked:
  "map_option fst (inclusion_loop (tracked H) fn sn c ps) =
   inclusion_loop (hash_children H) fn sn (fst c) (map fst ps)"
  by (induction ps arbitrary: fn sn c) (auto split: prod.splits)

lemma consistency_loop_tracked:
  "map_option (map_prod fst fst) (consistency_loop (tracked H) fn sn o1 c ps) =
   consistency_loop (hash_children H) fn sn (fst o1) (fst c) (map fst ps)"
  by (induction ps arbitrary: fn sn o1 c) (auto split: prod.splits)

lemma fst_comp_plain [simp]: "fst \<circ> plain = id"
  by auto

text \<open>Every element is as long as a SHA-256 digest.\<close>

definition all_digests :: "bytes list \<Rightarrow> bool" where
  "all_digests xs \<longleftrightarrow> list_all (\<lambda>x. length x = 32) xs"

lemma seed_rest_plain:
  "seed_rest m (plain r) (map plain ps) = map_option (map_prod plain (map plain)) (seed_rest m r ps)"
  by (auto simp: seed_rest_def split: list.splits)

lemma seed_rest_digests: "seed_rest m r ps = Some (s, rest) \<Longrightarrow> all_digests ps \<Longrightarrow> all_digests rest"
  by (auto simp: seed_rest_def all_digests_def split: list.splits if_splits)

lemma consistency_walk_tracked:
  "map_option (map_prod fst fst) (consistency_walk (tracked H) m (plain r) n (map plain ps)) =
   consistency_walk (hash_children H) m r n ps"
  by (auto simp: consistency_walk_def seed_rest_plain consistency_loop_tracked split: option.splits prod.splits)

lemma all_digests_sub [simp]:
  "all_digests xs \<Longrightarrow> all_digests (take k xs)"
  "all_digests xs \<Longrightarrow> all_digests (drop k xs)"
  "all_digests xs \<Longrightarrow> all_digests (butlast xs)"
  by (auto simp: all_digests_def list_all_iff dest: in_set_takeD in_set_dropD in_set_butlastD)

lemma all_digests_last: "all_digests xs \<Longrightarrow> xs \<noteq> [] \<Longrightarrow> length (last xs) = 32"
  by (simp add: all_digests_def list_all_iff)

lemma drop_shorter: "2 \<le> length xs \<Longrightarrow> 0 < k \<Longrightarrow> length (drop k xs) < length xs"
  by simp

context hash_function
begin

lemma length_hash_children [simp]: "length (hash_children H l r) = 32"
  by (simp add: hash_children_def)

lemma length_tree_hash: "all_digests xs \<Longrightarrow> length (tree_hash H xs) = 32"
  by (subst tree_hash.simps) (auto simp: EMPTY_ROOT_def all_digests_def list_all_iff)

lemma length_half_hash:
  assumes "all_digests xs"
  shows "length (tree_hash H (take k xs)) = 32" "length (tree_hash H (drop k xs)) = 32"
  using assms by (simp_all add: length_tree_hash)

text \<open>Nodes that hash alike and whose right (or left) children have a digest's length are the same.\<close>

lemma hash_children_right:
  assumes "hash_children H l r = hash_children H l' r'" "collision_free H X"
    and "node_input l r \<in> X" "node_input l' r' \<in> X" "length r = length r'"
  shows "l = l' \<and> r = r'"
proof -
  have "node_input l r = node_input l' r'"
    using assms(1) by (intro collision_freeD [OF assms(2) _ assms(3,4)]) (simp add: hash_children_def)
  then show ?thesis using assms(5) by (simp add: node_input_def)
qed

lemma hash_children_left:
  assumes "hash_children H l r = hash_children H l' r'" "collision_free H X"
    and "node_input l r \<in> X" "node_input l' r' \<in> X" "length l = length l'"
  shows "l = l' \<and> r = r'"
proof -
  have "node_input l r = node_input l' r'"
    using assms(1) by (intro collision_freeD [OF assms(2) _ assms(3,4)]) (simp add: hash_children_def)
  then show ?thesis using assms(5) by (simp add: node_input_def)
qed

lemma tree_hash_inj:
  assumes "tree_hash H xs = tree_hash H ys" "length xs = length ys"
    and "all_digests xs" "all_digests ys"
    and "collision_free H (tree_inputs H xs \<union> tree_inputs H ys)"
  shows "xs = ys"
  using assms
proof (induction xs arbitrary: ys rule: length_induct)
  case (1 xs)
  show ?case
  proof (cases "2 \<le> length xs")
    case False
    then consider "xs = []" | x where "xs = [x]" by (cases xs) (auto simp: not_le less_Suc_eq_le)
    then show ?thesis
    proof cases
      case 2
      with "1.prems"(2) obtain y where "ys = [y]" by (cases ys) auto
      then show ?thesis using "1.prems"(1) 2 by (simp add: tree_hash.simps)
    qed (use "1.prems" in auto)
  next
    case True
    let ?k = "split_size (length xs)"
    have ys: "2 \<le> length ys" using True "1.prems" by simp
    note k = split_size_bounds [OF True]
    note cf = "1.prems"(5)
    have "tree_hash H (take ?k xs) = tree_hash H (take ?k ys) \<and> tree_hash H (drop ?k xs) = tree_hash H (drop ?k ys)"
      using "1.prems" length_half_hash tree_inputs_halves [OF True, of H] tree_inputs_halves [OF ys, of H]
        tree_hash_halves [OF True, of H] tree_hash_halves [OF ys, of H]
      by (intro hash_children_right [OF _ cf]) simp_all
    moreover have "collision_free H (tree_inputs H (take ?k xs) \<union> tree_inputs H (take ?k ys))"
      "collision_free H (tree_inputs H (drop ?k xs) \<union> tree_inputs H (drop ?k ys))"
      using tree_inputs_halves [OF True, of H] tree_inputs_halves [OF ys, of H] "1.prems"(2)
      by (auto intro!: collision_free_subset [OF cf])
    ultimately have "take ?k xs = take ?k ys" "drop ?k xs = drop ?k ys"
      using "1.IH" [rule_format, of "take ?k xs" "take ?k ys"]
        "1.IH" [rule_format, of "drop ?k xs" "drop ?k ys", OF drop_shorter [OF True k(1)]] "1.prems" k by simp_all
    then show ?thesis by (metis append_take_drop_id)
  qed
qed

lemma path_fold_sound:
  assumes "path_fold (tracked H) m (length xs) (plain c) (map plain ps) = Some (tree_hash H xs, X)"
    and "m < length xs" "all_digests xs" "all_digests ps"
    and "collision_free H (X \<union> tree_inputs H xs)"
  shows "c = xs ! m \<and> ps = audit_path H xs m"
  using assms
proof (induction xs arbitrary: m ps X rule: length_induct)
  case (1 xs)
  show ?case
  proof (cases "2 \<le> length xs")
    case False
    with "1.prems"(2) obtain x where "xs = [x]" by (cases xs; cases "tl xs") auto
    then show ?thesis
      using "1.prems" by (auto simp: path_fold.simps tree_hash.simps audit_path.simps plain_def split: if_splits)
  next
    case n: True
    let ?k = "split_size (length xs)"
    note k = split_size_bounds [OF n] and cf = "1.prems"(5)
    have ps: "ps \<noteq> []"
      using "1.prems"(1) by (cases ps) (auto simp: path_fold_step [OF n])
    have last: "last (map plain ps) = plain (last ps)" "butlast (map plain ps) = map plain (butlast ps)"
      using ps by (simp_all add: last_map map_butlast)
    have lens: "all_digests (butlast ps)" "length (last ps) = 32"
      using "1.prems"(4) ps by (simp_all add: all_digests_last)
    show ?thesis
    proof (cases "m < ?k")
      case True
      obtain w W where w: "path_fold (tracked H) m ?k (plain c) (map plain (butlast ps)) = Some (w, W)"
          and eq: "hash_children H w (last ps) = tree_hash H xs" "X = insert (node_input w (last ps)) W"
        using "1.prems"(1) n True ps
        by (auto simp: path_fold_step [OF n] tracked_plain last)
      have "w = tree_hash H (take ?k xs) \<and> last ps = tree_hash H (drop ?k xs)"
        using eq tree_hash_halves [OF n, of H] tree_inputs_halves [OF n, of H] lens length_half_hash "1.prems"(3)
        by (intro hash_children_right [OF _ cf]) simp_all
      moreover have "collision_free H (W \<union> tree_inputs H (take ?k xs))"
        using tree_inputs_halves [OF n, of H] eq by (auto intro!: collision_free_subset [OF cf])
      ultimately have "c = take ?k xs ! m \<and> butlast ps = audit_path H (take ?k xs) m"
        using "1.IH" [rule_format, of "take ?k xs" m "butlast ps" W] k w True lens "1.prems"(3) by simp
      then show ?thesis
        using True n \<open>w = _ \<and> _\<close> append_butlast_last_id [OF ps] by (simp add: audit_path.simps [of H xs] Let_def)
    next
      case False
      obtain w W where w: "path_fold (tracked H) (m - ?k) (length xs - ?k) (plain c) (map plain (butlast ps)) = Some (w, W)"
          and eq: "hash_children H (last ps) w = tree_hash H xs" "X = insert (node_input (last ps) w) W"
        using "1.prems"(1) n False ps
        by (auto simp: path_fold_step [OF n] tracked_plain last)
      have "last ps = tree_hash H (take ?k xs) \<and> w = tree_hash H (drop ?k xs)"
        using eq tree_hash_halves [OF n, of H] tree_inputs_halves [OF n, of H] lens length_half_hash "1.prems"(3)
        by (intro hash_children_left [OF _ cf]) simp_all
      moreover have "collision_free H (W \<union> tree_inputs H (drop ?k xs))"
        using tree_inputs_halves [OF n, of H] eq by (auto intro!: collision_free_subset [OF cf])
      ultimately have "c = drop ?k xs ! (m - ?k) \<and> butlast ps = audit_path H (drop ?k xs) (m - ?k)"
        using "1.IH" [rule_format, of "drop ?k xs" "m - ?k" "butlast ps" W, OF drop_shorter [OF n k(1)]]
          k w False lens "1.prems"(2,3) by simp
      then show ?thesis
        using False n k "1.prems"(2) \<open>_ \<and> w = _\<close> append_butlast_last_id [OF ps]
        by (simp add: audit_path.simps [of H xs] Let_def)
    qed
  qed
qed

lemma onto_right_tracked:
  assumes "ps \<noteq> []" "f (map plain (butlast ps)) = F"
  shows "onto_right (tracked H) (map plain ps) f = Some ((v, V), (w, W)) \<longleftrightarrow>
    (\<exists>u U. F = Some ((v, V), (u, U)) \<and> w = hash_children H u (last ps) \<and> W = insert (node_input u (last ps)) U)"
  using assms by (auto simp: onto_right_def last_map map_butlast tracked_plain)

lemma onto_left_tracked:
  assumes "ps \<noteq> []" "f (map plain (butlast ps)) = F"
  shows "onto_left (tracked H) (map plain ps) f = Some ((v, V), (w, W)) \<longleftrightarrow>
    (\<exists>t T u U. F = Some ((t, T), (u, U))
      \<and> v = hash_children H (last ps) t \<and> V = insert (node_input (last ps) t) T
      \<and> w = hash_children H (last ps) u \<and> W = insert (node_input (last ps) u) U)"
  using assms by (auto simp: onto_left_def last_map map_butlast tracked_plain)

lemma prefix_fold_sound:
  assumes "prefix_fold (tracked H) m (length xs) (plain s) (map plain ps) = Some ((tree_hash H ys, X), (tree_hash H xs, Y))"
    and "length ys = m" "0 < m" "m \<le> length xs" "all_digests xs" "all_digests ys" "all_digests ps"
    and "collision_free H (X \<union> Y \<union> tree_inputs H xs \<union> tree_inputs H ys)"
  shows "ys = take m xs"
  using assms
proof (induction xs arbitrary: m ps X Y ys rule: length_induct)
  case (1 xs)
  note cf = "1.prems"(8)
  show ?case
  proof (cases "m = length xs")
    case True
    then have "tree_hash H ys = tree_hash H xs"
      using "1.prems"(1) by (auto simp: prefix_fold.simps plain_def split: if_splits)
    moreover have "collision_free H (tree_inputs H ys \<union> tree_inputs H xs)"
      by (auto intro!: collision_free_subset [OF cf])
    ultimately have "ys = xs" using "1.prems" True by (intro tree_hash_inj) auto
    then show ?thesis using True by simp
  next
    case False
    with "1.prems" have n: "2 \<le> length xs" and m: "m < length xs" by auto
    let ?k = "split_size (length xs)"
    note k = split_size_bounds [OF n] and xs_in = tree_inputs_halves [OF n, of H]
    show ?thesis
    proof (cases "m \<le> ?k")
      case True
      have ps: "ps \<noteq> []"
        using "1.prems"(1) by (auto simp: prefix_fold_step(1) [OF n m True] onto_right_def)
      have lens: "all_digests (butlast ps)" "length (last ps) = 32"
        using "1.prems"(7) ps by (simp_all add: all_digests_last)
      obtain u U where u: "prefix_fold (tracked H) m ?k (plain s) (map plain (butlast ps)) = Some ((tree_hash H ys, X), (u, U))"
          and eq: "tree_hash H xs = hash_children H u (last ps)" "Y = insert (node_input u (last ps)) U"
        using "1.prems"(1) unfolding prefix_fold_step(1) [OF n m True] onto_right_tracked [OF ps refl] by blast
      have "u = tree_hash H (take ?k xs) \<and> last ps = tree_hash H (drop ?k xs)"
        using eq tree_hash_halves [OF n, of H] xs_in lens length_half_hash "1.prems"(5)
        by (intro hash_children_right [OF _ cf]) simp_all
      moreover have "collision_free H (X \<union> U \<union> tree_inputs H (take ?k xs) \<union> tree_inputs H ys)"
        using xs_in eq by (auto intro!: collision_free_subset [OF cf])
      ultimately have "ys = take m (take ?k xs)"
        using "1.IH" [rule_format, of "take ?k xs" m "butlast ps" ys X U] k u True lens "1.prems" by simp
      then show ?thesis using True by simp
    next
      case False
      then have r: "?k < m" by simp
      have ps: "ps \<noteq> []"
        using "1.prems"(1) by (auto simp: prefix_fold_step(2) [OF n m r] onto_left_def)
      have lens: "all_digests (butlast ps)" "length (last ps) = 32"
        using "1.prems"(7) ps by (simp_all add: all_digests_last)
      obtain t T u U where u: "prefix_fold (tracked H) (m - ?k) (length xs - ?k) (plain s) (map plain (butlast ps)) =
            Some ((t, T), (u, U))"
          and eq: "tree_hash H ys = hash_children H (last ps) t" "X = insert (node_input (last ps) t) T"
            "tree_hash H xs = hash_children H (last ps) u" "Y = insert (node_input (last ps) u) U"
        using "1.prems"(1) unfolding prefix_fold_step(2) [OF n m r] onto_left_tracked [OF ps refl] by blast
      have ys: "2 \<le> length ys" using "1.prems"(2) r k by linarith
      have split: "split_size (length ys) = ?k"
        using tree_hash_prefix(1) [of m xs] m r n "1.prems"(2) by simp
      note ys_in = tree_inputs_halves [OF ys, of H, unfolded split]
      note ys_halves = tree_hash_halves [OF ys, of H, unfolded split]
      have right: "last ps = tree_hash H (take ?k xs) \<and> u = tree_hash H (drop ?k xs)"
        using eq tree_hash_halves [OF n, of H] xs_in lens length_half_hash "1.prems"(5)
        by (intro hash_children_left [OF _ cf]) simp_all
      have left: "last ps = tree_hash H (take ?k ys) \<and> t = tree_hash H (drop ?k ys)"
        using eq ys_halves ys_in lens length_half_hash "1.prems"(6)
        by (intro hash_children_left [OF _ cf]) simp_all
      have "take ?k ys = take ?k xs"
      proof (rule tree_hash_inj)
        show "tree_hash H (take ?k ys) = tree_hash H (take ?k xs)" using left right by simp
        show "collision_free H (tree_inputs H (take ?k ys) \<union> tree_inputs H (take ?k xs))"
          using xs_in ys_in by (auto intro!: collision_free_subset [OF cf])
      qed (use "1.prems" r k in simp_all)
      moreover have "drop ?k ys = take (m - ?k) (drop ?k xs)"
      proof -
        have "collision_free H (T \<union> U \<union> tree_inputs H (drop ?k xs) \<union> tree_inputs H (drop ?k ys))"
          using xs_in ys_in eq by (auto intro!: collision_free_subset [OF cf])
        then show ?thesis
          using "1.IH" [rule_format, of "drop ?k xs" "m - ?k" "butlast ps" "drop ?k ys" T U, OF drop_shorter [OF n k(1)]]
            left right u r m lens "1.prems" by simp
      qed
      ultimately have "ys = take ?k xs @ take (m - ?k) (drop ?k xs)" by (metis append_take_drop_id)
      then show ?thesis using r m by (metis le_add_diff_inverse less_imp_le take_add)
    qed
  qed
qed

end

lemma same_root_same_leaves:
  assumes "length old = length new" "merkle_root sha256 old = merkle_root sha256 new"
    and "all_digests old" "all_digests new" "collision_free sha256 (tree_inputs sha256 old \<union> tree_inputs sha256 new)"
  shows "old = new"
  using assms by (intro sha.tree_hash_inj) (simp_all add: merkle_root_eq)

lemma accepted_is_prefix:
  assumes "verify_consistency sha256 (int (length old)) (merkle_root sha256 old)
      (int (length new)) (merkle_root sha256 new) proof"
    and "all_digests old" "all_digests new" "all_digests proof"
    and "collision_free sha256
      (consistency_inputs sha256 (int (length old)) (merkle_root sha256 old) (int (length new)) proof
       \<union> tree_inputs sha256 new \<union> tree_inputs sha256 old)"
  shows "old = take (length old) new"
proof -
  note cf = assms(5)
  have le: "length old \<le> length new"
    using assms(1) by (auto simp: verify_consistency_def split: if_splits)
  consider "length old = length new" | "length old = 0" | "0 < length old" "length old < length new"
    using le by linarith
  then show ?thesis
  proof cases
    case 1
    then have "tree_hash sha256 old = tree_hash sha256 new"
      using assms(1) by (simp add: verify_consistency_def merkle_root_eq)
    moreover have "collision_free sha256 (tree_inputs sha256 old \<union> tree_inputs sha256 new)"
      by (auto intro!: collision_free_subset [OF cf])
    ultimately have "old = new" using 1 assms by (intro sha.tree_hash_inj)
    then show ?thesis by simp
  next
    case 3
    let ?m = "length old" and ?n = "length new"
    have walk: "consistency_walk (hash_children sha256) ?m (tree_hash sha256 old) ?n proof =
        Some (tree_hash sha256 old, tree_hash sha256 new)"
      using assms(1) 3 by (auto simp: verify_consistency_def merkle_root_eq split: if_splits)
    obtain X Y where XY: "consistency_walk (tracked sha256) ?m (plain (tree_hash sha256 old)) ?n (map plain proof) =
        Some ((tree_hash sha256 old, X), (tree_hash sha256 new, Y))"
      using consistency_walk_tracked [of sha256 ?m "tree_hash sha256 old" ?n "proof"] walk by auto
    have inputs: "consistency_inputs sha256 (int ?m) (merkle_root sha256 old) (int ?n) proof = X \<union> Y"
      using XY by (simp add: consistency_inputs_def merkle_root_eq)
    obtain s rest where rest: "seed_rest ?m (tree_hash sha256 old) proof = Some (s, rest)"
      using XY by (auto simp: consistency_walk_def seed_rest_plain split: option.splits)
    then have seed: "seed_rest ?m (plain (tree_hash sha256 old)) (map plain proof) = Some (plain s, map plain rest)"
        "all_digests rest"
      using assms(4) seed_rest_digests by (simp_all add: seed_rest_plain)
    have "prefix_fold (tracked sha256) ?m ?n (plain s) (map plain rest) =
        Some ((tree_hash sha256 old, X), (tree_hash sha256 new, Y))"
      using XY seed consistency_loop_prefix [of ?m ?n "tracked sha256"] 3
      by (simp add: consistency_walk_def split: prod.splits)
    then show ?thesis
      using cf assms seed 3 unfolding inputs by (intro sha.prefix_fold_sound [of ?m new s rest old X Y]) auto
  qed simp
qed

text \<open>C15: a leaf and proof accepted against a log's root are that log's leaf at that index and the proof
  the log itself would generate, unless SHA-256 collides on the strings hashed.\<close>

theorem inclusion_sound:
  assumes "verify_inclusion sha256 leaf index (int (length leaves)) proof (merkle_root sha256 leaves)"
    and "all_digests leaves" "all_digests proof"
    and "collision_free sha256 (inclusion_inputs sha256 leaf index (int (length leaves)) proof \<union> tree_inputs sha256 leaves)"
  shows "0 \<le> index \<and> index < int (length leaves) \<and> leaf = leaves ! nat index
    \<and> inclusion_proof sha256 leaves index = Inr proof"
proof -
  define m where "m = nat index"
  have range: "0 \<le> index" "index < int (length leaves)"
    using assms(1) by (auto simp: verify_inclusion_def split: if_splits)
  then have m: "m < length leaves" and index: "index = int m" by (auto simp: m_def)
  have n: "nat (int (length leaves) - 1) = length leaves - 1" by simp
  have "inclusion_loop (hash_children sha256) m (length leaves - 1) leaf proof = Some (tree_hash sha256 leaves)"
    using assms(1) m by (simp add: verify_inclusion_def index n merkle_root_eq)
  then have "map_option fst (inclusion_loop (tracked sha256) m (length leaves - 1) (plain leaf) (map plain proof)) =
      Some (tree_hash sha256 leaves)"
    unfolding inclusion_loop_tracked by simp
  then obtain X where X: "inclusion_loop (tracked sha256) m (length leaves - 1) (plain leaf) (map plain proof) =
      Some (tree_hash sha256 leaves, X)"
    by auto
  have "inclusion_inputs sha256 leaf index (int (length leaves)) proof = X"
    using X by (simp add: inclusion_inputs_def index n)
  then have "leaf = leaves ! m \<and> proof = audit_path sha256 leaves m"
    using sha.path_fold_sound [OF X [unfolded inclusion_loop_path [OF m]] m assms(2,3)] assms(4) by simp
  then show ?thesis using m by (simp add: index inclusion_proof_def path_window_eq)
qed

text \<open>C17: an accepted consistency proof between two logs means that the old log's leaves are the new
  log's first leaves: nothing was rewritten, reordered or dropped, unless SHA-256 collides on the strings
  hashed.\<close>

theorem consistency_sound:
  assumes "verify_consistency sha256 (int (length old)) (merkle_root sha256 old)
      (int (length new)) (merkle_root sha256 new) proof"
    and "all_digests old" "all_digests new" "all_digests proof"
    and "collision_free sha256
      (consistency_inputs sha256 (int (length old)) (merkle_root sha256 old) (int (length new)) proof
       \<union> tree_inputs sha256 new \<union> tree_inputs sha256 old)"
  shows "old = take (length old) new"
  using assms by (rule accepted_is_prefix)

lemma two_leaves: "tree_hash H [a, b] = hash_children H a b" "tree_inputs H [a, b] = {node_input a b}"
  "tree_hash H [a] = a" "tree_inputs H [a] = {}"
proof -
  have "split_size 2 = 1" using split_size_unique [of 2 0] by simp
  then show "tree_hash H [a, b] = hash_children H a b" "tree_inputs H [a, b] = {node_input a b}"
    by (simp_all add: tree_hash_halves tree_inputs_halves tree_hash.simps [of H "[_]"] tree_inputs.simps [of H "[_]"]
        numeral_2_eq_2)
qed (simp_all add: tree_hash.simps tree_inputs.simps)

abbreviation leaf_a :: bytes where "leaf_a \<equiv> replicate 32 (CHR ''a'')"
abbreviation leaf_b :: bytes where "leaf_b \<equiv> replicate 32 (CHR ''b'')"

lemma inclusion_sound_witness: "inclusion_proof sha256 [leaf_a, leaf_b] 1 = Inr [leaf_a]"
proof -
  have "verify_inclusion sha256 leaf_b 1 (int (length [leaf_a, leaf_b])) [leaf_a] (merkle_root sha256 [leaf_a, leaf_b])"
    by (simp add: verify_inclusion_def merkle_root_eq two_leaves climb_def)
  moreover have "inclusion_inputs sha256 leaf_b 1 (int (length [leaf_a, leaf_b])) [leaf_a] = {node_input leaf_a leaf_b}"
    by (simp add: inclusion_inputs_def climb_def tracked_def plain_def)
  ultimately show ?thesis
    using inclusion_sound [of leaf_b 1 "[leaf_a, leaf_b]" "[leaf_a]"]
    by (simp add: two_leaves all_digests_def collision_free_def)
qed

lemma consistency_sound_witness: "[leaf_a] = take 1 [leaf_a, leaf_b]"
proof -
  have one: "is_power_of_two 1" by (simp add: is_power_of_two_def)
  have "verify_consistency sha256 (int (length [leaf_a])) (merkle_root sha256 [leaf_a])
      (int (length [leaf_a, leaf_b])) (merkle_root sha256 [leaf_a, leaf_b]) [leaf_b]"
    using one by (simp add: verify_consistency_def merkle_root_eq two_leaves climb_def consistency_walk_def
        seed_rest_def strip_odd.simps)
  moreover have "consistency_inputs sha256 (int (length [leaf_a])) (merkle_root sha256 [leaf_a])
      (int (length [leaf_a, leaf_b])) [leaf_b] = {node_input leaf_a leaf_b}"
    using one by (simp add: consistency_inputs_def merkle_root_eq two_leaves climb_def consistency_walk_def
        seed_rest_def strip_odd.simps tracked_def plain_def)
  ultimately show ?thesis
    using consistency_sound [of "[leaf_a]" "[leaf_a, leaf_b]" "[leaf_b]"]
    by (simp add: two_leaves all_digests_def collision_free_def)
qed

end
