(* ===== verification/Canonical_Json.thy ===== *)
theory Canonical_Json
  imports Vault_Prelude
begin

text \<open>
  \<open>qvault/crypto/hashing.py\<close>: the canonical serialisation every signed or hashed value goes
  through.  \<open>json\<close> is the value type of Python's \<open>json\<close> module (an object is its items in
  insertion order), \<open>canonical_json\<close> is \<open>json.dumps\<close> with sorted keys, no white space and
  \<open>ensure_ascii=False\<close>, and \<open>loads\<close> is \<open>json.loads\<close>.

  The main result is the round trip \<open>loads (canonical_json v) = Some (norm v)\<close>, where \<open>norm\<close>
  sorts the keys of every object: two values with the same canonical bytes are the same value up to
  the order of keys.  A number with a fraction or an exponent is kept as its text (\<open>JFloat\<close>); the
  program never serialises one.  The interpreter's limits (nesting depth, 4300 digits) are not
  modelled.
\<close>

datatype json =
    JNull
  | JBool bool
  | JInt int
  | JFloat ustr
  | JStr ustr
  | JList "json list"
  | JObj "(ustr \<times> json) list"

section \<open>Writing\<close>

definition hex4 :: "nat \<Rightarrow> ustr" where
  "hex4 n = [hex_digit (n div 4096 mod 16), hex_digit (n div 256 mod 16),
             hex_digit (n div 16 mod 16), hex_digit (n mod 16)]"

definition backslash :: char where "backslash = CHR 0x5C"

definition quote :: char where "quote = CHR 0x22"

definition json_char :: "char \<Rightarrow> ustr" where
  "json_char c =
     (let n = code_of c in
      if c = quote then [backslash, quote]
      else if c = backslash then [backslash, backslash]
      else if n = 10 then backslash # ''n''
      else if n = 13 then backslash # ''r''
      else if n = 9 then backslash # ''t''
      else if n = 12 then backslash # ''f''
      else if n = 8 then backslash # ''b''
      else if n < 32 then backslash # CHR ''u'' # hex4 n
      else [c])"

definition dumps_str :: "ustr \<Rightarrow> ustr" where
  "dumps_str s = quote # concat (map json_char s) @ [quote]"

fun join :: "ustr \<Rightarrow> ustr list \<Rightarrow> ustr" where
  "join sep [] = []"
| "join sep [x] = x"
| "join sep (x # y # zs) = x @ sep @ join sep (y # zs)"

fun dumps :: "json \<Rightarrow> ustr" where
  "dumps JNull = ''null''"
| "dumps (JBool b) = (if b then ''true'' else ''false'')"
| "dumps (JInt i) = dec_int i"
| "dumps (JFloat t) = t"
| "dumps (JStr s) = dumps_str s"
| "dumps (JList xs) = ''['' @ join '','' (map dumps xs) @ '']''"
| "dumps (JObj kvs) =
     ''{'' @ join '','' (map (\<lambda>kv. dumps_str (fst kv) @ '':'' @ dumps (snd kv)) (sort_key fst kvs)) @ ''}''"

text \<open>The bytes are the UTF-8 encoding of the text, which is the text in this model.\<close>

definition canonical_json :: "json \<Rightarrow> bytes" where
  "canonical_json v = dumps v"

fun norm :: "json \<Rightarrow> json" where
  "norm (JList xs) = JList (map norm xs)"
| "norm (JObj kvs) = JObj (sort_key fst (map (\<lambda>kv. (fst kv, norm (snd kv))) kvs))"
| "norm v = v"

section \<open>Reading\<close>

definition json_ws :: "char \<Rightarrow> bool" where
  "json_ws c \<longleftrightarrow> code_of c \<in> {32, 9, 10, 13}"

definition skip_ws :: "ustr \<Rightarrow> ustr" where
  "skip_ws = dropWhile json_ws"

definition utf8_cp :: "nat \<Rightarrow> bytes" where
  "utf8_cp n =
     (if n < 128 then [byte_of n]
      else if n < 2048 then [byte_of (192 + n div 64), byte_of (128 + n mod 64)]
      else if n < 65536 then
        [byte_of (224 + n div 4096), byte_of (128 + n div 64 mod 64), byte_of (128 + n mod 64)]
      else [byte_of (240 + n div 262144), byte_of (128 + n div 4096 mod 64),
            byte_of (128 + n div 64 mod 64), byte_of (128 + n mod 64)])"

fun read_hex4 :: "ustr \<Rightarrow> (nat \<times> ustr) option" where
  "read_hex4 (a # b # c # d # r) =
     (case (nibble a, nibble b, nibble c, nibble d) of
        (Some w, Some x, Some y, Some z) \<Rightarrow> Some (((w * 16 + x) * 16 + y) * 16 + z, r)
      | _ \<Rightarrow> None)"
| "read_hex4 _ = None"

definition simple_escape :: "char \<Rightarrow> char option" where
  "simple_escape c =
     (if c = quote then Some quote else if c = backslash then Some backslash
      else if c = CHR ''/'' then Some (CHR ''/'') else if c = CHR ''b'' then Some (byte_of 8)
      else if c = CHR ''f'' then Some (byte_of 12) else if c = CHR ''n'' then Some (byte_of 10)
      else if c = CHR ''r'' then Some (byte_of 13) else if c = CHR ''t'' then Some (byte_of 9)
      else None)"

text \<open>A high surrogate followed by an escaped low one is one code point; any other surrogate stays
  alone.\<close>

definition read_u :: "ustr \<Rightarrow> (bytes \<times> ustr) option" where
  "read_u s =
     (case read_hex4 s of
        None \<Rightarrow> None
      | Some (n, r) \<Rightarrow>
          (if 55296 \<le> n \<and> n < 56320 then
             (case r of
                b # u # r' \<Rightarrow>
                  (if b = backslash \<and> u = CHR ''u'' then
                     (case read_hex4 r' of
                        None \<Rightarrow> None
                      | Some (m, r'') \<Rightarrow>
                          (if 56320 \<le> m \<and> m < 57344
                           then Some (utf8_cp (65536 + (n - 55296) * 1024 + (m - 56320)), r'')
                           else Some (utf8_cp n, r)))
                   else Some (utf8_cp n, r))
              | _ \<Rightarrow> Some (utf8_cp n, r))
           else Some (utf8_cp n, r)))"

text \<open>The rest of a string literal after its opening quote, with fuel for its length.\<close>

fun read_str :: "nat \<Rightarrow> ustr \<Rightarrow> (ustr \<times> ustr) option" where
  "read_str 0 s = None"
| "read_str (Suc k) [] = None"
| "read_str (Suc k) (c # cs) =
     (if c = quote then Some ([], cs)
      else if code_of c < 32 then None
      else if c = backslash then
        (case cs of
           [] \<Rightarrow> None
         | e # r \<Rightarrow>
             (if e = CHR ''u'' then
                (case read_u r of
                   None \<Rightarrow> None
                 | Some (x, r') \<Rightarrow> map_option (apfst ((@) x)) (read_str k r'))
              else
                (case simple_escape e of
                   None \<Rightarrow> None
                 | Some x \<Rightarrow> map_option (apfst ((#) x)) (read_str k r))))
      else map_option (apfst ((#) c)) (read_str k cs))"

definition read_frac :: "ustr \<Rightarrow> ustr" where
  "read_frac s =
     (case s of
        c # r \<Rightarrow> (if c = CHR ''.'' \<and> takeWhile is_digit r \<noteq> [] then c # takeWhile is_digit r else [])
      | [] \<Rightarrow> [])"

definition read_exp :: "ustr \<Rightarrow> ustr" where
  "read_exp s =
     (case s of
        c # r \<Rightarrow>
          (if c \<in> {CHR ''e'', CHR ''E''} then
             (let sg = (case r of x # _ \<Rightarrow> (if x \<in> {CHR ''-'', CHR ''+''} then [x] else []) | [] \<Rightarrow> []);
                  ds = takeWhile is_digit (drop (length sg) r)
              in if ds = [] then [] else c # sg @ ds)
           else [])
      | [] \<Rightarrow> [])"

definition read_digits :: "ustr \<Rightarrow> ustr" where
  "read_digits t =
     (case t of c # _ \<Rightarrow> (if c = CHR ''0'' then [c] else takeWhile is_digit t) | [] \<Rightarrow> [])"

definition read_num :: "ustr \<Rightarrow> (json \<times> ustr) option" where
  "read_num s =
     (let neg = (case s of c # _ \<Rightarrow> c = CHR ''-'' | [] \<Rightarrow> False);
          t = (if neg then tl s else s);
          ds = read_digits t;
          r = drop (length ds) t;
          fr = read_frac r;
          ex = read_exp (drop (length fr) r);
          v = int (dec_value ds)
      in if ds = [] then None
         else if fr = [] \<and> ex = [] then Some (JInt (if neg then - v else v), r)
         else Some (JFloat ((if neg then ''-'' else []) @ ds @ fr @ ex),
                    drop (length fr + length ex) r))"

fun starts :: "ustr \<Rightarrow> ustr \<Rightarrow> ustr option" where
  "starts [] s = Some s"
| "starts (p # ps) [] = None"
| "starts (p # ps) (c # cs) = (if p = c then starts ps cs else None)"

text \<open>A later item with the same key replaces the earlier value and keeps its place.\<close>

fun dict_set :: "'k \<Rightarrow> 'v \<Rightarrow> ('k \<times> 'v) list \<Rightarrow> ('k \<times> 'v) list" where
  "dict_set k v [] = [(k, v)]"
| "dict_set k v ((k', v') # r) = (if k' = k then (k, v) # r else (k', v') # dict_set k v r)"

definition dict_of :: "('k \<times> 'v) list \<Rightarrow> ('k \<times> 'v) list" where
  "dict_of kvs = foldl (\<lambda>d kv. dict_set (fst kv) (snd kv) d) [] kvs"

definition literals :: "(ustr \<times> json) list" where
  "literals =
     [(''null'', JNull), (''true'', JBool True), (''false'', JBool False), (''NaN'', JFloat ''NaN''),
      (''Infinity'', JFloat ''Infinity''), (''-Infinity'', JFloat ''-Infinity'')]"

fun read_lit :: "(ustr \<times> json) list \<Rightarrow> ustr \<Rightarrow> (json \<times> ustr) option" where
  "read_lit [] s = None"
| "read_lit ((w, v) # ws) s = (case starts w s of Some r \<Rightarrow> Some (v, r) | None \<Rightarrow> read_lit ws s)"

fun read_val :: "nat \<Rightarrow> ustr \<Rightarrow> (json \<times> ustr) option"
  and read_items :: "nat \<Rightarrow> ustr \<Rightarrow> (json list \<times> ustr) option"
  and read_members :: "nat \<Rightarrow> ustr \<Rightarrow> ((ustr \<times> json) list \<times> ustr) option" where
  "read_val 0 s = None"
| "read_val (Suc k) s =
     (case s of
        [] \<Rightarrow> None
      | c # cs \<Rightarrow>
          (if c = quote then map_option (apfst JStr) (read_str (Suc (length cs)) cs)
           else if c = CHR ''['' then
             (let r = skip_ws cs in
              case r of
                d # ds \<Rightarrow> (if d = CHR '']'' then Some (JList [], ds)
                           else map_option (apfst JList) (read_items k r))
              | [] \<Rightarrow> None)
           else if c = CHR ''{'' then
             (let r = skip_ws cs in
              case r of
                d # ds \<Rightarrow> (if d = CHR ''}'' then Some (JObj [], ds)
                           else map_option (apfst (\<lambda>m. JObj (dict_of m))) (read_members k r))
              | [] \<Rightarrow> None)
           else (case read_lit literals s of Some x \<Rightarrow> Some x | None \<Rightarrow> read_num s)))"
| "read_items 0 s = None"
| "read_items (Suc k) s =
     (case read_val k s of
        None \<Rightarrow> None
      | Some (v, r) \<Rightarrow>
          (case skip_ws r of
             [] \<Rightarrow> None
           | d # ds \<Rightarrow>
               (if d = CHR '']'' then Some ([v], ds)
                else if d = CHR '','' then map_option (apfst ((#) v)) (read_items k (skip_ws ds))
                else None)))"
| "read_members 0 s = None"
| "read_members (Suc k) s =
     (case s of
        [] \<Rightarrow> None
      | q # cs \<Rightarrow>
          (if q \<noteq> quote then None
           else case read_str (Suc (length cs)) cs of
             None \<Rightarrow> None
           | Some (key, r) \<Rightarrow>
               (case skip_ws r of
                  [] \<Rightarrow> None
                | d # ds \<Rightarrow>
                    (if d \<noteq> CHR '':'' then None
                     else case read_val k (skip_ws ds) of
                       None \<Rightarrow> None
                     | Some (v, r') \<Rightarrow>
                         (case skip_ws r' of
                            [] \<Rightarrow> None
                          | e # es \<Rightarrow>
                              (if e = CHR ''}'' then Some ([(key, v)], es)
                               else if e = CHR '','' then
                                 map_option (apfst ((#) (key, v))) (read_members k (skip_ws es))
                               else None))))))"

definition loads :: "ustr \<Rightarrow> json option" where
  "loads s =
     (case read_val (Suc (length s)) (skip_ws s) of
        None \<Rightarrow> None
      | Some (v, r) \<Rightarrow> (if skip_ws r = [] then Some v else None))"


section \<open>The round trip\<close>

text \<open>The values the program serialises: no fractions, and objects as Python dictionaries, whose
  keys are distinct.\<close>

fun jwf :: "json \<Rightarrow> bool" where
  "jwf (JFloat t) = False"
| "jwf (JList xs) = (\<forall>x \<in> set xs. jwf x)"
| "jwf (JObj kvs) = (distinct (map fst kvs) \<and> (\<forall>kv \<in> set kvs. jwf (snd kv)))"
| "jwf v = True"

definition ends :: "ustr \<Rightarrow> bool" where
  "ends r \<longleftrightarrow> r = [] \<or> hd r \<in> {CHR '','', CHR '']'', CHR ''}''}"

lemma ends_simps [simp]: "ends []" "ends (CHR '','' # r)" "ends (CHR '']'' # r)" "ends (CHR ''}'' # r)"
  by (simp_all add: ends_def)

subsection \<open>Strings\<close>

lemma read_hex4_hex4: "n < 65536 \<Longrightarrow> read_hex4 (hex4 n @ t) = Some (n, t)"
proof -
  assume n: "n < 65536"
  have a: "n mod 16 + 16 * (n div 16 mod 16) = n mod 256"
    using mod_mult2_eq [of n 16 16] by simp
  have b: "n mod 256 + 256 * (n div 256 mod 16) = n mod 4096"
    using mod_mult2_eq [of n 256 16] by simp
  have c: "n mod 4096 + 4096 * (n div 4096 mod 16) = n mod 65536"
    using mod_mult2_eq [of n 4096 16] by simp
  have "(((n div 4096 mod 16) * 16 + n div 256 mod 16) * 16 + n div 16 mod 16) * 16 + n mod 16
        = n mod 65536"
    unfolding c [symmetric] b [symmetric] a [symmetric] by (simp add: algebra_simps)
  with n have "(((n div 4096 mod 16) * 16 + n div 256 mod 16) * 16 + n div 16 mod 16) * 16 + n mod 16 = n"
    by simp
  moreover have "read_hex4 (hex4 n @ t) =
      Some ((((n div 4096 mod 16) * 16 + n div 256 mod 16) * 16 + n div 16 mod 16) * 16 + n mod 16, t)"
    by (simp add: hex4_def)
  ultimately show ?thesis by (simp only:)
qed

lemma read_u_control:
  assumes "code_of c < (32 :: nat)"
  shows "read_u (hex4 (code_of c) @ t) = Some ([c], t)"
proof -
  have "read_hex4 (hex4 (code_of c) @ t) = Some (code_of c, t)"
    using assms by (intro read_hex4_hex4) simp
  with assms show ?thesis by (simp add: read_u_def utf8_cp_def)
qed

lemma apfst_single: "apfst ((@) [c]) = apfst ((#) c)"
  by (simp add: fun_eq_iff)

lemma byte_of_code [simp]: "code_of c = (n :: nat) \<Longrightarrow> byte_of n = c"
  by auto

lemma read_str_char:
  "read_str (Suc k) (json_char c @ t) = map_option (apfst ((#) c)) (read_str k t)"
proof -
  have q: "quote \<noteq> backslash" "code_of quote = (34 :: nat)" "code_of backslash = (92 :: nat)"
    by (simp_all add: quote_def backslash_def)
  consider (quote) "c = quote" | (slash) "c = backslash" | (named) "code_of c \<in> {8 :: nat, 9, 10, 12, 13}"
    | (control) "code_of c < (32 :: nat)" "code_of c \<notin> {8 :: nat, 9, 10, 12, 13}"
    | (plain) "code_of c \<ge> (32 :: nat)" "c \<noteq> quote" "c \<noteq> backslash"
    by (cases "code_of c < (32 :: nat)") auto
  then show ?thesis
  proof cases
    case quote
    then show ?thesis by (simp add: json_char_def simple_escape_def quote_def backslash_def Let_def)
  next
    case slash
    then show ?thesis by (simp add: json_char_def simple_escape_def quote_def backslash_def Let_def)
  next
    case named
    then have "c \<noteq> quote" "c \<noteq> backslash" using q by auto
    with named show ?thesis
      by (auto simp: json_char_def simple_escape_def quote_def backslash_def Let_def)
  next
    case control
    then have "c \<noteq> quote" "c \<noteq> backslash" using q by auto
    moreover have "json_char c = backslash # CHR ''u'' # hex4 (code_of c)"
      using control calculation by (simp add: json_char_def Let_def)
    ultimately show ?thesis
      using control(1) read_u_control [OF control(1), of t] q by (simp add: apfst_single)
  next
    case plain
    then have "json_char c = [c]" by (simp add: json_char_def Let_def)
    with plain show ?thesis by simp
  qed
qed

lemma read_str_body:
  "length s < k \<Longrightarrow> read_str k (concat (map json_char s) @ quote # r) = Some (s, r)"
proof (induction s arbitrary: k)
  case Nil
  then show ?case by (cases k) auto
next
  case (Cons c s)
  then obtain k' where "k = Suc k'" "length s < k'" by (cases k) auto
  with Cons.IH show ?case by (simp add: read_str_char)
qed

lemma length_json_char: "1 \<le> length (json_char c)"
  by (simp add: json_char_def Let_def)

lemma length_body: "length s \<le> length (concat (map json_char s))"
proof (induction s)
  case (Cons c s)
  then show ?case using length_json_char [of c] by simp
qed simp

lemma read_dumps_str:
  "read_str (Suc (length (concat (map json_char s) @ quote # r))) (concat (map json_char s) @ quote # r)
   = Some (s, r)"
  using length_body [of s] by (intro read_str_body) simp

subsection \<open>Numbers\<close>

lemma byte_of_48: "byte_of 48 = CHR ''0''"
  by code_simp

lemma dec_nat_no_zero: "hd (dec_nat n) = CHR ''0'' \<Longrightarrow> n = 0"
proof (induction n rule: dec_nat.induct)
  case (1 n)
  show ?case
  proof (cases "n < 10")
    case True
    with "1.prems" have "(byte_of (48 + n) :: char) = byte_of (48 + 0)"
      by (subst (asm) dec_nat.simps) (simp add: byte_of_48)
    with True show ?thesis by (subst (asm) byte_of_inj) auto
  next
    case False
    with "1.prems" have "hd (dec_nat (n div 10)) = CHR ''0''"
      by (subst (asm) dec_nat.simps) simp
    with "1.IH" False have "n div 10 = 0" by simp
    with False show ?thesis by simp
  qed
qed

lemma dec_nat_0 [simp]: "dec_nat 0 = ''0''"
  by (subst dec_nat.simps) (simp add: byte_of_48)

lemma ends_not_digit: "ends r \<Longrightarrow> takeWhile is_digit r = []"
  by (cases r) (auto simp: ends_def is_digit_def)

lemma ends_no_frac: "ends r \<Longrightarrow> read_frac r = [] \<and> read_exp r = []"
  by (cases r) (auto simp: ends_def read_frac_def read_exp_def)

lemma takeWhile_dec_nat: "ends r \<Longrightarrow> takeWhile is_digit (dec_nat n @ r) = dec_nat n"
  using dec_nat_digits [of n] by (simp add: takeWhile_append2 ends_not_digit)

lemma read_digits_dec_nat:
  assumes "ends r"
  shows "read_digits (dec_nat n @ r) = dec_nat n"
proof (cases "n = 0")
  case True
  then show ?thesis by (simp add: read_digits_def)
next
  case False
  then have "hd (dec_nat n) \<noteq> CHR ''0''" using dec_nat_no_zero by blast
  then obtain c cs where "dec_nat n = c # cs" "c \<noteq> CHR ''0''"
    by (cases "dec_nat n") auto
  then show ?thesis using takeWhile_dec_nat [OF assms, of n] by (simp add: read_digits_def)
qed

lemma dec_nat_head: "\<exists>c cs. dec_nat n = c # cs \<and> is_digit c"
  using dec_nat_hd [of n] by (cases "dec_nat n") auto

lemma read_num_dec_int:
  assumes "ends r"
  shows "read_num (dec_int i @ r) = Some (JInt i, r)"
proof (cases "i < 0")
  case True
  then show ?thesis
    using read_digits_dec_nat [OF assms, of "nat (- i)"] ends_no_frac [OF assms]
    by (simp add: read_num_def dec_int_def Let_def)
next
  case False
  obtain c cs where c: "dec_nat (nat i) = c # cs" "is_digit c" using dec_nat_head by blast
  then have "c \<noteq> CHR ''-''" by auto
  then have neg: "(case dec_nat (nat i) @ r of c # _ \<Rightarrow> c = CHR ''-'' | [] \<Rightarrow> False) = False"
    using c(1) by simp
  then show ?thesis
    using False read_digits_dec_nat [OF assms, of "nat i"] ends_no_frac [OF assms]
    by (simp add: read_num_def dec_int_def Let_def)
qed

lemma digit_neq:
  assumes "is_digit c"
  shows "CHR ''n'' \<noteq> c" "CHR ''t'' \<noteq> c" "CHR ''f'' \<noteq> c" "CHR ''N'' \<noteq> c" "CHR ''I'' \<noteq> c" "CHR ''-'' \<noteq> c"
  using assms by (auto simp: is_digit_def)

lemma read_lit_digit: "is_digit c \<Longrightarrow> read_lit literals (c # r) = None"
  by (simp add: literals_def digit_neq)

lemma read_lit_minus: "is_digit c \<Longrightarrow> read_lit literals (CHR ''-'' # c # r) = None"
  by (simp add: literals_def digit_neq)

lemma read_lit_dec_int: "read_lit literals (dec_int i @ r) = None"
proof -
  obtain c cs where "dec_nat (nat i) = c # cs" "is_digit c" using dec_nat_head by blast
  moreover obtain d ds where "dec_nat (nat (- i)) = d # ds" "is_digit d" using dec_nat_head by blast
  ultimately show ?thesis
    by (simp add: dec_int_def read_lit_digit read_lit_minus)
qed

subsection \<open>Lists and objects\<close>

lemma dumps_head:
  "jwf v \<Longrightarrow> \<exists>c cs. dumps v = c # cs \<and> \<not> json_ws c \<and> c \<noteq> CHR '']'' \<and> c \<noteq> CHR ''}''"
proof (cases v)
  case (JInt i)
  obtain c cs where "dec_nat (nat i) = c # cs" "is_digit c" using dec_nat_head by blast
  moreover have "is_digit c \<Longrightarrow> \<not> json_ws c \<and> c \<noteq> CHR '']'' \<and> c \<noteq> CHR ''}''"
    by (auto simp: is_digit_def json_ws_def)
  ultimately show ?thesis using JInt by (auto simp: dec_int_def json_ws_def)
qed (auto simp: dumps_str_def quote_def json_ws_def)

lemma skip_ws_nonspace: "\<not> json_ws c \<Longrightarrow> skip_ws (c # s) = c # s"
  by (simp add: skip_ws_def)

lemma skip_ws_dumps: "jwf v \<Longrightarrow> skip_ws (dumps v @ s) = dumps v @ s"
  using dumps_head [of v] by (auto simp: skip_ws_nonspace)

lemma skip_ws_punct [simp]:
  "skip_ws [] = []"
  "skip_ws (CHR '','' # s) = CHR '','' # s" "skip_ws (CHR '']'' # s) = CHR '']'' # s"
  "skip_ws (CHR ''}'' # s) = CHR ''}'' # s" "skip_ws (CHR '':'' # s) = CHR '':'' # s"
  "skip_ws (quote # s) = quote # s"
  by (simp_all add: skip_ws_def json_ws_def quote_def)

lemma join_Cons: "join sep (x # xs) = x @ (if xs = [] then [] else sep @ join sep xs)"
  by (cases xs) auto

definition reads :: "json \<Rightarrow> bool" where
  "reads v \<longleftrightarrow> (\<forall>k r. ends r \<longrightarrow> length (dumps v) < k \<longrightarrow> read_val k (dumps v @ r) = Some (norm v, r))"

lemma readsD:
  "reads v \<Longrightarrow> ends r \<Longrightarrow> length (dumps v) < k \<Longrightarrow> read_val k (dumps v @ r) = Some (norm v, r)"
  by (simp add: reads_def)

lemma read_items_dumps:
  "\<lbrakk>xs \<noteq> []; \<forall>x \<in> set xs. jwf x \<and> reads x; length (join '','' (map dumps xs)) + 2 \<le> k\<rbrakk>
   \<Longrightarrow> read_items k (join '','' (map dumps xs) @ CHR '']'' # r) = Some (map norm xs, r)"
proof (induction xs arbitrary: k)
  case (Cons x xs)
  from Cons.prems obtain k' where k: "k = Suc k'" by (cases k) auto
  have len: "length (dumps x) < k'"
    using Cons.prems(3) k by (auto simp: join_Cons)
  show ?case
  proof (cases "xs = []")
    case True
    have "read_val k' (dumps x @ CHR '']'' # r) = Some (norm x, CHR '']'' # r)"
      using Cons.prems len by (intro readsD) auto
    with True k show ?thesis by simp
  next
    case False
    define t where "t = join '','' (map dumps xs) @ CHR '']'' # r"
    have "read_val k' (dumps x @ CHR '','' # t) = Some (norm x, CHR '','' # t)"
      using Cons.prems len by (intro readsD) auto
    moreover have "read_items k' t = Some (map norm xs, r)"
      unfolding t_def using Cons.prems k False by (intro Cons.IH) (auto simp: join_Cons)
    moreover have "skip_ws t = t"
      using False Cons.prems(2) by (cases xs) (auto simp: t_def join_Cons skip_ws_dumps)
    ultimately show ?thesis
      using False k by (simp add: join_Cons t_def)
  qed
qed simp

abbreviation member_text :: "ustr \<times> json \<Rightarrow> ustr" where
  "member_text kv \<equiv> dumps_str (fst kv) @ '':'' @ dumps (snd kv)"

lemma read_members_step:
  assumes "jwf v" "reads v" "ends t" "length (dumps v) < k"
  shows "read_members (Suc k) (member_text (key, v) @ t) =
    (case skip_ws t of
       [] \<Rightarrow> None
     | e # es \<Rightarrow>
         (if e = CHR ''}'' then Some ([(key, norm v)], es)
          else if e = CHR '','' then map_option (apfst ((#) (key, norm v))) (read_members k (skip_ws es))
          else None))"
proof -
  have eq: "member_text (key, v) @ t =
      quote # (concat (map json_char key) @ quote # (CHR '':'' # (dumps v @ t)))"
    by (simp add: dumps_str_def)
  have "read_val k (dumps v @ t) = Some (norm v, t)"
    using assms by (intro readsD)
  then show ?thesis
    unfolding eq using assms(1) by (simp add: read_dumps_str skip_ws_dumps del: length_append)
qed

lemma read_members_dumps:
  "\<lbrakk>kvs \<noteq> []; \<forall>kv \<in> set kvs. jwf (snd kv) \<and> reads (snd kv);
    length (join '','' (map member_text kvs)) + 2 \<le> k\<rbrakk>
   \<Longrightarrow> read_members k (join '','' (map member_text kvs) @ CHR ''}'' # r)
       = Some (map (\<lambda>kv. (fst kv, norm (snd kv))) kvs, r)"
proof (induction kvs arbitrary: k)
  case (Cons kv kvs)
  obtain key v where kv: "kv = (key, v)" by (cases kv)
  from Cons.prems obtain k' where k: "k = Suc k'" by (cases k) auto
  have len: "length (dumps v) < k'"
    using Cons.prems(3) k kv by (auto simp: join_Cons)
  have v: "jwf v" "reads v" using Cons.prems(2) kv by auto
  show ?case
  proof (cases "kvs = []")
    case True
    show ?thesis
      using True k kv read_members_step [OF v, of "CHR ''}'' # r" k' key] len by simp
  next
    case False
    define t where "t = join '','' (map member_text kvs) @ CHR ''}'' # r"
    have "read_members k' t = Some (map (\<lambda>kv. (fst kv, norm (snd kv))) kvs, r)"
      unfolding t_def using Cons.prems k kv False by (intro Cons.IH) (auto simp: join_Cons)
    moreover have "skip_ws t = t"
      using False by (cases kvs) (auto simp: t_def join_Cons dumps_str_def)
    ultimately have "read_members (Suc k') (member_text (key, v) @ CHR '','' # t)
        = Some (map (\<lambda>kv. (fst kv, norm (snd kv))) (kv # kvs), r)"
      using read_members_step [OF v, of "CHR '','' # t" k' key] len kv by simp
    then show ?thesis
      using False k kv by (simp add: join_Cons t_def)
  qed
qed simp

lemma dict_set_fresh: "k \<notin> fst ` set d \<Longrightarrow> dict_set k v d = d @ [(k, v)]"
  by (induction d) auto

lemma dict_of_distinct: "distinct (map fst kvs) \<Longrightarrow> dict_of kvs = kvs"
proof (induction kvs rule: rev_induct)
  case (snoc kv kvs)
  then show ?case
    by (cases kv) (auto simp: dict_of_def dict_set_fresh)
qed (simp add: dict_of_def)

lemma insort_key_map:
  "(\<And>x. f (g x) = f x) \<Longrightarrow> insort_key f (g x) (map g xs) = map g (insort_key f x xs)"
  by (induction xs) auto

lemma sort_key_map: "(\<And>x. f (g x) = f x) \<Longrightarrow> sort_key f (map g xs) = map g (sort_key f xs)"
  by (induction xs) (auto simp: insort_key_map)

lemma distinct_map_sort_key: "distinct (map f (sort_key f xs)) = distinct (map f xs)"
  by (simp add: distinct_map)

lemma reads_null: "reads JNull"
proof -
  have "read_val (Suc k) (''null'' @ r) = Some (JNull, r)" for k r
    by (simp add: quote_def literals_def)
  then show ?thesis by (metis dumps.simps(1) norm.simps(3) not0_implies_Suc not_less0 reads_def)
qed

lemma reads_bool: "reads (JBool b)"
proof -
  have "read_val (Suc k) (dumps (JBool b) @ r) = Some (JBool b, r)" for k r
    by (cases b) (simp_all add: quote_def literals_def)
  then show ?thesis by (metis norm.simps(4) not0_implies_Suc not_less0 reads_def)
qed

lemma digit_not_open: "is_digit c \<Longrightarrow> c \<notin> {quote, CHR ''['', CHR ''{''}"
  by (auto simp: is_digit_def quote_def)

lemma reads_int: "reads (JInt i)"
proof -
  have "read_val k (dec_int i @ r) = Some (JInt i, r)" if e: "ends r" and pos: "0 < k" for k r
  proof -
    obtain c cs where "dec_nat (nat i) = c # cs" "is_digit c" using dec_nat_head by blast
    then obtain d ds where d: "dec_int i = d # ds" "d \<notin> {quote, CHR ''['', CHR ''{''}"
      using digit_not_open [of c] by (cases "i < 0") (auto simp: dec_int_def quote_def)
    moreover obtain k' where "k = Suc k'" using pos by (cases k) auto
    ultimately show ?thesis
      using read_num_dec_int [OF e, of i] read_lit_dec_int [of i r] by simp
  qed
  then show ?thesis by (simp add: reads_def)
qed

lemma reads_str: "reads (JStr s)"
proof -
  have "read_val k (dumps_str s @ r) = Some (JStr s, r)" if "0 < k" for k r
    using that by (cases k) (simp_all add: dumps_str_def read_dumps_str del: length_append)
  then show ?thesis by (simp add: reads_def)
qed

lemma reads_dumps: "jwf v \<Longrightarrow> reads v"
proof (induction v)
  case (JList xs)
  show ?case
  proof (cases "xs = []")
    case True
    have "read_val k (dumps (JList []) @ r) = Some (norm (JList []), r)" if "2 < k" for k r
      using that by (cases k) (simp_all add: quote_def)
    with True show ?thesis by (simp add: reads_def)
  next
    case False
    have "read_val k (dumps (JList xs) @ r) = Some (norm (JList xs), r)"
      if k: "length (dumps (JList xs)) < k" for k r
    proof -
      from k obtain k' where k': "k = Suc k'" by (cases k) auto
      define t where "t = join '','' (map dumps xs) @ CHR '']'' # r"
      have items: "read_items k' t = Some (map norm xs, r)"
        unfolding t_def using JList False k k' by (intro read_items_dumps) auto
      obtain d ds where d: "t = d # ds" "\<not> json_ws d" "d \<noteq> CHR '']''"
        using dumps_head [of "hd xs"] False JList.prems by (cases xs) (auto simp: t_def join_Cons)
      have "dumps (JList xs) @ r = CHR ''['' # t" by (simp add: t_def)
      then show ?thesis
        using items d k' by (simp add: quote_def skip_ws_nonspace Let_def)
    qed
    then show ?thesis by (simp add: reads_def)
  qed
next
  case (JObj kvs)
  define s where "s = sort_key fst kvs"
  have n: "norm (JObj kvs) = JObj (map (\<lambda>kv. (fst kv, norm (snd kv))) s)"
    by (simp add: s_def sort_key_map)
  have dict: "dict_of (map (\<lambda>kv. (fst kv, norm (snd kv))) s) = map (\<lambda>kv. (fst kv, norm (snd kv))) s"
    using JObj.prems by (intro dict_of_distinct) (simp add: s_def o_def distinct_map_sort_key)
  have all: "\<forall>kv \<in> set s. jwf (snd kv) \<and> reads (snd kv)"
    using JObj by (fastforce simp: s_def snds.simps)
  show ?case
  proof (cases "s = []")
    case True
    then have "kvs = []" by (metis s_def sort_key_simps(1) set_empty set_sort)
    moreover have "read_val k (dumps (JObj []) @ r) = Some (norm (JObj []), r)" if "2 < k" for k r
      using that by (cases k) (simp_all add: quote_def)
    ultimately show ?thesis by (simp add: reads_def)
  next
    case False
    have "read_val k (dumps (JObj kvs) @ r) = Some (norm (JObj kvs), r)"
      if k: "length (dumps (JObj kvs)) < k" for k r
    proof -
      from k obtain k' where k': "k = Suc k'" by (cases k) auto
      define t where "t = join '','' (map member_text s) @ CHR ''}'' # r"
      have items: "read_members k' t = Some (map (\<lambda>kv. (fst kv, norm (snd kv))) s, r)"
        unfolding t_def using all False k k' by (intro read_members_dumps) (auto simp: s_def)
      obtain ds where d: "t = quote # ds"
        using False by (cases s) (auto simp: t_def join_Cons dumps_str_def)
      have "dumps (JObj kvs) @ r = CHR ''{'' # t" by (simp add: t_def s_def)
      then show ?thesis
        using items d k' dict n by (simp add: quote_def skip_ws_def json_ws_def Let_def)
    qed
    then show ?thesis by (simp add: reads_def)
  qed
qed (auto simp: reads_null reads_bool reads_int reads_str)

theorem loads_canonical:
  assumes "jwf v"
  shows "loads (canonical_json v) = Some (norm v)"
proof -
  have "read_val (Suc (length (dumps v))) (dumps v @ []) = Some (norm v, [])"
    using assms by (intro readsD reads_dumps) auto
  then show ?thesis
    using skip_ws_dumps [OF assms, of "[]"] by (simp add: loads_def canonical_json_def)
qed

section \<open>Canonical bytes determine the value\<close>

lemma insort_key_head: "(\<forall>y \<in> set xs. f x \<le> f y) \<Longrightarrow> insort_key f x xs = x # xs"
  by (cases xs) auto

lemma sort_key_sorted: "sorted (map f xs) \<Longrightarrow> sort_key f xs = xs"
  by (induction xs) (auto simp: insort_key_head)

lemma dumps_norm: "dumps (norm v) = dumps v"
proof (induction v)
  case (JObj kvs)
  let ?s = "map (\<lambda>kv. (fst kv, norm (snd kv))) (sort_key fst kvs)"
  have n: "norm (JObj kvs) = JObj ?s" by (simp add: sort_key_map)
  have "sorted (map fst ?s)" by (simp add: o_def)
  then have sorted: "sort_key fst ?s = ?s" by (rule sort_key_sorted)
  have mem: "map member_text ?s = map member_text (sort_key fst kvs)"
    using JObj by (auto simp: snds.simps)
  show ?case by (simp only: n dumps.simps sorted mem)
next
  case (JList xs)
  then have "map dumps (map norm xs) = map dumps xs" by simp
  then show ?case by (simp only: norm.simps dumps.simps)
qed auto

theorem canonical_json_eq_iff:
  assumes "jwf a" "jwf b"
  shows "canonical_json a = canonical_json b \<longleftrightarrow> norm a = norm b"
proof
  assume "canonical_json a = canonical_json b"
  then show "norm a = norm b"
    using loads_canonical [OF assms(1)] loads_canonical [OF assms(2)] by simp
next
  assume "norm a = norm b"
  then show "canonical_json a = canonical_json b"
    unfolding canonical_json_def by (metis dumps_norm)
qed

text \<open>C19: the signed encoding is faithful.  Parsing the canonical JSON of a value gives the value back with
  the keys of its objects sorted, and two values have the same canonical bytes exactly when they are
  the same up to the order of keys.\<close>

theorem canonical_round_trip:
  assumes "jwf a" "jwf b"
  shows "loads (canonical_json a) = Some (norm a)
    \<and> (canonical_json a = canonical_json b \<longleftrightarrow> norm a = norm b)"
  using loads_canonical [OF assms(1)] canonical_json_eq_iff [OF assms] by blast

lemma canonical_round_trip_witness:
  "loads (canonical_json (JObj [(''b'', JList [JInt 1, JNull]), (''a'', JStr ''x'')])) =
     Some (JObj [(''a'', JStr ''x''), (''b'', JList [JInt 1, JNull])])"
proof -
  let ?v = "JObj [(''b'', JList [JInt 1, JNull]), (''a'', JStr ''x'')]"
  have wf: "jwf ?v" by simp
  have "norm ?v = JObj [(''a'', JStr ''x''), (''b'', JList [JInt 1, JNull])]" by (simp; code_simp)
  then show ?thesis using canonical_round_trip [OF wf wf] by metis
qed

text \<open>Objects built with the same keys in the same order are equal bytes exactly when each field is.\<close>

lemma norm_fields_eq:
  assumes "distinct (map fst kvs)" "map fst kvs = map fst kws" "norm (JObj kvs) = norm (JObj kws)"
  shows "list_all2 (\<lambda>a b. norm (snd a) = norm (snd b)) kvs kws"
proof -
  let ?g = "\<lambda>kv. (fst kv, norm (snd kv))"
  have "sort_key fst (map ?g kvs) = sort_key fst (map ?g kws)"
    using assms(3) by simp
  then have "set (sort_key fst (map ?g kvs)) = set (sort_key fst (map ?g kws))"
    by (rule arg_cong [where f = set])
  then have "set (map ?g kvs) = set (map ?g kws)"
    by (simp only: set_sort)
  moreover have "distinct (map fst (map ?g kvs))" "distinct (map fst (map ?g kws))"
    using assms(1,2) by (simp_all add: o_def)
  ultimately have "map_of (map ?g kvs) = map_of (map ?g kws)"
    by (simp only: map_of_inject_set)
  then have eq: "map_of (map ?g kvs) k = map_of (map ?g kws) k" for k by simp
  have len: "length kvs = length kws" using assms(2) by (metis length_map)
  have "norm (snd (kvs ! i)) = norm (snd (kws ! i))" if i: "i < length kvs" for i
  proof -
    have k: "fst (kvs ! i) = fst (kws ! i)" using assms(2) i len by (metis nth_map)
    have "map_of (map ?g kvs) (fst (kvs ! i)) = Some (norm (snd (kvs ! i)))"
      by (rule map_of_is_SomeI) (use assms(1) i in \<open>simp_all add: o_def nth_mem\<close>)
    moreover have "map_of (map ?g kws) (fst (kws ! i)) = Some (norm (snd (kws ! i)))"
      by (rule map_of_is_SomeI) (use assms(1,2) i len in \<open>simp_all add: o_def nth_mem\<close>)
    ultimately show ?thesis using eq k by simp
  qed
  with len show ?thesis by (simp add: list_all2_conv_all_nth)
qed

lemma canonical_fields_eq:
  assumes "canonical_json (JObj kvs) = canonical_json (JObj kws)"
    and "jwf (JObj kvs)" "jwf (JObj kws)" "map fst kvs = map fst kws"
  shows "list_all2 (\<lambda>a b. norm (snd a) = norm (snd b)) kvs kws"
  using assms by (intro norm_fields_eq) (auto simp: canonical_json_eq_iff)

text \<open>The same as an equation of the values, which simplifies to one equation for each field.\<close>

definition json_values :: "json \<Rightarrow> json list" where
  "json_values v = (case v of JObj kvs \<Rightarrow> map (\<lambda>kv. norm (snd kv)) kvs | _ \<Rightarrow> [])"

definition json_keys :: "json \<Rightarrow> ustr list" where
  "json_keys v = (case v of JObj kvs \<Rightarrow> map fst kvs | _ \<Rightarrow> [])"

lemma values_simp [simp]: "json_values (JObj kvs) = map (\<lambda>kv. norm (snd kv)) kvs"
  by (simp add: json_values_def)

lemma keys_simp [simp]: "json_keys (JObj kvs) = map fst kvs"
  by (simp add: json_keys_def)

lemma canonical_values_eq:
  assumes "canonical_json a = canonical_json b" "jwf a" "jwf b" "json_keys a = json_keys b" "json_keys a \<noteq> []"
  shows "json_values a = json_values b"
proof -
  obtain kvs kws where o: "a = JObj kvs" "b = JObj kws"
    using assms(4,5) by (auto simp: json_keys_def split: json.splits)
  then have "list_all2 (\<lambda>a b. norm (snd a) = norm (snd b)) kvs kws"
    using assms by (intro canonical_fields_eq) auto
  then show ?thesis
    by (auto simp: o json_values_def list_all2_conv_all_nth intro: nth_equalityI)
qed

lemma canonical_keys_eq:
  assumes "canonical_json (JObj kvs) = canonical_json (JObj kws)" "jwf (JObj kvs)" "jwf (JObj kws)"
  shows "set (map fst kvs) = set (map fst kws)"
proof -
  let ?g = "\<lambda>kv. (fst kv, norm (snd kv))"
  have "sort_key fst (map ?g kvs) = sort_key fst (map ?g kws)"
    using assms(1) unfolding canonical_json_eq_iff [OF assms(2,3)] norm.simps by (rule json.inject(6) [THEN iffD1])
  then have "set (sort_key fst (map ?g kvs)) = set (sort_key fst (map ?g kws))"
    by (rule arg_cong [where f = set])
  then have "set (map ?g kvs) = set (map ?g kws)" by (simp only: set_sort)
  then have "fst ` set (map ?g kvs) = fst ` set (map ?g kws)" by simp
  then show ?thesis by (simp add: image_image)
qed

end
