(* ===== verification/Kit_Code.thy ===== *)
theory Kit_Code
  imports Canonical_Json
begin

unbundle bit_operations_syntax

text \<open>
  \<open>qvault/crypto/kit_code.py\<close>: the Recovery Kit's code, 150 bits as 30 Crockford base32 symbols and
  two check symbols of a CRC-10.  A Python value of unknown type is a \<open>json\<close> value here; text is its
  UTF-8 bytes.

  Shown: the table-driven CRC equals the bit-at-a-time definition, decoding what was encoded gives
  the number back (in any grouping and case), and every single wrong symbol and every swap of two
  neighbouring symbols is refused, the check symbols included.
\<close>

section \<open>The alphabet\<close>

definition ALPHABET :: ustr where
  "ALPHABET = ''0123456789ABCDEFGHJKMNPQRSTVWXYZ''"

definition symbol_value :: "char \<Rightarrow> nat option" where
  "symbol_value c = map_of (zip ALPHABET [0..<32]) c"

definition ALIASES :: "(char \<times> char) list" where
  "ALIASES = [(CHR ''I'', CHR ''1''), (CHR ''L'', CHR ''1''), (CHR ''O'', CHR ''0'')]"

definition BITS :: nat where "BITS = 150"
definition DATA_SYMBOLS :: nat where "DATA_SYMBOLS = BITS div 5"
definition CHECK_SYMBOLS :: nat where "CHECK_SYMBOLS = 2"
definition SYMBOLS :: nat where "SYMBOLS = DATA_SYMBOLS + CHECK_SYMBOLS"
definition GROUP :: nat where "GROUP = 4"
definition CRC_POLY :: nat where "CRC_POLY = 0x233"
definition CRC_BITS :: nat where "CRC_BITS = 10"

lemmas kit_consts = BITS_def DATA_SYMBOLS_def CHECK_SYMBOLS_def SYMBOLS_def GROUP_def CRC_POLY_def CRC_BITS_def

section \<open>The check\<close>

text \<open>One bit of \<open>_crc_bits\<close>, then the loop over the positions, most significant first.\<close>

definition crc_bit :: "nat \<Rightarrow> nat \<Rightarrow> nat \<Rightarrow> nat" where
  "crc_bit value position crc =
     (let top = (drop_bit (CRC_BITS - 1) crc AND 1) XOR (drop_bit position value AND 1);
          crc' = push_bit 1 crc AND (push_bit CRC_BITS 1 - 1)
      in if top \<noteq> 0 then crc' XOR CRC_POLY else crc')"

fun crc_loop :: "nat \<Rightarrow> nat \<Rightarrow> nat \<Rightarrow> nat" where
  "crc_loop value 0 crc = crc"
| "crc_loop value (Suc position) crc = crc_loop value position (crc_bit value position crc)"

definition crc_bits :: "nat \<Rightarrow> nat \<Rightarrow> nat" where
  "crc_bits value bits = crc_loop value bits 0"

definition shift1 :: "nat \<Rightarrow> nat" where
  "shift1 register =
     (if register AND 0x200 \<noteq> 0 then (push_bit 1 register AND 0x3FF) XOR CRC_POLY
      else push_bit 1 register AND 0x3FF)"

definition shift5 :: "nat \<Rightarrow> nat" where
  "shift5 register = (shift1 ^^ 5) register"

definition SYMBOL_TABLE :: "nat list" where
  "SYMBOL_TABLE = map (\<lambda>i. shift5 (push_bit 5 i)) [0..<32]"

definition crc_symbol :: "nat \<Rightarrow> nat \<Rightarrow> nat" where
  "crc_symbol crc d = (push_bit 5 crc AND 0x3FF) XOR SYMBOL_TABLE ! (drop_bit 5 crc XOR d)"

text \<open>The loop \<open>for shift in range(bits - 5, -1, -5)\<close>: \<open>n\<close> symbols are left, the next at shift
  \<open>5 * (n - 1)\<close>.\<close>

fun crc_symbols :: "nat \<Rightarrow> nat \<Rightarrow> nat \<Rightarrow> nat" where
  "crc_symbols value 0 crc = crc"
| "crc_symbols value (Suc n) crc =
     crc_symbols value n (crc_symbol crc (drop_bit (5 * n) value AND 31))"

definition crc10 :: "nat \<Rightarrow> nat \<Rightarrow> nat" where
  "crc10 value bits =
     (if bits mod 5 \<noteq> 0 then crc_bits value bits else crc_symbols value (bits div 5) 0)"

section \<open>Writing a code\<close>

datatype kit_error =
    Kit_not_text | Kit_bad_character | Kit_bad_length nat | Kit_typo
  | Kit_out_of_range | Kit_not_normalised

definition symbols :: "nat \<Rightarrow> nat \<Rightarrow> ustr" where
  "symbols value count = map (\<lambda>i. ALPHABET ! (drop_bit (5 * (count - 1 - i)) value AND 31)) [0..<count]"

definition encode :: "int \<Rightarrow> kit_error + ustr" where
  "encode k =
     (if \<not> (0 \<le> k \<and> k < 2 ^ BITS) then Inl Kit_out_of_range
      else Inr (symbols (nat k) DATA_SYMBOLS @ symbols (crc10 (nat k) BITS) CHECK_SYMBOLS))"

fun groups :: "ustr \<Rightarrow> ustr list" where
  "groups [] = []"
| "groups (c # cs) = take GROUP (c # cs) # groups (drop (GROUP - 1) cs)"

definition grouped :: "ustr \<Rightarrow> ustr" where
  "grouped code = join ''-'' (groups code)"

text \<open>\<open>new_code\<close> draws its number from the operating system; the draw is the argument.\<close>

definition new_code :: "nat \<Rightarrow> kit_error + (nat \<times> ustr)" where
  "new_code random_bits =
     (case encode (int random_bits) of Inl e \<Rightarrow> Inl e | Inr code \<Rightarrow> Inr (random_bits, code))"

section \<open>Reading a typed code\<close>

text \<open>\<open>str.upper\<close>: the ASCII letters, and the few other characters whose upper case is all ASCII
  (sharp s, dotless i, long s and the Latin ligatures).  Every other character keeps a byte that no
  kit code has, so it is refused either way.\<close>

definition upper_char :: "char \<Rightarrow> char" where
  "upper_char c = (if 97 \<le> code_of c \<and> code_of c \<le> 122 then byte_of (code_of c - 32) else c)"

fun upper :: "ustr \<Rightarrow> ustr" where
  "upper [] = []"
| "upper (c # cs) =
     (if code_of c < 128 then upper_char c # upper cs
      else case cs of
        [] \<Rightarrow> [c]
      | d # ds \<Rightarrow>
          (if code_of c = 195 \<and> code_of d = 159 then ''SS'' @ upper ds
           else if code_of c = 196 \<and> code_of d = 177 then ''I'' @ upper ds
           else if code_of c = 197 \<and> code_of d = 191 then ''S'' @ upper ds
           else case ds of
             [] \<Rightarrow> c # upper cs
           | e # es \<Rightarrow>
               (if code_of c = 239 \<and> code_of d = 172 \<and> 128 \<le> code_of e \<and> code_of e \<le> 134
                then [''FF'', ''FI'', ''FL'', ''FFI'', ''FFL'', ''ST'', ''ST''] ! (code_of e - 128) @ upper es
                else c # upper cs)))"

definition kit_skip :: "char \<Rightarrow> bool" where
  "kit_skip c \<longleftrightarrow> code_of c \<in> {32, 45, 9, 13, 10}"

fun clean :: "ustr \<Rightarrow> kit_error + ustr" where
  "clean [] = Inr []"
| "clean (ch # r) =
     (if kit_skip ch then clean r
      else let c = (case map_of ALIASES ch of Some a \<Rightarrow> a | None \<Rightarrow> ch)
           in if symbol_value c = None then Inl Kit_bad_character
              else bindE (clean r) (\<lambda>cs. Inr (c # cs)))"

definition symbols_value :: "ustr \<Rightarrow> nat" where
  "symbols_value cs = foldl (\<lambda>v c. push_bit 5 v OR the (symbol_value c)) 0 cs"

definition normalise :: "json \<Rightarrow> kit_error + ustr" where
  "normalise typed =
     (case typed of
        JStr s \<Rightarrow>
          bindE (clean (upper s)) (\<lambda>code.
            if length code \<noteq> SYMBOLS then Inl (Kit_bad_length (length code))
            else let value = symbols_value (take DATA_SYMBOLS code);
                     check = symbols_value (drop DATA_SYMBOLS code)
                 in if crc10 value BITS \<noteq> check then Inl Kit_typo else Inr code)
      | _ \<Rightarrow> Inl Kit_not_text)"

definition decode :: "json \<Rightarrow> kit_error + nat" where
  "decode typed = bindE (normalise typed) (\<lambda>code. Inr (symbols_value (take DATA_SYMBOLS code)))"

definition argon2_input :: "ustr \<Rightarrow> kit_error + ustr" where
  "argon2_input code =
     (if length code \<noteq> SYMBOLS \<or> (\<exists>ch \<in> set code. symbol_value ch = None) then Inl Kit_not_normalised
      else Inr (take DATA_SYMBOLS code))"


section \<open>The check as a linear map\<close>

lemma xor_nat_eq_0_iff: "(a :: nat) XOR b = 0 \<longleftrightarrow> a = b"
proof
  assume "a XOR b = 0"
  then have "(a XOR b) XOR b = 0 XOR b" by simp
  then show "a = b" by (simp only: xor.assoc xor_self_eq xor.right_neutral xor.left_neutral)
qed simp

lemma and_1_nat: "(n :: nat) AND 1 = of_bool (bit n 0)"
  by (simp add: bit_0 mod2_eq_if and_one_eq)

lemma and_masks:
  "(n :: nat) AND 0x3FF = take_bit 10 n"
  "(n :: nat) AND 31 = take_bit 5 n"
  by (simp_all add: take_bit_eq_mask mask_eq_exp_minus_1)

lemma and_200: "((n :: nat) AND 0x200 \<noteq> 0) = bit n 9"
  using and_exp_eq_0_iff_not_bit [of n 9] by simp

lemma bit_push1: "bit (push_bit 1 (x :: nat)) n \<longleftrightarrow> 1 \<le> n \<and> bit x (n - 1)"
  by (simp only: bit_push_bit_iff_nat)

lemma bit_shift1:
  "bit (shift1 x) n \<longleftrightarrow> ((1 \<le> n \<and> n < 10 \<and> bit x (n - 1)) \<noteq> (bit x 9 \<and> bit CRC_POLY n))"
  unfolding shift1_def and_200 and_masks
  by (cases "bit x 9") (auto simp only: if_True if_False bit_xor_iff bit_take_bit_iff bit_push1)

lemma shift1_xor: "shift1 (x XOR y) = shift1 x XOR shift1 y"
  by (rule bit_eqI) (auto simp: bit_shift1 bit_xor_iff)

lemma shift1_0 [simp]: "shift1 0 = 0"
  by (simp add: shift1_def)

lemma shift1_less: "shift1 x < 1024"
proof -
  have "take_bit 10 (shift1 x) = shift1 x"
  proof (rule bit_eqI)
    fix n
    have "bit CRC_POLY n \<Longrightarrow> n < 10"
      using bit_take_bit_iff [of 10 CRC_POLY n] by (simp add: CRC_POLY_def take_bit_eq_mod)
    then show "bit (take_bit 10 (shift1 x)) n = bit (shift1 x) n"
      by (auto simp: bit_simps bit_shift1)
  qed
  then show ?thesis
    using take_bit_nat_less_exp [of 10 "shift1 x"] by simp
qed

lemma shift1_eq_0:
  assumes "x < 1024" "shift1 x = 0"
  shows "x = 0"
proof (rule bit_eqI)
  fix n
  have all: "\<not> bit (shift1 x) m" for m using assms(2) by simp
  have "\<not> bit x 9"
    using all [of 0] by (simp only: bit_shift1) (simp add: CRC_POLY_def bit_0)
  then have low: "\<not> bit x m" if "m < 9" for m
    using all [of "Suc m"] that by (simp add: bit_shift1)
  have "take_bit 10 x = x" using assms(1) by (simp add: take_bit_nat_eq_self)
  then have "\<not> bit x n" if "10 \<le> n"
    using that bit_take_bit_iff [of 10 x n] by simp
  with low \<open>\<not> bit x 9\<close> show "bit x n = bit 0 n"
    by (cases "n < 9"; cases "n = 9") auto
qed

lemma shift1_small: "x < 512 \<Longrightarrow> shift1 x = push_bit 1 x"
proof -
  assume x: "x < 512"
  then have "take_bit 9 x = x" by (simp add: take_bit_nat_eq_self)
  then have "\<not> bit x n" if "9 \<le> n" for n
    using that bit_take_bit_iff [of 9 x n] by simp
  then have "bit (shift1 x) n = bit (push_bit 1 x) n" for n
    unfolding bit_shift1 bit_push1 by (cases "n < 10") auto
  then show ?thesis by (rule bit_eqI)
qed

lemma shift_pow_xor: "(shift1 ^^ n) (x XOR y) = (shift1 ^^ n) x XOR (shift1 ^^ n) y"
  by (induction n) (simp_all add: shift1_xor)

lemma shift_pow_0 [simp]: "(shift1 ^^ n) 0 = 0"
  by (induction n) simp_all

lemma shift_pow_eq_0: "x < 1024 \<Longrightarrow> (shift1 ^^ n) x = 0 \<Longrightarrow> x = 0"
proof (induction n)
  case (Suc n)
  have "(shift1 ^^ n) x < 1024"
    using Suc.prems(1) shift1_less by (cases n) auto
  with Suc show ?case using shift1_eq_0 by simp
qed simp

lemma take_bit_Suc_xor:
  "take_bit (Suc m) (v :: nat) = take_bit m v XOR push_bit m (of_bool (bit v m))"
  by (rule bit_eqI) (auto simp: bit_simps less_Suc_eq)

lemma bit_push9: "bit (push_bit 9 (of_bool b :: nat)) n \<longleftrightarrow> n = 9 \<and> b"
  by (cases b) (auto simp: bit_push_bit_iff_nat bit_1_iff simp del: One_nat_def push_bit_of_1)

lemma crc_bit_shift: "crc_bit v n c = shift1 (c XOR push_bit 9 (of_bool (bit v n)))"
proof -
  have top: "((drop_bit (CRC_BITS - 1) c AND 1) XOR (drop_bit n v AND 1) \<noteq> 0) = (bit c 9 \<noteq> bit v n)"
    unfolding CRC_BITS_def and_1_nat by (cases "bit c 9"; cases "bit v n") (simp_all add: bit_drop_bit_eq)
  have mask: "push_bit CRC_BITS 1 - 1 = (0x3FF :: nat)"
    by (simp add: CRC_BITS_def push_bit_eq_mult)
  show ?thesis
    unfolding crc_bit_def Let_def top mask and_masks
    by (intro bit_eqI, unfold bit_shift1 bit_xor_iff bit_push9)
      (auto simp only: bit_take_bit_iff bit_push1 bit_xor_iff if_True if_False split: if_splits)
qed

lemma crc_loop_small:
  "m \<le> 10 \<Longrightarrow> crc_loop v m c = (shift1 ^^ m) (c XOR push_bit (10 - m) (take_bit m v))"
proof (induction m arbitrary: c)
  case 0
  show ?case by simp
next
  case (Suc m)
  let ?b = "of_bool (bit v m) :: nat"
  let ?low = "push_bit (9 - m) (take_bit m v)"
  have low: "shift1 ?low = push_bit (10 - m) (take_bit m v)"
  proof -
    have "take_bit m v < 2 ^ m" by simp
    then have "?low < 2 ^ (9 - m) * 2 ^ m"
      by (simp add: push_bit_eq_mult mult.commute)
    also have "2 ^ (9 - m) * 2 ^ m = (512 :: nat)"
      using Suc.prems by (simp flip: power_add)
    finally have "shift1 ?low = push_bit 1 ?low" by (rule shift1_small)
    then show ?thesis using Suc.prems by (simp add: push_bit_push_bit Suc_diff_le flip: Suc_diff_le)
  qed
  have split: "push_bit (10 - Suc m) (take_bit (Suc m) v) = ?low XOR push_bit 9 ?b"
    using Suc.prems by (simp add: take_bit_Suc_xor push_bit_xor push_bit_push_bit)
  have "crc_loop v (Suc m) c = (shift1 ^^ m) (shift1 (c XOR push_bit 9 ?b) XOR shift1 ?low)"
    using Suc by (simp add: crc_bit_shift low)
  also have "\<dots> = (shift1 ^^ Suc m) (c XOR (?low XOR push_bit 9 ?b))"
    by (simp add: funpow_swap1 shift_pow_xor shift1_xor ac_simps del: funpow.simps
        add: funpow_Suc_right)
  finally show ?case by (simp only: split)
qed

lemma crc_loop_add: "crc_loop v (a + b) c = crc_loop v b (crc_loop (drop_bit b v) a c)"
proof (induction a arbitrary: c)
  case (Suc a)
  have "crc_bit v (a + b) c = crc_bit (drop_bit b v) a c"
    by (simp add: crc_bit_shift bit_simps add.commute)
  then show ?case by (simp add: Suc)
qed simp

lemma crc_loop_xor: "crc_loop (v XOR w) n (c XOR d) = crc_loop v n c XOR crc_loop w n d"
proof (induction n arbitrary: c d)
  case (Suc n)
  have "push_bit 9 (of_bool (bit (v XOR w) n) :: nat)
      = push_bit 9 (of_bool (bit v n)) XOR push_bit 9 (of_bool (bit w n))"
    by (rule bit_eqI) (auto simp: bit_push9 bit_xor_iff)
  then have "crc_bit (v XOR w) n (c XOR d) = crc_bit v n c XOR crc_bit w n d"
    by (simp add: crc_bit_shift shift1_xor ac_simps)
  then show ?case by (simp add: Suc)
qed simp

lemma crc_loop_0 [simp]: "crc_loop 0 n 0 = 0"
  by (induction n) (simp_all add: crc_bit_shift)

lemma crc_loop_less: "c < 1024 \<Longrightarrow> crc_loop v n c < 1024"
  by (induction n arbitrary: c) (simp_all add: crc_bit_shift shift1_less)

lemma crc_loop_zeros: "(\<forall>i < n. \<not> bit v i) \<Longrightarrow> crc_loop v n c = (shift1 ^^ n) c"
  by (induction n arbitrary: c) (simp_all add: crc_bit_shift funpow_Suc_right del: funpow.simps)

text \<open>A burst: a nonzero error of at most ten bits at any position of the word.\<close>

lemma crc_burst:
  assumes "0 < b" "b < 1024" "j + 10 \<le> n"
  shows "crc_loop (push_bit j b) n 0 \<noteq> 0"
proof -
  have high: "drop_bit (10 + j) (push_bit j b) = 0" "drop_bit j (push_bit j b) = b"
    using assms(2) drop_bit_push_bit [of "10 + j" j b] drop_bit_push_bit [of j j b]
    by (simp_all, simp add: drop_bit_eq_div)
  have low: "\<forall>i < j. \<not> bit (push_bit j b) i" by (simp add: bit_push_bit_iff_nat)
  have "n = (n - j - 10) + (10 + j)" using assms(3) by simp
  then have "crc_loop (push_bit j b) n 0
      = crc_loop (push_bit j b) (10 + j) (crc_loop (drop_bit (10 + j) (push_bit j b)) (n - j - 10) 0)"
    by (metis crc_loop_add)
  also have "\<dots> = (shift1 ^^ j) (crc_loop b 10 0)"
    by (simp only: high crc_loop_0 crc_loop_add crc_loop_zeros [OF low])
  also have "crc_loop b 10 0 = (shift1 ^^ 10) b"
    using assms(2) crc_loop_small [of 10 b 0] by (simp add: take_bit_nat_eq_self)
  finally have "crc_loop (push_bit j b) n 0 = (shift1 ^^ (j + 10)) b"
    by (simp only: funpow_add o_apply)
  then show ?thesis using shift_pow_eq_0 assms(1,2) by (metis less_numeral_extra(3))
qed

section \<open>The table-driven check\<close>

lemma crc_symbol_shift:
  assumes "c < 1024" "d < 32"
  shows "crc_symbol c d = shift5 (c XOR push_bit 5 d)"
proof -
  have hi: "drop_bit 5 c < 32" using assms(1) by (simp add: drop_bit_eq_div less_mult_imp_div_less)
  have idx: "drop_bit 5 c XOR d < 32"
  proof -
    have "take_bit 5 (drop_bit 5 c XOR d) = drop_bit 5 c XOR d"
      using hi assms(2) by (simp add: take_bit_xor take_bit_nat_eq_self)
    then show ?thesis using take_bit_nat_less_exp [of 5 "drop_bit 5 c XOR d"] by simp
  qed
  have split: "c XOR push_bit 5 d = push_bit 5 (drop_bit 5 c XOR d) XOR take_bit 5 c"
    by (rule bit_eqI) (auto simp: bit_simps)
  have small: "shift5 (take_bit 5 c) = push_bit 5 (take_bit 5 c)"
  proof -
    have t: "take_bit 5 c < 32" using take_bit_nat_less_exp [of 5 c] by simp
    have "(shift1 ^^ n) x = push_bit n x" if "n \<le> 5" "x < 32" for n and x :: nat
      using that
    proof (induction n)
      case (Suc n)
      have "push_bit n x < 2 ^ n * 32" using Suc.prems(2) by (simp add: push_bit_eq_mult)
      also have "\<dots> \<le> 2 ^ 4 * 32" using Suc.prems(1) by (intro mult_right_mono power_increasing) auto
      finally have "shift1 (push_bit n x) = push_bit 1 (push_bit n x)" by (intro shift1_small) simp
      with Suc show ?case by (simp add: push_bit_push_bit)
    qed simp
    from this [of 5, OF _ t] show ?thesis by (simp add: shift5_def)
  qed
  have mask: "push_bit 5 c AND 0x3FF = push_bit 5 (take_bit 5 c)"
    unfolding and_masks by (rule bit_eqI) (auto simp: bit_simps)
  show ?thesis
    using idx unfolding crc_symbol_def mask split
    by (simp add: SYMBOL_TABLE_def shift5_def shift_pow_xor ac_simps small [unfolded shift5_def])
qed

lemma crc_symbols_loop: "c < 1024 \<Longrightarrow> crc_symbols v n c = crc_loop v (5 * n) c"
proof (induction n arbitrary: c)
  case (Suc n)
  have d: "drop_bit (5 * n) v AND 31 < 32"
    unfolding and_masks using take_bit_nat_less_exp [of 5] by simp
  have "crc_symbol c (drop_bit (5 * n) v AND 31) = crc_loop (drop_bit (5 * n) v) 5 c"
    using crc_loop_small [of 5 "drop_bit (5 * n) v" c]
      crc_symbol_shift [OF Suc.prems d, unfolded and_masks]
    by (simp add: shift5_def and_masks)
  moreover have "crc_loop v (5 * Suc n) c = crc_loop v (5 * n) (crc_loop (drop_bit (5 * n) v) 5 c)"
    by (metis crc_loop_add mult_Suc_right)
  ultimately show ?case
    using Suc crc_loop_less [OF Suc.prems] by simp
qed simp

text \<open>The table-driven check equals the definition a bit at a time, for every value and length.\<close>

theorem crc10_bitwise: "crc10 value bits = crc_bits value bits"
  by (auto simp: crc10_def crc_bits_def crc_symbols_loop)


section \<open>Symbols and their values\<close>

lemma length_ALPHABET [simp]: "length ALPHABET = 32"
  by (simp add: ALPHABET_def)

lemma distinct_ALPHABET: "distinct ALPHABET"
  by (simp add: ALPHABET_def)

lemma symbol_value_nth [simp]: "d < 32 \<Longrightarrow> symbol_value (ALPHABET ! d) = Some d"
  unfolding symbol_value_def by (subst map_of_zip_nth) (simp_all add: distinct_ALPHABET)

lemma symbol_valueD: "symbol_value c = Some d \<Longrightarrow> d < 32 \<and> c = ALPHABET ! d"
  by (auto simp: symbol_value_def in_set_zip dest!: map_of_SomeD)

lemma symbol_value_eq_iff:
  "symbol_value c = Some d \<Longrightarrow> symbol_value c' = Some d' \<Longrightarrow> c = c' \<longleftrightarrow> d = d'"
  by (auto dest: symbol_valueD)

definition well_formed :: "ustr \<Rightarrow> bool" where
  "well_formed cs \<longleftrightarrow> (\<forall>c \<in> set cs. symbol_value c \<noteq> None)"

lemma well_formed_simps [simp]:
  "well_formed []" "well_formed (c # cs) \<longleftrightarrow> symbol_value c \<noteq> None \<and> well_formed cs"
  "well_formed (as @ bs) \<longleftrightarrow> well_formed as \<and> well_formed bs"
  by (auto simp: well_formed_def)

lemma well_formed_symbols: "well_formed (symbols v n)"
proof -
  have "x AND 31 < 32" for x :: nat
    unfolding and_masks using take_bit_nat_less_exp [of 5 x] by simp
  then show ?thesis by (auto simp: well_formed_def symbols_def)
qed

lemma push_or_small: "d < 32 \<Longrightarrow> push_bit 5 v OR d = push_bit 5 v XOR (d :: nat)"
proof -
  assume "d < 32"
  then have "take_bit 5 d = d" by (simp add: take_bit_nat_eq_self)
  then have "\<not> bit d n" if "5 \<le> n" for n
    using that bit_take_bit_iff [of 5 d n] by simp
  then show ?thesis
    by (intro bit_eqI) (auto simp: bit_or_iff bit_xor_iff bit_push_bit_iff_nat)
qed

lemma symbols_value_snoc:
  "symbol_value c = Some d \<Longrightarrow> symbols_value (cs @ [c]) = push_bit 5 (symbols_value cs) XOR d"
  using symbol_valueD [of c d] by (simp add: symbols_value_def push_or_small)

lemma symbols_value_append:
  "well_formed b \<Longrightarrow> symbols_value (a @ b) = push_bit (5 * length b) (symbols_value a) XOR symbols_value b"
proof (induction b rule: rev_induct)
  case Nil
  show ?case by (simp add: symbols_value_def)
next
  case (snoc c b)
  then obtain d where d: "symbol_value c = Some d" by auto
  have "symbols_value (a @ b @ [c]) = push_bit 5 (symbols_value (a @ b)) XOR d"
    using symbols_value_snoc [OF d, of "a @ b"] by simp
  also have "\<dots> = push_bit (5 * length (b @ [c])) (symbols_value a) XOR symbols_value (b @ [c])"
    using snoc d by (simp add: symbols_value_snoc push_bit_xor push_bit_push_bit ac_simps)
  finally show ?case by simp
qed

lemma symbols_value_single: "symbol_value c = Some d \<Longrightarrow> symbols_value [c] = d"
  using symbols_value_snoc [of c d "[]"] by (simp add: symbols_value_def)

lemma symbols_value_less: "well_formed cs \<Longrightarrow> symbols_value cs < 2 ^ (5 * length cs)"
proof (induction cs rule: rev_induct)
  case Nil
  show ?case by (simp add: symbols_value_def)
next
  case (snoc c cs)
  then obtain d where d: "symbol_value c = Some d" by auto
  have "d < 2 ^ 5 * 1" using symbol_valueD [OF d] by simp
  also have "\<dots> \<le> 2 ^ 5 * 2 ^ (5 * length cs)" by (intro mult_left_mono) simp_all
  finally have "take_bit (5 + 5 * length cs) d = d" by (intro take_bit_nat_eq_self) (simp add: power_add)
  then have "take_bit (5 * length (cs @ [c])) (symbols_value (cs @ [c])) = symbols_value (cs @ [c])"
    using snoc d symbol_valueD [OF d]
    by (simp add: symbols_value_snoc take_bit_xor take_bit_push_bit take_bit_nat_eq_self)
  then show ?case by (metis take_bit_nat_less_exp)
qed

lemma symbols_Suc: "symbols v (Suc n) = symbols (drop_bit 5 v) n @ [ALPHABET ! (v AND 31)]"
  by (auto simp: symbols_def drop_bit_drop_bit ac_simps algebra_simps
      intro!: arg_cong [where f = "\<lambda>k. ALPHABET ! (drop_bit k v AND 31)"])

lemma symbols_value_symbols: "symbols_value (symbols v n) = take_bit (5 * n) v"
proof (induction n arbitrary: v)
  case 0
  show ?case by (simp add: symbols_def symbols_value_def)
next
  case (Suc n)
  have "v AND 31 < 32" unfolding and_masks using take_bit_nat_less_exp [of 5 v] by simp
  then have "symbols_value (symbols v (Suc n))
      = push_bit 5 (take_bit (5 * n) (drop_bit 5 v)) XOR take_bit 5 v"
    by (simp add: symbols_Suc symbols_value_snoc Suc and_masks)
  also have "\<dots> = take_bit (5 * Suc n) v"
    by (rule bit_eqI) (auto simp: bit_simps)
  finally show ?case .
qed

lemma length_symbols [simp]: "length (symbols v n) = n"
  by (simp add: symbols_def)


section \<open>Reading back what was written\<close>

lemma alphabet_plain:
  assumes "symbol_value c \<noteq> None"
  shows "code_of c < (128 :: nat)" "upper_char c = c" "\<not> kit_skip c" "map_of ALIASES c = None"
proof -
  have "\<forall>c \<in> set ALPHABET. code_of c < (128 :: nat) \<and> upper_char c = c \<and> \<not> kit_skip c
      \<and> map_of ALIASES c = None"
    by (simp add: ALPHABET_def upper_char_def kit_skip_def ALIASES_def)
  moreover have "c \<in> set ALPHABET"
    using assms symbol_valueD [of c] by (auto simp: in_set_conv_nth)
  ultimately show "code_of c < (128 :: nat)" "upper_char c = c" "\<not> kit_skip c" "map_of ALIASES c = None"
    by auto
qed

lemma hyphen_plain: "code_of (CHR ''-'') < (128 :: nat)" "upper_char (CHR ''-'') = CHR ''-''" "kit_skip (CHR ''-'')"
  by (simp_all add: upper_char_def kit_skip_def)

lemma clean_upper:
  "\<forall>c \<in> set s. c = CHR ''-'' \<or> symbol_value c \<noteq> None \<Longrightarrow>
   clean (upper s) = Inr (filter (\<lambda>c. c \<noteq> CHR ''-'') s)"
proof (induction s)
  case (Cons c s)
  then show ?case
    using hyphen_plain alphabet_plain [of c] by (cases "c = CHR ''-''") auto
qed simp

lemma hyphen_no_symbol: "symbol_value (CHR ''-'') = None"
  by (simp add: symbol_value_def ALPHABET_def upt_rec)

lemma clean_upper_well_formed: "well_formed s \<Longrightarrow> clean (upper s) = Inr s"
proof -
  assume "well_formed s"
  then have "filter (\<lambda>c. c \<noteq> CHR ''-'') s = s"
    by (auto simp: well_formed_def filter_id_conv hyphen_no_symbol)
  with \<open>well_formed s\<close> show ?thesis by (subst clean_upper) (auto simp: well_formed_def)
qed

lemma clean_well_formed: "clean s = Inr code \<Longrightarrow> well_formed code"
  by (induction s arbitrary: code) (auto simp: Let_def bindE_Inr split: if_splits)

text \<open>The 160-bit word is a multiple of the generator exactly when the two check symbols match.\<close>

lemma check_iff:
  assumes "well_formed code" "length code = 32"
  shows "crc10 (symbols_value (take 30 code)) 150 = symbols_value (drop 30 code)
     \<longleftrightarrow> crc_loop (symbols_value code) 160 0 = 0"
proof -
  let ?K = "symbols_value (take 30 code)" and ?c = "symbols_value (drop 30 code)"
  have wf: "well_formed (drop 30 code)"
    using assms(1) by (auto simp: well_formed_def dest: in_set_dropD)
  have c: "?c < 1024" using symbols_value_less [OF wf] assms(2) by simp
  have W: "symbols_value code = push_bit 10 ?K XOR ?c"
    using symbols_value_append [OF wf, of "take 30 code"] assms(2) by simp
  have hi: "drop_bit 10 (symbols_value code) = ?K"
    unfolding W using c by (simp add: drop_bit_xor drop_bit_push_bit, simp add: drop_bit_eq_div)
  have lo: "take_bit 10 (symbols_value code) = ?c"
    unfolding W using c by (simp add: take_bit_xor take_bit_push_bit take_bit_nat_eq_self)
  have "crc_loop (symbols_value code) 160 0 = crc_loop (symbols_value code) 10 (crc_loop ?K 150 0)"
    using crc_loop_add [of "symbols_value code" 150 10 0] hi by simp
  also have "\<dots> = (shift1 ^^ 10) (crc_loop ?K 150 0 XOR ?c)"
    using crc_loop_small [of 10 "symbols_value code"] lo by simp
  finally have "crc_loop (symbols_value code) 160 0 = (shift1 ^^ 10) (crc_loop ?K 150 0 XOR ?c)" .
  moreover have less: "crc_loop ?K 150 0 XOR ?c < 1024"
  proof -
    have "take_bit 10 (crc_loop ?K 150 0 XOR ?c) = crc_loop ?K 150 0 XOR ?c"
      using crc_loop_less [of 0 ?K 150] c by (simp add: take_bit_xor take_bit_nat_eq_self)
    then show ?thesis using take_bit_nat_less_exp [of 10 "crc_loop ?K 150 0 XOR ?c"] by simp
  qed
  ultimately have "crc_loop (symbols_value code) 160 0 = 0 \<longleftrightarrow> crc_loop ?K 150 0 XOR ?c = 0"
    using shift_pow_eq_0 [OF less] by auto
  then show ?thesis by (simp add: crc10_bitwise crc_bits_def xor_nat_eq_0_iff)
qed

lemma normalise_code:
  assumes "well_formed code" "length code = 32"
  shows "normalise (JStr code) =
    (if crc_loop (symbols_value code) 160 0 = 0 then Inr code else Inl Kit_typo)"
  using assms check_iff [OF assms] by (simp add: normalise_def clean_upper_well_formed Let_def kit_consts)

lemma normalise_Inr:
  assumes "normalise typed = Inr code"
  shows "well_formed code" "length code = 32" "crc_loop (symbols_value code) 160 0 = 0"
proof -
  show wf: "well_formed code" and len: "length code = 32"
    using assms clean_well_formed
    by (auto simp: normalise_def Let_def bindE_Inr kit_consts split: json.splits if_splits)
  have "crc10 (symbols_value (take 30 code)) 150 = symbols_value (drop 30 code)"
    using assms by (auto simp: normalise_def Let_def bindE_Inr kit_consts split: json.splits if_splits)
  then show "crc_loop (symbols_value code) 160 0 = 0" using check_iff [OF wf len] by simp
qed


lemma encode_valid:
  assumes "0 \<le> k" "k < 2 ^ 150"
  shows "\<exists>code. encode k = Inr code \<and> well_formed code \<and> length code = 32
    \<and> symbols_value (take 30 code) = nat k \<and> crc_loop (symbols_value code) 160 0 = 0"
proof -
  let ?v = "nat k"
  let ?code = "symbols ?v 30 @ symbols (crc10 ?v 150) 2"
  have v: "?v < 2 ^ 150" using assms by (simp add: nat_less_iff)
  have "crc10 ?v 150 < 1024" by (simp add: crc10_bitwise crc_bits_def crc_loop_less)
  then have "symbols_value (drop 30 ?code) = crc10 ?v 150"
    by (simp add: symbols_value_symbols take_bit_nat_eq_self)
  moreover have "symbols_value (take 30 ?code) = ?v"
    using v by (simp add: symbols_value_symbols take_bit_nat_eq_self)
  moreover have wf: "well_formed ?code" by (simp add: well_formed_symbols)
  ultimately have "crc_loop (symbols_value ?code) 160 0 = 0"
    using check_iff [OF wf] by simp
  moreover have "encode k = Inr ?code" using assms by (simp add: encode_def kit_consts)
  ultimately show ?thesis using wf \<open>symbols_value (take 30 ?code) = ?v\<close> by auto
qed

lemma concat_groups: "concat (groups code) = code"
  by (induction code rule: groups.induct) (simp_all add: GROUP_def)

lemma filter_join:
  "(\<forall>x \<in> set xs. \<forall>c \<in> set x. c \<noteq> CHR ''-'') \<Longrightarrow> filter (\<lambda>c. c \<noteq> CHR ''-'') (join ''-'' xs) = concat xs"
  by (induction xs) (auto simp: join_Cons filter_id_conv)

lemma set_join: "set (join sep xs) \<subseteq> set sep \<union> \<Union> (set ` set xs)"
  by (induction sep xs rule: join.induct) auto

lemma clean_grouped:
  assumes "well_formed code"
  shows "clean (upper (grouped code)) = Inr code"
proof -
  have sub: "set x \<subseteq> set code" if "x \<in> set (groups code)" for x
    using that concat_groups [of code] by (metis UN_upper set_concat)
  have plain: "c \<noteq> CHR ''-''" if "c \<in> set code" for c
    using assms that hyphen_no_symbol by (auto simp: well_formed_def)
  have chars: "\<forall>c \<in> set (grouped code). c = CHR ''-'' \<or> symbol_value c \<noteq> None"
    using set_join [of "''-''" "groups code"] sub assms by (fastforce simp: grouped_def well_formed_def)
  have "filter (\<lambda>c. c \<noteq> CHR ''-'') (grouped code) = concat (groups code)"
    unfolding grouped_def using sub plain by (intro filter_join) blast
  then show ?thesis using clean_upper [OF chars] by (simp add: concat_groups)
qed

lemma normalise_grouped: "well_formed code \<Longrightarrow> normalise (JStr (grouped code)) = normalise (JStr code)"
  by (simp add: normalise_def clean_grouped clean_upper_well_formed)

text \<open>C20: encoding refuses exactly the numbers that do not fit in 150 bits, and the code it writes
  decodes to the same number, typed plainly or as the kit prints it in groups of four.\<close>

theorem kit_round_trip:
  "case encode k of
     Inl e \<Rightarrow> e = Kit_out_of_range \<and> (k < 0 \<or> 2 ^ 150 \<le> k)
   | Inr code \<Rightarrow> decode (JStr code) = Inr (nat k) \<and> decode (JStr (grouped code)) = Inr (nat k)"
proof (cases "0 \<le> k \<and> k < 2 ^ 150")
  case True
  then obtain code where c: "encode k = Inr code" "well_formed code" "length code = 32"
      "symbols_value (take 30 code) = nat k" "crc_loop (symbols_value code) 160 0 = 0"
    using encode_valid by blast
  then show ?thesis
    by (simp add: decode_def normalise_code normalise_grouped kit_consts)
next
  case False
  then show ?thesis by (auto simp: encode_def kit_consts)
qed

section \<open>Errors the check catches\<close>

lemma xor_cancel_left: "((a :: nat) XOR b) XOR a = b"
  by (rule bit_eqI) (auto simp: bit_xor_iff)

lemma xor_swap_middle: "((p :: nat) XOR d') XOR r = ((p XOR d) XOR r) XOR (d XOR d')"
  by (rule bit_eqI) (auto simp: bit_xor_iff)

lemma burst_any:
  assumes "0 < e" "e < 1024" "push_bit j e < 2 ^ 160"
  shows "crc_loop (push_bit j e) 160 0 \<noteq> 0"
proof (cases "j + 10 \<le> 160")
  case True
  with assms show ?thesis by (intro crc_burst)
next
  case False
  then have split: "push_bit j e = push_bit 150 (push_bit (j - 150) e)"
    by (simp add: push_bit_push_bit)
  have "push_bit (j - 150) e * 2 ^ 150 < 1024 * 2 ^ 150"
    using assms(3) unfolding split push_bit_eq_mult [of 150] by simp
  then have "push_bit (j - 150) e < 1024" by (simp only: mult_less_cancel2)
  moreover have "0 < push_bit (j - 150) e" using assms(1) by (simp add: push_bit_eq_mult)
  ultimately show ?thesis unfolding split by (intro crc_burst) simp_all
qed

text \<open>A burst of ten bits or fewer anywhere in the 160-bit word is caught: no two accepted codes
  differ by one.\<close>

lemma kit_burst_refused':
  assumes "normalise typed = Inr code" "well_formed code'" "length code' = 32"
    and "symbols_value code' = symbols_value code XOR push_bit j e" "0 < e" "e < 1024"
  shows "normalise (JStr code') = Inl Kit_typo"
proof -
  note code = normalise_Inr [OF assms(1)]
  have less: "symbols_value c < 2 ^ 160" if "well_formed c" "length c = 32" for c
    using symbols_value_less [OF that(1)] that(2) by simp
  have "push_bit j e = symbols_value code' XOR symbols_value code"
    unfolding assms(4) by (rule xor_cancel_left [symmetric])
  moreover have "take_bit 160 (symbols_value code' XOR symbols_value code) = symbols_value code' XOR symbols_value code"
    using take_bit_nat_eq_self [OF less [OF assms(2,3)]] take_bit_nat_eq_self [OF less [OF code(1,2)]]
    by (simp only: take_bit_xor)
  ultimately have "push_bit j e < 2 ^ 160" by (metis take_bit_nat_less_exp)
  then have "crc_loop (push_bit j e) 160 0 \<noteq> 0" using assms by (intro burst_any)
  moreover have "crc_loop (symbols_value code') 160 (0 XOR 0) =
      crc_loop (symbols_value code) 160 0 XOR crc_loop (push_bit j e) 160 0"
    unfolding assms(4) by (rule crc_loop_xor)
  ultimately show ?thesis
    using code normalise_code [OF assms(2,3)] by simp
qed

lemma symbols_value_update:
  assumes "well_formed code" "i < length code" "symbol_value (code ! i) = Some d" "symbol_value x = Some d'"
  shows "symbols_value (code[i := x]) = symbols_value code XOR push_bit (5 * (length code - Suc i)) (d XOR d')"
proof -
  let ?a = "take i code" and ?b = "drop (Suc i) code"
  have wf: "well_formed ?b" using assms(1) by (auto simp: well_formed_def dest: in_set_dropD)
  have val: "symbols_value (?a @ [c] @ ?b) =
      push_bit (5 * length ?b) (push_bit 5 (symbols_value ?a) XOR v) XOR symbols_value ?b"
    if "symbol_value c = Some v" for c v
    using symbols_value_append [OF wf, of "?a @ [c]"] that by (simp add: symbols_value_snoc)
  have "code = ?a @ [code ! i] @ ?b" using assms(2) by (simp add: id_take_nth_drop [symmetric])
  then have W: "symbols_value code =
      push_bit (5 * length ?b) (push_bit 5 (symbols_value ?a) XOR d) XOR symbols_value ?b"
    using val [OF assms(3)] by metis
  have "code[i := x] = ?a @ [x] @ ?b" using assms(2) by (simp add: upd_conv_take_nth_drop)
  then have W': "symbols_value (code[i := x]) =
      push_bit (5 * length ?b) (push_bit 5 (symbols_value ?a) XOR d') XOR symbols_value ?b"
    using val [OF assms(4)] by simp
  show ?thesis
    unfolding W W' push_bit_xor using assms(2) by (simp add: xor_swap_middle)
qed

lemma well_formed_update: "well_formed code \<Longrightarrow> symbol_value x \<noteq> None \<Longrightarrow> well_formed (code[i := x])"
  unfolding well_formed_def by (auto dest: set_update_subset_insert [THEN subsetD])

lemma symbol_value_inj: "symbol_value c = Some v \<Longrightarrow> symbol_value d = Some v \<Longrightarrow> c = d"
  using symbol_valueD by metis

lemma xor_less_32: "(a :: nat) < 32 \<Longrightarrow> b < 32 \<Longrightarrow> a XOR b < 32"
  using take_bit_nat_less_exp [of 5 "a XOR b"] by (simp add: take_bit_xor take_bit_nat_eq_self)

lemma symbol_xor:
  assumes "symbol_value c = Some d" "symbol_value x = Some d'" "c \<noteq> x"
  shows "0 < d XOR d'" "d XOR d' < 32"
proof -
  show "d XOR d' < 32" using assms symbol_valueD xor_less_32 by blast
  have "d \<noteq> d'" using assms symbol_value_inj by blast
  then show "0 < d XOR d'" using xor_nat_eq_0_iff [of d d'] by simp
qed

lemma double_shift:
  assumes "0 < (x :: nat)" "x < 32"
  shows "0 < push_bit 5 x XOR x" "push_bit 5 x XOR x < 1024"
proof -
  have "take_bit 5 (push_bit 5 x XOR x) = x"
    using assms(2) by (simp add: take_bit_xor take_bit_push_bit take_bit_nat_eq_self)
  with assms(1) show "0 < push_bit 5 x XOR x" by (metis gr0I take_bit_of_0)
  have "take_bit 10 (push_bit 5 x XOR x) = push_bit 5 x XOR x"
    using assms(2) by (simp add: take_bit_xor take_bit_nat_eq_self push_bit_eq_mult)
  then show "push_bit 5 x XOR x < 1024"
    using take_bit_nat_less_exp [of 10 "push_bit 5 x XOR x"] by simp
qed

lemma well_formed_nth: "well_formed code \<Longrightarrow> i < length code \<Longrightarrow> \<exists>d. symbol_value (code ! i) = Some d"
  by (auto simp: well_formed_def)

text \<open>C21: every code that differs from an accepted one in exactly one symbol, a data symbol or a check
  symbol, is refused as a typing error.\<close>

theorem kit_wrong_symbol_refused:
  assumes "normalise typed = Inr code" "i < 32" "symbol_value x \<noteq> None" "x \<noteq> code ! i"
  shows "normalise (JStr (code[i := x])) = Inl Kit_typo"
proof -
  note code = normalise_Inr [OF assms(1)]
  obtain d d' where d: "symbol_value (code ! i) = Some d" "symbol_value x = Some d'"
    using well_formed_nth [OF code(1), of i] code(2) assms(2,3) by auto
  have "symbols_value (code[i := x]) = symbols_value code XOR push_bit (5 * (31 - i)) (d XOR d')"
    using symbols_value_update [OF code(1) _ d] code(2) assms(2) by simp
  then show ?thesis
    using kit_burst_refused' [OF assms(1) well_formed_update [OF code(1) assms(3)] _ _ symbol_xor(1) [OF d]]
      symbol_xor(2) [OF d] assms(4) code(2) by fastforce
qed

text \<open>Exchanging two different neighbouring symbols of an accepted code is refused as a typing
  error.\<close>

theorem kit_swap_refused:
  assumes "normalise typed = Inr code" "Suc i < 32" "code ! i \<noteq> code ! Suc i"
  shows "normalise (JStr (code[i := code ! Suc i, Suc i := code ! i])) = Inl Kit_typo"
proof -
  note code = normalise_Inr [OF assms(1)]
  let ?one = "code[i := code ! Suc i]" and ?s = "5 * (30 - i)"
  obtain d d' where d: "symbol_value (code ! i) = Some d" "symbol_value (code ! Suc i) = Some d'"
    using well_formed_nth [OF code(1)] code(2) assms(2) by (metis Suc_lessD)
  note x = symbol_xor [OF d assms(3)]
  have wf: "well_formed ?one" "well_formed (?one[Suc i := code ! i])"
    using code(1) d by (simp_all add: well_formed_update)
  have "symbols_value (?one[Suc i := code ! i]) = symbols_value ?one XOR push_bit ?s (d' XOR d)"
    using symbols_value_update [OF wf(1) _ _ d(1), of "Suc i" d'] d(2) code(2) assms(2) by simp
  moreover have "symbols_value ?one = symbols_value code XOR push_bit (5 * (31 - i)) (d XOR d')"
    using symbols_value_update [OF code(1) _ d] code(2) assms(2) by simp
  moreover have "5 * (31 - i) = ?s + 5" using assms(2) by simp
  ultimately have "symbols_value (?one[Suc i := code ! i]) =
      symbols_value code XOR push_bit ?s (push_bit 5 (d XOR d') XOR (d XOR d'))"
    by (simp add: push_bit_xor push_bit_push_bit xor.commute xor.left_commute xor.assoc)
  moreover note double_shift [OF x]
  ultimately show ?thesis
    using kit_burst_refused' [OF assms(1) wf(2)] code(2) by fastforce
qed

text \<open>Two codes of the kit's test vectors: of the numbers zero and one.\<close>

lemma encode_accepted:
  assumes "encode k = Inr code"
  shows "normalise (JStr code) = Inr code"
proof -
  from assms have "0 \<le> k" "k < 2 ^ 150" by (auto simp: encode_def kit_consts split: if_splits)
  then show ?thesis using encode_valid [of k] assms normalise_code by auto
qed

lemma encode_0: "encode 0 = Inr ''00000000000000000000000000000000''"
proof -
  have "crc10 0 150 = 0" by (simp add: crc10_bitwise crc_bits_def)
  then show ?thesis by (simp add: encode_def kit_consts symbols_def ALPHABET_def upt_rec)
qed

lemma encode_1: "encode 1 = Inr ''000000000000000000000000000001HK''"
proof -
  have "crc10 1 150 = 563"
    using crc_loop_add [of 1 149 1 0] by (simp add: crc10_bitwise crc_bits_def crc_bit_def kit_consts)
  then show ?thesis by (simp add: encode_def kit_consts symbols_def ALPHABET_def upt_rec drop_bit_eq_div)
qed

lemma kit_wrong_symbol_witness:
  "normalise (JStr ''00000000000000000000000000000001'') = Inl Kit_typo"
proof -
  have "symbol_value (CHR ''1'') \<noteq> None" by (simp add: symbol_value_def ALPHABET_def upt_rec)
  then show ?thesis
    using kit_wrong_symbol_refused [OF encode_accepted [OF encode_0], of 31 "CHR ''1''"] by simp
qed

lemma kit_swap_witness:
  "normalise (JStr ''000000000000000000000000000001KH'') = Inl Kit_typo"
  using kit_swap_refused [OF encode_accepted [OF encode_1], of 30] by simp

end
