(* ===== verification/Crypto_Registry.thy ===== *)
theory Crypto_Registry
  imports Sha256 Canonical_Json
begin

unbundle bit_operations_syntax

text \<open>
  \<open>qvault/crypto/{interfaces,registry}.py\<close> and \<open>qvault/security/master_key.py\<close>: the provider
  interfaces, the registry that resolves an \<open>alg_id\<close>, and the server master key's uses.

  A provider is a record of functions: the algorithms themselves are third-party code and stay
  parameters.  Entropy is an argument (\<open>keygen\<close> takes the random bytes, \<open>encrypt\<close> the nonce), and
  \<open>decrypt\<close> gives \<open>None\<close> where the tag does not verify.  HMAC is written out over the hash.
\<close>

section \<open>Providers\<close>

record alg_meta =
  am_alg_id :: ustr
  am_family :: ustr
  am_security_category :: int
  am_backend :: ustr
  am_sizes :: "(ustr \<times> nat) list"
  am_quantum_vulnerable :: bool

record key_pair =
  kp_public_key :: bytes
  kp_secret_key :: bytes
  kp_alg_id :: ustr

record signature_provider =
  sp_meta :: alg_meta
  sp_keygen :: "bytes \<Rightarrow> key_pair"
  sp_sign :: "bytes \<Rightarrow> bytes \<Rightarrow> bytes"
  sp_verify :: "bytes \<Rightarrow> bytes \<Rightarrow> bytes \<Rightarrow> bool"

record kem_provider =
  kem_meta :: alg_meta
  kem_keygen :: "bytes \<Rightarrow> key_pair"
  kem_encapsulate :: "bytes \<Rightarrow> bytes \<Rightarrow> bytes \<times> bytes"
  kem_decapsulate :: "bytes \<Rightarrow> bytes \<Rightarrow> bytes"

record symmetric_provider =
  sy_meta :: alg_meta
  sy_encrypt :: "bytes \<Rightarrow> bytes \<Rightarrow> bytes \<Rightarrow> bytes \<Rightarrow> bytes \<times> bytes"
  sy_decrypt :: "bytes \<Rightarrow> bytes \<Rightarrow> bytes \<Rightarrow> bytes \<Rightarrow> bytes option"

section \<open>The registry\<close>

record registry =
  rg_sig :: "(ustr \<times> signature_provider) list"
  rg_kem :: "(ustr \<times> kem_provider) list"
  rg_sym :: "(ustr \<times> symmetric_provider) list"
  rg_backend :: ustr

datatype crypto_error = Unknown_algorithm ustr

definition empty_registry :: registry where
  "empty_registry = \<lparr>rg_sig = [], rg_kem = [], rg_sym = [], rg_backend = ''unknown''\<rparr>"

definition register_signature :: "registry \<Rightarrow> signature_provider \<Rightarrow> registry" where
  "register_signature r p = r\<lparr>rg_sig := dict_set (am_alg_id (sp_meta p)) p (rg_sig r)\<rparr>"

definition register_kem :: "registry \<Rightarrow> kem_provider \<Rightarrow> registry" where
  "register_kem r p = r\<lparr>rg_kem := dict_set (am_alg_id (kem_meta p)) p (rg_kem r)\<rparr>"

definition register_symmetric :: "registry \<Rightarrow> symmetric_provider \<Rightarrow> registry" where
  "register_symmetric r p = r\<lparr>rg_sym := dict_set (am_alg_id (sy_meta p)) p (rg_sym r)\<rparr>"

definition resolve :: "(ustr \<times> 'p) list \<Rightarrow> ustr \<Rightarrow> crypto_error + 'p" where
  "resolve providers alg_id =
     (case map_of providers alg_id of None \<Rightarrow> Inl (Unknown_algorithm alg_id) | Some p \<Rightarrow> Inr p)"

definition signature :: "registry \<Rightarrow> ustr \<Rightarrow> crypto_error + signature_provider" where
  "signature r alg_id = resolve (rg_sig r) alg_id"

definition kem :: "registry \<Rightarrow> ustr \<Rightarrow> crypto_error + kem_provider" where
  "kem r alg_id = resolve (rg_kem r) alg_id"

definition symmetric :: "registry \<Rightarrow> ustr \<Rightarrow> crypto_error + symmetric_provider" where
  "symmetric r alg_id = resolve (rg_sym r) alg_id"

definition list_signature_algs :: "registry \<Rightarrow> ustr list" where
  "list_signature_algs r = sort (map fst (rg_sig r))"

definition list_kem_algs :: "registry \<Rightarrow> ustr list" where
  "list_kem_algs r = sort (map fst (rg_kem r))"

definition has_signature :: "registry \<Rightarrow> ustr \<Rightarrow> bool" where
  "has_signature r alg_id \<longleftrightarrow> alg_id \<in> set (map fst (rg_sig r))"

section \<open>The dictionary interface\<close>

text \<open>What a client of a keyed table relies on: a later binding is found, the others are kept.\<close>

locale dictionary =
  fixes put :: "'k \<Rightarrow> 'v \<Rightarrow> 'd \<Rightarrow> 'd"
    and find :: "'d \<Rightarrow> 'k \<Rightarrow> 'v option"
    and empty :: 'd
  assumes find_put: "find (put k v d) k' = (if k' = k then Some v else find d k')"
    and find_empty: "find empty k = None"
begin

fun put_all :: "('k \<times> 'v) list \<Rightarrow> 'd \<Rightarrow> 'd" where
  "put_all [] d = d"
| "put_all ((k, v) # kvs) d = put_all kvs (put k v d)"

lemma find_put_all: "find (put_all kvs d) k = (case map_of (rev kvs) k of Some v \<Rightarrow> Some v | None \<Rightarrow> find d k)"
  by (induction kvs d rule: put_all.induct) (auto simp: find_put map_add_def split: option.splits)

lemma put_shadow: "find (put k v (put k w d)) k' = find (put k v d) k'"
  by (simp add: find_put)

lemma put_commute: "k \<noteq> l \<Longrightarrow> find (put k v (put l w d)) x = find (put l w (put k v d)) x"
  by (simp add: find_put)

lemma put_keeps: "find d k = Some v \<Longrightarrow> k' \<noteq> k \<Longrightarrow> find (put k' w d) k = Some v"
  by (simp add: find_put)

end

lemma map_of_dict_set: "map_of (dict_set k v d) k' = (if k' = k then Some v else map_of d k')"
  by (induction k v d rule: dict_set.induct) auto

interpretation dict: dictionary dict_set map_of "[]"
  by unfold_locales (simp_all add: map_of_dict_set)

lemma keys_dict_set: "set (map fst (dict_set k v d)) = insert k (set (map fst d))"
  by (induction k v d rule: dict_set.induct) auto

lemma signature_Inr: "signature r a = Inr p \<longleftrightarrow> map_of (rg_sig r) a = Some p"
  by (simp add: signature_def resolve_def split: option.splits)

lemma signature_register:
  "signature (register_signature r p) a = (if a = am_alg_id (sp_meta p) then Inr p else signature r a)"
  by (simp add: signature_def resolve_def register_signature_def dict.find_put)

lemma has_signature_iff: "has_signature r a \<longleftrightarrow> (\<exists>p. signature r a = Inr p)"
  unfolding signature_Inr by (metis has_signature_def list.set_map map_of_eq_None_iff option.exhaust option.distinct(1))

text \<open>Registering an algorithm makes exactly its own identifier resolve to it.  Every identifier that
  resolved before and is not the new one resolves to the same provider, so switching or adding an
  algorithm never changes what verifies an artefact already stored.\<close>

theorem registry_agility:
  "signature (register_signature r p) a = (if a = am_alg_id (sp_meta p) then Inr p else signature r a)
   \<and> kem (register_signature r p) = kem r \<and> symmetric (register_signature r p) = symmetric r
   \<and> (has_signature (register_signature r p) a \<longleftrightarrow> a = am_alg_id (sp_meta p) \<or> has_signature r a)"
proof -
  have "has_signature (register_signature r p) a \<longleftrightarrow> a = am_alg_id (sp_meta p) \<or> has_signature r a"
    unfolding has_signature_iff signature_register by auto
  moreover have "kem (register_signature r p) = kem r" "symmetric (register_signature r p) = symmetric r"
    by (simp_all add: kem_def symmetric_def register_signature_def fun_eq_iff)
  ultimately show ?thesis using signature_register by blast
qed

section \<open>The master key\<close>

definition hmac_pad :: "nat \<Rightarrow> bytes \<Rightarrow> bytes" where
  "hmac_pad x key = map (\<lambda>c. byte_of (code_of c XOR x)) (key @ replicate (64 - length key) (CHR 0x00))"

text \<open>\<open>hmac.new(key, data, sha256).digest()\<close>: a key longer than the 64-byte block is hashed first.\<close>

definition hmac :: "(bytes \<Rightarrow> bytes) \<Rightarrow> bytes \<Rightarrow> bytes \<Rightarrow> bytes" where
  "hmac H key data =
     (let k = (if 64 < length key then H key else key)
      in H (hmac_pad 0x5c k @ H (hmac_pad 0x36 k @ data)))"

definition MASTER_AAD :: bytes where "MASTER_AAD = ''qvault:master-wrap:v1''"
definition MAC_DS :: bytes where "MAC_DS = ''qvault:system-pubkey-mac:v1''"
definition CHALLENGE_DS :: bytes where "CHALLENGE_DS = ''qvault:device-enrol-challenge:v1''"
definition KIT_PEPPER_DS :: bytes where "KIT_PEPPER_DS = ''qvault:kit-pepper:v1|''"
definition KIT_PK_DS :: bytes where "KIT_PK_DS = ''qvault:recovery-kit-pk:v1|''"
definition KIT_CONFIRM_DS :: bytes where "KIT_CONFIRM_DS = ''qvault:kit-confirm:v1|''"
definition PAIR_TOKEN_DS :: bytes where "PAIR_TOKEN_DS = ''qvault:pair-token:v1|''"
definition PHONE_CODE_DS :: bytes where "PHONE_CODE_DS = ''qvault:recovery-phone-code:v1|''"

text \<open>The configuration the crypto layer reads, and what it resolves to.\<close>

record crypto_env =
  ce_hash :: "bytes \<Rightarrow> bytes"
  ce_registry :: registry
  ce_server_master_key :: "ustr option"
  ce_debug :: bool
  ce_testing :: bool
  ce_secret_key :: ustr

definition parse_hex_key :: "ustr \<Rightarrow> bytes option" where
  "parse_hex_key raw =
     (let raw' = strip raw in if str_len raw' = 64 then from_hex raw' else None)"

datatype master_key_error = Bad_master_key | Master_key_required

definition get_master_key :: "crypto_env \<Rightarrow> master_key_error + bytes" where
  "get_master_key env =
     (case ce_server_master_key env of
        Some (c # cs) \<Rightarrow> (case parse_hex_key (c # cs) of None \<Rightarrow> Inl Bad_master_key | Some key \<Rightarrow> Inr key)
      | _ \<Rightarrow>
        (if ce_debug env \<or> ce_testing env
         then Inr (ce_hash env (''qvault-dev-master:'' @ ce_secret_key env))
         else Inl Master_key_required))"

definition tagged_mac :: "crypto_env \<Rightarrow> bytes \<Rightarrow> bytes \<Rightarrow> master_key_error + bytes" where
  "tagged_mac env ds data = bindE (get_master_key env) (\<lambda>key. Inr (hmac (ce_hash env) key (ds @ data)))"

definition verify_tagged_mac :: "crypto_env \<Rightarrow> bytes \<Rightarrow> bytes \<Rightarrow> bytes option \<Rightarrow> master_key_error + bool" where
  "verify_tagged_mac env ds data tag =
     (case tag of
        Some (c # cs) \<Rightarrow> bindE (tagged_mac env ds data) (\<lambda>m. Inr (m = c # cs))
      | _ \<Rightarrow> Inr False)"

definition mac :: "crypto_env \<Rightarrow> bytes \<Rightarrow> master_key_error + bytes" where
  "mac env data = tagged_mac env MAC_DS data"

definition verify_mac :: "crypto_env \<Rightarrow> bytes \<Rightarrow> bytes option \<Rightarrow> master_key_error + bool" where
  "verify_mac env data tag = verify_tagged_mac env MAC_DS data tag"

definition challenge_mac :: "crypto_env \<Rightarrow> bytes \<Rightarrow> master_key_error + bytes" where
  "challenge_mac env data = tagged_mac env CHALLENGE_DS data"

definition verify_challenge_mac :: "crypto_env \<Rightarrow> bytes \<Rightarrow> bytes option \<Rightarrow> master_key_error + bool" where
  "verify_challenge_mac env data tag = verify_tagged_mac env CHALLENGE_DS data tag"

definition kit_pepper :: "crypto_env \<Rightarrow> ustr \<Rightarrow> master_key_error + bytes" where
  "kit_pepper env kit_uuid = tagged_mac env KIT_PEPPER_DS kit_uuid"

definition kit_pk_mac :: "crypto_env \<Rightarrow> bytes \<Rightarrow> master_key_error + bytes" where
  "kit_pk_mac env data = tagged_mac env KIT_PK_DS data"

definition verify_kit_pk_mac :: "crypto_env \<Rightarrow> bytes \<Rightarrow> bytes option \<Rightarrow> master_key_error + bool" where
  "verify_kit_pk_mac env data tag = verify_tagged_mac env KIT_PK_DS data tag"

definition kit_confirm_tag :: "crypto_env \<Rightarrow> ustr \<Rightarrow> ustr \<Rightarrow> master_key_error + bytes" where
  "kit_confirm_tag env kit_uuid last_group = tagged_mac env KIT_CONFIRM_DS (kit_uuid @ ''|'' @ last_group)"

definition pairing_token :: "crypto_env \<Rightarrow> ustr \<Rightarrow> bytes \<Rightarrow> master_key_error + bytes" where
  "pairing_token env pairing_uuid salt = tagged_mac env PAIR_TOKEN_DS (pairing_uuid @ ''|'' @ salt)"

definition phone_code_tag :: "crypto_env \<Rightarrow> int \<Rightarrow> ustr \<Rightarrow> ustr \<Rightarrow> master_key_error + bytes" where
  "phone_code_tag env approval_id request_uuid code =
     tagged_mac env PHONE_CODE_DS (dec_int approval_id @ ''|'' @ request_uuid @ ''|'' @ code)"

end
