(* ===== verification/Statement.thy ===== *)
theory Statement
  imports Canonical_Json Merkle
begin

text \<open>
  \<open>qvault/transparency/statement.py\<close>: the bytes hashed for a ledger entry, and the bytes the log and
  a witness sign for a checkpoint.  A statement is the plain dictionary, a \<open>json\<close> value.

  Shown: the entry preimage determines every field of the entry, so an entry hash binds them all
  unless SHA-256 collides, and the log's and a witness's signed bytes determine the statement.
\<close>

section \<open>Optional fields\<close>

definition json_int :: "int option \<Rightarrow> json" where
  "json_int x = (case x of None \<Rightarrow> JNull | Some i \<Rightarrow> JInt i)"

definition json_str :: "ustr option \<Rightarrow> json" where
  "json_str x = (case x of None \<Rightarrow> JNull | Some s \<Rightarrow> JStr s)"

lemma json_opt_simps [simp]:
  "jwf (json_int a)" "jwf (json_str b)"
  "norm (json_int a) = json_int a" "norm (json_str b) = json_str b"
  "json_int a = json_int a' \<longleftrightarrow> a = a'" "json_str b = json_str b' \<longleftrightarrow> b = b'"
  by (auto simp: json_int_def json_str_def split: option.splits)

section \<open>Ledger entries\<close>

definition ENTRY_DS :: bytes where "ENTRY_DS = ''QVAULT-LEDGER-v1|''"

definition CHECKPOINT_DS :: bytes where "CHECKPOINT_DS = ''QVAULT-CHECKPOINT-v1|''"

definition WITNESS_DS :: bytes where "WITNESS_DS = ''QVAULT-WITNESS-v1|''"

text \<open>The keyword arguments of \<open>entry_hash\<close>.\<close>

record entry_fields =
  le_seq :: int
  le_timestamp :: ustr
  le_actor :: ustr
  le_event_type :: ustr
  le_payload_hash :: ustr
  le_prev_hash :: ustr
  le_actor_id :: "int option"
  le_vault_id :: "int option"
  le_ref_type :: "ustr option"
  le_ref_id :: "ustr option"

definition entry_object :: "entry_fields \<Rightarrow> json" where
  "entry_object e = JObj
    [(''seq'', JInt (le_seq e)),
     (''timestamp'', JStr (le_timestamp e)),
     (''actor'', JStr (le_actor e)),
     (''actor_id'', json_int (le_actor_id e)),
     (''event_type'', JStr (le_event_type e)),
     (''vault_id'', json_int (le_vault_id e)),
     (''ref_type'', json_str (le_ref_type e)),
     (''ref_id'', json_str (le_ref_id e)),
     (''payload_hash'', JStr (le_payload_hash e)),
     (''prev_hash'', JStr (le_prev_hash e))]"

definition entry_preimage :: "entry_fields \<Rightarrow> bytes" where
  "entry_preimage e = ENTRY_DS @ canonical_json (entry_object e)"

definition sha256_hex :: "(bytes \<Rightarrow> bytes) \<Rightarrow> bytes \<Rightarrow> ustr" where
  "sha256_hex H data = to_hex (H data)"

definition entry_hash :: "(bytes \<Rightarrow> bytes) \<Rightarrow> entry_fields \<Rightarrow> ustr" where
  "entry_hash H e = sha256_hex H (entry_preimage e)"

definition entry_leaf_hash :: "(bytes \<Rightarrow> bytes) \<Rightarrow> ustr \<Rightarrow> bytes option" where
  "entry_leaf_hash H entry_hash_hex = map_option (leaf_hash H) (from_hex entry_hash_hex)"

section \<open>Checkpoints\<close>

definition checkpoint_statement :: "ustr \<Rightarrow> int \<Rightarrow> ustr \<Rightarrow> int \<Rightarrow> ustr \<Rightarrow> ustr \<Rightarrow> json" where
  "checkpoint_statement origin tree_size root_hash head_seq head_hash stamp = JObj
    [(''origin'', JStr origin),
     (''tree_size'', JInt tree_size),
     (''root_hash'', JStr root_hash),
     (''head_seq'', JInt head_seq),
     (''head_hash'', JStr head_hash),
     (''timestamp'', JStr stamp)]"

definition checkpoint_bytes :: "json \<Rightarrow> bytes" where
  "checkpoint_bytes statement = CHECKPOINT_DS @ canonical_json statement"

definition witness_bytes :: "ustr \<Rightarrow> json \<Rightarrow> bytes" where
  "witness_bytes witness statement =
     WITNESS_DS @ canonical_json (JObj [(''witness'', JStr witness), (''checkpoint'', statement)])"

section \<open>The bytes determine the fields\<close>

lemma jwf_entry_object [simp]: "jwf (entry_object e)"
  by (simp add: entry_object_def)

lemma keys_entry_object:
  "json_keys (entry_object e) = [''seq'', ''timestamp'', ''actor'', ''actor_id'', ''event_type'', ''vault_id'',
    ''ref_type'', ''ref_id'', ''payload_hash'', ''prev_hash'']"
  by (simp add: entry_object_def)

lemma entry_preimage_inj [simp]: "entry_preimage e = entry_preimage e' \<longleftrightarrow> e = e'"
proof
  assume "entry_preimage e = entry_preimage e'"
  then have "canonical_json (entry_object e) = canonical_json (entry_object e')"
    by (simp add: entry_preimage_def)
  then have "json_values (entry_object e) = json_values (entry_object e')"
    by (rule canonical_values_eq) (simp_all add: keys_entry_object)
  then show "e = e'"
    by (cases e; cases e') (simp add: entry_object_def)
qed simp

lemma checkpoint_bytes_inj:
  "jwf s \<Longrightarrow> jwf s' \<Longrightarrow> checkpoint_bytes s = checkpoint_bytes s' \<longleftrightarrow> norm s = norm s'"
  by (simp add: checkpoint_bytes_def canonical_json_eq_iff)

lemma witness_bytes_inj:
  assumes "jwf s" "jwf s'"
  shows "witness_bytes w s = witness_bytes w' s' \<longleftrightarrow> w = w' \<and> norm s = norm s'"
proof
  assume "witness_bytes w s = witness_bytes w' s'"
  then have "canonical_json (JObj [(''witness'', JStr w), (''checkpoint'', s)]) =
      canonical_json (JObj [(''witness'', JStr w'), (''checkpoint'', s')])"
    by (simp add: witness_bytes_def)
  then have "json_values (JObj [(''witness'', JStr w), (''checkpoint'', s)]) =
      json_values (JObj [(''witness'', JStr w'), (''checkpoint'', s')])"
    by (rule canonical_values_eq) (use assms in simp_all)
  then show "w = w' \<and> norm s = norm s'" by simp
next
  assume "w = w' \<and> norm s = norm s'"
  then show "witness_bytes w s = witness_bytes w' s'"
    using assms by (simp add: witness_bytes_def canonical_json_eq_iff)
qed

text \<open>Equal entry hashes mean equal entries, field for field and the routing metadata included,
  unless SHA-256 collides on the two preimages.\<close>

theorem entry_hash_binds:
  assumes "entry_hash sha256 e = entry_hash sha256 e'" "collision_free sha256 {entry_preimage e, entry_preimage e'}"
  shows "e = e'"
proof -
  have "sha256 (entry_preimage e) = sha256 (entry_preimage e')"
    using assms(1) by (simp add: entry_hash_def sha256_hex_def)
  from collision_freeD [OF assms(2) this] have "entry_preimage e = entry_preimage e'" by blast
  then show ?thesis by simp
qed

definition sample_entry :: entry_fields where
  "sample_entry = \<lparr>le_seq = 1, le_timestamp = ''2026-01-01'', le_actor = ''SYSTEM'', le_event_type = ''vault_created'',
     le_payload_hash = ''00'', le_prev_hash = ''ff'', le_actor_id = None, le_vault_id = Some 3, le_ref_type = None,
     le_ref_id = None\<rparr>"

lemma entry_hash_binds_witness: "sample_entry = sample_entry"
  by (rule entry_hash_binds) (simp_all add: collision_free_def)

end
