(* ===== verification/Signing.thy ===== *)
theory Signing
  imports Statement
begin

text \<open>
  \<open>qvault/services/signing.py\<close>: the exact bytes a signer, a device or a recovering phone signs, and
  the texts derived from signed values (the payment sentence, the pairing check code).

  Shown: each builder's bytes determine every one of its arguments (the signers as a sorted list, a
  payment up to the order of its keys), and the payment sentence determines amount, network and both
  addresses.
\<close>

section \<open>Proposals and votes\<close>

definition DS_PROPOSAL :: bytes where "DS_PROPOSAL = ''QVAULT-SIG-v1:PROPOSAL''"
definition DS_VOTE :: bytes where "DS_VOTE = ''QVAULT-SIG-v1:VOTE''"
definition DS_DEVICE_ENROL :: bytes where "DS_DEVICE_ENROL = ''QVAULT-SIG-v1:DEVICE-ENROL''"
definition DS_DEVICE_PAIR :: bytes where "DS_DEVICE_PAIR = ''QVAULT-SIG-v1:DEVICE-PAIR''"
definition DS_RECOVERY :: bytes where "DS_RECOVERY = ''QVAULT-SIG-v1:RECOVERY''"

lemmas domain_tags =
  DS_PROPOSAL_def DS_VOTE_def DS_DEVICE_ENROL_def DS_DEVICE_PAIR_def DS_RECOVERY_def

text \<open>The keyword arguments of \<open>proposal_signing_bytes\<close>.\<close>

record proposal_fields =
  pf_vault_id :: int
  pf_proposal_uuid :: ustr
  pf_action_text :: ustr
  pf_file_sha256 :: "ustr option"
  pf_required_m :: int
  pf_required_n :: int
  pf_signers :: "int list"
  pf_nonce_hex :: ustr
  pf_created_at_iso :: ustr
  pf_action :: "json option"

definition proposal_object :: "proposal_fields \<Rightarrow> json" where
  "proposal_object p = JObj
    ([(''vault_id'', JInt (pf_vault_id p)),
      (''proposal_id'', JStr (pf_proposal_uuid p)),
      (''action_text'', JStr (pf_action_text p)),
      (''file_sha256'', json_str (pf_file_sha256 p)),
      (''policy'', JObj [(''M'', JInt (pf_required_m p)), (''N'', JInt (pf_required_n p)),
                        (''signers'', JList (map JInt (sort (pf_signers p))))]),
      (''nonce'', JStr (pf_nonce_hex p)),
      (''created_at'', JStr (pf_created_at_iso p))]
     @ (case pf_action p of None \<Rightarrow> [] | Some action \<Rightarrow> [(''action'', action)]))"

definition proposal_signing_bytes :: "proposal_fields \<Rightarrow> bytes" where
  "proposal_signing_bytes p = DS_PROPOSAL @ ''|'' @ canonical_json (proposal_object p)"

definition vote_object :: "ustr \<Rightarrow> ustr \<Rightarrow> int \<Rightarrow> json" where
  "vote_object proposal_payload_hash decision signer_id = JObj
    [(''proposal_payload_hash'', JStr proposal_payload_hash),
     (''decision'', JStr decision),
     (''signer_id'', JInt signer_id)]"

datatype signing_error = Invalid_decision | Invalid_purpose | Invalid_expiry | Not_ascii

definition vote_signing_bytes :: "ustr \<Rightarrow> ustr \<Rightarrow> int \<Rightarrow> signing_error + bytes" where
  "vote_signing_bytes proposal_payload_hash decision signer_id =
     (if decision \<notin> {''approve'', ''reject''} then Inl Invalid_decision
      else Inr (DS_VOTE @ ''|'' @ canonical_json (vote_object proposal_payload_hash decision signer_id)))"

section \<open>Devices\<close>

definition enrolment_object :: "int \<Rightarrow> ustr \<Rightarrow> ustr \<Rightarrow> ustr \<Rightarrow> json" where
  "enrolment_object user_id alg_id public_key_b64 challenge = JObj
    [(''user_id'', JInt user_id), (''alg_id'', JStr alg_id),
     (''public_key'', JStr public_key_b64), (''challenge'', JStr challenge)]"

definition device_enrolment_bytes :: "int \<Rightarrow> ustr \<Rightarrow> ustr \<Rightarrow> ustr \<Rightarrow> bytes" where
  "device_enrolment_bytes user_id alg_id public_key_b64 challenge =
     DS_DEVICE_ENROL @ ''|'' @ canonical_json (enrolment_object user_id alg_id public_key_b64 challenge)"

definition pairing_object :: "int \<Rightarrow> ustr \<Rightarrow> ustr \<Rightarrow> ustr \<Rightarrow> ustr \<Rightarrow> json" where
  "pairing_object user_id pairing_uuid alg_id public_key_b64 pending_token_digest = JObj
    [(''user_id'', JInt user_id), (''pairing_uuid'', JStr pairing_uuid), (''alg_id'', JStr alg_id),
     (''public_key'', JStr public_key_b64), (''pending_token_digest'', JStr pending_token_digest)]"

definition device_pairing_bytes :: "int \<Rightarrow> ustr \<Rightarrow> ustr \<Rightarrow> ustr \<Rightarrow> ustr \<Rightarrow> bytes" where
  "device_pairing_bytes user_id pairing_uuid alg_id public_key_b64 pending_token_digest =
     DS_DEVICE_PAIR @ ''|'' @ canonical_json (pairing_object user_id pairing_uuid alg_id public_key_b64 pending_token_digest)"

definition is_ascii :: "ustr \<Rightarrow> bool" where
  "is_ascii s \<longleftrightarrow> list_all (\<lambda>c. code_of c < (128 :: nat)) s"

definition pad_left :: "nat \<Rightarrow> ustr \<Rightarrow> ustr" where
  "pad_left w s = replicate (w - length s) (CHR ''0'') @ s"

definition pairing_check_code :: "(bytes \<Rightarrow> bytes) \<Rightarrow> ustr \<Rightarrow> ustr \<Rightarrow> ustr \<Rightarrow> signing_error + ustr" where
  "pairing_check_code H pairing_uuid public_key_sha256 pending_token_digest =
     (if \<not> (is_ascii pairing_uuid \<and> is_ascii public_key_sha256 \<and> is_ascii pending_token_digest)
      then Inl Not_ascii
      else let digest = H (''qvault:pair-check:v1|'' @ pairing_uuid @ ''|'' @ public_key_sha256 @ ''|''
                           @ pending_token_digest)
           in Inr (pad_left 6 (dec_nat (from_be (take 8 digest) mod 1000000))))"

section \<open>Recovery\<close>

definition RECOVERY_PURPOSES :: "ustr list" where
  "RECOVERY_PURPOSES = [''web_reset'', ''kit_confirm'']"

text \<open>The regular expression \<open>\d{4}-\d{2}-\d{2}T\d{2}:\d{2}:\d{2}Z\<close>, matched in full: \<open>d\<close> in the
  pattern below stands for a digit.\<close>

definition whole_second_utc :: "ustr \<Rightarrow> bool" where
  "whole_second_utc s \<longleftrightarrow>
     list_all2 (\<lambda>p c. if p = CHR ''d'' then is_digit c else c = p) ''dddd-dd-ddTdd:dd:ddZ'' s"

definition recovery_object :: "ustr \<Rightarrow> ustr \<Rightarrow> int \<Rightarrow> int \<Rightarrow> int \<Rightarrow> ustr \<Rightarrow> ustr \<Rightarrow> json" where
  "recovery_object purpose request_uuid user_id device_id key_id deployment expires_at = JObj
    [(''purpose'', JStr purpose), (''request_uuid'', JStr request_uuid), (''user_id'', JInt user_id),
     (''device_id'', JInt device_id), (''key_id'', JInt key_id), (''deployment'', JStr deployment),
     (''expires_at'', JStr expires_at)]"

definition recovery_signing_bytes ::
    "ustr \<Rightarrow> ustr \<Rightarrow> int \<Rightarrow> int \<Rightarrow> int \<Rightarrow> ustr \<Rightarrow> ustr \<Rightarrow> signing_error + bytes" where
  "recovery_signing_bytes purpose request_uuid user_id device_id key_id deployment expires_at =
     (if purpose \<notin> set RECOVERY_PURPOSES then Inl Invalid_purpose
      else if \<not> whole_second_utc expires_at then Inl Invalid_expiry
      else Inr (DS_RECOVERY @ ''|''
        @ canonical_json (recovery_object purpose request_uuid user_id device_id key_id deployment expires_at)))"

section \<open>Payments\<close>

definition PAYMENT_NETWORKS :: "(int \<times> ustr) list" where
  "PAYMENT_NETWORKS = [(11155111, ''Sepolia'')]"

definition WEI_PER_ETH :: int where "WEI_PER_ETH = 10 ^ 18"

definition rstrip_zeros :: "ustr \<Rightarrow> ustr" where
  "rstrip_zeros s = rev (dropWhile (\<lambda>c. c = CHR ''0'') (rev s))"

definition format_wei :: "int \<Rightarrow> ustr" where
  "format_wei value_wei =
     (let whole = value_wei div WEI_PER_ETH; fraction = value_wei mod WEI_PER_ETH
      in if fraction = 0 then dec_int whole @ '' ETH''
         else dec_int whole @ ''.'' @ rstrip_zeros (pad_left 18 (dec_int fraction)) @ '' ETH'')"

definition dict_get :: "ustr \<Rightarrow> (ustr \<times> json) list \<Rightarrow> json" where
  "dict_get k kvs = (case map_of kvs k of Some v \<Rightarrow> v | None \<Rightarrow> JNull)"

definition decimal_form :: "ustr \<Rightarrow> bool" where
  "decimal_form value \<longleftrightarrow>
     0 < length value \<and> length value \<le> 78 \<and> list_all is_digit value
     \<and> (value = ''0'' \<or> hd value \<noteq> CHR ''0'')"

text \<open>An object's items have distinct keys, as in a Python dictionary.  For a value with a character
  that is not ASCII the code returns \<open>None\<close> either way, so counting bytes instead of characters
  changes nothing.\<close>

definition payment_text :: "json \<Rightarrow> ustr option" where
  "payment_text action =
     (case action of
        JObj kvs \<Rightarrow>
          (case (dict_get ''value_wei'' kvs, dict_get ''chain_id'' kvs,
                 dict_get ''treasury'' kvs, dict_get ''to'' kvs) of
             (JStr value, JInt chain, JStr treasury, JStr to) \<Rightarrow>
               (if decimal_form value then
                  (case map_of PAYMENT_NETWORKS chain of
                     Some network \<Rightarrow>
                       Some (''Pay '' @ format_wei (int (dec_value value)) @ '' from this vault'' @ [CHR 0x27]
                         @ ''s treasury '' @ treasury @ '' to '' @ to @ '' on '' @ network @ ''.'')
                   | None \<Rightarrow> None)
                else None)
           | _ \<Rightarrow> None)
      | _ \<Rightarrow> None)"

section \<open>The bytes determine the arguments\<close>

text \<open>Two actions are the same when both are absent or they are the same object up to key order.\<close>

definition action_norm :: "json option \<Rightarrow> json option" where
  "action_norm a = map_option norm a"

definition action_wf :: "json option \<Rightarrow> bool" where
  "action_wf a = (case a of None \<Rightarrow> True | Some v \<Rightarrow> jwf v)"

lemma proposal_object_wf [simp]: "action_wf (pf_action p) \<Longrightarrow> jwf (proposal_object p)"
  by (auto simp: proposal_object_def action_wf_def split: option.splits)

lemma proposal_keys:
  "json_keys (proposal_object p) =
    [''vault_id'', ''proposal_id'', ''action_text'', ''file_sha256'', ''policy'', ''nonce'', ''created_at'']
    @ (if pf_action p = None then [] else [''action''])"
  by (auto simp: proposal_object_def split: option.splits)

lemma JInt_inj: "inj JInt"
  by (simp add: inj_def)

lemma map_norm_JInt [simp]: "map norm (map JInt xs) = map JInt xs"
  by simp

lemma norm_policy:
  "norm (JObj [(''M'', JInt m), (''N'', JInt n), (''signers'', JList (map JInt xs))]) =
    JObj [(''M'', JInt m), (''N'', JInt n), (''signers'', JList (map JInt xs))]"
  by (simp add: sort_key_sorted o_def)

lemma norm_policy_inj:
  "norm (JObj [(''M'', JInt m), (''N'', JInt n), (''signers'', JList (map JInt xs))]) =
   norm (JObj [(''M'', JInt m'), (''N'', JInt n'), (''signers'', JList (map JInt xs'))])
   \<longleftrightarrow> m = m' \<and> n = n' \<and> xs = xs'"
  unfolding norm_policy by (auto simp: inj_map_eq_map [OF JInt_inj])

lemma proposal_signing_bytes_inj:
  assumes "action_wf (pf_action p)" "action_wf (pf_action q)"
    and "proposal_signing_bytes p = proposal_signing_bytes q"
  shows "p\<lparr>pf_signers := sort (pf_signers p), pf_action := action_norm (pf_action p)\<rparr>
    = q\<lparr>pf_signers := sort (pf_signers q), pf_action := action_norm (pf_action q)\<rparr>"
proof -
  have eq: "canonical_json (proposal_object p) = canonical_json (proposal_object q)"
    using assms(3) by (simp add: proposal_signing_bytes_def)
  obtain kvs kws where o: "proposal_object p = JObj kvs" "proposal_object q = JObj kws"
    by (simp add: proposal_object_def)
  have "set (map fst kvs) = set (map fst kws)"
    using eq assms unfolding o [symmetric] by (intro canonical_keys_eq) (simp_all flip: o)
  then have "set (json_keys (proposal_object p)) = set (json_keys (proposal_object q))"
    by (simp add: o)
  moreover have "''action'' \<in> set (json_keys (proposal_object x)) \<longleftrightarrow> pf_action x \<noteq> None" for x
    by (simp add: proposal_keys)
  ultimately have none: "pf_action p = None \<longleftrightarrow> pf_action q = None" by metis
  have "json_values (proposal_object p) = json_values (proposal_object q)"
    using assms(1,2) none by (intro canonical_values_eq [OF eq]) (simp_all add: proposal_keys)
  then show ?thesis
    using none
    by (cases p; cases q)
      (auto simp: proposal_object_def action_norm_def norm_policy_inj simp del: norm.simps(2) split: option.splits)
qed

lemma vote_signing_bytes_inj:
  assumes "vote_signing_bytes h d i = Inr b" "vote_signing_bytes h' d' i' = Inr b"
  shows "h = h' \<and> d = d' \<and> i = i'"
proof -
  have "canonical_json (vote_object h d i) = canonical_json (vote_object h' d' i')"
    using assms by (auto simp: vote_signing_bytes_def split: if_splits)
  then have "json_values (vote_object h d i) = json_values (vote_object h' d' i')"
    by (rule canonical_values_eq) (simp_all add: vote_object_def)
  then show ?thesis by (simp add: vote_object_def)
qed

lemma device_enrolment_bytes_inj:
  assumes "device_enrolment_bytes u a k c = device_enrolment_bytes u' a' k' c'"
  shows "u = u' \<and> a = a' \<and> k = k' \<and> c = c'"
proof -
  have "canonical_json (enrolment_object u a k c) = canonical_json (enrolment_object u' a' k' c')"
    using assms by (simp add: device_enrolment_bytes_def)
  then have "json_values (enrolment_object u a k c) = json_values (enrolment_object u' a' k' c')"
    by (rule canonical_values_eq) (simp_all add: enrolment_object_def)
  then show ?thesis by (simp add: enrolment_object_def)
qed

lemma device_pairing_bytes_inj:
  assumes "device_pairing_bytes u p a k t = device_pairing_bytes u' p' a' k' t'"
  shows "u = u' \<and> p = p' \<and> a = a' \<and> k = k' \<and> t = t'"
proof -
  have "canonical_json (pairing_object u p a k t) = canonical_json (pairing_object u' p' a' k' t')"
    using assms by (simp add: device_pairing_bytes_def)
  then have "json_values (pairing_object u p a k t) = json_values (pairing_object u' p' a' k' t')"
    by (rule canonical_values_eq) (simp_all add: pairing_object_def)
  then show ?thesis by (simp add: pairing_object_def)
qed

lemma recovery_signing_bytes_inj:
  assumes "recovery_signing_bytes p r u d k n e = Inr b" "recovery_signing_bytes p' r' u' d' k' n' e' = Inr b"
  shows "p = p' \<and> r = r' \<and> u = u' \<and> d = d' \<and> k = k' \<and> n = n' \<and> e = e'"
proof -
  have "canonical_json (recovery_object p r u d k n e) = canonical_json (recovery_object p' r' u' d' k' n' e')"
    using assms by (auto simp: recovery_signing_bytes_def split: if_splits)
  then have "json_values (recovery_object p r u d k n e) = json_values (recovery_object p' r' u' d' k' n' e')"
    by (rule canonical_values_eq) (simp_all add: recovery_object_def)
  then show ?thesis by (simp add: recovery_object_def)
qed

section \<open>Amounts and the payment sentence\<close>

lemma dec_nat_less_10: "n < 10 \<Longrightarrow> dec_nat n = [byte_of (48 + n)]"
  by (subst dec_nat.simps) simp

lemma length_dec_nat: "n < 10 ^ w \<Longrightarrow> 0 < w \<Longrightarrow> length (dec_nat n) \<le> w"
proof (induction w arbitrary: n)
  case (Suc w)
  show ?case
  proof (cases "n < 10")
    case True
    then show ?thesis by (simp add: dec_nat_less_10)
  next
    case False
    then have "0 < w" using Suc.prems by (cases w) auto
    moreover have "n div 10 < 10 ^ w" using Suc.prems by (simp add: div_less_iff_less_mult mult.commute)
    ultimately have "length (dec_nat (n div 10)) \<le> w" using Suc.IH by blast
    then show ?thesis using False by (subst dec_nat.simps) simp
  qed
qed simp

lemma dec_value_zeros: "dec_value (replicate k (CHR ''0'') @ s) = dec_value s"
proof -
  have "foldl (\<lambda>v c. 10 * v + (code_of c - 48)) 0 (replicate k (CHR ''0'')) = (0 :: nat)"
    by (induction k) simp_all
  then show ?thesis by (simp add: dec_value_def)
qed

lemma rstrip_zeros_pad: "\<exists>k. s = rstrip_zeros s @ replicate k (CHR ''0'')"
proof -
  let ?z = "\<lambda>c. c = CHR ''0''"
  have "rev s = takeWhile ?z (rev s) @ dropWhile ?z (rev s)" by simp
  then have "s = rev (dropWhile ?z (rev s)) @ rev (takeWhile ?z (rev s))"
    by (metis rev_append rev_rev_ident)
  moreover have "\<forall>c \<in> set (rev (takeWhile ?z (rev s))). c = CHR ''0''"
    by (auto dest: set_takeWhileD)
  then have "rev (takeWhile ?z (rev s)) = replicate (length (takeWhile ?z (rev s))) (CHR ''0'')"
    by (intro replicate_eqI) simp_all
  ultimately show ?thesis unfolding rstrip_zeros_def by metis
qed

lemma rstrip_zeros_inj:
  assumes "rstrip_zeros s = rstrip_zeros t" "length s = length t"
  shows "s = t"
proof -
  obtain j k where "s = rstrip_zeros s @ replicate j (CHR ''0'')" "t = rstrip_zeros t @ replicate k (CHR ''0'')"
    using rstrip_zeros_pad by metis
  moreover from this assms have "j = k" by (metis add_left_cancel length_append length_replicate)
  ultimately show ?thesis using assms(1) by metis
qed

lemma pad_left_length: "length s \<le> w \<Longrightarrow> length (pad_left w s) = w"
  by (simp add: pad_left_def)

lemma fraction_inj:
  assumes "0 \<le> a" "a < 10 ^ 18" "0 \<le> b" "b < 10 ^ 18"
    and "rstrip_zeros (pad_left 18 (dec_int a)) = rstrip_zeros (pad_left 18 (dec_int b))"
  shows "a = b"
proof -
  have len: "length (pad_left 18 (dec_int c)) = 18" if "0 \<le> c" "c < 10 ^ 18" for c
  proof (rule pad_left_length)
    have "nat c < 10 ^ 18" using that by (simp add: nat_less_iff)
    then have "length (dec_nat (nat c)) \<le> 18" by (rule length_dec_nat) simp
    then show "length (dec_int c) \<le> 18" using that by (simp add: dec_int_def)
  qed
  have "pad_left 18 (dec_int a) = pad_left 18 (dec_int b)"
    by (rule rstrip_zeros_inj [OF assms(5)]) (simp only: len [OF assms(1,2)] len [OF assms(3,4)])
  then have "dec_value (dec_int a) = dec_value (dec_int b)"
    unfolding pad_left_def by (metis dec_value_zeros)
  then show ?thesis using assms by (simp add: dec_int_def)
qed

lemma dec_int_digits: "0 \<le> i \<Longrightarrow> \<forall>c \<in> set (dec_int i). is_digit c"
  by (simp add: dec_int_def dec_nat_digits)

lemma rstrip_zeros_digits: "\<forall>c \<in> set s. is_digit c \<Longrightarrow> \<forall>c \<in> set (rstrip_zeros s). is_digit c"
  unfolding rstrip_zeros_def by (auto dest: set_dropWhileD)

lemma format_wei_inj:
  assumes "0 \<le> v" "0 \<le> w" "format_wei v @ r = format_wei w @ s"
  shows "v = w \<and> r = s"
proof -
  define tail where "tail x = (if x mod WEI_PER_ETH = 0 then '' ETH''
      else ''.'' @ rstrip_zeros (pad_left 18 (dec_int (x mod WEI_PER_ETH))) @ '' ETH'')" for x
  have fw: "format_wei x = dec_int (x div WEI_PER_ETH) @ tail x" for x
    by (simp add: format_wei_def tail_def Let_def)
  have not_digit: "\<not> is_digit (hd (tail x @ y))" for x y
    by (auto simp: tail_def is_digit_def)
  have digits: "\<forall>c \<in> set (dec_int (x div WEI_PER_ETH)). is_digit c" if "0 \<le> x" for x
    using that by (intro dec_int_digits) (simp add: WEI_PER_ETH_def pos_imp_zdiv_nonneg_iff)
  have mod: "0 \<le> x mod WEI_PER_ETH" "x mod WEI_PER_ETH < 10 ^ 18" for x
    by (simp_all add: WEI_PER_ETH_def)
  have "dec_int (v div WEI_PER_ETH) @ (tail v @ r) = dec_int (w div WEI_PER_ETH) @ (tail w @ s)"
    using assms(3) by (simp add: fw)
  then have whole: "v div WEI_PER_ETH = w div WEI_PER_ETH" and tails: "tail v @ r = tail w @ s"
    using split_run [OF _ digits [OF assms(1)] digits [OF assms(2)], of "tail v @ r" "tail w @ s"] not_digit by auto
  have "v mod WEI_PER_ETH = w mod WEI_PER_ETH \<and> r = s"
  proof (cases "v mod WEI_PER_ETH = 0 \<or> w mod WEI_PER_ETH = 0")
    case True
    then show ?thesis using tails by (auto simp: tail_def split: if_splits)
  next
    case False
    let ?f = "\<lambda>x. rstrip_zeros (pad_left 18 (dec_int (x mod WEI_PER_ETH)))"
    have d: "\<forall>c \<in> set (?f x). is_digit c" for x
      using dec_int_digits [OF mod(1), of x]
      by (intro rstrip_zeros_digits) (auto simp: pad_left_def is_digit_def)
    have "?f v @ ('' ETH'' @ r) = ?f w @ ('' ETH'' @ s)"
      using tails False by (simp add: tail_def)
    then have "?f v = ?f w \<and> '' ETH'' @ r = '' ETH'' @ s"
      using split_run [OF _ d [of v] d [of w], of "'' ETH'' @ r" "'' ETH'' @ s"] by (auto simp: is_digit_def)
    then show ?thesis using fraction_inj [OF mod mod] by auto
  qed
  with whole show ?thesis by (metis div_mult_mod_eq)
qed

text \<open>Addresses are written without spaces.\<close>

definition no_space :: "ustr \<Rightarrow> bool" where
  "no_space s \<longleftrightarrow> CHR '' '' \<notin> set s"

lemma split_space:
  assumes "a @ CHR '' '' # r = b @ CHR '' '' # s" "no_space a" "no_space b"
  shows "a = b \<and> r = s"
proof -
  have "a = b \<and> CHR '' '' # r = CHR '' '' # s"
    using assms by (intro split_run [where P = "\<lambda>c. c \<noteq> CHR '' ''"]) (auto simp: no_space_def)
  then show ?thesis by simp
qed

lemma payment_text_Some:
  assumes "payment_text action = Some t"
  obtains kvs v c tr to n where "action = JObj kvs"
    "dict_get ''value_wei'' kvs = JStr v" "dict_get ''chain_id'' kvs = JInt c"
    "dict_get ''treasury'' kvs = JStr tr" "dict_get ''to'' kvs = JStr to"
    "decimal_form v" "map_of PAYMENT_NETWORKS c = Some n"
    "t = ''Pay '' @ format_wei (int (dec_value v)) @ '' from this vault'' @ [CHR 0x27]
       @ ''s treasury '' @ tr @ '' to '' @ to @ '' on '' @ n @ ''.''"
  using assms by (auto simp: payment_text_def split: json.splits if_splits option.splits)

lemma networks_distinct: "map_of PAYMENT_NETWORKS c = Some n \<Longrightarrow> map_of PAYMENT_NETWORKS d = Some n \<Longrightarrow> c = d"
  by (auto simp: PAYMENT_NETWORKS_def split: if_splits)

text \<open>What a payment says: the amount in wei, the network, the treasury and the receiver.\<close>

definition payment_terms :: "json \<Rightarrow> nat \<times> json \<times> json \<times> json" where
  "payment_terms action =
     (case action of
        JObj kvs \<Rightarrow>
          (case dict_get ''value_wei'' kvs of JStr value \<Rightarrow> dec_value value | _ \<Rightarrow> 0,
           dict_get ''chain_id'' kvs, dict_get ''treasury'' kvs, dict_get ''to'' kvs)
      | _ \<Rightarrow> (0, JNull, JNull, JNull))"

definition address_text :: "json \<Rightarrow> bool" where
  "address_text v = (case v of JStr s \<Rightarrow> no_space s | _ \<Rightarrow> False)"

text \<open>C18: the one sentence a payment decision may carry says exactly what is paid: two payments with the
  same sentence have the same amount, network, treasury and receiver (addresses hold no space).\<close>

theorem payment_text_binds:
  assumes "payment_text a = Some t" "payment_text b = Some t"
    and "case payment_terms a of (_, _, treasury, to) \<Rightarrow> address_text treasury \<and> address_text to"
    and "case payment_terms b of (_, _, treasury, to) \<Rightarrow> address_text treasury \<and> address_text to"
  shows "payment_terms a = payment_terms b"
proof -
  obtain kvs v c tr to n where a: "a = JObj kvs" "dict_get ''value_wei'' kvs = JStr v" "dict_get ''chain_id'' kvs = JInt c"
    "dict_get ''treasury'' kvs = JStr tr" "dict_get ''to'' kvs = JStr to" "map_of PAYMENT_NETWORKS c = Some n"
    "t = ''Pay '' @ format_wei (int (dec_value v)) @ '' from this vault'' @ [CHR 0x27]
       @ ''s treasury '' @ tr @ '' to '' @ to @ '' on '' @ n @ ''.''"
    using assms(1) by (rule payment_text_Some) blast
  obtain kws v' c' tr' to' n' where b: "b = JObj kws" "dict_get ''value_wei'' kws = JStr v'" "dict_get ''chain_id'' kws = JInt c'"
    "dict_get ''treasury'' kws = JStr tr'" "dict_get ''to'' kws = JStr to'" "map_of PAYMENT_NETWORKS c' = Some n'"
    "t = ''Pay '' @ format_wei (int (dec_value v')) @ '' from this vault'' @ [CHR 0x27]
       @ ''s treasury '' @ tr' @ '' to '' @ to' @ '' on '' @ n' @ ''.''"
    using assms(2) by (rule payment_text_Some) blast
  have plain: "no_space tr" "no_space to" "no_space tr'" "no_space to'"
    using assms(3,4) a b by (simp_all add: payment_terms_def address_text_def)
  have "format_wei (int (dec_value v)) @ ('' from this vault'' @ [CHR 0x27] @ ''s treasury '' @ tr @ '' to '' @ to @ '' on '' @ n @ ''.'')
      = format_wei (int (dec_value v')) @ ('' from this vault'' @ [CHR 0x27] @ ''s treasury '' @ tr' @ '' to '' @ to' @ '' on '' @ n' @ ''.'')"
    using a(7) b(7) by simp
  from format_wei_inj [OF _ _ this] have v: "dec_value v = dec_value v'"
    and "'' from this vault'' @ [CHR 0x27] @ ''s treasury '' @ tr @ '' to '' @ to @ '' on '' @ n @ ''.'' =
      '' from this vault'' @ [CHR 0x27] @ ''s treasury '' @ tr' @ '' to '' @ to' @ '' on '' @ n' @ ''.''"
    by simp_all
  then have rest: "tr @ CHR '' '' # (''to '' @ to @ '' on '' @ n @ ''.'') = tr' @ CHR '' '' # (''to '' @ to' @ '' on '' @ n' @ ''.'')"
    by simp
  have tr: "tr = tr'" and rest': "to @ CHR '' '' # (''on '' @ n @ ''.'') = to' @ CHR '' '' # (''on '' @ n' @ ''.'')"
    using split_space [OF rest plain(1,3)] by auto
  have to: "to = to'" and n: "n = n'"
    using split_space [OF rest' plain(2,4)] by auto
  have "c = c'" using networks_distinct a(6) b(6) n by blast
  then show ?thesis using a b v tr to by (simp add: payment_terms_def)
qed

definition sample_payment :: json where
  "sample_payment = JObj [(''type'', JStr ''payment''), (''chain_id'', JInt 11155111),
     (''treasury'', JStr ''0xaa''), (''to'', JStr ''0xbb''), (''value_wei'', JStr ''1000000000000000000'')]"

lemma byte_of_digits:
  "byte_of 48 = CHR ''0''" "byte_of 49 = CHR ''1''"
  by code_simp+

lemma sample_payment_text:
  "payment_text sample_payment = Some (''Pay 1 ETH from this vault'' @ [CHR 0x27] @ ''s treasury 0xaa to 0xbb on Sepolia.'')"
  by (simp add: payment_text_def sample_payment_def dict_get_def decimal_form_def is_digit_def PAYMENT_NETWORKS_def
      format_wei_def WEI_PER_ETH_def dec_value_def dec_int_def dec_nat_less_10 byte_of_digits)

lemma payment_text_binds_witness: "payment_terms sample_payment = payment_terms sample_payment"
  by (rule payment_text_binds [OF sample_payment_text sample_payment_text])
    (simp_all add: payment_terms_def sample_payment_def dict_get_def address_text_def no_space_def)

end
