(* ===== verification/Models.thy ===== *)
theory Models
  imports Crypto_Registry Signing
begin

text \<open>
  \<open>qvault/models/\<close>: the rows of the tables the services read and write, the database as one
  record of tables, and the few queries every service uses.

  A column is a field with the table's prefix.  Times are UTC microseconds since 1970
  (\<open>AwareDateTime\<close> makes every stored time an aware UTC one), and \<open>isoformat\<close> writes them as Python
  does.  A table is the list of its rows in the order of insertion.  A column that the code reads
  defensively, because SQLite lets an editor store any type in it, is a \<open>json\<close> value.
\<close>

section \<open>Time\<close>

definition civil_from_days :: "int \<Rightarrow> int \<times> int \<times> int" where
  "civil_from_days days =
     (let z = days + 719468;
          era = z div 146097;
          doe = z mod 146097;
          yoe = (doe - doe div 1460 + doe div 36524 - doe div 146096) div 365;
          doy = doe - (365 * yoe + yoe div 4 - yoe div 100);
          mp = (5 * doy + 2) div 153;
          d = doy - (153 * mp + 2) div 5 + 1;
          m = (if mp < 10 then mp + 3 else mp - 9)
      in (yoe + era * 400 + (if m \<le> 2 then 1 else 0), m, d))"

definition day_microseconds :: int where
  "day_microseconds = 86400 * 1000000"

text \<open>\<open>datetime.isoformat()\<close> of an aware UTC time: the fraction is left out when it is zero.\<close>

definition isoformat :: "int \<Rightarrow> ustr" where
  "isoformat t =
     (let (y, m, d) = civil_from_days (t div day_microseconds);
          us = t mod day_microseconds;
          s = us div 1000000;
          frac = us mod 1000000;
          two = (\<lambda>n. pad_left 2 (dec_int n))
      in pad_left 4 (dec_int y) @ ''-'' @ two m @ ''-'' @ two d @ ''T''
         @ two (s div 3600) @ '':'' @ two (s div 60 mod 60) @ '':'' @ two (s mod 60)
         @ (if frac = 0 then [] else ''.'' @ pad_left 6 (dec_int frac)) @ ''+00:00'')"

section \<open>Rows\<close>

record user_row =
  u_id :: int
  u_email :: ustr
  u_display_name :: ustr
  u_password_hash :: ustr
  u_kek_salt :: bytes
  u_kdf_params :: ustr
  u_role :: ustr
  u_created_at :: int

record key_row =
  k_id :: int
  k_owner_id :: "int option"
  k_role :: ustr
  k_alg_id :: ustr
  k_backend :: ustr
  k_public_key :: bytes
  k_public_key_mac :: "bytes option"
  k_secret_key_wrapped :: "bytes option"
  k_secret_key_nonce :: "bytes option"
  k_wrap_domain :: ustr
  k_status :: ustr
  k_can_sign :: bool
  k_can_verify :: bool
  k_version :: int
  k_rotate_after :: "int option"
  k_created_at :: int
  k_retired_at :: "int option"

record ledger_entry = entry_fields +
  le_payload_json :: ustr
  le_entry_hash :: ustr

record anchor_row =
  an_id :: int
  an_seq :: int
  an_head_hash :: ustr
  an_alg_id :: ustr
  an_backend :: ustr
  an_key_id :: int
  an_signature :: bytes

record algorithm_config =
  ac_active_signature_alg :: ustr
  ac_active_kem_alg :: ustr
  ac_backend :: ustr
  ac_updated_by :: "int option"
  ac_updated_at :: int

record vault_row =
  v_id :: int
  v_name :: ustr
  v_owner_id :: int
  v_threshold_m :: int
  v_description :: "ustr option"
  v_kem_alg_id :: ustr
  v_kem_public_key :: bytes
  v_kem_key_id :: int

record vault_member =
  vm_vault_id :: int
  vm_user_id :: int
  vm_member_role :: ustr

record vault_rule =
  vr_vault_id :: int
  vr_requester_can_approve :: bool

record workspace_row =
  w_id :: int
  w_name :: ustr
  w_slug :: ustr
  w_created_at :: int
  w_sod_default :: bool
  w_checklist_dismissed_at :: "int option"

text \<open>The vaults an invitation grants are JSON in the column; the row holds the list it is.\<close>

record invitation_row =
  i_id :: int
  i_workspace_id :: int
  i_email :: ustr
  i_role :: ustr
  i_vault_grants :: "(int \<times> ustr) list"
  i_inviter_id :: int
  i_token_hash :: bytes
  i_created_at :: int
  i_expires_at :: int
  i_accepted_at :: "int option"
  i_accepted_by_id :: "int option"
  i_revoked_at :: "int option"

record workspace_member =
  wm_id :: int
  wm_workspace_id :: int
  wm_user_id :: int
  wm_role :: ustr
  wm_status :: ustr
  wm_joined_at :: int

record proposal_row =
  p_id :: int
  p_uuid :: ustr
  p_vault_id :: int
  p_creator_id :: int
  p_title :: ustr
  p_action_text :: ustr
  p_nonce :: bytes
  p_authorized_signers_snapshot :: ustr
  p_created_at_iso :: ustr
  p_payload_hash :: ustr
  p_required_m :: int
  p_required_n :: int
  p_status :: ustr
  p_expires_at :: "int option"
  p_approved_at :: "int option"
  p_rejected_at :: "int option"

record lifecycle_row =
  pl_proposal_id :: int
  pl_requester_can_approve :: "bool option"
  pl_withdrawn_at :: "int option"
  pl_withdrawn_by_id :: "int option"
  pl_raised_again_from_id :: "int option"

text \<open>The columns \<open>file_crypto_service\<close> fills in, then the row.\<close>

record file_columns =
  f_filename :: ustr
  f_content_sha256 :: ustr
  f_ciphertext_path :: ustr
  f_size_bytes :: int
  f_aes_nonce :: bytes
  f_kem_alg_id :: ustr
  f_kem_key_id :: int
  f_kem_ciphertext :: bytes
  f_wrapped_dek :: bytes
  f_dek_wrap_nonce :: bytes

record file_row = file_columns +
  f_proposal_id :: int

record fields_row =
  df_proposal_id :: int
  df_decision_type :: ustr
  df_template_version :: int
  df_fields_json :: ustr

record signature_row =
  s_id :: int
  s_proposal_id :: int
  s_signer_id :: int
  s_key_id :: int
  s_alg_id :: ustr
  s_backend :: ustr
  s_public_key :: bytes
  s_decision :: ustr
  s_signature :: bytes
  s_signed_payload_hash :: ustr
  s_reason :: "ustr option"
  s_created_at :: int

record treasury_row =
  t_id :: int
  t_vault_id :: int
  t_chain_id :: int
  t_address :: ustr
  t_threshold_m :: int
  t_signer_count :: int
  t_config_nonce :: int
  t_status :: ustr

record treasury_signer =
  ts_treasury_id :: int
  ts_user_id :: int
  ts_key_id :: int
  ts_identity_hex :: ustr

record action_row =
  pa_proposal_id :: int
  pa_treasury_id :: int
  pa_kind :: json
  pa_chain_id :: json
  pa_treasury_address :: json
  pa_to_address :: json
  pa_value_wei :: json
  pa_data_hex :: json
  pa_call_gas :: json
  pa_valid_until :: json
  pa_config_nonce :: json

record execution_signature =
  es_proposal_id :: int
  es_signer_id :: int
  es_key_id :: int
  es_alg_id :: ustr
  es_backend :: ustr
  es_public_key :: bytes
  es_digest :: bytes
  es_signature :: bytes
  es_identity_hex :: ustr

record reconfiguration_row =
  rc_id :: int
  rc_treasury_id :: int
  rc_state :: ustr

section \<open>The database\<close>

record db =
  db_users :: "user_row list"
  db_keys :: "key_row list"
  db_entries :: "ledger_entry list"
  db_anchors :: "anchor_row list"
  db_config :: "algorithm_config option"
  db_vaults :: "vault_row list"
  db_vault_members :: "vault_member list"
  db_vault_rules :: "vault_rule list"
  db_workspaces :: "workspace_row list"
  db_workspace_members :: "workspace_member list"
  db_proposals :: "proposal_row list"
  db_lifecycles :: "lifecycle_row list"
  db_files :: "file_row list"
  db_signatures :: "signature_row list"
  db_treasuries :: "treasury_row list"
  db_treasury_signers :: "treasury_signer list"
  db_actions :: "action_row list"
  db_execution_signatures :: "execution_signature list"
  db_reconfigurations :: "reconfiguration_row list"
  db_invitations :: "invitation_row list"
  db_decision_fields :: "fields_row list"

definition empty_db :: db where
  "empty_db = \<lparr>db_users = [], db_keys = [], db_entries = [], db_anchors = [], db_config = None,
     db_vaults = [], db_vault_members = [], db_vault_rules = [], db_workspaces = [],
     db_workspace_members = [], db_proposals = [], db_lifecycles = [], db_files = [],
     db_signatures = [], db_treasuries = [], db_treasury_signers = [], db_actions = [],
     db_execution_signatures = [], db_reconfigurations = [], db_invitations = [], db_decision_fields = []\<rparr>"

text \<open>The next primary key: one more than the largest in the table.\<close>

definition next_id :: "int list \<Rightarrow> int" where
  "next_id ids = fold max ids 0 + 1"

text \<open>\<open>ORDER BY key DESC LIMIT 1\<close>, the later row of two with the same key.\<close>

fun last_by :: "('a \<Rightarrow> 'k::linorder) \<Rightarrow> 'a list \<Rightarrow> 'a option" where
  "last_by f [] = None"
| "last_by f (x # xs) =
     (case last_by f xs of None \<Rightarrow> Some x | Some y \<Rightarrow> if f x \<le> f y then Some y else Some x)"

text \<open>\<open>ORDER BY key ASC LIMIT 1\<close>, the earlier row of two with the same key.\<close>

fun first_by :: "('a \<Rightarrow> 'k::linorder) \<Rightarrow> 'a list \<Rightarrow> 'a option" where
  "first_by f [] = None"
| "first_by f (x # xs) =
     (case first_by f xs of None \<Rightarrow> Some x | Some y \<Rightarrow> if f x \<le> f y then Some x else Some y)"

definition get_key :: "db \<Rightarrow> int \<Rightarrow> key_row option" where
  "get_key d i = find (\<lambda>k. k_id k = i) (db_keys d)"

definition get_vault :: "db \<Rightarrow> int \<Rightarrow> vault_row option" where
  "get_vault d i = find (\<lambda>v. v_id v = i) (db_vaults d)"

definition get_proposal :: "db \<Rightarrow> int \<Rightarrow> proposal_row option" where
  "get_proposal d i = find (\<lambda>p. p_id p = i) (db_proposals d)"

definition get_treasury :: "db \<Rightarrow> int \<Rightarrow> treasury_row option" where
  "get_treasury d i = find (\<lambda>t. t_id t = i) (db_treasuries d)"

definition lifecycle_of :: "db \<Rightarrow> proposal_row \<Rightarrow> lifecycle_row option" where
  "lifecycle_of d p = find (\<lambda>l. pl_proposal_id l = p_id p) (db_lifecycles d)"

definition action_of :: "db \<Rightarrow> proposal_row \<Rightarrow> action_row option" where
  "action_of d p = find (\<lambda>a. pa_proposal_id a = p_id p) (db_actions d)"

definition file_of :: "db \<Rightarrow> proposal_row \<Rightarrow> file_row option" where
  "file_of d p = find (\<lambda>f. f_proposal_id f = p_id p) (db_files d)"

definition signatures_of :: "db \<Rightarrow> proposal_row \<Rightarrow> signature_row list" where
  "signatures_of d p = filter (\<lambda>s. s_proposal_id s = p_id p) (db_signatures d)"

definition update_proposal :: "int \<Rightarrow> (proposal_row \<Rightarrow> proposal_row) \<Rightarrow> db \<Rightarrow> db" where
  "update_proposal i f d =
     d\<lparr>db_proposals := map (\<lambda>p. if p_id p = i then f p else p) (db_proposals d)\<rparr>"

section \<open>The stored payment\<close>

definition json_type_name :: "json \<Rightarrow> ustr" where
  "json_type_name v =
     (case v of JNull \<Rightarrow> ''NoneType'' | JBool _ \<Rightarrow> ''bool'' | JInt _ \<Rightarrow> ''int'' | JFloat _ \<Rightarrow> ''float''
      | JStr _ \<Rightarrow> ''str'' | JList _ \<Rightarrow> ''list'' | JObj _ \<Rightarrow> ''dict'')"

definition text_column :: "json \<Rightarrow> json" where
  "text_column v = (case v of JStr s \<Rightarrow> v | _ \<Rightarrow> JStr (''<not text: '' @ json_type_name v @ ''>''))"

definition integer_column :: "json \<Rightarrow> json" where
  "integer_column v = (case v of JInt i \<Rightarrow> v | _ \<Rightarrow> JStr (''<not an integer: '' @ json_type_name v @ ''>''))"

definition canonical_action :: "action_row \<Rightarrow> json" where
  "canonical_action a = JObj
    [(''kind'', text_column (pa_kind a)),
     (''chain_id'', integer_column (pa_chain_id a)),
     (''treasury'', text_column (pa_treasury_address a)),
     (''to'', text_column (pa_to_address a)),
     (''value_wei'', text_column (pa_value_wei a)),
     (''data'', text_column (pa_data_hex a)),
     (''call_gas'', integer_column (pa_call_gas a)),
     (''valid_until'', integer_column (pa_valid_until a)),
     (''config_nonce'', integer_column (pa_config_nonce a))]"

text \<open>\<open>signing_bytes_for\<close> of \<open>services/signing.py\<close>: \<open>None\<close> where the stored signer snapshot is not a
  JSON list of integers, which the code only ever writes.\<close>

definition int_list :: "json \<Rightarrow> int list option" where
  "int_list v =
     (case v of
        JList xs \<Rightarrow>
          (if list_all (\<lambda>x. case x of JInt _ \<Rightarrow> True | _ \<Rightarrow> False) xs
           then Some (map (\<lambda>x. case x of JInt i \<Rightarrow> i | _ \<Rightarrow> 0) xs) else None)
      | _ \<Rightarrow> None)"

definition snapshot_ids :: "proposal_row \<Rightarrow> int list option" where
  "snapshot_ids p = (case loads (p_authorized_signers_snapshot p) of None \<Rightarrow> None | Some v \<Rightarrow> int_list v)"

definition stored_fields :: "db \<Rightarrow> proposal_row \<Rightarrow> proposal_fields option" where
  "stored_fields d p =
     map_option (\<lambda>ids.
       \<lparr>pf_vault_id = p_vault_id p, pf_proposal_uuid = p_uuid p, pf_action_text = p_action_text p,
        pf_file_sha256 = map_option f_content_sha256 (file_of d p),
        pf_required_m = p_required_m p, pf_required_n = p_required_n p, pf_signers = ids,
        pf_nonce_hex = to_hex (p_nonce p), pf_created_at_iso = p_created_at_iso p,
        pf_action = map_option canonical_action (action_of d p)\<rparr>)
     (snapshot_ids p)"

definition signing_bytes_for :: "db \<Rightarrow> proposal_row \<Rightarrow> bytes option" where
  "signing_bytes_for d p = map_option proposal_signing_bytes (stored_fields d p)"

section \<open>Lemmas\<close>

lemma last_by_None [simp]: "last_by f xs = None \<longleftrightarrow> xs = []"
  by (cases xs) (auto split: option.splits)

lemma last_by_in: "last_by f xs = Some x \<Longrightarrow> x \<in> set xs"
  by (induction xs arbitrary: x) (auto split: option.splits if_splits)

lemma last_by_max: "last_by f xs = Some x \<Longrightarrow> y \<in> set xs \<Longrightarrow> f y \<le> f x"
proof (induction xs arbitrary: x y)
  case (Cons z zs)
  then show ?case by (cases "last_by f zs") (fastforce split: if_splits)+
qed simp

lemma last_by_snoc:
  "last_by f (xs @ [y]) = (case last_by f xs of None \<Rightarrow> Some y | Some x \<Rightarrow> if f x \<le> f y then Some y else Some x)"
  by (induction xs) (auto split: option.splits)

lemma canonical_action_wf [simp]: "jwf (canonical_action a)"
proof -
  have "jwf (text_column v)" "jwf (integer_column v)" for v
    by (simp_all add: text_column_def integer_column_def split: json.splits)
  then show ?thesis by (simp add: canonical_action_def)
qed

lemma fold_max_bounds: "(\<forall>x \<in> set ids. x \<le> fold max ids a) \<and> a \<le> fold max ids (a :: int)"
proof (induction ids arbitrary: a)
  case (Cons i ids)
  from Cons [of "max i a"] have "max i a \<le> fold max ids (max i a)" "\<forall>x \<in> set ids. x \<le> fold max ids (max i a)"
    by blast+
  then show ?case by auto
qed simp

lemma next_id_greater: "x \<in> set ids \<Longrightarrow> x < next_id ids"
  using fold_max_bounds [of ids 0] by (fastforce simp: next_id_def)

lemma next_id_fresh: "next_id ids \<notin> set ids"
  using next_id_greater by blast

lemma find_append: "find P (xs @ ys) = (case find P xs of None \<Rightarrow> find P ys | Some x \<Rightarrow> Some x)"
  by (induction xs) auto

lemma find_distinct: "distinct (map f xs) \<Longrightarrow> x \<in> set xs \<Longrightarrow> find (\<lambda>y. f y = f x) xs = Some x"
  by (induction xs) (auto simp: image_iff)

lemma find_fresh: "i \<notin> set (map f xs) \<Longrightarrow> find (\<lambda>y. f y = i) xs = None"
  by (induction xs) auto

lemma isoformat_epoch: "isoformat 0 = ''1970-01-01T00:00:00+00:00''"
  by code_simp

end
