(* ===== verification/Ledger.thy ===== *)
theory Ledger
  imports Models "HOL-Library.Product_Lexorder"
begin

text \<open>
  \<open>qvault/services/ledger_service.py\<close> (with \<open>rotation_policy.py\<close>): the hash-chained audit ledger, the
  SYSTEM-signed head anchors, the integrity report, and the reversible tamper demonstration.

  Every operation takes the environment (hash, registry, master key, settings), the time and the
  entropy it draws, and the database.  A raised exception is \<open>Inl\<close>, and then nothing is written: the
  session is rolled back.  The tracing of \<open>glassbox\<close> reads values and changes nothing; it is left
  out.
\<close>

section \<open>Environment and errors\<close>

record vault_env = crypto_env +
  ve_key_max_age_days :: int

datatype ledger_error =
    Ledger_crypto crypto_error
  | Ledger_master master_key_error
  | Ledger_invalid_tag
  | Ledger_no_config
  | Ledger_anchor_unverified int
  | Ledger_bad_mode
  | Ledger_no_entry int
  | Ledger_bad_payload

definition of_crypto :: "crypto_error + 'a \<Rightarrow> ledger_error + 'a" where
  "of_crypto r = (case r of Inl e \<Rightarrow> Inl (Ledger_crypto e) | Inr x \<Rightarrow> Inr x)"

definition of_master :: "master_key_error + 'a \<Rightarrow> ledger_error + 'a" where
  "of_master r = (case r of Inl e \<Rightarrow> Inl (Ledger_master e) | Inr x \<Rightarrow> Inr x)"

definition rotation_deadline :: "vault_env \<Rightarrow> int \<Rightarrow> int" where
  "rotation_deadline env now = now + ve_key_max_age_days env * day_microseconds"

definition SYMMETRIC_ALG :: ustr where "SYMMETRIC_ALG = ''AES-256-GCM''"

text \<open>\<open>master_key.wrap_secret\<close> and \<open>unwrap_secret\<close>; the nonce is drawn by the cipher.\<close>

definition wrap_secret :: "vault_env \<Rightarrow> bytes \<Rightarrow> bytes \<Rightarrow> ledger_error + bytes \<times> bytes" where
  "wrap_secret env nonce plaintext =
     bindE (of_crypto (symmetric (ce_registry env) SYMMETRIC_ALG)) (\<lambda>cipher.
     bindE (of_master (get_master_key (crypto_env.truncate env))) (\<lambda>key.
       Inr (sy_encrypt cipher nonce key plaintext MASTER_AAD)))"

definition unwrap_secret :: "vault_env \<Rightarrow> bytes option \<Rightarrow> bytes option \<Rightarrow> ledger_error + bytes" where
  "unwrap_secret env nonce ciphertext =
     bindE (of_crypto (symmetric (ce_registry env) SYMMETRIC_ALG)) (\<lambda>cipher.
     bindE (of_master (get_master_key (crypto_env.truncate env))) (\<lambda>key.
       case (nonce, ciphertext) of
         (Some n, Some c) \<Rightarrow>
           (case sy_decrypt cipher key n c MASTER_AAD of None \<Rightarrow> Inl Ledger_invalid_tag | Some m \<Rightarrow> Inr m)
       | _ \<Rightarrow> Inl Ledger_invalid_tag))"

section \<open>The chain\<close>

definition GENESIS_PREV_HEX :: "(bytes \<Rightarrow> bytes) \<Rightarrow> ustr" where
  "GENESIS_PREV_HEX H = sha256_hex H ''QVAULT-LEDGER-GENESIS-v1''"

definition ANCHOR_DS :: bytes where "ANCHOR_DS = ''QVAULT-LEDGER-ANCHOR-v1|''"

definition compute_entry_hash :: "(bytes \<Rightarrow> bytes) \<Rightarrow> ledger_entry \<Rightarrow> ustr" where
  "compute_entry_hash H e = entry_hash H (entry_fields.truncate e)"

definition last_entry :: "db \<Rightarrow> ledger_entry option" where
  "last_entry d = last_by le_seq (db_entries d)"

definition genesis_entry :: "(bytes \<Rightarrow> bytes) \<Rightarrow> int \<Rightarrow> ledger_entry" where
  "genesis_entry H now =
     (let payload_bytes = canonical_json (JObj [(''note'', JStr ''QVAULT ledger genesis'')]);
          e = \<lparr>le_seq = 0, le_timestamp = isoformat now, le_actor = ''SYSTEM'', le_event_type = ''genesis'',
               le_payload_hash = sha256_hex H payload_bytes, le_prev_hash = GENESIS_PREV_HEX H,
               le_actor_id = None, le_vault_id = None, le_ref_type = None, le_ref_id = None,
               le_payload_json = payload_bytes, le_entry_hash = []\<rparr>
      in e\<lparr>le_entry_hash := compute_entry_hash H e\<rparr>)"

definition ensure_genesis :: "vault_env \<Rightarrow> int \<Rightarrow> db \<Rightarrow> ledger_entry \<times> db" where
  "ensure_genesis env now d =
     (case find (\<lambda>e. le_seq e = 0) (db_entries d) of
        Some e \<Rightarrow> (e, d)
      | None \<Rightarrow> let e = genesis_entry (ce_hash env) now in (e, d\<lparr>db_entries := db_entries d @ [e]\<rparr>))"

text \<open>The keyword arguments of \<open>append\<close>.\<close>

record ledger_event =
  ev_type :: ustr
  ev_payload :: json
  ev_actor :: ustr
  ev_actor_id :: "int option"
  ev_vault_id :: "int option"
  ev_ref_type :: "ustr option"
  ev_ref_id :: "ustr option"

definition chained_entry :: "(bytes \<Rightarrow> bytes) \<Rightarrow> int \<Rightarrow> ledger_event \<Rightarrow> ledger_entry \<Rightarrow> ledger_entry" where
  "chained_entry H now ev prev =
     (let payload_bytes = canonical_json (ev_payload ev);
          e = \<lparr>le_seq = le_seq prev + 1, le_timestamp = isoformat now, le_actor = ev_actor ev,
               le_event_type = ev_type ev, le_payload_hash = sha256_hex H payload_bytes,
               le_prev_hash = le_entry_hash prev, le_actor_id = ev_actor_id ev,
               le_vault_id = ev_vault_id ev, le_ref_type = ev_ref_type ev, le_ref_id = ev_ref_id ev,
               le_payload_json = payload_bytes, le_entry_hash = []\<rparr>
      in e\<lparr>le_entry_hash := compute_entry_hash H e\<rparr>)"

definition ledger_append :: "vault_env \<Rightarrow> int \<Rightarrow> ledger_event \<Rightarrow> db \<Rightarrow> ledger_entry \<times> db" where
  "ledger_append env now ev d =
     (let (prev, d') = (case last_entry d of Some e \<Rightarrow> (e, d) | None \<Rightarrow> ensure_genesis env now d);
          e = chained_entry (ce_hash env) now ev prev
      in (e, d'\<lparr>db_entries := db_entries d' @ [e]\<rparr>))"

fun verify_entries :: "(bytes \<Rightarrow> bytes) \<Rightarrow> ustr \<Rightarrow> ledger_entry list \<Rightarrow> bool \<times> int option" where
  "verify_entries H expected_prev [] = (True, None)"
| "verify_entries H expected_prev (e # es) =
     (if le_prev_hash e \<noteq> expected_prev then (False, Some (le_seq e))
      else if compute_entry_hash H e \<noteq> le_entry_hash e then (False, Some (le_seq e))
      else if sha256_hex H (le_payload_json e) \<noteq> le_payload_hash e then (False, Some (le_seq e))
      else verify_entries H (le_entry_hash e) es)"

definition verify_chain :: "vault_env \<Rightarrow> db \<Rightarrow> bool \<times> int option" where
  "verify_chain env d =
     verify_entries (ce_hash env) (GENESIS_PREV_HEX (ce_hash env)) (sort_key le_seq (db_entries d))"

section \<open>Head anchors\<close>

definition is_system_key :: "key_row \<Rightarrow> bool" where
  "is_system_key k \<longleftrightarrow> k_role k = ''sig'' \<and> k_wrap_domain k = ''master'' \<and> k_owner_id k = None"

text \<open>The random bytes of key generation and the cipher's nonce come from the caller.\<close>

definition ensure_system_key :: "vault_env \<Rightarrow> int \<Rightarrow> bytes \<times> bytes \<Rightarrow> db \<Rightarrow> ledger_error + key_row \<times> db" where
  "ensure_system_key env now entropy d =
     (case find (\<lambda>k. is_system_key k \<and> k_status k = ''active'') (db_keys d) of
        Some k \<Rightarrow> Inr (k, d)
      | None \<Rightarrow>
          (case db_config d of
             None \<Rightarrow> Inl Ledger_no_config
           | Some cfg \<Rightarrow>
               bindE (of_crypto (signature (ce_registry env) (ac_active_signature_alg cfg))) (\<lambda>provider.
               let pair = sp_keygen provider (fst entropy) in
               bindE (wrap_secret env (snd entropy) (kp_secret_key pair)) (\<lambda>(nonce, wrapped).
               bindE (of_master (mac (crypto_env.truncate env) (kp_public_key pair))) (\<lambda>tag.
                 let k = \<lparr>k_id = next_id (map k_id (db_keys d)), k_owner_id = None, k_role = ''sig'',
                          k_alg_id = ac_active_signature_alg cfg, k_backend = am_backend (sp_meta provider),
                          k_public_key = kp_public_key pair, k_public_key_mac = Some tag,
                          k_secret_key_wrapped = Some wrapped, k_secret_key_nonce = Some nonce,
                          k_wrap_domain = ''master'', k_status = ''active'', k_can_sign = True,
                          k_can_verify = True, k_version = 1,
                          k_rotate_after = Some (rotation_deadline env now), k_created_at = now,
                          k_retired_at = None\<rparr>
                 in Inr (k, d\<lparr>db_keys := db_keys d @ [k]\<rparr>))))))"

definition anchor_message :: "int \<Rightarrow> ustr \<Rightarrow> bytes" where
  "anchor_message seq_no head_hash =
     ANCHOR_DS @ canonical_json (JObj [(''seq'', JInt seq_no), (''head_hash'', JStr head_hash)])"

definition latest_anchor :: "db \<Rightarrow> anchor_row option" where
  "latest_anchor d = last_by (\<lambda>a. (an_seq a, an_id a)) (db_anchors d)"

definition anchor_head :: "vault_env \<Rightarrow> int \<Rightarrow> bytes \<times> bytes \<Rightarrow> db \<Rightarrow> ledger_error + anchor_row \<times> db" where
  "anchor_head env now entropy d =
     (let (head, d1) = (case last_entry d of Some e \<Rightarrow> (e, d) | None \<Rightarrow> ensure_genesis env now d) in
      bindE (ensure_system_key env now entropy d1) (\<lambda>(key, d2).
      bindE (of_crypto (signature (ce_registry env) (k_alg_id key))) (\<lambda>provider.
      let message = anchor_message (le_seq head) (le_entry_hash head) in
      bindE (unwrap_secret env (k_secret_key_nonce key) (k_secret_key_wrapped key)) (\<lambda>secret.
        let sig = sp_sign provider secret message
        in if \<not> sp_verify provider (k_public_key key) message sig
           then Inl (Ledger_anchor_unverified (le_seq head))
           else let a = \<lparr>an_id = next_id (map an_id (db_anchors d2)), an_seq = le_seq head,
                         an_head_hash = le_entry_hash head, an_alg_id = k_alg_id key,
                         an_backend = k_backend key, an_key_id = k_id key, an_signature = sig\<rparr>
                in Inr (a, d2\<lparr>db_anchors := db_anchors d2 @ [a]\<rparr>)))))"

definition maybe_anchor :: "vault_env \<Rightarrow> int \<Rightarrow> bytes \<times> bytes \<Rightarrow> db \<Rightarrow> ledger_error + anchor_row option \<times> db" where
  "maybe_anchor env now entropy d =
     (let sign = bindE (anchor_head env now entropy d) (\<lambda>(a, d'). Inr (Some a, d')) in
      case last_entry d of
        None \<Rightarrow> Inr (None, d)
      | Some head \<Rightarrow>
          (case latest_anchor d of
             None \<Rightarrow> sign
           | Some latest \<Rightarrow>
               (if an_seq latest \<ge> le_seq head then Inr (None, d)
                else case find (\<lambda>e. le_seq e = an_seq latest) (db_entries d) of
                       None \<Rightarrow> Inr (None, d)
                     | Some anchored \<Rightarrow>
                         (if le_entry_hash anchored \<noteq> an_head_hash latest then Inr (None, d) else sign))))"

definition verify_anchor :: "vault_env \<Rightarrow> db \<Rightarrow> anchor_row \<Rightarrow> ledger_error + bool" where
  "verify_anchor env d a =
     (case get_key d (an_key_id a) of
        None \<Rightarrow> Inr False
      | Some key \<Rightarrow>
          (if \<not> is_system_key key then Inr False
           else bindE (of_master (verify_mac (crypto_env.truncate env) (k_public_key key) (k_public_key_mac key))) (\<lambda>ok.
             if \<not> ok then Inr False
             else bindE (of_crypto (signature (ce_registry env) (an_alg_id a))) (\<lambda>provider.
               Inr (sp_verify provider (k_public_key key) (anchor_message (an_seq a) (an_head_hash a))
                      (an_signature a))))))"

record ledger_report =
  lr_ok :: bool
  lr_chain_ok :: bool
  lr_chain_break_seq :: "int option"
  lr_head_seq :: "int option"
  lr_anchor_present :: bool
  lr_anchor_ok :: bool
  lr_anchor_covers_head :: bool
  lr_anchor_seq :: "int option"

definition anchor_covers :: "anchor_row option \<Rightarrow> ledger_entry option \<Rightarrow> bool" where
  "anchor_covers anchor head =
     (case (anchor, head) of
        (Some a, Some h) \<Rightarrow> an_seq a = le_seq h \<and> an_head_hash a = le_entry_hash h
      | _ \<Rightarrow> False)"

definition verify_ledger :: "vault_env \<Rightarrow> db \<Rightarrow> ledger_error + ledger_report" where
  "verify_ledger env d =
     (let (chain_ok, break_seq) = verify_chain env d;
          head = last_entry d;
          anchor = latest_anchor d
      in bindE (case anchor of None \<Rightarrow> Inr False | Some a \<Rightarrow> verify_anchor env d a) (\<lambda>anchor_ok.
         Inr \<lparr>lr_ok = (chain_ok \<and> anchor \<noteq> None \<and> anchor_ok \<and> anchor_covers anchor head),
              lr_chain_ok = chain_ok, lr_chain_break_seq = break_seq,
              lr_head_seq = map_option le_seq head, lr_anchor_present = (anchor \<noteq> None),
              lr_anchor_ok = anchor_ok, lr_anchor_covers_head = anchor_covers anchor head,
              lr_anchor_seq = map_option an_seq anchor\<rparr>))"

section \<open>The tamper demonstration\<close>

record snapshot_row =
  sn_seq :: int
  sn_payload_json :: ustr
  sn_payload_hash :: ustr
  sn_prev_hash :: ustr
  sn_entry_hash :: ustr

definition snapshot :: "ledger_entry \<Rightarrow> snapshot_row" where
  "snapshot e = \<lparr>sn_seq = le_seq e, sn_payload_json = le_payload_json e, sn_payload_hash = le_payload_hash e,
     sn_prev_hash = le_prev_hash e, sn_entry_hash = le_entry_hash e\<rparr>"

text \<open>The process-local \<open>_DEMO_BACKUP\<close> and the database.\<close>

type_synonym demo_state = "snapshot_row list option \<times> db"

definition demo_is_tampered :: "demo_state \<Rightarrow> bool" where
  "demo_is_tampered s \<longleftrightarrow> fst s \<noteq> None"

definition tampered_payload :: "ustr \<Rightarrow> ledger_error + ustr" where
  "tampered_payload payload_json =
     (case loads payload_json of
        Some (JObj kvs) \<Rightarrow> Inr (canonical_json (JObj (dict_set ''_tamper'' (JStr ''unauthorised edit'') kvs)))
      | _ \<Rightarrow> Inl Ledger_bad_payload)"

fun rewrite_forward :: "(bytes \<Rightarrow> bytes) \<Rightarrow> ustr \<Rightarrow> ledger_entry list \<Rightarrow> ledger_entry list" where
  "rewrite_forward H prev [] = []"
| "rewrite_forward H prev (e # es) =
     (let e1 = e\<lparr>le_prev_hash := prev\<rparr>; e2 = e1\<lparr>le_entry_hash := compute_entry_hash H e1\<rparr>
      in e2 # rewrite_forward H (le_entry_hash e2) es)"

text \<open>Writing changed rows back: a row is found by its sequence number, which is unique.\<close>

definition write_back :: "ledger_entry list \<Rightarrow> db \<Rightarrow> db" where
  "write_back rows d =
     d\<lparr>db_entries := map (\<lambda>e. case find (\<lambda>r. le_seq r = le_seq e) rows of Some r \<Rightarrow> r | None \<Rightarrow> e) (db_entries d)\<rparr>"

definition demo_tamper :: "vault_env \<Rightarrow> int \<Rightarrow> ustr \<Rightarrow> demo_state \<Rightarrow> (ledger_error + unit) \<times> demo_state" where
  "demo_tamper env target_seq mode s =
     (let (backup, d) = s; H = ce_hash env; entries = sort_key le_seq (db_entries d) in
      if mode \<notin> {''edit'', ''rewrite''} then (Inl Ledger_bad_mode, s)
      else case filter (\<lambda>i. le_seq (entries ! i) = target_seq) [0..<length entries] of
        [] \<Rightarrow> (Inl (Ledger_no_entry target_seq), s)
      | idx # _ \<Rightarrow>
          (let backup' = (case backup of None \<Rightarrow> Some (map snapshot entries) | Some b \<Rightarrow> Some b) in
           case tampered_payload (le_payload_json (entries ! idx)) of
             Inl e \<Rightarrow> (Inl e, (backup', d))
           | Inr pj \<Rightarrow>
               (let target = (entries ! idx)\<lparr>le_payload_json := pj\<rparr> in
                if mode = ''edit'' then (Inr (), (backup', write_back [target] d))
                else let target' = target\<lparr>le_payload_hash := sha256_hex H pj\<rparr>;
                         prev = (if idx > 0 then le_entry_hash (entries ! (idx - 1)) else GENESIS_PREV_HEX H)
                     in (Inr (), (backup', write_back (rewrite_forward H prev (target' # drop (Suc idx) entries)) d)))))"

definition restore_entry :: "snapshot_row list \<Rightarrow> ledger_entry \<Rightarrow> ledger_entry" where
  "restore_entry backup e =
     (case map_of (rev (map (\<lambda>b. (sn_seq b, b)) backup)) (le_seq e) of
        None \<Rightarrow> e
      | Some b \<Rightarrow> e\<lparr>le_payload_json := sn_payload_json b, le_payload_hash := sn_payload_hash b,
                    le_prev_hash := sn_prev_hash b, le_entry_hash := sn_entry_hash b\<rparr>)"

definition demo_restore :: "demo_state \<Rightarrow> bool \<times> demo_state" where
  "demo_restore s =
     (case fst s of
        None \<Rightarrow> (False, s)
      | Some backup \<Rightarrow> (True, (None, (snd s)\<lparr>db_entries := map (restore_entry backup) (db_entries (snd s))\<rparr>)))"

end
