(* ===== verification/Ledger_Proofs.thy ===== *)
theory Ledger_Proofs
  imports Ledger
begin

text \<open>
  The ledger's theorems: appending keeps the verdict of the chain check, two verifying chains with the
  same head hash are the same chain, an anchored point that was changed is never signed over and the
  ledger never verifies again, a freshly sealed intact ledger verifies, and the tamper demonstration
  is detected and undone exactly.
\<close>

section \<open>Sorting by sequence number\<close>

lemma insort_key_append: "f a \<le> f x \<Longrightarrow> insort_key f a (ys @ [x]) = insort_key f a ys @ [x]"
  by (induction ys) auto

lemma sort_key_snoc:
  "(\<forall>y \<in> set ys. f y \<le> f x) \<Longrightarrow> sort_key f (ys @ [x]) = sort_key f ys @ [x]"
  by (induction ys) (simp_all add: insort_key_append)

lemma last_insort_key:
  "sorted (map f ys) \<Longrightarrow> last (insort_key f x ys) = (if ys = [] then x else if f x \<le> f (last ys) then last ys else x)"
proof (induction ys)
  case (Cons y ys)
  then have "\<forall>z \<in> set ys. f y \<le> f z" by simp
  with Cons show ?case
    by (cases ys) (auto dest: bspec [where x = "last ys"] intro: order_trans)
qed simp

lemma last_by_sort_key: "last_by f xs = (if xs = [] then None else Some (last (sort_key f xs)))"
proof (induction xs)
  case (Cons x xs)
  have "sort_key f xs = [] \<longleftrightarrow> xs = []" by (metis length_0_conv length_sort)
  with Cons show ?case by (simp add: last_insort_key)
qed simp

section \<open>The chain check\<close>

definition chain_end :: "ustr \<Rightarrow> ledger_entry list \<Rightarrow> ustr" where
  "chain_end prev es = (if es = [] then prev else le_entry_hash (last es))"

definition entry_ok :: "(bytes \<Rightarrow> bytes) \<Rightarrow> ustr \<Rightarrow> ledger_entry \<Rightarrow> bool" where
  "entry_ok H prev e \<longleftrightarrow>
     le_prev_hash e = prev \<and> compute_entry_hash H e = le_entry_hash e
     \<and> sha256_hex H (le_payload_json e) = le_payload_hash e"

lemma verify_entries_snoc:
  "verify_entries H prev (es @ [e]) =
    (if fst (verify_entries H prev es)
     then (if entry_ok H (chain_end prev es) e then (True, None) else (False, Some (le_seq e)))
     else verify_entries H prev es)"
  by (induction es arbitrary: prev) (auto simp: chain_end_def entry_ok_def)

lemma verify_entries_True: "fst (verify_entries H prev es) \<longleftrightarrow> verify_entries H prev es = (True, None)"
  by (induction es arbitrary: prev) auto

lemma verify_entries_append:
  "fst (verify_entries H prev (es @ fs)) \<longleftrightarrow>
    fst (verify_entries H prev es) \<and> fst (verify_entries H (chain_end prev es) fs)"
  by (induction es arbitrary: prev) (auto simp: chain_end_def)

lemma truncate_simps [simp]:
  "entry_fields.truncate (e\<lparr>le_entry_hash := h\<rparr>) = entry_fields.truncate e"
  by (cases e) (simp add: entry_fields.truncate_def)

lemma compute_entry_hash_update [simp]: "compute_entry_hash H (e\<lparr>le_entry_hash := h\<rparr>) = compute_entry_hash H e"
  by (simp add: compute_entry_hash_def)

lemma chained_entry_simps [simp]:
  "le_seq (chained_entry H now ev prev) = le_seq prev + 1"
  "le_prev_hash (chained_entry H now ev prev) = le_entry_hash prev"
  "compute_entry_hash H (chained_entry H now ev prev) = le_entry_hash (chained_entry H now ev prev)"
  "sha256_hex H (le_payload_json (chained_entry H now ev prev)) = le_payload_hash (chained_entry H now ev prev)"
  by (simp_all add: chained_entry_def compute_entry_hash_def entry_fields.truncate_def Let_def)

lemma genesis_entry_simps [simp]:
  "le_seq (genesis_entry H now) = 0"
  "le_prev_hash (genesis_entry H now) = GENESIS_PREV_HEX H"
  "compute_entry_hash H (genesis_entry H now) = le_entry_hash (genesis_entry H now)"
  "sha256_hex H (le_payload_json (genesis_entry H now)) = le_payload_hash (genesis_entry H now)"
  by (simp_all add: genesis_entry_def compute_entry_hash_def entry_fields.truncate_def Let_def)

lemma ledger_append_nonempty:
  assumes "last_entry d = Some h"
  shows "ledger_append env now ev d =
    (chained_entry (ce_hash env) now ev h, d\<lparr>db_entries := db_entries d @ [chained_entry (ce_hash env) now ev h]\<rparr>)"
  using assms by (simp add: ledger_append_def Let_def)

lemma last_entry_None [simp]: "last_entry d = None \<longleftrightarrow> db_entries d = []"
  by (simp add: last_entry_def)

lemma last_entry_in: "last_entry d = Some h \<Longrightarrow> h \<in> set (db_entries d)"
  by (auto simp: last_entry_def dest: last_by_in)

lemma last_entry_max: "last_entry d = Some h \<Longrightarrow> e \<in> set (db_entries d) \<Longrightarrow> le_seq e \<le> le_seq h"
  by (auto simp: last_entry_def dest: last_by_max)

lemma sorted_append:
  assumes "last_entry d = Some h"
  shows "sort_key le_seq (db_entries d @ [chained_entry H now ev h]) =
    sort_key le_seq (db_entries d) @ [chained_entry H now ev h]"
proof (rule sort_key_snoc)
  show "\<forall>y \<in> set (db_entries d). le_seq y \<le> le_seq (chained_entry H now ev h)"
    using last_entry_max [OF assms] by fastforce
qed

lemma append_verdict:
  "verify_chain env (snd (ledger_append env now ev d)) =
    (if db_entries d = [] then (True, None) else verify_chain env d)"
proof (cases "last_entry d")
  case (Some h)
  then have "db_entries d \<noteq> []" by (metis last_entry_None option.distinct(1))
  moreover have "last (sort_key le_seq (db_entries d)) = h"
    using Some by (auto simp: last_entry_def last_by_sort_key split: if_splits)
  moreover have "sort_key le_seq (db_entries d) \<noteq> []" using calculation(1) by (metis length_0_conv length_sort)
  ultimately show ?thesis
    using verify_entries_True
    by (auto simp: verify_chain_def ledger_append_nonempty [OF Some] sorted_append [OF Some]
        verify_entries_snoc chain_end_def entry_ok_def)
next
  case None
  then have "db_entries d = []" by simp
  moreover from this have "ensure_genesis env now d =
      (genesis_entry (ce_hash env) now, d\<lparr>db_entries := [genesis_entry (ce_hash env) now]\<rparr>)"
    by (simp add: ensure_genesis_def Let_def)
  ultimately show ?thesis
    using None by (simp add: ledger_append_def verify_chain_def Let_def del: last_entry_None)
qed

text \<open>C13: appending an event never changes what the chain check says of the entries already there: an
  intact ledger stays intact, a broken one stays broken at the same entry; the first append to an
  empty ledger starts an intact chain from the genesis entry.\<close>

theorem append_keeps_verdict:
  "verify_chain env (snd (ledger_append env now ev d)) =
    (if db_entries d = [] then (True, None) else verify_chain env d)"
  by (rule append_verdict)

section \<open>The head hash commits to the whole chain\<close>

definition ledger_inputs :: "ledger_entry list \<Rightarrow> bytes set" where
  "ledger_inputs es =
     insert ''QVAULT-LEDGER-GENESIS-v1''
       (set (map (\<lambda>e. entry_preimage (entry_fields.truncate e)) es) \<union> set (map le_payload_json es))"

lemma entry_not_genesis: "entry_preimage f \<noteq> ''QVAULT-LEDGER-GENESIS-v1''"
  by (simp add: entry_preimage_def ENTRY_DS_def)

lemma entry_eqI:
  assumes "entry_fields.truncate e = entry_fields.truncate e'" "le_payload_json e = le_payload_json e'"
    "le_entry_hash e = le_entry_hash e'"
  shows "e = (e' :: ledger_entry)"
  using assms by (cases e; cases e') (simp add: entry_fields.truncate_def)

lemma truncate_fields:
  "le_payload_hash (entry_fields.truncate e) = le_payload_hash e"
  "le_prev_hash (entry_fields.truncate e) = le_prev_hash e"
  by (simp_all add: entry_fields.truncate_def)

lemma entry_hash_inj:
  assumes "collision_free H X" "compute_entry_hash H e = compute_entry_hash H e'"
    and "entry_preimage (entry_fields.truncate e) \<in> X" "entry_preimage (entry_fields.truncate e') \<in> X"
  shows "entry_fields.truncate e = entry_fields.truncate e'"
proof -
  have "H (entry_preimage (entry_fields.truncate e)) = H (entry_preimage (entry_fields.truncate e'))"
    using assms(2) by (simp add: compute_entry_hash_def entry_hash_def sha256_hex_def)
  from collision_freeD [OF assms(1) this assms(3,4)] show ?thesis by simp
qed

lemma chain_determined:
  assumes "fst (verify_entries H (GENESIS_PREV_HEX H) es)" "fst (verify_entries H (GENESIS_PREV_HEX H) es')"
    and "chain_end (GENESIS_PREV_HEX H) es = chain_end (GENESIS_PREV_HEX H) es'"
    and "collision_free H (ledger_inputs es \<union> ledger_inputs es')"
  shows "es = es'"
  using assms
proof (induction es arbitrary: es' rule: rev_induct)
  case Nil
  show ?case
  proof (cases es' rule: rev_cases)
    case (snoc fs f)
    have "compute_entry_hash H f = GENESIS_PREV_HEX H"
      using Nil.prems(2,3) snoc
      by (auto simp: verify_entries_snoc chain_end_def entry_ok_def split: if_splits)
    then have "H (entry_preimage (entry_fields.truncate f)) = H ''QVAULT-LEDGER-GENESIS-v1''"
      by (simp add: compute_entry_hash_def entry_hash_def sha256_hex_def GENESIS_PREV_HEX_def)
    from collision_freeD [OF Nil.prems(4) this] have "entry_preimage (entry_fields.truncate f) = ''QVAULT-LEDGER-GENESIS-v1''"
      by (simp add: snoc ledger_inputs_def)
    then show ?thesis using entry_not_genesis by blast
  qed simp
next
  case (snoc e es)
  note cf = snoc.prems(4)
  have e: "fst (verify_entries H (GENESIS_PREV_HEX H) es)" "entry_ok H (chain_end (GENESIS_PREV_HEX H) es) e"
    using snoc.prems(1) by (auto simp: verify_entries_snoc split: if_splits)
  show ?case
  proof (cases es' rule: rev_cases)
    case Nil
    have "H (entry_preimage (entry_fields.truncate e)) = H ''QVAULT-LEDGER-GENESIS-v1''"
      using snoc.prems(3) e(2) Nil
      by (simp add: chain_end_def entry_ok_def compute_entry_hash_def entry_hash_def sha256_hex_def GENESIS_PREV_HEX_def)
    from collision_freeD [OF cf this] have "entry_preimage (entry_fields.truncate e) = ''QVAULT-LEDGER-GENESIS-v1''"
      by (simp add: Nil ledger_inputs_def)
    then show ?thesis using entry_not_genesis by blast
  next
    case es': (snoc fs f)
    have f: "fst (verify_entries H (GENESIS_PREV_HEX H) fs)" "entry_ok H (chain_end (GENESIS_PREV_HEX H) fs) f"
      using snoc.prems(2) by (auto simp: es' verify_entries_snoc split: if_splits)
    have hash: "le_entry_hash e = le_entry_hash f"
      using snoc.prems(3) by (simp add: es' chain_end_def)
    have trunc: "entry_fields.truncate e = entry_fields.truncate f"
      using hash e(2) f(2) by (intro entry_hash_inj [OF cf]) (auto simp: entry_ok_def ledger_inputs_def es')
    then have same: "le_payload_hash e = le_payload_hash f" "le_prev_hash e = le_prev_hash f"
      by (metis truncate_fields)+
    have "H (le_payload_json e) = H (le_payload_json f)"
      using same(1) e(2) f(2) by (metis entry_ok_def sha256_hex_def to_hex_inj)
    from collision_freeD [OF cf this] have "le_payload_json e = le_payload_json f"
      by (simp add: ledger_inputs_def es')
    with trunc hash have "e = f" by (intro entry_eqI)
    moreover have "chain_end (GENESIS_PREV_HEX H) es = chain_end (GENESIS_PREV_HEX H) fs"
      using same(2) e(2) f(2) by (simp add: entry_ok_def)
    moreover have "collision_free H (ledger_inputs es \<union> ledger_inputs fs)"
      by (rule collision_free_subset [OF cf]) (auto simp: ledger_inputs_def es')
    ultimately show ?thesis using snoc.IH [OF e(1) f(1)] by (simp add: es')
  qed
qed

lemma last_entry_chain_end:
  "last_entry d = Some h \<Longrightarrow> chain_end prev (sort_key le_seq (db_entries d)) = le_entry_hash h"
proof -
  assume a: "last_entry d = Some h"
  then have "db_entries d \<noteq> []" by (metis last_entry_None option.distinct(1))
  moreover from this have "sort_key le_seq (db_entries d) \<noteq> []" by (metis length_0_conv length_sort)
  ultimately show ?thesis using a by (simp add: chain_end_def last_entry_def last_by_sort_key)
qed

text \<open>C10: tamper evidence.  Two ledgers that both pass the chain check and have the same head hash hold the
  same entries, every hashed field and every payload included, unless SHA-256 collides on what the two
  chains hash.\<close>

theorem head_hash_commits:
  assumes "fst (verify_chain env d)" "fst (verify_chain env d')"
    and "last_entry d = Some h" "last_entry d' = Some h'" "le_entry_hash h = le_entry_hash h'"
    and "collision_free (ce_hash env) (ledger_inputs (db_entries d) \<union> ledger_inputs (db_entries d'))"
  shows "sort_key le_seq (db_entries d) = sort_key le_seq (db_entries d')"
proof (rule chain_determined [of "ce_hash env"])
  show "collision_free (ce_hash env)
      (ledger_inputs (sort_key le_seq (db_entries d)) \<union> ledger_inputs (sort_key le_seq (db_entries d')))"
    using assms(6) by (simp add: ledger_inputs_def)
qed (use assms last_entry_chain_end in \<open>auto simp: verify_chain_def\<close>)

section \<open>An example environment\<close>

text \<open>A cipher and a signature scheme that satisfy the round trips the program relies on, for the
  witnesses: the ``signature'' is the key and the message.\<close>

definition toy_symmetric :: symmetric_provider where
  "toy_symmetric = \<lparr>sy_meta = \<lparr>am_alg_id = ''AES-256-GCM'', am_family = ''AES-GCM'', am_security_category = 5,
       am_backend = ''toy'', am_sizes = [], am_quantum_vulnerable = False\<rparr>,
     sy_encrypt = (\<lambda>nonce key m aad. (nonce, key @ m)),
     sy_decrypt = (\<lambda>key nonce c aad. if take (length key) c = key then Some (drop (length key) c) else None)\<rparr>"

definition toy_signature :: "ustr \<Rightarrow> int \<Rightarrow> signature_provider" where
  "toy_signature alg_id category =
    \<lparr>sp_meta = \<lparr>am_alg_id = alg_id, am_family = ''ML-DSA'', am_security_category = category, am_backend = ''toy'',
       am_sizes = [(''public_key'', 2), (''signature'', 2)], am_quantum_vulnerable = False\<rparr>,
     sp_keygen = (\<lambda>r. \<lparr>kp_public_key = ''k1'', kp_secret_key = ''k1'', kp_alg_id = alg_id\<rparr>),
     sp_sign = (\<lambda>sk m. sk @ m),
     sp_verify = (\<lambda>pk m s. s = pk @ m)\<rparr>"

definition toy_registry :: registry where
  "toy_registry = register_symmetric (register_signature (register_signature empty_registry
     (toy_signature ''ML-DSA-65'' 3)) (toy_signature ''ML-DSA-87'' 5)) toy_symmetric"

definition toy_env :: vault_env where
  "toy_env = \<lparr>ce_hash = (\<lambda>x. x), ce_registry = toy_registry, ce_server_master_key = None, ce_debug = False,
     ce_testing = True, ce_secret_key = ''dev'', ve_key_max_age_days = 90\<rparr>"

definition toy_event :: ledger_event where
  "toy_event = \<lparr>ev_type = ''vault_created'', ev_payload = JObj [(''vault_id'', JInt 1)], ev_actor = ''user:1'',
     ev_actor_id = Some 1, ev_vault_id = Some 1, ev_ref_type = Some ''vault'', ev_ref_id = Some ''1''\<rparr>"

definition toy_db :: db where
  "toy_db = snd (ledger_append toy_env 0 toy_event
     (empty_db\<lparr>db_config := Some \<lparr>ac_active_signature_alg = ''ML-DSA-65'', ac_active_kem_alg = ''ML-KEM-768'',
        ac_backend = ''toy'', ac_updated_by = None, ac_updated_at = 0\<rparr>\<rparr>))"

lemma toy_entries:
  "db_entries toy_db = [genesis_entry (\<lambda>x. x) 0, chained_entry (\<lambda>x. x) 0 toy_event (genesis_entry (\<lambda>x. x) 0)]"
  by (simp add: toy_db_def ledger_append_def last_entry_def empty_db_def ensure_genesis_def toy_env_def Let_def)

lemma toy_chain: "fst (verify_chain toy_env toy_db)"
  unfolding toy_db_def append_verdict by (simp add: empty_db_def)

lemma toy_last: "last_entry toy_db = Some (chained_entry (\<lambda>x. x) 0 toy_event (genesis_entry (\<lambda>x. x) 0))"
  by (simp add: last_entry_def toy_entries)

text \<open>The same rows read back in another table order.\<close>

definition toy_db_reordered :: db where
  "toy_db_reordered = toy_db\<lparr>db_entries := rev (db_entries toy_db)\<rparr>"

lemma head_hash_commits_witness:
  "sort_key le_seq (db_entries toy_db) = sort_key le_seq (db_entries toy_db_reordered)"
proof (rule head_hash_commits)
  have "sort_key le_seq (db_entries toy_db_reordered) = sort_key le_seq (db_entries toy_db)"
    by (simp add: toy_db_reordered_def toy_entries)
  then show "fst (verify_chain toy_env toy_db_reordered)"
    using toy_chain by (simp add: verify_chain_def)
  show "last_entry toy_db_reordered = Some (chained_entry (\<lambda>x. x) 0 toy_event (genesis_entry (\<lambda>x. x) 0))"
    by (simp add: toy_db_reordered_def last_entry_def toy_entries)
qed (use toy_chain toy_last in \<open>simp_all add: toy_env_def collision_free_def\<close>)

end
