(* ===== verification/Ledger_Anchors.thy ===== *)
theory Ledger_Anchors
  imports Ledger_Proofs
begin

text \<open>
  The head anchors as a state machine: \<open>ledger_step\<close> is any append or any call of \<open>maybe_anchor\<close>, and
  \<open>contradicted\<close> says that the entry at the newest anchored position no longer has the anchored hash.
  A contradicted ledger stays contradicted and is never reported intact again; an intact, well-formed
  ledger is reported intact as soon as its head is anchored, and the demonstration is undone exactly.
\<close>

section \<open>Steps of the running system\<close>

inductive ledger_step :: "vault_env \<Rightarrow> db \<Rightarrow> db \<Rightarrow> bool" for env where
  step_append: "ledger_step env d (snd (ledger_append env now ev d))"
| step_anchor: "maybe_anchor env now entropy d = Inr (a, d') \<Longrightarrow> ledger_step env d d'"

inductive_cases ledger_stepE: "ledger_step env d d'"

inductive reachable :: "vault_env \<Rightarrow> db \<Rightarrow> db \<Rightarrow> bool" for env where
  reach_refl: "reachable env d d"
| reach_step: "reachable env d d' \<Longrightarrow> ledger_step env d' d'' \<Longrightarrow> reachable env d d''"

definition entry_at :: "db \<Rightarrow> int \<Rightarrow> ledger_entry option" where
  "entry_at d i = find (\<lambda>e. le_seq e = i) (db_entries d)"

definition contradicted :: "db \<Rightarrow> bool" where
  "contradicted d =
     (case latest_anchor d of
        None \<Rightarrow> False
      | Some a \<Rightarrow> (case entry_at d (an_seq a) of None \<Rightarrow> False | Some e \<Rightarrow> le_entry_hash e \<noteq> an_head_hash a))"

definition seqs_distinct :: "db \<Rightarrow> bool" where
  "seqs_distinct d \<longleftrightarrow> distinct (map le_seq (db_entries d))"

lemma append_entries:
  assumes "db_entries d \<noteq> []"
  shows "\<exists>h e. last_entry d = Some h \<and> le_seq e = le_seq h + 1
    \<and> snd (ledger_append env now ev d) = d\<lparr>db_entries := db_entries d @ [e]\<rparr>"
proof -
  obtain h where h: "last_entry d = Some h" using assms by (metis last_entry_None option.exhaust)
  then show ?thesis
    by (intro exI [of _ h] exI [of _ "chained_entry (ce_hash env) now ev h"]) (simp add: ledger_append_nonempty)
qed

lemma seqs_distinct_append:
  assumes "seqs_distinct d"
  shows "seqs_distinct (snd (ledger_append env now ev d))"
proof (cases "db_entries d = []")
  case True
  then show ?thesis
    by (simp add: seqs_distinct_def ledger_append_def last_entry_def ensure_genesis_def Let_def)
next
  case False
  then obtain h e where h: "last_entry d = Some h" "le_seq e = le_seq h + 1"
      "snd (ledger_append env now ev d) = d\<lparr>db_entries := db_entries d @ [e]\<rparr>"
    using append_entries by blast
  have "le_seq e \<notin> set (map le_seq (db_entries d))"
    using last_entry_max [OF h(1)] h(2) by fastforce
  then show ?thesis using assms h(3) by (simp add: seqs_distinct_def)
qed

lemma contradicted_append:
  assumes "contradicted d"
  shows "contradicted (snd (ledger_append env now ev d))"
proof -
  obtain a e where a: "latest_anchor d = Some a" "entry_at d (an_seq a) = Some e" "le_entry_hash e \<noteq> an_head_hash a"
    using assms by (auto simp: contradicted_def split: option.splits)
  then have "db_entries d \<noteq> []" by (auto simp: entry_at_def)
  then obtain x where "snd (ledger_append env now ev d) = d\<lparr>db_entries := db_entries d @ [x]\<rparr>"
    using append_entries by blast
  then show ?thesis
    using a by (simp add: contradicted_def latest_anchor_def entry_at_def find_append)
qed

lemma contradicted_no_anchor:
  assumes "contradicted d" "maybe_anchor env now entropy d = Inr (a, d')"
  shows "a = None \<and> d' = d"
proof -
  obtain l e where l: "latest_anchor d = Some l" "entry_at d (an_seq l) = Some e" "le_entry_hash e \<noteq> an_head_hash l"
    using assms(1) by (auto simp: contradicted_def split: option.splits)
  then show ?thesis
    using assms(2) by (auto simp: maybe_anchor_def entry_at_def Let_def split: option.splits if_splits)
qed

lemma contradicted_step:
  "ledger_step env d d' \<Longrightarrow> contradicted d \<and> seqs_distinct d \<Longrightarrow> contradicted d' \<and> seqs_distinct d'"
  by (erule ledger_stepE) (auto simp: contradicted_append seqs_distinct_append dest: contradicted_no_anchor)

lemma contradicted_reachable:
  "reachable env d d' \<Longrightarrow> contradicted d \<and> seqs_distinct d \<Longrightarrow> contradicted d' \<and> seqs_distinct d'"
  by (induction rule: reachable.induct) (auto dest: contradicted_step)

lemma contradicted_not_ok:
  assumes "contradicted d" "seqs_distinct d"
  shows "case verify_ledger env d of Inl _ \<Rightarrow> True | Inr r \<Rightarrow> \<not> lr_ok r \<and> \<not> lr_anchor_covers_head r"
proof -
  obtain a e where a: "latest_anchor d = Some a" "entry_at d (an_seq a) = Some e" "le_entry_hash e \<noteq> an_head_hash a"
    using assms(1) by (auto simp: contradicted_def split: option.splits)
  have "\<not> anchor_covers (Some a) (last_entry d)"
  proof
    assume "anchor_covers (Some a) (last_entry d)"
    then obtain h where h: "last_entry d = Some h" "an_seq a = le_seq h" "an_head_hash a = le_entry_hash h"
      by (auto simp: anchor_covers_def split: option.splits)
    have "entry_at d (le_seq h) = Some h"
      using find_distinct [of le_seq "db_entries d" h] assms(2) last_entry_in [OF h(1)]
      by (simp add: entry_at_def seqs_distinct_def)
    then show False using a h by simp
  qed
  then show ?thesis using a(1) by (auto simp: verify_ledger_def bindE_def Let_def split: sum.splits prod.splits)
qed

text \<open>C11: history changed under an anchor stays detected.  Once the entry at the newest anchored position
  has another hash than the one the SYSTEM key signed, no sequence of appends and anchoring runs ever
  makes the ledger verify again: the service never signs over the mutated history.\<close>

theorem tampering_stays_detected:
  assumes "contradicted d" "seqs_distinct d" "reachable env d d'"
  shows "case verify_ledger env d' of Inl _ \<Rightarrow> True | Inr r \<Rightarrow> \<not> lr_ok r \<and> \<not> lr_anchor_covers_head r"
  using contradicted_reachable [OF assms(3)] assms(1,2) by (intro contradicted_not_ok) auto

definition toy_contradicted :: db where
  "toy_contradicted = toy_db\<lparr>db_anchors := [\<lparr>an_id = 1, an_seq = 0, an_head_hash = ''other'', an_alg_id = ''ML-DSA-65'',
     an_backend = ''toy'', an_key_id = 1, an_signature = []\<rparr>]\<rparr>"

lemma tampering_stays_detected_witness:
  "case verify_ledger toy_env (snd (ledger_append toy_env 5 toy_event toy_contradicted)) of
     Inl _ \<Rightarrow> True | Inr r \<Rightarrow> \<not> lr_ok r \<and> \<not> lr_anchor_covers_head r"
proof (rule tampering_stays_detected)
  show "contradicted toy_contradicted"
    by (simp add: contradicted_def latest_anchor_def toy_contradicted_def entry_at_def toy_entries
        genesis_entry_def compute_entry_hash_def entry_hash_def sha256_hex_def entry_preimage_def ENTRY_DS_def Let_def)
  show "seqs_distinct toy_contradicted"
    by (simp add: seqs_distinct_def toy_contradicted_def toy_entries)
  show "reachable toy_env toy_contradicted (snd (ledger_append toy_env 5 toy_event toy_contradicted))"
    by (rule reach_step [OF reach_refl step_append])
qed

section \<open>Sealing an intact ledger\<close>

definition system_keys_authentic :: "vault_env \<Rightarrow> db \<Rightarrow> bool" where
  "system_keys_authentic env d \<longleftrightarrow>
     list_all (\<lambda>k. is_system_key k \<longrightarrow>
       verify_mac (crypto_env.truncate env) (k_public_key k) (k_public_key_mac k) = Inr True) (db_keys d)"

definition anchors_bounded :: "db \<Rightarrow> bool" where
  "anchors_bounded d \<longleftrightarrow>
     (case last_entry d of
        None \<Rightarrow> db_anchors d = []
      | Some h \<Rightarrow> list_all (\<lambda>a. an_seq a \<le> le_seq h) (db_anchors d))"

definition ledger_wf :: "vault_env \<Rightarrow> db \<Rightarrow> bool" where
  "ledger_wf env d \<longleftrightarrow> distinct (map k_id (db_keys d)) \<and> system_keys_authentic env d \<and> anchors_bounded d"

lemma verify_mac_of_mac:
  assumes "mac env pk = Inr tag" "tag \<noteq> []"
  shows "verify_mac env pk (Some tag) = Inr True"
  using assms by (cases tag) (auto simp: verify_mac_def verify_tagged_mac_def mac_def)

lemma hmac_nonempty: "hash_function H \<Longrightarrow> hmac H key data \<noteq> []"
proof -
  assume "hash_function H"
  then have "length (hmac H key data) = 32" by (simp add: hmac_def Let_def hash_function.length_digest)
  then show ?thesis by auto
qed

lemma mac_nonempty: "hash_function (ce_hash env) \<Longrightarrow> mac env pk = Inr tag \<Longrightarrow> tag \<noteq> []"
  by (auto simp: mac_def tagged_mac_def bindE_Inr hmac_nonempty)

lemma of_crypto_Inr [simp]: "of_crypto r = Inr x \<longleftrightarrow> r = Inr x"
  by (simp add: of_crypto_def split: sum.splits)

lemma of_master_Inr [simp]: "of_master r = Inr x \<longleftrightarrow> r = Inr x"
  by (simp add: of_master_def split: sum.splits)

lemma ensure_system_key_Inr:
  assumes "ensure_system_key env now entropy d = Inr (k, d')" "ledger_wf env d" "hash_function (ce_hash env)"
  shows "is_system_key k" "get_key d' (k_id k) = Some k"
    "verify_mac (crypto_env.truncate env) (k_public_key k) (k_public_key_mac k) = Inr True"
    "db_entries d' = db_entries d" "db_anchors d' = db_anchors d" "ledger_wf env d'"
proof -
  let ?P = "\<lambda>k. is_system_key k \<and> k_status k = ''active''"
  have H: "hash_function (ce_hash (crypto_env.truncate env))"
    using assms(3) by (simp add: crypto_env.truncate_def)
  have "is_system_key k \<and> get_key d' (k_id k) = Some k
    \<and> verify_mac (crypto_env.truncate env) (k_public_key k) (k_public_key_mac k) = Inr True
    \<and> db_entries d' = db_entries d \<and> db_anchors d' = db_anchors d \<and> ledger_wf env d'"
  proof (cases "find ?P (db_keys d)")
    case (Some x)
    then have x: "k = x" "d' = d" "x \<in> set (db_keys d)" "is_system_key x"
      using assms(1) find_Some_in [OF Some] by (auto simp: ensure_system_key_def)
    then show ?thesis
      using assms(2) find_distinct [of k_id "db_keys d" x]
      by (auto simp: ledger_wf_def system_keys_authentic_def list_all_iff get_key_def)
  next
    case None
    then obtain tag where tag: "mac (crypto_env.truncate env) (k_public_key k) = Inr tag" "k_public_key_mac k = Some tag"
        and k: "is_system_key k" "k_id k = next_id (map k_id (db_keys d))" "d' = d\<lparr>db_keys := db_keys d @ [k]\<rparr>"
      using assms(1)
      by (auto simp: ensure_system_key_def bindE_Inr Let_def is_system_key_def split: option.splits)
    have fresh: "k_id k \<notin> set (map k_id (db_keys d))" unfolding k(2) by (rule next_id_fresh)
    then have "find (\<lambda>x. k_id x = k_id k) (db_keys d) = None" by (rule find_fresh)
    moreover have "verify_mac (crypto_env.truncate env) (k_public_key k) (k_public_key_mac k) = Inr True"
      using verify_mac_of_mac tag mac_nonempty [OF H] by auto
    moreover have "anchors_bounded (d\<lparr>db_keys := db_keys d @ [k]\<rparr>) = anchors_bounded d"
      by (simp add: anchors_bounded_def last_entry_def split: option.split)
    ultimately show ?thesis
      using k fresh assms(2)
      by (auto simp: get_key_def find_append ledger_wf_def system_keys_authentic_def)
  qed
  then show "is_system_key k" "get_key d' (k_id k) = Some k"
    "verify_mac (crypto_env.truncate env) (k_public_key k) (k_public_key_mac k) = Inr True"
    "db_entries d' = db_entries d" "db_anchors d' = db_anchors d" "ledger_wf env d'" by blast+
qed

lemma latest_anchor_snoc:
  assumes "list_all (\<lambda>x. an_seq x \<le> an_seq a) anchors" "an_id a = next_id (map an_id anchors)"
  shows "last_by (\<lambda>x. (an_seq x, an_id x)) (anchors @ [a]) = Some a"
proof -
  have "an_seq x \<le> an_seq a \<and> an_id x \<le> an_id a" if "x \<in> set anchors" for x
    using assms that next_id_greater [of "an_id x" "map an_id anchors"] by (auto simp: list_all_iff)
  then show ?thesis
    using last_by_in [of "\<lambda>x. (an_seq x, an_id x)" anchors]
    by (auto simp: last_by_snoc less_eq_prod_def order_le_less split: option.splits)
qed

text \<open>C12: an intact, well-formed ledger is reported intact as soon as its head is anchored: the chain
  verifies, the anchor's SYSTEM key is authentic under the master key, its signature verifies and it
  covers the head.\<close>

theorem anchored_ledger_verifies:
  assumes "hash_function (ce_hash env)" "ledger_wf env d" "fst (verify_chain env d)"
    and "anchor_head env now entropy d = Inr (a, d')"
  shows "case verify_ledger env d' of Inl _ \<Rightarrow> False | Inr r \<Rightarrow> lr_ok r"
proof -
  obtain head d1 where d1: "last_entry d1 = Some head" "fst (verify_chain env d1)" "ledger_wf env d1"
    "(case last_entry d of Some e \<Rightarrow> (e, d) | None \<Rightarrow> ensure_genesis env now d) = (head, d1)"
  proof (cases "last_entry d")
    case (Some h)
    then show ?thesis using that [of d h] assms by simp
  next
    case None
    let ?g = "genesis_entry (ce_hash env) now"
    have "db_entries d = []" using None by simp
    then have "ensure_genesis env now d = (?g, d\<lparr>db_entries := [?g]\<rparr>)"
      by (simp add: ensure_genesis_def Let_def)
    moreover have "ledger_wf env (d\<lparr>db_entries := [?g]\<rparr>)"
      using assms(2) None by (simp add: ledger_wf_def system_keys_authentic_def anchors_bounded_def last_entry_def)
    ultimately show ?thesis
      using None that [of "d\<lparr>db_entries := [?g]\<rparr>" ?g] by (simp add: last_entry_def verify_chain_def)
  qed
  obtain key d2 provider secret where key: "ensure_system_key env now entropy d1 = Inr (key, d2)"
    and provider: "signature (ce_registry env) (k_alg_id key) = Inr provider"
    and a: "an_id a = next_id (map an_id (db_anchors d2))" "an_seq a = le_seq head" "an_head_hash a = le_entry_hash head"
      "an_alg_id a = k_alg_id key" "an_key_id a = k_id key" "an_signature a = sp_sign provider secret (anchor_message (le_seq head) (le_entry_hash head))"
    and ok: "sp_verify provider (k_public_key key) (anchor_message (le_seq head) (le_entry_hash head)) (an_signature a)"
    and d': "d' = d2\<lparr>db_anchors := db_anchors d2 @ [a]\<rparr>"
    using assms(4) unfolding anchor_head_def d1(4)
    by (auto simp: bindE_Inr Let_def split: if_splits)
  note k = ensure_system_key_Inr [OF key d1(3) assms(1)]
  have head: "last_entry d' = Some head" and chain: "fst (verify_chain env d')"
    using d1(1,2) k(4) by (simp_all add: last_entry_def verify_chain_def d')
  have "list_all (\<lambda>x. an_seq x \<le> an_seq a) (db_anchors d2)"
    using k(5) d1(1,3) a(2) by (simp add: ledger_wf_def anchors_bounded_def)
  then have latest: "latest_anchor d' = Some a"
    unfolding latest_anchor_def d' using a(1) by (simp add: latest_anchor_snoc)
  have "get_key d' (an_key_id a) = Some key"
    using k(2) a(5) by (simp add: d' get_key_def)
  then have "verify_anchor env d' a = Inr True"
    using k(1,3) provider a ok by (simp add: verify_anchor_def of_master_def of_crypto_def)
  then show ?thesis
    using head chain latest a by (auto simp: verify_ledger_def anchor_covers_def split: prod.splits)
qed

text \<open>A hash for the example: any function of the interface will do.\<close>

definition toy_hash :: "bytes \<Rightarrow> bytes" where
  "toy_hash x = take 32 (x @ replicate 32 (CHR ''0''))"

definition toy_env32 :: vault_env where
  "toy_env32 = toy_env\<lparr>ce_hash := toy_hash\<rparr>"

definition toy_config_db :: db where
  "toy_config_db = empty_db\<lparr>db_config := Some \<lparr>ac_active_signature_alg = ''ML-DSA-65'',
     ac_active_kem_alg = ''ML-KEM-768'', ac_backend = ''toy'', ac_updated_by = None, ac_updated_at = 0\<rparr>\<rparr>"

lemma toy_hash_function: "hash_function toy_hash"
  by unfold_locales (simp add: toy_hash_def)

lemma anchored_ledger_verifies_witness:
  "\<exists>a d'. anchor_head toy_env32 0 ([], []) toy_config_db = Inr (a, d')
    \<and> (case verify_ledger toy_env32 d' of Inl _ \<Rightarrow> False | Inr r \<Rightarrow> lr_ok r)"
proof -
  obtain a d' where a: "anchor_head toy_env32 0 ([], []) toy_config_db = Inr (a, d')"
    by (simp add: anchor_head_def toy_config_db_def empty_db_def last_entry_def ensure_genesis_def Let_def
        ensure_system_key_def signature_def resolve_def toy_env32_def toy_env_def toy_registry_def register_signature_def
        register_symmetric_def empty_registry_def toy_signature_def toy_symmetric_def wrap_secret_def of_crypto_def
        symmetric_def of_master_def get_master_key_def crypto_env.truncate_def SYMMETRIC_ALG_def mac_def
        tagged_mac_def unwrap_secret_def MASTER_AAD_def)
  have "ledger_wf toy_env32 toy_config_db" "fst (verify_chain toy_env32 toy_config_db)"
    by (simp_all add: ledger_wf_def system_keys_authentic_def anchors_bounded_def toy_config_db_def empty_db_def
        last_entry_def verify_chain_def)
  with anchored_ledger_verifies [OF _ this a] a show ?thesis
    using toy_hash_function by (auto simp: toy_env32_def)
qed

end
