(* ===== verification/Ledger_Demo.thy ===== *)
theory Ledger_Demo
  imports Ledger_Anchors
begin

text \<open>
  The tamper demonstration of the ledger: an edited payload breaks the chain at the edited entry, a
  consistent forward rewrite passes the chain check and is caught by the anchor, and restoring gives
  back the exact database.
\<close>

section \<open>Frames: what the demonstration never touches\<close>

definition same_frame :: "ledger_entry \<Rightarrow> ledger_entry \<Rightarrow> bool" where
  "same_frame r e \<longleftrightarrow>
     r\<lparr>le_payload_json := le_payload_json e, le_payload_hash := le_payload_hash e,
       le_prev_hash := le_prev_hash e, le_entry_hash := le_entry_hash e\<rparr> = e"

lemma same_frame_refl [simp]: "same_frame e e"
  by (simp add: same_frame_def)

lemma same_frame_updates [simp]:
  "same_frame (r\<lparr>le_payload_json := x\<rparr>) e = same_frame r e"
  "same_frame (r\<lparr>le_payload_hash := x\<rparr>) e = same_frame r e"
  "same_frame (r\<lparr>le_prev_hash := x\<rparr>) e = same_frame r e"
  "same_frame (r\<lparr>le_entry_hash := x\<rparr>) e = same_frame r e"
  by (cases r; cases e; simp add: same_frame_def)+

lemma same_frame_seq: "same_frame r e \<Longrightarrow> le_seq r = le_seq e"
  by (cases r; cases e) (simp add: same_frame_def)

lemma rewrite_forward_frames: "list_all2 same_frame (rewrite_forward H prev es) es"
  by (induction H prev es rule: rewrite_forward.induct) (auto simp: Let_def)

lemma list_all2_frame_trans: "list_all2 same_frame xs (r # es) \<Longrightarrow> same_frame r e \<Longrightarrow> list_all2 same_frame xs (e # es)"
proof -
  have "same_frame x r \<Longrightarrow> same_frame r e \<Longrightarrow> same_frame x e" for x
    by (cases x; cases r; cases e) (simp add: same_frame_def)
  then show "list_all2 same_frame xs (r # es) \<Longrightarrow> same_frame r e \<Longrightarrow> list_all2 same_frame xs (e # es)"
    by (cases xs) auto
qed

definition replace_rows :: "ledger_entry list \<Rightarrow> ledger_entry \<Rightarrow> ledger_entry" where
  "replace_rows rows e = (case find (\<lambda>r. le_seq r = le_seq e) rows of Some r \<Rightarrow> r | None \<Rightarrow> e)"

lemma write_back_replace: "db_entries (write_back rows d) = map (replace_rows rows) (db_entries d)"
  by (simp add: write_back_def replace_rows_def)

lemma find_frame:
  assumes "list_all2 same_frame rows es" "distinct (map le_seq es)" "find (\<lambda>r. le_seq r = le_seq e) rows = Some r"
    "e \<in> set es"
  shows "same_frame r e"
  using assms
proof (induction rows es rule: list_all2_induct)
  case (Cons x xs y ys)
  show ?case
  proof (cases "le_seq x = le_seq e")
    case True
    then have "y = e" using Cons.prems Cons.hyps(1) same_frame_seq by (fastforce simp: image_iff)
    then show ?thesis using Cons True by simp
  next
    case False
    then have "e \<in> set ys" using Cons.prems(3) Cons.hyps(1) same_frame_seq by auto
    then show ?thesis using Cons False by simp
  qed
qed simp

lemma replace_rows_frame:
  assumes "list_all2 same_frame rows es" "distinct (map le_seq all)" "set es \<subseteq> set all" "e \<in> set all" "distinct (map le_seq es)"
  shows "same_frame (replace_rows rows e) e"
proof (cases "find (\<lambda>r. le_seq r = le_seq e) rows")
  case (Some r)
  then have "r \<in> set rows" "le_seq r = le_seq e" using find_Some_in by fastforce+
  then obtain y where "y \<in> set es" "le_seq y = le_seq e"
    using assms(1) same_frame_seq by (metis list_all2_conv_all_nth in_set_conv_nth)
  then have "e \<in> set es" using assms(2,3,4) by (metis distinct_map inj_onD subsetD)
  then show ?thesis using find_frame [OF assms(1,5) Some] Some by (simp add: replace_rows_def)
qed (simp add: replace_rows_def)

lemma restore_frame:
  assumes "same_frame r e" "map_of (rev (map (\<lambda>b. (sn_seq b, b)) backup)) (le_seq e) = Some (snapshot e)"
  shows "restore_entry backup r = e"
  using assms same_frame_seq [OF assms(1)] by (simp add: restore_entry_def same_frame_def snapshot_def)

lemma backup_lookup:
  assumes "distinct (map le_seq es)" "e \<in> set es"
  shows "map_of (rev (map (\<lambda>b. (sn_seq b, b)) (map snapshot es))) (le_seq e) = Some (snapshot e)"
proof (rule map_of_is_SomeI)
  show "distinct (map fst (rev (map (\<lambda>b. (sn_seq b, b)) (map snapshot es))))"
    using assms(1) by (simp add: rev_map [symmetric] o_def snapshot_def)
  show "(le_seq e, snapshot e) \<in> set (rev (map (\<lambda>b. (sn_seq b, b)) (map snapshot es)))"
    using assms(2) by (force simp: snapshot_def)
qed

section \<open>What a successful run changes\<close>

lemma set_sort_entries [simp]: "set (sort_key le_seq es) = set es"
  by simp

lemma distinct_sorted: "distinct (map le_seq es) \<Longrightarrow> distinct (map le_seq (sort_key le_seq es))"
  by (simp add: distinct_map)

lemma demo_tamper_cases:
  assumes "demo_tamper env target_seq mode (None, d) = (r, s)"
  obtains (refused) "s = (None, d)" "\<exists>e. r = Inl e"
  | (unreadable) "s = (Some (map snapshot (sort_key le_seq (db_entries d))), d)" "\<exists>e. r = Inl e"
  | (edited) idx pj where "mode = ''edit''" "r = Inr ()" "idx < length (db_entries d)"
      "le_seq (sort_key le_seq (db_entries d) ! idx) = target_seq"
      "tampered_payload (le_payload_json (sort_key le_seq (db_entries d) ! idx)) = Inr pj"
      "s = (Some (map snapshot (sort_key le_seq (db_entries d))),
        write_back [(sort_key le_seq (db_entries d) ! idx)\<lparr>le_payload_json := pj\<rparr>] d)"
  | (rewritten) idx pj where "mode = ''rewrite''" "r = Inr ()" "idx < length (db_entries d)"
      "le_seq (sort_key le_seq (db_entries d) ! idx) = target_seq"
      "tampered_payload (le_payload_json (sort_key le_seq (db_entries d) ! idx)) = Inr pj"
      "s = (Some (map snapshot (sort_key le_seq (db_entries d))),
        write_back (rewrite_forward (ce_hash env)
          (if idx > 0 then le_entry_hash (sort_key le_seq (db_entries d) ! (idx - 1)) else GENESIS_PREV_HEX (ce_hash env))
          ((sort_key le_seq (db_entries d) ! idx)\<lparr>le_payload_json := pj, le_payload_hash := sha256_hex (ce_hash env) pj\<rparr>
           # drop (Suc idx) (sort_key le_seq (db_entries d)))) d)"
proof -
  let ?es = "sort_key le_seq (db_entries d)"
  let ?fs = "filter (\<lambda>i. le_seq (?es ! i) = target_seq) [0..<length ?es]"
  show ?thesis
  proof (cases "mode = ''edit'' \<or> mode = ''rewrite''")
    case False
    then have "s = (None, d)" "r = Inl Ledger_bad_mode" using assms by (auto simp: demo_tamper_def Let_def)
    then show ?thesis by (intro that(1)) simp_all
  next
    case True
    then have good: "(mode \<noteq> ''edit'' \<and> mode \<noteq> ''rewrite'') = False" by simp
    show ?thesis
    proof (cases ?fs)
      case Nil
      then have "s = (None, d)" "r = Inl (Ledger_no_entry target_seq)"
        using assms by (auto simp: demo_tamper_def Let_def good)
      then show ?thesis by (intro that(1)) simp_all
    next
      case fs: (Cons idx rest)
      then have "idx \<in> set ?fs" by simp
      then have idx: "idx < length (db_entries d)" "le_seq (?es ! idx) = target_seq" by auto
      show ?thesis
      proof (cases "tampered_payload (le_payload_json (?es ! idx))")
        case (Inl e)
        then have "s = (Some (map snapshot ?es), d)" "r = Inl e"
          using assms fs by (auto simp: demo_tamper_def Let_def good)
        then show ?thesis by (intro that(2)) simp_all
      next
        case (Inr pj)
        show ?thesis
        proof (cases "mode = ''edit''")
          case edit: True
          then show ?thesis
            using assms that(3) [OF edit _ idx Inr] fs Inr by (simp add: demo_tamper_def Let_def good)
        next
          case edit: False
          then have "mode = ''rewrite''" using True by simp
          then show ?thesis
            using assms that(4) [OF _ _ idx Inr] fs Inr edit by (simp add: demo_tamper_def Let_def good)
        qed
      qed
    qed
  qed
qed

lemma drop_Suc_nth: "idx < length es \<Longrightarrow> drop idx es = es ! idx # drop (Suc idx) es"
  by (rule Cons_nth_drop_Suc [symmetric])

text \<open>The demonstration is reversible.  Whatever it did, and also when it refused, restoring gives back
  the exact database it started from and clears the tampered mark.\<close>

theorem demo_round_trip:
  assumes "seqs_distinct d"
  shows "snd (demo_restore (snd (demo_tamper env target_seq mode (None, d)))) = (None, d)"
proof -
  obtain r s where rs: "demo_tamper env target_seq mode (None, d) = (r, s)" by (metis surj_pair)
  let ?es = "sort_key le_seq (db_entries d)"
  have dist: "distinct (map le_seq ?es)" "distinct (map le_seq (db_entries d))"
    using assms distinct_sorted by (auto simp: seqs_distinct_def)
  have same: "snd (demo_restore (Some (map snapshot ?es), write_back rows d)) = (None, d)"
    if frames: "\<forall>e \<in> set (db_entries d). same_frame (replace_rows rows e) e" for rows
  proof -
    have "map (restore_entry (map snapshot ?es)) (map (replace_rows rows) (db_entries d)) = db_entries d"
      using frames backup_lookup [OF dist(1)] restore_frame by (auto intro!: map_idI)
    then show ?thesis by (simp add: demo_restore_def write_back_replace) (simp add: write_back_def)
  qed
  from rs show ?thesis
  proof (cases rule: demo_tamper_cases)
    case refused
    then show ?thesis by (simp add: rs demo_restore_def)
  next
    case unreadable
    have "write_back [] d = d" by (simp add: write_back_def)
    then show ?thesis using same [of "[]"] unreadable by (simp add: rs replace_rows_def)
  next
    case (edited idx pj)
    have "same_frame (replace_rows [(?es ! idx)\<lparr>le_payload_json := pj\<rparr>] e) e" if "e \<in> set (db_entries d)" for e
      using edited(3) that dist(2) by (intro replace_rows_frame [of _ "[?es ! idx]" "db_entries d"])
        (auto simp: nth_mem [of idx ?es, simplified])
    then show ?thesis using same edited(6) by (simp add: rs)
  next
    case (rewritten idx pj)
    let ?t = "(?es ! idx)\<lparr>le_payload_json := pj, le_payload_hash := sha256_hex (ce_hash env) pj\<rparr>"
    have "list_all2 same_frame (rewrite_forward H prev (?t # drop (Suc idx) ?es)) (drop idx ?es)" for H prev
      using rewritten(3) list_all2_frame_trans [OF rewrite_forward_frames [of H prev "?t # drop (Suc idx) ?es"], of "?es ! idx"]
      by (simp add: drop_Suc_nth)
    then have "same_frame (replace_rows (rewrite_forward H prev (?t # drop (Suc idx) ?es)) e) e"
      if "e \<in> set (db_entries d)" for H prev e
      using that dist by (intro replace_rows_frame [of _ "drop idx ?es" "db_entries d"])
        (auto dest: in_set_dropD simp: drop_map [symmetric])
    then show ?thesis using same rewritten(6) by (simp add: rs)
  qed
qed

lemma demo_round_trip_witness:
  "seqs_distinct toy_db \<and> snd (demo_restore (snd (demo_tamper toy_env 1 ''rewrite'' (None, toy_db)))) = (None, toy_db)"
proof
  show "seqs_distinct toy_db" by (simp add: seqs_distinct_def toy_entries)
  then show "snd (demo_restore (snd (demo_tamper toy_env 1 ''rewrite'' (None, toy_db)))) = (None, toy_db)"
    by (rule demo_round_trip)
qed

section \<open>What the chain check says of a tampered ledger\<close>

lemma replace_rows_seq [simp]: "le_seq (replace_rows rows e) = le_seq e"
  by (auto simp: replace_rows_def split: option.splits dest: find_Some_in)

lemma insort_key_fixed: "(\<And>x. f (g x) = f x) \<Longrightarrow> insort_key f (g x) (map g xs) = map g (insort_key f x xs)"
  by (induction xs) auto

lemma sort_key_fixed: "(\<And>x. f (g x) = f x) \<Longrightarrow> sort_key f (map g xs) = map g (sort_key f xs)"
  by (induction xs) (simp_all add: insort_key_fixed)

lemma sorted_write_back:
  "sort_key le_seq (db_entries (write_back rows d)) = map (replace_rows rows) (sort_key le_seq (db_entries d))"
  by (simp add: write_back_replace sort_key_fixed)

lemma replace_rows_all:
  assumes "list_all2 same_frame rows es" "distinct (map le_seq es)"
  shows "map (replace_rows rows) es = rows"
  using assms
proof (induction rows es rule: list_all2_induct)
  case (Cons x xs y ys)
  then have "le_seq x = le_seq y" by (simp add: same_frame_seq)
  have "map (replace_rows (x # xs)) ys = map (replace_rows xs) ys"
    using Cons.prems \<open>le_seq x = le_seq y\<close> by (auto simp: replace_rows_def)
  also have "\<dots> = xs" using Cons by simp
  finally have "map (replace_rows (x # xs)) ys = xs" .
  moreover have "replace_rows (x # xs) y = x" using \<open>le_seq x = le_seq y\<close> by (simp add: replace_rows_def)
  ultimately show ?case using Cons by simp
qed simp

lemma replace_rows_other:
  assumes "list_all2 same_frame rows fs" "le_seq e \<notin> set (map le_seq fs)"
  shows "replace_rows rows e = e"
proof -
  have "le_seq ` set rows = le_seq ` set fs"
    using assms(1) by (induction rows fs rule: list_all2_induct) (auto simp: same_frame_seq)
  then have "find (\<lambda>r. le_seq r = le_seq e) rows = None"
    using assms(2) by (intro find_fresh) auto
  then show ?thesis by (simp add: replace_rows_def)
qed

lemma replace_rows_middle:
  assumes "list_all2 same_frame rows fs" "distinct (map le_seq (es @ fs @ gs))"
  shows "map (replace_rows rows) (es @ fs @ gs) = es @ rows @ gs"
proof -
  have "map (replace_rows rows) es = es" "map (replace_rows rows) gs = gs"
    using assms by (auto intro!: map_idI replace_rows_other)
  then show ?thesis using replace_rows_all [OF assms(1)] assms(2) by simp
qed

lemma verify_entries_prefix:
  "fst (verify_entries H prev es) \<Longrightarrow> verify_entries H prev (es @ fs) = verify_entries H (chain_end prev es) fs"
  by (induction es arbitrary: prev) (auto simp: chain_end_def split: if_splits)

lemma sorted_split:
  assumes "idx < length (db_entries d)"
  shows "sort_key le_seq (db_entries d) = take idx (sort_key le_seq (db_entries d))
    @ sort_key le_seq (db_entries d) ! idx # drop (Suc idx) (sort_key le_seq (db_entries d))"
  using assms by (simp add: id_take_nth_drop [symmetric])

lemma compute_entry_hash_payload [simp]: "compute_entry_hash H (e\<lparr>le_payload_json := x\<rparr>) = compute_entry_hash H e"
  by (cases e) (simp add: compute_entry_hash_def entry_fields.truncate_def)

lemma demo_tamper_succeeds:
  assumes "seqs_distinct d" "e \<in> set (db_entries d)" "tampered_payload (le_payload_json e) = Inr pj"
    "mode = ''edit'' \<or> mode = ''rewrite''"
  shows "fst (demo_tamper env (le_seq e) mode (None, d)) = Inr ()"
proof -
  let ?es = "sort_key le_seq (db_entries d)"
  let ?fs = "filter (\<lambda>i. le_seq (?es ! i) = le_seq e) [0..<length ?es]"
  obtain i where i: "i < length ?es" "?es ! i = e" using assms(2) by (metis in_set_conv_nth set_sort_entries)
  then have "i \<in> set ?fs" by simp
  then have "?fs \<noteq> []" by (metis empty_iff empty_set)
  then obtain j rest where fs: "?fs = j # rest" by (meson neq_Nil_conv)
  then have "j \<in> set ?fs" by simp
  then have j: "j < length ?es" "le_seq (?es ! j) = le_seq e" by auto
  then have "?es ! j \<in> set (db_entries d)" by (metis nth_mem set_sort_entries)
  then have "?es ! j = e" using j(2) assms(1,2) by (metis seqs_distinct_def distinct_map inj_onD)
  moreover have "(mode \<noteq> ''edit'' \<and> mode \<noteq> ''rewrite'') = False" using assms(4) by blast
  ultimately show ?thesis using fs assms(3) by (simp add: demo_tamper_def Let_def)
qed

text \<open>An edited payload is detected where it was edited.  On a ledger that passed the chain check, the
  ``edit'' tampering of one entry makes the check fail at exactly that entry's sequence number, unless
  SHA-256 collides on the two payloads.\<close>

theorem demo_edit_detected:
  assumes "seqs_distinct d" "fst (verify_chain env d)" "e \<in> set (db_entries d)"
    and "tampered_payload (le_payload_json e) = Inr pj" "pj \<noteq> le_payload_json e"
    and "collision_free (ce_hash env) {pj, le_payload_json e}"
  shows "fst (demo_tamper env (le_seq e) ''edit'' (None, d)) = Inr ()
    \<and> verify_chain env (snd (snd (demo_tamper env (le_seq e) ''edit'' (None, d)))) = (False, Some (le_seq e))"
proof -
  let ?es = "sort_key le_seq (db_entries d)" and ?H = "ce_hash env"
  obtain r s where rs: "demo_tamper env (le_seq e) ''edit'' (None, d) = (r, s)" by (metis surj_pair)
  have r: "r = Inr ()" using demo_tamper_succeeds [OF assms(1,3,4)] rs by (metis fst_conv)
  have dist: "distinct (map le_seq ?es)" using assms(1) distinct_sorted by (simp add: seqs_distinct_def)
  have same: "?es ! i = e" if "i < length (db_entries d)" "le_seq (?es ! i) = le_seq e" for i
  proof -
    have "?es ! i \<in> set ?es" using that(1) by (metis length_sort nth_mem)
    then show ?thesis using that(2) assms(1,3) by (metis set_sort_entries seqs_distinct_def distinct_map inj_onD)
  qed
  from rs show ?thesis
  proof (cases rule: demo_tamper_cases)
    case refused
    then show ?thesis using r by simp
  next
    case unreadable
    then show ?thesis using r by simp
  next
    case (edited idx pj')
    let ?t = "e\<lparr>le_payload_json := pj\<rparr>"
    have e: "?es ! idx = e" using same edited(3,4) by blast
    then have pj: "pj' = pj" using edited(5) assms(4) by simp
    have split: "?es = take idx ?es @ e # drop (Suc idx) ?es" using sorted_split [OF edited(3)] e by simp
    have "list_all2 same_frame [?t] [e]" by simp
    from replace_rows_middle [OF this, of "take idx ?es" "drop (Suc idx) ?es"]
    have new: "sort_key le_seq (db_entries (snd s)) = take idx ?es @ ?t # drop (Suc idx) ?es"
      using dist split edited(6) e pj by (simp add: sorted_write_back)
    have ok: "fst (verify_entries ?H (GENESIS_PREV_HEX ?H) (take idx ?es @ e # drop (Suc idx) ?es))"
      using assms(2) split by (simp add: verify_chain_def)
    then have pre: "fst (verify_entries ?H (GENESIS_PREV_HEX ?H) (take idx ?es))"
      and at: "le_prev_hash e = chain_end (GENESIS_PREV_HEX ?H) (take idx ?es)"
        "compute_entry_hash ?H e = le_entry_hash e" "sha256_hex ?H (le_payload_json e) = le_payload_hash e"
      by (auto simp: verify_entries_append split: if_splits)
    have "?H pj \<noteq> ?H (le_payload_json e)" using collision_freeD [OF assms(6)] assms(5) by blast
    then have "sha256_hex ?H pj \<noteq> le_payload_hash e" using at(3) by (metis sha256_hex_def to_hex_inj)
    then have "verify_chain env (snd s) = (False, Some (le_seq e))"
      by (simp add: verify_chain_def new verify_entries_prefix [OF pre] at)
    then show ?thesis using edited rs by simp
  next
    case (rewritten idx pj')
    then show ?thesis by simp
  qed
qed

lemma demo_edit_detected_witness:
  "verify_chain toy_env (snd (snd (demo_tamper toy_env 1 ''edit'' (None, toy_db)))) = (False, Some 1)"
proof -
  let ?e = "chained_entry (\<lambda>x. x) 0 toy_event (genesis_entry (\<lambda>x. x) 0)"
  have seq: "le_seq ?e = 1" by simp
  have "tampered_payload (le_payload_json ?e) =
      Inr (canonical_json (JObj [(''vault_id'', JInt 1), (''_tamper'', JStr ''unauthorised edit'')]))"
    by (simp add: tampered_payload_def chained_entry_def toy_event_def Let_def) code_simp
  moreover have "canonical_json (JObj [(''vault_id'', JInt 1), (''_tamper'', JStr ''unauthorised edit'')]) \<noteq> le_payload_json ?e"
    by (simp add: chained_entry_def toy_event_def Let_def) code_simp
  moreover have "seqs_distinct toy_db" "?e \<in> set (db_entries toy_db)"
    by (simp_all add: seqs_distinct_def toy_entries)
  moreover have "collision_free (ce_hash toy_env) X" for X by (simp add: collision_free_def toy_env_def)
  ultimately show ?thesis using demo_edit_detected [of toy_db toy_env ?e] toy_chain unfolding seq by blast
qed

lemma rewrite_forward_verifies:
  assumes "\<forall>e \<in> set es. sha256_hex H (le_payload_json e) = le_payload_hash e"
  shows "fst (verify_entries H prev (rewrite_forward H prev es))"
  using assms by (induction H prev es rule: rewrite_forward.induct) (simp_all add: Let_def)

lemma write_back_anchors [simp]: "db_anchors (write_back rows d) = db_anchors d"
  by (simp add: write_back_def)

lemma verify_entries_payloads:
  "fst (verify_entries H prev es) \<Longrightarrow> \<forall>e \<in> set es. sha256_hex H (le_payload_json e) = le_payload_hash e"
  by (induction H prev es rule: verify_entries.induct) (auto split: if_splits)

lemma rewritten_payloads: "map le_payload_json (rewrite_forward H prev es) = map le_payload_json es"
  by (induction H prev es rule: rewrite_forward.induct) (simp_all add: Let_def)

lemma ledger_inputs_sorted [simp]: "ledger_inputs (sort_key le_seq es) = ledger_inputs es"
  by (simp add: ledger_inputs_def)

lemma demo_rewrite_result:
  assumes "seqs_distinct d" "fst (verify_chain env d)" "e \<in> set (db_entries d)"
    and "tampered_payload (le_payload_json e) = Inr pj"
    and d': "d' = snd (snd (demo_tamper env (le_seq e) ''rewrite'' (None, d)))"
  obtains es fs where "sort_key le_seq (db_entries d) = es @ e # fs"
    "map le_payload_json (sort_key le_seq (db_entries d')) = map le_payload_json es @ pj # map le_payload_json fs"
    "verify_chain env d' = (True, None)" "db_anchors d' = db_anchors d"
proof -
  let ?es = "sort_key le_seq (db_entries d)" and ?H = "ce_hash env"
  obtain r s where rs: "demo_tamper env (le_seq e) ''rewrite'' (None, d) = (r, s)" by (metis surj_pair)
  have r: "r = Inr ()" using demo_tamper_succeeds [OF assms(1,3,4)] rs by (metis fst_conv)
  have dist: "distinct (map le_seq ?es)" using assms(1) distinct_sorted by (simp add: seqs_distinct_def)
  have ok: "fst (verify_entries ?H (GENESIS_PREV_HEX ?H) ?es)" using assms(2) by (simp add: verify_chain_def)
  from rs obtain idx where idx: "idx < length (db_entries d)" "?es ! idx = e"
    and s: "d' = write_back (rewrite_forward ?H
          (if idx > 0 then le_entry_hash (?es ! (idx - 1)) else GENESIS_PREV_HEX ?H)
          (e\<lparr>le_payload_json := pj, le_payload_hash := sha256_hex ?H pj\<rparr> # drop (Suc idx) ?es)) d"
  proof (cases rule: demo_tamper_cases)
    case (rewritten idx pj')
    have "?es ! idx \<in> set ?es" using rewritten(3) by (metis length_sort nth_mem)
    then have "?es ! idx = e" using rewritten(4) assms(1,3) by (metis set_sort_entries seqs_distinct_def distinct_map inj_onD)
    then show ?thesis using rewritten assms(4) d' rs that by simp
  qed (use r in simp_all)
  let ?prev = "if idx > 0 then le_entry_hash (?es ! (idx - 1)) else GENESIS_PREV_HEX ?H"
  let ?ts = "e\<lparr>le_payload_json := pj, le_payload_hash := sha256_hex ?H pj\<rparr> # drop (Suc idx) ?es"
  have split: "?es = take idx ?es @ e # drop (Suc idx) ?es" using sorted_split [OF idx(1)] idx(2) by simp
  have "list_all2 same_frame (rewrite_forward ?H ?prev ?ts) (e # drop (Suc idx) ?es)"
    by (rule list_all2_frame_trans [OF rewrite_forward_frames]) simp
  from replace_rows_middle [OF this, of "take idx ?es" "[]"]
  have new: "sort_key le_seq (db_entries d') = take idx ?es @ rewrite_forward ?H ?prev ?ts"
    using dist split s by (simp add: sorted_write_back del: rewrite_forward.simps)
  have prev: "chain_end (GENESIS_PREV_HEX ?H) (take idx ?es) = ?prev"
    using idx(1) by (cases idx) (auto simp: chain_end_def take_Suc_conv_app_nth)
  have "fst (verify_entries ?H (GENESIS_PREV_HEX ?H) (take idx ?es))"
    using ok split by (metis verify_entries_append)
  moreover have "\<forall>x \<in> set ?ts. sha256_hex ?H (le_payload_json x) = le_payload_hash x"
    using verify_entries_payloads [OF ok] by (auto dest: in_set_dropD)
  ultimately have "fst (verify_entries ?H (GENESIS_PREV_HEX ?H) (take idx ?es @ rewrite_forward ?H ?prev ?ts))"
    unfolding verify_entries_append prev using rewrite_forward_verifies by blast
  then have "verify_chain env d' = (True, None)"
    by (simp add: verify_chain_def new verify_entries_True del: rewrite_forward.simps)
  moreover have "map le_payload_json (sort_key le_seq (db_entries d')) =
      map le_payload_json (take idx ?es) @ pj # map le_payload_json (drop (Suc idx) ?es)"
    unfolding new by (simp add: rewritten_payloads del: rewrite_forward.simps)
  moreover have "db_anchors d' = db_anchors d" by (simp add: s)
  ultimately show thesis using that [OF split] by blast
qed

text \<open>The anchor catches what the chain cannot.  After the ``rewrite'' tampering, which recomputes
  every later hash, the chain check passes again; but when the latest anchor covered the head before,
  it no longer does, and the ledger's report is not ok, unless SHA-256 collides on what the two chains
  hash.\<close>

theorem demo_rewrite_caught:
  assumes "seqs_distinct d" "fst (verify_chain env d)" "e \<in> set (db_entries d)"
    and "tampered_payload (le_payload_json e) = Inr pj" "pj \<noteq> le_payload_json e"
    and "anchor_covers (latest_anchor d) (last_entry d)"
    and "d' = snd (snd (demo_tamper env (le_seq e) ''rewrite'' (None, d)))"
    and "collision_free (ce_hash env) (ledger_inputs (db_entries d) \<union> ledger_inputs (db_entries d'))"
  shows "verify_chain env d' = (True, None)
    \<and> (case verify_ledger env d' of Inl _ \<Rightarrow> True | Inr r \<Rightarrow> lr_chain_ok r \<and> \<not> lr_anchor_covers_head r \<and> \<not> lr_ok r)"
proof -
  let ?es = "sort_key le_seq (db_entries d)" and ?H = "ce_hash env"
  obtain es fs where split: "?es = es @ e # fs"
    and new: "map le_payload_json (sort_key le_seq (db_entries d')) = map le_payload_json es @ pj # map le_payload_json fs"
    and verdict: "verify_chain env d' = (True, None)" and anchors: "db_anchors d' = db_anchors d"
    using demo_rewrite_result [OF assms(1-4,7)] by metis
  have "map le_payload_json (sort_key le_seq (db_entries d')) \<noteq> map le_payload_json ?es"
    unfolding new split using assms(5) by simp
  then have differ: "?es \<noteq> sort_key le_seq (db_entries d')" by metis
  have "\<not> anchor_covers (latest_anchor d') (last_entry d')"
  proof
    assume covers: "anchor_covers (latest_anchor d') (last_entry d')"
    have same: "latest_anchor d' = latest_anchor d" by (simp add: latest_anchor_def anchors)
    from covers assms(6) obtain a h h' where "latest_anchor d = Some a" "last_entry d = Some h" "last_entry d' = Some h'"
        "le_entry_hash h = le_entry_hash h'"
      unfolding same by (auto simp: anchor_covers_def split: option.splits)
    then have "chain_end (GENESIS_PREV_HEX ?H) ?es = chain_end (GENESIS_PREV_HEX ?H) (sort_key le_seq (db_entries d'))"
      by (simp add: last_entry_chain_end)
    moreover have "fst (verify_entries ?H (GENESIS_PREV_HEX ?H) ?es)"
        "fst (verify_entries ?H (GENESIS_PREV_HEX ?H) (sort_key le_seq (db_entries d')))"
      using assms(2) verdict by (simp_all add: verify_chain_def)
    ultimately show False using chain_determined [of ?H] differ assms(8) by (metis ledger_inputs_sorted)
  qed
  then show ?thesis using verdict
    by (auto simp: verify_ledger_def bindE_def Let_def split: sum.splits)
qed

definition toy_sealed :: db where
  "toy_sealed = toy_db\<lparr>db_anchors := [\<lparr>an_id = 1, an_seq = 1,
     an_head_hash = le_entry_hash (chained_entry (\<lambda>x. x) 0 toy_event (genesis_entry (\<lambda>x. x) 0)),
     an_alg_id = ''ML-DSA-65'', an_backend = ''toy'', an_key_id = 1, an_signature = []\<rparr>]\<rparr>"

lemma demo_rewrite_caught_witness:
  "verify_chain toy_env (snd (snd (demo_tamper toy_env 1 ''rewrite'' (None, toy_sealed)))) = (True, None)"
proof -
  let ?e = "chained_entry (\<lambda>x. x) 0 toy_event (genesis_entry (\<lambda>x. x) 0)"
  have seq: "le_seq ?e = 1" by simp
  have "tampered_payload (le_payload_json ?e) =
      Inr (canonical_json (JObj [(''vault_id'', JInt 1), (''_tamper'', JStr ''unauthorised edit'')]))"
    by (simp add: tampered_payload_def chained_entry_def toy_event_def Let_def) code_simp
  moreover have "canonical_json (JObj [(''vault_id'', JInt 1), (''_tamper'', JStr ''unauthorised edit'')]) \<noteq> le_payload_json ?e"
    by (simp add: chained_entry_def toy_event_def Let_def) code_simp
  moreover have "seqs_distinct toy_sealed" "?e \<in> set (db_entries toy_sealed)"
    by (simp_all add: seqs_distinct_def toy_sealed_def toy_entries)
  moreover have "fst (verify_chain toy_env toy_sealed)"
    using toy_chain by (simp add: toy_sealed_def verify_chain_def)
  moreover have "anchor_covers (latest_anchor toy_sealed) (last_entry toy_sealed)"
    by (simp add: toy_sealed_def latest_anchor_def last_entry_def toy_entries anchor_covers_def)
  moreover have "collision_free (ce_hash toy_env) X" for X by (simp add: collision_free_def toy_env_def)
  ultimately show ?thesis using demo_rewrite_caught [of toy_sealed toy_env ?e, OF _ _ _ _ _ _ refl] unfolding seq by blast
qed

end
