(* ===== verification/Base64.thy ===== *)
theory Base64
  imports Vault_Prelude
begin

text \<open>
  \<open>base64.b64encode\<close> and the lenient \<open>base64.b64decode\<close>, which the wire formats carry keys, signatures
  and challenges in.  Decoding skips every character outside the alphabet, stops at the padding that
  completes a group, and fails on a group left open; a text with a non-ASCII character raises.
\<close>

definition b64_alphabet :: ustr where
  "b64_alphabet = ''ABCDEFGHIJKLMNOPQRSTUVWXYZabcdefghijklmnopqrstuvwxyz0123456789+/''"

definition b64_digit :: "nat \<Rightarrow> char" where
  "b64_digit n = b64_alphabet ! n"

definition b64_value :: "char \<Rightarrow> nat option" where
  "b64_value c = map_of (zip b64_alphabet [0..<64]) c"

fun b64encode :: "bytes \<Rightarrow> ustr" where
  "b64encode [] = []"
| "b64encode [a] = [b64_digit (code_of a div 4), b64_digit (code_of a mod 4 * 16), CHR ''='', CHR ''='']"
| "b64encode [a, b] =
     [b64_digit (code_of a div 4), b64_digit (code_of a mod 4 * 16 + code_of b div 16),
      b64_digit (code_of b mod 16 * 4), CHR ''='']"
| "b64encode (a # b # c # r) =
     [b64_digit (code_of a div 4), b64_digit (code_of a mod 4 * 16 + code_of b div 16),
      b64_digit (code_of b mod 16 * 4 + code_of c div 64), b64_digit (code_of c mod 64)] @ b64encode r"

text \<open>The loop of \<open>a2b_base64\<close>: the place in the group, the bits left of the last digit, the padding seen.\<close>

fun b64_loop :: "nat \<Rightarrow> nat \<Rightarrow> nat \<Rightarrow> ustr \<Rightarrow> bytes option" where
  "b64_loop quad left pads [] = (if quad = 0 then Some [] else None)"
| "b64_loop quad left pads (c # cs) =
     (if c = CHR ''='' then
        (if quad \<ge> 2 then (if quad + Suc pads \<ge> 4 then Some [] else b64_loop quad left (Suc pads) cs)
         else b64_loop quad left pads cs)
      else case b64_value c of
        None \<Rightarrow> b64_loop quad left pads cs
      | Some v \<Rightarrow>
          (if quad = 0 then b64_loop 1 v 0 cs
           else if quad = 1 then map_option ((#) (byte_of (left * 4 + v div 16))) (b64_loop 2 (v mod 16) 0 cs)
           else if quad = 2 then map_option ((#) (byte_of (left * 16 + v div 4))) (b64_loop 3 (v mod 4) 0 cs)
           else map_option ((#) (byte_of (left * 64 + v))) (b64_loop 0 0 0 cs)))"

definition b64decode :: "ustr \<Rightarrow> bytes option" where
  "b64decode s = (if list_all (\<lambda>c. code_of c < (128 :: nat)) s then b64_loop 0 0 0 s else None)"

section \<open>Decoding what was encoded\<close>

lemma b64_value_digit [simp]: "n < 64 \<Longrightarrow> b64_value (b64_digit n) = Some n"
  unfolding b64_value_def b64_digit_def
  by (subst map_of_zip_nth) (simp_all add: b64_alphabet_def)

lemma b64_alphabet_plain: "\<forall>c \<in> set b64_alphabet. c \<noteq> CHR ''='' \<and> code_of c < (128 :: nat)"
  by (simp add: b64_alphabet_def)

lemma b64_digit_plain [simp]: "n < 64 \<Longrightarrow> b64_digit n \<noteq> CHR ''=''" "n < 64 \<Longrightarrow> code_of (b64_digit n) < (128 :: nat)"
proof -
  assume "n < 64"
  moreover have "length b64_alphabet = 64" by (simp add: b64_alphabet_def)
  ultimately have "b64_digit n \<in> set b64_alphabet" by (simp add: b64_digit_def)
  then show "b64_digit n \<noteq> CHR ''=''" "code_of (b64_digit n) < (128 :: nat)" using b64_alphabet_plain by blast+
qed

lemma code_bounds:
  "code_of a div 4 < (64 :: nat)" "code_of a mod 4 * 16 < (64 :: nat)" "code_of b mod 16 * 4 < (64 :: nat)"
  "code_of a mod 4 * 16 + code_of b div 16 < (64 :: nat)" "code_of b mod 16 * 4 + code_of c div 64 < (64 :: nat)"
  "code_of c mod 64 < (64 :: nat)"
  using code_of_less [of a] code_of_less [of b] code_of_less [of c] by linarith+

lemma div_16_group: "b < 256 \<Longrightarrow> (x * 16 + b div 16) div 16 = (x :: nat)" "b < 256 \<Longrightarrow> (x * 16 + b div 16) mod 16 = b div 16"
  by simp_all

lemma div_4_group: "c < 256 \<Longrightarrow> (x * 4 + c div 64) div 4 = (x :: nat)" "c < 256 \<Longrightarrow> (x * 4 + c div 64) mod 4 = c div 64"
  by simp_all

lemma code_quarter [simp]: "code_of c div 64 < (4 :: nat)" "code_of c div 16 < (16 :: nat)"
  using code_of_less [of c] by linarith+

lemma code_join:
  "code_of a div 4 * 4 + code_of a mod 4 = (code_of a :: nat)"
  "code_of b div 16 * 16 + code_of b mod 16 = (code_of b :: nat)"
  "code_of c div 64 * 64 + code_of c mod 64 = (code_of c :: nat)"
  by simp_all

lemma b64_loop_encode: "b64_loop 0 0 0 (b64encode bs) = Some bs"
proof (induction bs rule: b64encode.induct)
  case (4 a b c r)
  then show ?case
    using code_bounds code_of_less [of b] code_of_less [of c]
    by (simp add: div_16_group div_4_group code_join)
qed (use code_bounds in \<open>simp_all add: div_16_group code_join\<close>)

lemma b64encode_ascii: "list_all (\<lambda>c. code_of c < (128 :: nat)) (b64encode bs)"
  by (induction bs rule: b64encode.induct) (use code_bounds in simp_all)

lemma b64decode_encode [simp]: "b64decode (b64encode bs) = Some bs"
  by (simp add: b64decode_def b64encode_ascii b64_loop_encode)

lemma b64encode_inj [simp]: "b64encode a = b64encode b \<longleftrightarrow> a = b"
  by (metis b64decode_encode option.inject)

end
