(* ===== verification/Witness.thy ===== *)
theory Witness
  imports Base64 Models "HOL-Library.Product_Lexorder"
begin

text \<open>
  \<open>src/witness/\<close>: the independent witness that co-signs a log's checkpoints.  \<open>store.py\<close> is the record
  \<open>witness_store\<close> of its three tables, \<open>app.py\<close> the function \<open>cosign\<close> from a request to a reply and the
  store it leaves, \<open>identity.py\<close> the witness's own key.

  Every call commits what it writes at once, so \<open>cosign\<close> gives a store also when it refuses or raises.
  A request is the JSON object of its body (the code reads an absent or empty body as the empty
  object).  A statement is kept as the JSON value its column holds.
\<close>

section \<open>The store\<close>

record origin_row =
  or_origin :: ustr
  or_log_alg_id :: ustr
  or_log_public_key :: bytes
  or_first_seen :: ustr

record checkpoint_row =
  cr_id :: int
  cr_origin :: ustr
  cr_tree_size :: int
  cr_root_hash :: ustr
  cr_statement :: json
  cr_cosignature :: bytes
  cr_seen_at :: ustr

record violation_row =
  vi_id :: int
  vi_origin :: ustr
  vi_kind :: ustr
  vi_detail :: ustr
  vi_offered :: json
  vi_seen_at :: ustr

record witness_store =
  ws_origins :: "origin_row list"
  ws_checkpoints :: "checkpoint_row list"
  ws_violations :: "violation_row list"

definition empty_store :: witness_store where
  "empty_store = \<lparr>ws_origins = [], ws_checkpoints = [], ws_violations = []\<rparr>"

definition known_log :: "ustr \<Rightarrow> witness_store \<Rightarrow> origin_row option" where
  "known_log origin s = find (\<lambda>r. or_origin r = origin) (ws_origins s)"

text \<open>\<open>INSERT OR IGNORE\<close>: an origin that has a row keeps it.\<close>

definition pin_log :: "int \<Rightarrow> ustr \<Rightarrow> ustr \<Rightarrow> bytes \<Rightarrow> witness_store \<Rightarrow> witness_store" where
  "pin_log now origin alg_id public_key s =
     (case known_log origin s of
        Some _ \<Rightarrow> s
      | None \<Rightarrow> s\<lparr>ws_origins := ws_origins s
          @ [\<lparr>or_origin = origin, or_log_alg_id = alg_id, or_log_public_key = public_key,
              or_first_seen = isoformat now\<rparr>]\<rparr>)"

definition history_of :: "ustr \<Rightarrow> witness_store \<Rightarrow> checkpoint_row list" where
  "history_of origin s = filter (\<lambda>c. cr_origin c = origin) (ws_checkpoints s)"

definition latest :: "ustr \<Rightarrow> witness_store \<Rightarrow> checkpoint_row option" where
  "latest origin s = last_by (\<lambda>c. (cr_tree_size c, cr_id c)) (history_of origin s)"

definition at_size :: "ustr \<Rightarrow> int \<Rightarrow> witness_store \<Rightarrow> checkpoint_row option" where
  "at_size origin tree_size s =
     last_by cr_id (filter (\<lambda>c. cr_tree_size c = tree_size) (history_of origin s))"

definition json_int_of :: "json \<Rightarrow> int" where
  "json_int_of v = (case v of JInt i \<Rightarrow> i | _ \<Rightarrow> 0)"

definition json_str_of :: "json \<Rightarrow> ustr" where
  "json_str_of v = (case v of JStr s \<Rightarrow> s | _ \<Rightarrow> [])"

definition fields_of :: "json \<Rightarrow> (ustr \<times> json) list" where
  "fields_of v = (case v of JObj kvs \<Rightarrow> kvs | _ \<Rightarrow> [])"

text \<open>The members of a statement that passed \<open>valid_statement\<close>.\<close>

definition st_origin :: "json \<Rightarrow> ustr" where "st_origin v = json_str_of (dict_get ''origin'' (fields_of v))"
definition st_tree_size :: "json \<Rightarrow> int" where "st_tree_size v = json_int_of (dict_get ''tree_size'' (fields_of v))"
definition st_root_hash :: "json \<Rightarrow> ustr" where "st_root_hash v = json_str_of (dict_get ''root_hash'' (fields_of v))"

definition record_checkpoint :: "int \<Rightarrow> ustr \<Rightarrow> json \<Rightarrow> bytes \<Rightarrow> witness_store \<Rightarrow> witness_store" where
  "record_checkpoint now origin statement cosignature s =
     s\<lparr>ws_checkpoints := ws_checkpoints s
       @ [\<lparr>cr_id = next_id (map cr_id (ws_checkpoints s)), cr_origin = origin,
           cr_tree_size = st_tree_size statement, cr_root_hash = st_root_hash statement,
           cr_statement = norm statement, cr_cosignature = cosignature, cr_seen_at = isoformat now\<rparr>]\<rparr>"

definition record_violation :: "int \<Rightarrow> ustr \<Rightarrow> ustr \<Rightarrow> ustr \<Rightarrow> json \<Rightarrow> witness_store \<Rightarrow> witness_store" where
  "record_violation now origin kind detail offered s =
     s\<lparr>ws_violations := ws_violations s
       @ [\<lparr>vi_id = next_id (map vi_id (ws_violations s)), vi_origin = origin, vi_kind = kind,
           vi_detail = detail, vi_offered = norm offered, vi_seen_at = isoformat now\<rparr>]\<rparr>"

section \<open>The witness's identity\<close>

record witness_identity =
  wi_name :: ustr
  wi_alg_id :: ustr
  wi_backend :: ustr
  wi_public_key :: bytes
  wi_secret_key :: bytes

definition DEFAULT_WITNESS_ALG :: ustr where "DEFAULT_WITNESS_ALG = ''ML-DSA-87''"

definition fingerprint :: "(bytes \<Rightarrow> bytes) \<Rightarrow> bytes \<Rightarrow> ustr" where
  "fingerprint H public_key = take 16 (sha256_hex H public_key)"

text \<open>The members of the key file, as the JSON file held them.\<close>

record key_file =
  kf_name :: "ustr option"
  kf_alg_id :: ustr
  kf_backend :: "ustr option"
  kf_public_key_b64 :: ustr
  kf_secret_key_b64 :: ustr

datatype identity_error = Alg_mismatch ustr ustr | Stored_alg_unknown ustr | Alg_unknown ustr | Key_not_base64

text \<open>\<open>load_or_create\<close>: the stored file if there is one, the name and algorithm asked for, the random
  bytes of key generation; the identity, and the file written when one was generated.\<close>

definition load_or_create :: "key_file option \<Rightarrow> ustr \<Rightarrow> registry \<Rightarrow> ustr option \<Rightarrow> bytes
    \<Rightarrow> identity_error + witness_identity \<times> key_file option" where
  "load_or_create stored name registry alg_id entropy =
     (case stored of
        Some f \<Rightarrow>
          (if alg_id \<noteq> None \<and> alg_id \<noteq> Some (kf_alg_id f) then Inl (Alg_mismatch (kf_alg_id f) (the alg_id))
           else if \<not> has_signature registry (kf_alg_id f) then Inl (Stored_alg_unknown (kf_alg_id f))
           else case (b64decode (kf_public_key_b64 f), b64decode (kf_secret_key_b64 f)) of
             (Some public_key, Some secret_key) \<Rightarrow>
               Inr (\<lparr>wi_name = (case kf_name f of Some n \<Rightarrow> n | None \<Rightarrow> name), wi_alg_id = kf_alg_id f,
                     wi_backend = (case kf_backend f of Some b \<Rightarrow> b | None \<Rightarrow> ''unknown''),
                     wi_public_key = public_key, wi_secret_key = secret_key\<rparr>, None)
           | _ \<Rightarrow> Inl Key_not_base64)
      | None \<Rightarrow>
          (let alg = (case alg_id of Some a \<Rightarrow> if a = [] then DEFAULT_WITNESS_ALG else a | None \<Rightarrow> DEFAULT_WITNESS_ALG) in
           case signature registry alg of
             Inl _ \<Rightarrow> Inl (Alg_unknown alg)
           | Inr provider \<Rightarrow>
               (let pair = sp_keygen provider entropy;
                    i = \<lparr>wi_name = name, wi_alg_id = alg, wi_backend = am_backend (sp_meta provider),
                         wi_public_key = kp_public_key pair, wi_secret_key = kp_secret_key pair\<rparr>
                in Inr (i, Some \<lparr>kf_name = Some (wi_name i), kf_alg_id = wi_alg_id i, kf_backend = Some (wi_backend i),
                                 kf_public_key_b64 = b64encode (wi_public_key i),
                                 kf_secret_key_b64 = b64encode (wi_secret_key i)\<rparr>))))"

section \<open>A well-formed statement\<close>

definition STATEMENT_FIELDS :: "ustr list" where
  "STATEMENT_FIELDS = [''origin'', ''tree_size'', ''root_hash'', ''head_seq'', ''head_hash'', ''timestamp'']"

datatype statement_problem =
    Not_an_object | Wrong_fields | Bad_origin | Not_an_integer ustr | Size_below_one | Size_mismatch int int
  | Not_64_characters ustr | Not_hex ustr | Bad_timestamp

definition hex_problem :: "ustr \<Rightarrow> (ustr \<times> json) list \<Rightarrow> statement_problem option" where
  "hex_problem field kvs =
     (case dict_get field kvs of
        JStr v \<Rightarrow>
          (if str_len v \<noteq> 64 then Some (Not_64_characters field)
           else if from_hex v = None then Some (Not_hex field) else None)
      | _ \<Rightarrow> Some (Not_64_characters field))"

definition is_JInt :: "json \<Rightarrow> bool" where
  "is_JInt v = (case v of JInt _ \<Rightarrow> True | _ \<Rightarrow> False)"

definition is_JStr :: "json \<Rightarrow> bool" where
  "is_JStr v = (case v of JStr _ \<Rightarrow> True | _ \<Rightarrow> False)"

definition valid_statement :: "json \<Rightarrow> statement_problem option" where
  "valid_statement statement =
     (case statement of
        JObj kvs \<Rightarrow>
          (let tree_size = dict_get ''tree_size'' kvs; head_seq = dict_get ''head_seq'' kvs;
               origin = dict_get ''origin'' kvs in
           if set (map fst kvs) \<noteq> set STATEMENT_FIELDS then Some Wrong_fields
           else if \<not> is_JStr origin \<or> origin = JStr [] then Some Bad_origin
           else if \<not> is_JInt tree_size then Some (Not_an_integer ''tree_size'')
           else if \<not> is_JInt head_seq then Some (Not_an_integer ''head_seq'')
           else if json_int_of tree_size < 1 then Some Size_below_one
           else if json_int_of tree_size \<noteq> json_int_of head_seq + 1
             then Some (Size_mismatch (json_int_of tree_size) (json_int_of head_seq))
           else case hex_problem ''root_hash'' kvs of
             Some problem \<Rightarrow> Some problem
           | None \<Rightarrow>
             (case hex_problem ''head_hash'' kvs of
                Some problem \<Rightarrow> Some problem
              | None \<Rightarrow> (if \<not> is_JStr (dict_get ''timestamp'' kvs) then Some Bad_timestamp else None)))
      | _ \<Rightarrow> Some Not_an_object)"

section \<open>The decision\<close>

datatype refusal =
    Bad_statement statement_problem | Bad_base64 | Unknown_log_algorithm
  | Key_changed | Bad_log_signature | Log_shrank int int | Log_fork int | Log_inconsistent int int
  | Self_verification_failed

text \<open>A reply: a co-signature (with the tree size and whether it was reissued), a refusal, or an
  exception the code does not catch (HTTP 500).\<close>

datatype cosign_reply = Cosigned bytes int bool | Refused refusal | Raised

definition refusal_status :: "refusal \<Rightarrow> int" where
  "refusal_status r =
     (case r of Bad_statement _ \<Rightarrow> 400 | Bad_base64 \<Rightarrow> 400 | Unknown_log_algorithm \<Rightarrow> 400
      | Self_verification_failed \<Rightarrow> 500 | _ \<Rightarrow> 409)"

record witness_env =
  we_hash :: "bytes \<Rightarrow> bytes"
  we_registry :: registry
  we_identity :: witness_identity

text \<open>\<open>body.get(key, fallback)\<close>.\<close>

definition get_default :: "ustr \<Rightarrow> json \<Rightarrow> (ustr \<times> json) list \<Rightarrow> json" where
  "get_default key fallback body = (case map_of body key of Some v \<Rightarrow> v | None \<Rightarrow> fallback)"

definition b64_member :: "json \<Rightarrow> bytes option" where
  "b64_member v = (case v of JStr s \<Rightarrow> b64decode s | _ \<Rightarrow> None)"

text \<open>\<open>[bytes.fromhex(h) for h in proof]\<close>: a text yields its characters, an object its keys; \<open>None\<close> where the
  comprehension raises.\<close>

fun hex_list :: "json list \<Rightarrow> bytes list option" where
  "hex_list [] = Some []"
| "hex_list (JStr h # hs) = (case from_hex h of None \<Rightarrow> None | Some b \<Rightarrow> map_option ((#) b) (hex_list hs))"
| "hex_list (_ # hs) = None"

definition offered_proof :: "(ustr \<times> json) list \<Rightarrow> bytes list option" where
  "offered_proof body =
     (case get_default ''consistency_proof'' (JList []) body of
        JList hs \<Rightarrow> hex_list hs
      | JStr s \<Rightarrow> (if list_all hex_space s then Some (map (\<lambda>_. []) s) else None)
      | JObj kvs \<Rightarrow> hex_list (map (JStr \<circ> fst) kvs)
      | _ \<Rightarrow> None)"

text \<open>Step 3, against the newest co-signed checkpoint of the origin.\<close>

datatype history_verdict = Extends | Reissue bytes | Refuse ustr ustr refusal | Crash

definition check_history :: "(bytes \<Rightarrow> bytes) \<Rightarrow> (ustr \<times> json) list \<Rightarrow> json \<Rightarrow> checkpoint_row option \<Rightarrow> history_verdict" where
  "check_history H body statement newest =
     (case newest of
        None \<Rightarrow> Extends
      | Some old \<Rightarrow>
          (let old_size = cr_tree_size old; new_size = st_tree_size statement in
           if new_size < old_size
           then Refuse ''shrank'' (''co-signed '' @ dec_int old_size @ '' entries previously; offered '' @ dec_int new_size)
                  (Log_shrank old_size new_size)
           else if new_size = old_size \<and> cr_root_hash old \<noteq> st_root_hash statement
           then Refuse ''fork'' (''two roots at size '' @ dec_int new_size @ '': '' @ cr_root_hash old @ '' then ''
                    @ st_root_hash statement) (Log_fork new_size)
           else if new_size = old_size \<and> norm (cr_statement old) = norm statement then Reissue (cr_cosignature old)
           else case (offered_proof body, from_hex (cr_root_hash old), from_hex (st_root_hash statement)) of
             (Some proof, Some old_root, Some new_root) \<Rightarrow>
               (if verify_consistency H old_size old_root new_size new_root proof then Extends
                else Refuse ''inconsistent'' (''no valid consistency proof from '' @ dec_int old_size @ '' to ''
                       @ dec_int new_size) (Log_inconsistent old_size new_size))
           | _ \<Rightarrow> Crash))"

text \<open>Step 4.  \<open>sqlite3\<close> stores 64-bit integers and raises on a larger one.\<close>

definition sqlite_integer :: "int \<Rightarrow> bool" where
  "sqlite_integer i \<longleftrightarrow> - (2 ^ 63) \<le> i \<and> i < 2 ^ 63"

definition countersign :: "witness_env \<Rightarrow> int \<Rightarrow> json \<Rightarrow> witness_store \<Rightarrow> cosign_reply \<times> witness_store" where
  "countersign env now statement s =
     (let identity = we_identity env in
      case signature (we_registry env) (wi_alg_id identity) of
        Inl _ \<Rightarrow> (Raised, s)
      | Inr provider \<Rightarrow>
          (let to_sign = witness_bytes (wi_name identity) statement;
               sig = sp_sign provider (wi_secret_key identity) to_sign
           in if \<not> sp_verify provider (wi_public_key identity) to_sign sig then (Refused Self_verification_failed, s)
              else if \<not> sqlite_integer (st_tree_size statement) then (Raised, s)
              else (Cosigned sig (st_tree_size statement) False,
                    record_checkpoint now (st_origin statement) statement sig s)))"

text \<open>Steps 2 to 4, once the offered key is the pinned one.\<close>

definition cosign_pinned :: "witness_env \<Rightarrow> int \<Rightarrow> (ustr \<times> json) list \<Rightarrow> json \<Rightarrow> signature_provider \<Rightarrow> bytes \<Rightarrow> bytes
    \<Rightarrow> witness_store \<Rightarrow> cosign_reply \<times> witness_store" where
  "cosign_pinned env now body statement provider log_public_key log_signature s =
     (let origin = st_origin statement in
      if \<not> sp_verify provider log_public_key (checkpoint_bytes statement) log_signature
      then (Refused Bad_log_signature,
            record_violation now origin ''bad_signature'' ''log signature did not verify'' statement s)
      else case check_history (we_hash env) body statement (latest origin s) of
        Crash \<Rightarrow> (Raised, s)
      | Refuse kind detail r \<Rightarrow> (Refused r, record_violation now origin kind detail statement s)
      | Reissue sig \<Rightarrow> (Cosigned sig (st_tree_size statement) True, s)
      | Extends \<Rightarrow> countersign env now statement s)"

definition cosign :: "witness_env \<Rightarrow> int \<Rightarrow> (ustr \<times> json) list \<Rightarrow> witness_store \<Rightarrow> cosign_reply \<times> witness_store" where
  "cosign env now body s =
     (let statement = get_default ''checkpoint'' JNull body; origin = st_origin statement; H = we_hash env in
      case valid_statement statement of
        Some problem \<Rightarrow> (Refused (Bad_statement problem), s)
      | None \<Rightarrow>
          (case (b64_member (get_default ''log_public_key_b64'' (JStr []) body),
                 b64_member (get_default ''log_signature_b64'' (JStr []) body)) of
             (Some log_public_key, Some log_signature) \<Rightarrow>
               (case get_default ''log_alg_id'' (JStr []) body of
                  JList _ \<Rightarrow> (Raised, s)
                | JObj _ \<Rightarrow> (Raised, s)
                | JStr log_alg_id \<Rightarrow>
                    (case signature (we_registry env) log_alg_id of
                       Inl _ \<Rightarrow> (Refused Unknown_log_algorithm, s)
                     | Inr provider \<Rightarrow>
                         (case known_log origin s of
                            None \<Rightarrow> cosign_pinned env now body statement provider log_public_key log_signature
                                      (pin_log now origin log_alg_id log_public_key s)
                          | Some pinned \<Rightarrow>
                              (if or_log_public_key pinned \<noteq> log_public_key
                               then (Refused Key_changed,
                                     record_violation now origin ''key_changed''
                                       (''pinned '' @ fingerprint H (or_log_public_key pinned) @ '', offered ''
                                        @ fingerprint H log_public_key) statement s)
                               else cosign_pinned env now body statement provider log_public_key log_signature s)))
                | _ \<Rightarrow> (Refused Unknown_log_algorithm, s))
           | _ \<Rightarrow> (Refused Bad_base64, s)))"

end
