(* ===== verification/Transitions.thy ===== *)
theory Transitions
  imports Main
begin

text \<open>
  What the state machines of the development share: a property every step keeps holds in every later
  state, and a relation every step establishes (and that composes) holds between a state and every
  later one.
\<close>

locale kept =
  fixes step :: "'s \<Rightarrow> 's \<Rightarrow> bool"
    and good :: "'s \<Rightarrow> bool"
  assumes keep: "good s \<Longrightarrow> step s s' \<Longrightarrow> good s'"
begin

lemma always: "step\<^sup>*\<^sup>* s s' \<Longrightarrow> good s \<Longrightarrow> good s'"
  by (induction rule: rtranclp_induct) (auto intro: keep)

end

locale evolving = kept step good
  for step :: "'s \<Rightarrow> 's \<Rightarrow> bool" and good :: "'s \<Rightarrow> bool" +
  fixes rel :: "'s \<Rightarrow> 's \<Rightarrow> bool"
  assumes rel_refl: "rel s s"
    and rel_trans: "rel s t \<Longrightarrow> rel t u \<Longrightarrow> rel s u"
    and advance: "good s \<Longrightarrow> step s s' \<Longrightarrow> rel s s'"
begin

lemma evolve: "step\<^sup>*\<^sup>* s s' \<Longrightarrow> good s \<Longrightarrow> rel s s'"
proof (induction rule: rtranclp_induct)
  case (step t u)
  then have "good t" using always by blast
  with step show ?case using advance rel_trans by blast
qed (rule rel_refl)

end

end
