(* ===== verification/Witness_Proofs.thy ===== *)
theory Witness_Proofs
  imports Witness Merkle_Proofs Transitions
begin

text \<open>
  The witness's guarantees: a pinned key is pinned for good, the co-signed history of a log never
  shrinks and never forks, every co-signature handed out verifies over the statement it answers and
  was asked for under the pinned key, and what it co-signs provably extends what it co-signed before.
  Also shown: the pin is made before the log's signature is checked, so a stranger's request can take
  an origin no log has used yet.
\<close>

section \<open>The cases of one request\<close>

inductive witness_step :: "witness_env \<Rightarrow> witness_store \<Rightarrow> witness_store \<Rightarrow> bool" for env where
  request: "witness_step env s (snd (cosign env now body s))"

inductive_cases witness_stepE: "witness_step env s s'"

definition is_cosigned :: "cosign_reply \<Rightarrow> bool" where
  "is_cosigned r = (case r of Cosigned _ _ _ \<Rightarrow> True | _ \<Rightarrow> False)"

lemma is_cosigned_simps [simp]:
  "is_cosigned (Cosigned a b c)" "\<not> is_cosigned (Refused x)" "\<not> is_cosigned Raised"
  by (simp_all add: is_cosigned_def)

lemma store_simps [simp]:
  "ws_origins (record_violation t o' k d st s) = ws_origins s"
  "ws_checkpoints (record_violation t o' k d st s) = ws_checkpoints s"
  "ws_origins (record_checkpoint t o' st sig s) = ws_origins s"
  "ws_checkpoints (pin_log t o' a k s) = ws_checkpoints s"
  by (simp_all add: record_violation_def record_checkpoint_def pin_log_def split: option.splits)

lemma same_tables [simp]:
  "latest o' (record_violation t o'' k d st s) = latest o' s"
  "known_log o' (record_violation t o'' k d st s) = known_log o' s"
  "known_log o' (record_checkpoint t o'' st sig s) = known_log o' s"
  "latest o' (pin_log t o'' a key s) = latest o' s"
  "history_of o' (pin_log t o'' a key s) = history_of o' s"
  by (simp_all add: latest_def history_of_def known_log_def)

lemma known_pin [simp]:
  "known_log o' (pin_log now o'' a k s) =
    (if o' = o'' \<and> known_log o'' s = None
     then Some \<lparr>or_origin = o'', or_log_alg_id = a, or_log_public_key = k, or_first_seen = isoformat now\<rparr>
     else known_log o' s)"
proof (cases "known_log o'' s")
  case None
  have "known_log o' s = None \<or> o' \<noteq> o''" using None by auto
  then show ?thesis using None by (auto simp: pin_log_def known_log_def find_append split: option.splits)
qed (simp add: pin_log_def)

text \<open>What a call of \<open>cosign_pinned\<close> did.\<close>

lemma cosign_pinned_cases:
  assumes "cosign_pinned env now body st provider key lsig s = (r, s')"
  obtains (refused) "\<not> is_cosigned r" "s' = s \<or> (\<exists>k d. s' = record_violation now (st_origin st) k d st s)"
  | (reissued) c where "sp_verify provider key (checkpoint_bytes st) lsig" "latest (st_origin st) s = Some c"
      "st_tree_size st = cr_tree_size c" "st_root_hash st = cr_root_hash c" "norm (cr_statement c) = norm st"
      "r = Cosigned (cr_cosignature c) (st_tree_size st) True" "s' = s"
  | (signed) sig witness where "sp_verify provider key (checkpoint_bytes st) lsig"
      "check_history (we_hash env) body st (latest (st_origin st) s) = Extends"
      "signature (we_registry env) (wi_alg_id (we_identity env)) = Inr witness"
      "sp_verify witness (wi_public_key (we_identity env)) (witness_bytes (wi_name (we_identity env)) st) sig"
      "r = Cosigned sig (st_tree_size st) False" "s' = record_checkpoint now (st_origin st) st sig s"
proof (cases "sp_verify provider key (checkpoint_bytes st) lsig")
  case False
  then have "r = Refused Bad_log_signature"
      "s' = record_violation now (st_origin st) ''bad_signature'' ''log signature did not verify'' st s"
    using assms by (simp_all add: cosign_pinned_def Let_def)
  then show ?thesis by (intro refused) auto
next
  case ok: True
  show ?thesis
  proof (cases "check_history (we_hash env) body st (latest (st_origin st) s)")
    case Extends
    then have "(r, s') = countersign env now st s"
      using assms ok by (simp add: cosign_pinned_def Let_def)
    then show ?thesis
      using signed [OF ok Extends] refused
      by (auto simp: countersign_def Let_def split: sum.splits if_splits)
  next
    case (Reissue sig)
    then obtain c where "latest (st_origin st) s = Some c" "st_tree_size st = cr_tree_size c"
        "st_root_hash st = cr_root_hash c" "norm (cr_statement c) = norm st" "sig = cr_cosignature c"
      by (auto simp: check_history_def Let_def split: option.splits if_splits)
    then show ?thesis using assms ok Reissue reissued by (simp add: cosign_pinned_def Let_def)
  next
    case (Refuse k d x)
    then have "r = Refused x" "s' = record_violation now (st_origin st) k d st s"
      using assms ok by (simp_all add: cosign_pinned_def Let_def)
    then show ?thesis by (intro refused) auto
  next
    case Crash
    then show ?thesis using assms ok refused by (auto simp: cosign_pinned_def Let_def)
  qed
qed

text \<open>What a call of \<open>cosign\<close> did: it stopped before the pin, refused a changed key, or went on under
  the pinned key.\<close>

lemma cosign_cases:
  assumes "cosign env now body s = (r, s')"
  obtains (stopped) "\<not> is_cosigned r" "r \<noteq> Refused Bad_log_signature" "s' = s"
  | (key_changed) p d where "known_log (st_origin (get_default ''checkpoint'' JNull body)) s = Some p"
      "r = Refused Key_changed"
      "s' = record_violation now (st_origin (get_default ''checkpoint'' JNull body)) ''key_changed'' d
         (get_default ''checkpoint'' JNull body) s"
  | (went_on) provider key lsig s1 alg p where "valid_statement (get_default ''checkpoint'' JNull body) = None"
      "b64_member (get_default ''log_public_key_b64'' (JStr []) body) = Some key"
      "b64_member (get_default ''log_signature_b64'' (JStr []) body) = Some lsig"
      "signature (we_registry env) alg = Inr provider"
      "s1 = pin_log now (st_origin (get_default ''checkpoint'' JNull body)) alg key s"
      "known_log (st_origin (get_default ''checkpoint'' JNull body)) s1 = Some p" "or_log_public_key p = key"
      "cosign_pinned env now body (get_default ''checkpoint'' JNull body) provider key lsig s1 = (r, s')"
proof -
  let ?st = "get_default ''checkpoint'' JNull body"
  show ?thesis
  proof (cases "\<exists>key lsig alg provider. valid_statement ?st = None
      \<and> b64_member (get_default ''log_public_key_b64'' (JStr []) body) = Some key
      \<and> b64_member (get_default ''log_signature_b64'' (JStr []) body) = Some lsig
      \<and> get_default ''log_alg_id'' (JStr []) body = JStr alg \<and> signature (we_registry env) alg = Inr provider")
    case False
    then have "\<not> is_cosigned r \<and> r \<noteq> Refused Bad_log_signature \<and> s' = s"
      using assms by (auto simp: cosign_def Let_def split: option.splits json.splits sum.splits)
    then show ?thesis using stopped by blast
  next
    case True
    then obtain key lsig alg provider where ok: "valid_statement ?st = None"
      "b64_member (get_default ''log_public_key_b64'' (JStr []) body) = Some key"
      "b64_member (get_default ''log_signature_b64'' (JStr []) body) = Some lsig"
      "get_default ''log_alg_id'' (JStr []) body = JStr alg" "signature (we_registry env) alg = Inr provider"
      by blast
    show ?thesis
    proof (cases "known_log (st_origin ?st) s")
      case None
      then show ?thesis
        using assms ok went_on [OF ok(1,2,3,5) refl] by (simp add: cosign_def Let_def)
    next
      case (Some p)
      have "pin_log now (st_origin ?st) alg key s = s" using Some by (simp add: pin_log_def)
      then show ?thesis
        using assms ok Some went_on [OF ok(1,2,3,5) refl] key_changed [OF Some]
        by (auto simp: cosign_def Let_def split: if_splits)
    qed
  qed
qed

section \<open>The store is well formed in every reachable state\<close>

definition ordered_pair :: "checkpoint_row \<Rightarrow> checkpoint_row \<Rightarrow> bool" where
  "ordered_pair a b \<longleftrightarrow> cr_id a < cr_id b
     \<and> (cr_origin a = cr_origin b \<longrightarrow>
          cr_tree_size a \<le> cr_tree_size b \<and> (cr_tree_size a = cr_tree_size b \<longrightarrow> cr_root_hash a = cr_root_hash b))"

definition checkpoint_verifies :: "witness_env \<Rightarrow> checkpoint_row \<Rightarrow> bool" where
  "checkpoint_verifies env c \<longleftrightarrow>
     (case signature (we_registry env) (wi_alg_id (we_identity env)) of
        Inl _ \<Rightarrow> True
      | Inr p \<Rightarrow> sp_verify p (wi_public_key (we_identity env))
          (witness_bytes (wi_name (we_identity env)) (cr_statement c)) (cr_cosignature c))"

definition store_ok :: "witness_env \<Rightarrow> witness_store \<Rightarrow> bool" where
  "store_ok env s \<longleftrightarrow> sorted_wrt ordered_pair (ws_checkpoints s)
     \<and> list_all (checkpoint_verifies env) (ws_checkpoints s)"

lemma witness_bytes_norm [simp]: "witness_bytes w (norm st) = witness_bytes w st"
  by (simp add: witness_bytes_def canonical_json_def dumps_norm)

lemma witness_bytes_cong: "norm a = norm b \<Longrightarrow> witness_bytes w a = witness_bytes w b"
  by (metis witness_bytes_norm)

lemma latest_in: "latest o' s = Some c \<Longrightarrow> c \<in> set (ws_checkpoints s) \<and> cr_origin c = o'"
  by (auto simp: latest_def history_of_def dest: last_by_in)

lemma latest_max:
  assumes "latest o' s = Some c" "a \<in> set (ws_checkpoints s)" "cr_origin a = o'"
  shows "cr_tree_size a \<le> cr_tree_size c"
proof -
  have "(cr_tree_size a, cr_id a) \<le> (cr_tree_size c, cr_id c)"
    using assms last_by_max [of "\<lambda>c. (cr_tree_size c, cr_id c)" "history_of o' s" c a]
    by (auto simp: latest_def history_of_def)
  then show ?thesis by auto
qed

lemma latest_None: "latest o' s = None \<Longrightarrow> a \<in> set (ws_checkpoints s) \<Longrightarrow> cr_origin a \<noteq> o'"
  by (auto simp: latest_def history_of_def filter_empty_conv)

lemma sorted_pair: "sorted_wrt ordered_pair cs \<Longrightarrow> a \<in> set cs \<Longrightarrow> b \<in> set cs \<Longrightarrow>
    cr_origin a = cr_origin b \<Longrightarrow> cr_tree_size a = cr_tree_size b \<Longrightarrow> cr_root_hash a = cr_root_hash b"
proof (induction cs)
  case (Cons c cs)
  then show ?case by (auto simp: ordered_pair_def)
qed simp

text \<open>A statement that passes the history check of the newest checkpoint fits after every older one.\<close>

lemma extends_ordered:
  assumes "store_ok env s" "check_history (we_hash env) body st (latest (st_origin st) s) = Extends"
    and "a \<in> set (ws_checkpoints s)" "cr_origin a = st_origin st"
  shows "cr_tree_size a \<le> st_tree_size st \<and> (cr_tree_size a = st_tree_size st \<longrightarrow> cr_root_hash a = st_root_hash st)"
proof -
  obtain c where c: "latest (st_origin st) s = Some c"
    using latest_None assms(3,4) by (cases "latest (st_origin st) s") auto
  have "cr_tree_size c \<le> st_tree_size st \<and> (st_tree_size st = cr_tree_size c \<longrightarrow> cr_root_hash c = st_root_hash st)"
    using assms(2) c by (auto simp: check_history_def Let_def split: if_splits)
  moreover have "cr_tree_size a \<le> cr_tree_size c" using latest_max [OF c assms(3,4)] .
  moreover have "cr_root_hash a = cr_root_hash c" if "cr_tree_size a = cr_tree_size c"
    using assms(1,3,4) latest_in [OF c] that by (auto simp: store_ok_def intro: sorted_pair)
  ultimately show ?thesis by fastforce
qed

lemma cosign_pinned_keeps:
  assumes "store_ok env s" "cosign_pinned env now body st provider key lsig s = (r, s')"
  shows "store_ok env s'"
  using assms(2)
proof (cases rule: cosign_pinned_cases)
  case refused
  then show ?thesis using assms(1) by (auto simp: store_ok_def)
next
  case (reissued c)
  then show ?thesis using assms(1) by simp
next
  case (signed sig witness)
  have "cr_id a < next_id (map cr_id (ws_checkpoints s))" if "a \<in> set (ws_checkpoints s)" for a
    using that by (intro next_id_greater) simp
  then show ?thesis
    using assms(1) signed extends_ordered [OF assms(1) signed(2)]
    by (auto simp: store_ok_def record_checkpoint_def sorted_wrt_append ordered_pair_def checkpoint_verifies_def)
qed

lemma pin_keeps: "store_ok env (pin_log now o' alg key s) = store_ok env s"
  by (simp add: store_ok_def)

lemma violation_keeps: "store_ok env (record_violation now o' k d st s) = store_ok env s"
  by (simp add: store_ok_def)

interpretation well_kept: kept "witness_step env" "store_ok env"
proof
  fix s s' assume ok: "store_ok env s" and "witness_step env s s'"
  then obtain now body where s': "s' = snd (cosign env now body s)" by (auto elim: witness_stepE)
  obtain r where "cosign env now body s = (r, s')" using s' by (metis prod.collapse)
  then show "store_ok env s'"
  proof (cases rule: cosign_cases)
    case (went_on provider key lsig s1 alg p)
    have "store_ok env s1" using ok went_on by (simp add: pin_keeps)
    then show ?thesis using went_on cosign_pinned_keeps by blast
  qed (use ok violation_keeps in auto)
qed

definition served_from_empty :: "witness_env \<Rightarrow> witness_store \<Rightarrow> bool" where
  "served_from_empty env s \<longleftrightarrow> (witness_step env)\<^sup>*\<^sup>* empty_store s"

lemma served_ok: "served_from_empty env s \<Longrightarrow> store_ok env s"
  unfolding served_from_empty_def by (erule well_kept.always) (simp add: store_ok_def empty_store_def)

section \<open>Pins and high-water marks\<close>

text \<open>A later store keeps every pin, and the newest checkpoint of an origin never gets smaller.\<close>

definition no_retreat :: "witness_store \<Rightarrow> witness_store \<Rightarrow> bool" where
  "no_retreat s s' \<longleftrightarrow>
     (\<forall>o' p. known_log o' s = Some p \<longrightarrow> known_log o' s' = Some p)
     \<and> (\<exists>cs. ws_checkpoints s' = ws_checkpoints s @ cs)"

lemma no_retreat_trans: "no_retreat s t \<Longrightarrow> no_retreat t u \<Longrightarrow> no_retreat s u"
  by (fastforce simp: no_retreat_def)

lemma no_retreat_simps:
  "no_retreat s s" "no_retreat s (record_violation t o' k d st s)" "no_retreat s (pin_log t o' a key s)"
  "no_retreat s (record_checkpoint t o' st sig s)"
proof -
  show "no_retreat s (pin_log t o' a key s)" by (auto simp: no_retreat_def)
  show "no_retreat s (record_checkpoint t o' st sig s)"
    by (auto simp: no_retreat_def) (simp add: record_checkpoint_def)
qed (auto simp: no_retreat_def)

lemma cosign_no_retreat: "no_retreat s (snd (cosign env now body s))"
proof -
  obtain r s' where c: "cosign env now body s = (r, s')" by (metis surj_pair)
  then have "no_retreat s s'"
  proof (cases rule: cosign_cases)
    case (went_on provider key lsig s1 alg p)
    have "no_retreat s1 s'"
      using went_on(8) by (cases rule: cosign_pinned_cases) (use no_retreat_simps in auto)
    then show ?thesis using went_on(5) no_retreat_simps no_retreat_trans by blast
  qed (use no_retreat_simps in auto)
  then show ?thesis by (simp add: c)
qed

interpretation advancing: evolving "witness_step env" "store_ok env" no_retreat
proof
  fix s t u
  show "no_retreat s s" by (rule no_retreat_simps)
  show "no_retreat s t \<Longrightarrow> no_retreat t u \<Longrightarrow> no_retreat s u" by (rule no_retreat_trans)
  show "witness_step env s t \<Longrightarrow> no_retreat s t" by (auto elim!: witness_stepE intro: cosign_no_retreat)
qed

text \<open>Trust on first use is for good.  Whatever requests arrive, the key a witness has pinned for an
  origin stays the key of that origin, and no checkpoint it co-signed is ever removed or changed.\<close>

theorem pins_are_permanent:
  assumes "(witness_step env)\<^sup>*\<^sup>* empty_store s" "(witness_step env)\<^sup>*\<^sup>* s s'" "known_log o' s = Some p"
  shows "known_log o' s' = Some p \<and> (\<exists>cs. ws_checkpoints s' = ws_checkpoints s @ cs)"
proof -
  have "store_ok env s" using assms(1) by (intro served_ok) (simp add: served_from_empty_def)
  then show ?thesis using advancing.evolve [OF assms(2)] assms(3) by (simp add: no_retreat_def)
qed

text \<open>C23: no split view.  In every state a witness can reach, two checkpoints it co-signed for one origin
  at one tree size carry the same root, and a later one is never smaller than an earlier one.\<close>

theorem witness_never_forks:
  assumes "(witness_step env)\<^sup>*\<^sup>* empty_store s"
    and "i < j" "j < length (ws_checkpoints s)"
    and "cr_origin (ws_checkpoints s ! i) = cr_origin (ws_checkpoints s ! j)"
  shows "cr_tree_size (ws_checkpoints s ! i) \<le> cr_tree_size (ws_checkpoints s ! j)
    \<and> (cr_tree_size (ws_checkpoints s ! i) = cr_tree_size (ws_checkpoints s ! j) \<longrightarrow>
        cr_root_hash (ws_checkpoints s ! i) = cr_root_hash (ws_checkpoints s ! j))"
proof -
  have "store_ok env s" using assms(1) by (intro served_ok) (simp add: served_from_empty_def)
  then have "ordered_pair (ws_checkpoints s ! i) (ws_checkpoints s ! j)"
    using assms(2,3) by (simp add: store_ok_def sorted_wrt_nth_less)
  then show ?thesis using assms(4) by (simp add: ordered_pair_def)
qed

text \<open>What a co-signature means.  Whenever a request is answered with a co-signature, new or reissued,
  the statement is well formed, the log signed exactly this statement under the key that is pinned for
  its origin, and the co-signature verifies over exactly this statement under the witness's own name
  and key.\<close>

theorem cosigned_means:
  assumes "(witness_step env)\<^sup>*\<^sup>* empty_store s"
    and "cosign env now body s = (Cosigned sig n reissued, s')"
    and "st = get_default ''checkpoint'' JNull body"
  shows "valid_statement st = None \<and> n = st_tree_size st
    \<and> (\<exists>alg provider key lsig p. signature (we_registry env) alg = Inr provider
        \<and> known_log (st_origin st) s' = Some p \<and> or_log_public_key p = key
        \<and> sp_verify provider key (checkpoint_bytes st) lsig)
    \<and> (case signature (we_registry env) (wi_alg_id (we_identity env)) of
        Inl _ \<Rightarrow> True
      | Inr w \<Rightarrow> sp_verify w (wi_public_key (we_identity env)) (witness_bytes (wi_name (we_identity env)) st) sig)"
proof -
  have ok: "store_ok env s" using assms(1) by (intro served_ok) (simp add: served_from_empty_def)
  from assms(2) show ?thesis
  proof (cases rule: cosign_cases)
    case (went_on provider key lsig s1 alg p)
    have ok1: "store_ok env s1" using ok went_on(5) by (simp add: pin_keeps)
    from went_on(8) show ?thesis
    proof (cases rule: cosign_pinned_cases)
      case (reissued c)
      have "checkpoint_verifies env c"
        using ok1 latest_in [OF reissued(2)] by (auto simp: store_ok_def list_all_iff)
      then show ?thesis
        using went_on reissued assms(3) witness_bytes_cong [OF reissued(5)]
        by (auto simp: checkpoint_verifies_def split: sum.splits)
    next
      case (signed sig' w)
      then show ?thesis using went_on assms(3) by (auto split: sum.splits)
    qed simp
  qed simp_all
qed

text \<open>C24: the high-water mark is real.  If the checkpoint last co-signed for an origin was the root of the
  leaves \<open>old\<close>, and a request for the root of \<open>new\<close> is co-signed, then \<open>old\<close> is the beginning of \<open>new\<close>:
  nothing the witness has attested to was rewritten, reordered or dropped, unless SHA-256 collides on
  the strings hashed.\<close>

theorem cosigned_extends:
  assumes "we_hash env = sha256" "cosign env now body s = (Cosigned sig n reissued, s')"
    and "st = get_default ''checkpoint'' JNull body" "latest (st_origin st) s = Some c"
    and "cr_tree_size c = int (length old)" "from_hex (cr_root_hash c) = Some (merkle_root sha256 old)"
    and "st_tree_size st = int (length new)" "from_hex (st_root_hash st) = Some (merkle_root sha256 new)"
    and "offered_proof body = Some proof" "all_digests old" "all_digests new" "all_digests proof"
    and "collision_free sha256
      (consistency_inputs sha256 (int (length old)) (merkle_root sha256 old) (int (length new)) proof
       \<union> tree_inputs sha256 new \<union> tree_inputs sha256 old)"
  shows "old = take (length old) new"
  using assms(2)
proof (cases rule: cosign_cases)
  case (went_on provider key lsig s1 alg p)
  have latest1: "latest (st_origin st) s1 = Some c" using assms(4) went_on(5) by simp
  from went_on(8) show ?thesis
  proof (cases rule: cosign_pinned_cases)
    case (reissued c')
    then have "length old = length new" "merkle_root sha256 old = merkle_root sha256 new"
      using assms latest1 by auto
    then show ?thesis using same_root_same_leaves [of old new] assms(10,11,13)
      by (auto intro: collision_free_subset)
  next
    case (signed sig' w)
    then have "verify_consistency sha256 (int (length old)) (merkle_root sha256 old)
        (int (length new)) (merkle_root sha256 new) proof"
      using assms latest1 by (auto simp: check_history_def Let_def split: if_splits)
    then show ?thesis using accepted_is_prefix assms(10-13) by blast
  qed simp
qed simp_all

text \<open>C25: The key is pinned before the log is authenticated.  One request for an origin the witness has
  not met, with any key and a signature that does not verify, is refused, and yet from then on every
  request for that origin that offers another key, the real log's included, is refused as a changed
  key, whatever was served in between.\<close>

theorem unauthenticated_pin_locks_out:
  assumes "(witness_step env)\<^sup>*\<^sup>* empty_store s" "known_log o' s = None"
    and "cosign env now body s = (Refused Bad_log_signature, s')"
    and "st_origin (get_default ''checkpoint'' JNull body) = o'"
    and "b64_member (get_default ''log_public_key_b64'' (JStr []) body) = Some key"
    and "(witness_step env)\<^sup>*\<^sup>* s' s''"
    and "valid_statement (get_default ''checkpoint'' JNull body2) = None"
    and "st_origin (get_default ''checkpoint'' JNull body2) = o'"
    and "b64_member (get_default ''log_public_key_b64'' (JStr []) body2) = Some real_key" "real_key \<noteq> key"
    and "b64_member (get_default ''log_signature_b64'' (JStr []) body2) = Some lsig2"
    and "get_default ''log_alg_id'' (JStr []) body2 = JStr alg2" "has_signature (we_registry env) alg2"
  shows "fst (cosign env now2 body2 s'') = Refused Key_changed"
proof -
  have ok: "store_ok env s" using assms(1) by (intro served_ok) (simp add: served_from_empty_def)
  have "witness_step env s s'" using witness_step.request [of env s now body] assms(3) by simp
  then have "store_ok env s'" using ok well_kept.keep by blast
  moreover obtain p where p: "known_log o' s' = Some p" "or_log_public_key p = key"
    using assms(3)
  proof (cases rule: cosign_cases)
    case (went_on provider key' lsig s1 alg p)
    have "known_log o' s' = known_log o' s1"
      using went_on(8) by (cases rule: cosign_pinned_cases) auto
    then show ?thesis using went_on assms(4,5) that by simp
  next
    case stopped
    then show ?thesis by simp
  qed (use assms(2,4) in simp_all)
  ultimately have "known_log o' s'' = Some p"
    using advancing.evolve [OF assms(6)] by (simp add: no_retreat_def)
  moreover obtain provider2 where "signature (we_registry env) alg2 = Inr provider2"
    using assms(13) has_signature_iff by blast
  ultimately show ?thesis using assms(7-12) p(2) by (simp add: cosign_def Let_def)
qed

end
