(* ===== verification/Witness_Examples.thy ===== *)
theory Witness_Examples
  imports Witness_Proofs Ledger_Proofs
begin

text \<open>
  The witness's theorems applied: a log whose tree is one leaf asks twice for a co-signature, and a
  stranger asks first.
\<close>

definition toy_statement :: "ustr \<Rightarrow> json" where
  "toy_statement stamp = checkpoint_statement ''https://vault.example/log'' 1 (to_hex leaf_a) 0 (to_hex leaf_b) stamp"

definition toy_witness :: witness_env where
  "toy_witness = \<lparr>we_hash = sha256, we_registry = toy_registry,
     we_identity = \<lparr>wi_name = ''witness-1'', wi_alg_id = ''ML-DSA-87'', wi_backend = ''toy'', wi_public_key = ''w'',
       wi_secret_key = ''w''\<rparr>\<rparr>"

lemma toy_signatures: "signature toy_registry ''ML-DSA-65'' = Inr (toy_signature ''ML-DSA-65'' 3)"
  "signature toy_registry ''ML-DSA-87'' = Inr (toy_signature ''ML-DSA-87'' 5)"
  by (simp_all add: toy_registry_def signature_Inr register_symmetric_def register_signature_def empty_registry_def toy_signature_def)

lemma toy_fields: 
 "valid_statement (toy_statement t) = None" 
 "st_origin (toy_statement t) = ''https://vault.example/log''" "st_tree_size (toy_statement t) = 1" "st_root_hash (toy_statement t) = to_hex leaf_a"
proof -
  have "str_len (to_hex leaf_a) = 64" "str_len (to_hex leaf_b) = 64" by code_simp+
  then show "valid_statement (toy_statement t) = None"
    by (simp add: valid_statement_def toy_statement_def checkpoint_statement_def dict_get_def
     STATEMENT_FIELDS_def insert_commute is_JInt_def is_JStr_def json_int_of_def hex_problem_def del: to_hex.simps)
qed (simp_all add: toy_statement_def checkpoint_statement_def st_origin_def st_tree_size_def st_root_hash_def
   dict_get_def fields_of_def json_int_of_def json_str_of_def)

definition toy_request :: "bytes \<Rightarrow> bytes \<Rightarrow> ustr \<Rightarrow> (ustr \<times> json) list" where
  "toy_request key signer t =
    [(''checkpoint'', toy_statement t), (''log_public_key_b64'', JStr (b64encode key)),
     (''log_signature_b64'', JStr (b64encode (signer @ checkpoint_bytes (toy_statement t)))),
     (''log_alg_id'', JStr ''ML-DSA-65''), (''consistency_proof'', JList [])]"

lemma toy_members [simp]:
  "get_default ''checkpoint'' d (toy_request k s t) = toy_statement t"
  "b64_member (get_default ''log_public_key_b64'' d (toy_request k s t)) = Some k"
  "b64_member (get_default ''log_signature_b64'' d (toy_request k s t)) = Some (s @ checkpoint_bytes (toy_statement t))"
  "get_default ''log_alg_id'' d (toy_request k s t) = JStr ''ML-DSA-65''"
  "offered_proof (toy_request k s t) = Some []"
  by (simp_all add: toy_request_def get_default_def b64_member_def offered_proof_def)

definition toy_cosignature :: "ustr \<Rightarrow> bytes" where
  "toy_cosignature t = ''w'' @ witness_bytes ''witness-1'' (toy_statement t)"

definition toy_checkpoint :: "int \<Rightarrow> ustr \<Rightarrow> checkpoint_row" where
  "toy_checkpoint i t = \<lparr>cr_id = i, cr_origin = ''https://vault.example/log'', cr_tree_size = 1,
     cr_root_hash = to_hex leaf_a, cr_statement = norm (toy_statement t), cr_cosignature = toy_cosignature t,
     cr_seen_at = isoformat 0\<rparr>"

definition toy_pin :: "bytes \<Rightarrow> origin_row" where
  "toy_pin key = \<lparr>or_origin = ''https://vault.example/log'', or_log_alg_id = ''ML-DSA-65'', or_log_public_key = key,
     or_first_seen = isoformat 0\<rparr>"

definition toy_store :: witness_store where
  "toy_store = \<lparr>ws_origins = [toy_pin ''k''], ws_checkpoints = [toy_checkpoint 1 ''t1''], ws_violations = []\<rparr>"

definition toy_store2 :: witness_store where
  "toy_store2 = toy_store\<lparr>ws_checkpoints := [toy_checkpoint 1 ''t1'', toy_checkpoint 2 ''t2'']\<rparr>"

lemma toy_verify [simp]: "sp_verify (toy_signature a c) pk m s \<longleftrightarrow> s = pk @ m" "sp_sign (toy_signature a c) sk m = sk @ m"
  by (simp_all add: toy_signature_def)

lemma toy_first: "cosign toy_witness 0 (toy_request ''k'' ''k'' ''t1'') empty_store =
    (Cosigned (toy_cosignature ''t1'') 1 False, toy_store)"
  by (simp add: cosign_def Let_def toy_fields toy_signatures toy_witness_def known_log_def empty_store_def pin_log_def
      cosign_pinned_def countersign_def check_history_def latest_def history_of_def record_checkpoint_def sqlite_integer_def
      toy_store_def toy_pin_def toy_checkpoint_def toy_cosignature_def next_id_def)

lemma toy_second: "cosign toy_witness 0 (toy_request ''k'' ''k'' ''t2'') toy_store =
    (Cosigned (toy_cosignature ''t2'') 1 False, toy_store2)"
proof -
  have "norm (toy_statement ''t1'') \<noteq> norm (toy_statement ''t2'')"
    by (simp add: toy_statement_def checkpoint_statement_def)
  moreover have "norm (norm (toy_statement ''t1'')) = norm (toy_statement ''t1'')"
    by (simp add: toy_statement_def checkpoint_statement_def)
  ultimately show ?thesis
  by (simp add: cosign_def Let_def toy_fields toy_signatures toy_witness_def known_log_def 
      cosign_pinned_def countersign_def check_history_def latest_def history_of_def record_checkpoint_def sqlite_integer_def
      toy_store_def toy_store2_def toy_pin_def toy_checkpoint_def toy_cosignature_def next_id_def verify_consistency_def
      del: to_hex.simps)
qed

lemma toy_refused: "cosign toy_witness 0 (toy_request ''x'' ''k'' ''t1'') empty_store =
    (Refused Bad_log_signature, record_violation 0 ''https://vault.example/log'' ''bad_signature''
      ''log signature did not verify'' (toy_statement ''t1'') \<lparr>ws_origins = [toy_pin ''x''], ws_checkpoints = [], ws_violations = []\<rparr>)"
  by (simp add: cosign_def Let_def toy_fields toy_signatures toy_witness_def known_log_def empty_store_def pin_log_def
      cosign_pinned_def toy_pin_def)

lemma toy_served: "(witness_step toy_witness)\<^sup>*\<^sup>* empty_store toy_store" "(witness_step toy_witness)\<^sup>*\<^sup>* toy_store toy_store2"
  using witness_step.request [of toy_witness empty_store 0 "toy_request ''k'' ''k'' ''t1''"]
    witness_step.request [of toy_witness toy_store 0 "toy_request ''k'' ''k'' ''t2''"]
  by (simp_all add: toy_first toy_second)

lemma pins_are_permanent_witness: "known_log ''https://vault.example/log'' toy_store2 = Some (toy_pin ''k'')"
proof -
  have "known_log ''https://vault.example/log'' toy_store = Some (toy_pin ''k'')"
    by (simp add: known_log_def toy_store_def toy_pin_def)
  from pins_are_permanent [OF toy_served this] show ?thesis by blast
qed

lemma witness_never_forks_witness: "cr_root_hash (ws_checkpoints toy_store2 ! 0) = cr_root_hash (ws_checkpoints toy_store2 ! 1)"
proof -
  have "(witness_step toy_witness)\<^sup>*\<^sup>* empty_store toy_store2" using toy_served by (rule rtranclp_trans)
  from witness_never_forks [OF this, of 0 1] show ?thesis
    by (simp add: toy_store2_def toy_checkpoint_def)
qed

lemma cosigned_means_witness: "sp_verify (toy_signature ''ML-DSA-87'' 5) ''w''
    (witness_bytes ''witness-1'' (toy_statement ''t1'')) (toy_cosignature ''t1'')"
  using cosigned_means [OF rtranclp.rtrancl_refl toy_first refl]
  by (simp add: toy_witness_def toy_signatures)

lemma cosigned_extends_witness: "[leaf_a] = take 1 [leaf_a]"
proof -
  have root: "merkle_root sha256 [leaf_a] = leaf_a" by (simp add: merkle_root_eq two_leaves)
  have "consistency_inputs sha256 1 leaf_a 1 [] \<subseteq> {}"
    by (simp add: consistency_inputs_def consistency_walk_def seed_rest_def is_power_of_two_def strip_odd.simps)
  then have "collision_free sha256 (consistency_inputs sha256 1 leaf_a 1 [] \<union> tree_inputs sha256 [leaf_a] \<union> tree_inputs sha256 [leaf_a])"
    by (simp add: collision_free_def two_leaves)
  moreover have "latest (st_origin (toy_statement ''t2'')) toy_store = Some (toy_checkpoint 1 ''t1'')"
    by (simp add: latest_def history_of_def toy_store_def toy_checkpoint_def toy_fields)
  ultimately show ?thesis
    using cosigned_extends [OF _ toy_second refl, of "toy_checkpoint 1 ''t1''" "[leaf_a]" "[leaf_a]" "[]"]
    by (simp add: toy_witness_def toy_fields root toy_checkpoint_def all_digests_def del: to_hex.simps)
qed

lemma unauthenticated_pin_locks_out_witness:
  "fst (cosign toy_witness 0 (toy_request ''k'' ''k'' ''t1'') (snd (cosign toy_witness 0 (toy_request ''x'' ''k'' ''t1'') empty_store)))
    = Refused Key_changed"
  unfolding toy_refused snd_conv
  by (rule unauthenticated_pin_locks_out [OF rtranclp.rtrancl_refl _ toy_refused _ _ rtranclp.rtrancl_refl,
        of _ "''x''" _ "''k''" "''k'' @ checkpoint_bytes (toy_statement ''t1'')" "''ML-DSA-65''"])
    (simp_all add: toy_fields known_log_def empty_store_def has_signature_iff toy_witness_def toy_signatures)

end
