(* ===== verification/Eligibility.thy ===== *)
theory Eligibility
  imports Models "HOL-Library.Product_Lexorder"
begin

text \<open>
  The standing rules of \<open>services/workspace_service.py\<close> and \<open>services/eligibility.py\<close>: who may sign a
  decision now, who its voters are, when rejections close it and when it can no longer pass.

  A set of people is the list of their ids.  A function of a decision takes the vault row it belongs
  to and \<open>ids\<close>, the frozen signer set its snapshot column holds; the vault's S15 rule and current
  signers, which a caller may pass in after reading them once, are read here.
\<close>

section \<open>Standing in the workspace\<close>

definition SIGNER_ROLES :: "ustr list" where "SIGNER_ROLES = [''owner'', ''signer'']"

definition is_active :: "workspace_member \<Rightarrow> bool" where
  "is_active m \<longleftrightarrow> wm_status m = ''active''"

definition membership :: "db \<Rightarrow> int \<Rightarrow> int \<Rightarrow> workspace_member option" where
  "membership d workspace_id user_id =
     find (\<lambda>m. wm_workspace_id m = workspace_id \<and> wm_user_id m = user_id) (db_workspace_members d)"

definition current_membership :: "db \<Rightarrow> int \<Rightarrow> workspace_member option" where
  "current_membership d user_id =
     first_by (\<lambda>m. (wm_joined_at m, wm_id m))
       (filter (\<lambda>m. wm_user_id m = user_id \<and> is_active m) (db_workspace_members d))"

definition owners_workspace_id :: "db \<Rightarrow> int \<Rightarrow> int option" where
  "owners_workspace_id d owner_id =
     (case current_membership d owner_id of
        Some home \<Rightarrow> Some (wm_workspace_id home)
      | None \<Rightarrow> map_option wm_workspace_id
          (first_by (\<lambda>m. (wm_joined_at m, wm_id m)) (filter (\<lambda>m. wm_user_id m = owner_id) (db_workspace_members d))))"

definition home_workspace_id :: "db \<Rightarrow> vault_row \<Rightarrow> int option" where
  "home_workspace_id d v = owners_workspace_id d (v_owner_id v)"

definition in_standing :: "workspace_member \<Rightarrow> bool" where
  "in_standing m \<longleftrightarrow> is_active m \<and> wm_role m \<noteq> ''auditor''"

definition standing_workspace_ids :: "db \<Rightarrow> int \<Rightarrow> int list" where
  "standing_workspace_ids d user_id =
     map wm_workspace_id (filter (\<lambda>m. wm_user_id m = user_id \<and> in_standing m) (db_workspace_members d))"

datatype standing_problem = Standing_unconfirmed | Standing_not_member | Standing_suspended | Standing_auditor

definition standing_in :: "db \<Rightarrow> int \<Rightarrow> int \<Rightarrow> standing_problem option" where
  "standing_in d workspace_id user_id =
     (case membership d workspace_id user_id of
        None \<Rightarrow> Some Standing_not_member
      | Some m \<Rightarrow>
          (if \<not> is_active m then Some Standing_suspended
           else if wm_role m = ''auditor'' then Some Standing_auditor
           else None))"

definition signing_standing :: "db \<Rightarrow> vault_row \<Rightarrow> int \<Rightarrow> standing_problem option" where
  "signing_standing d v user_id =
     (case home_workspace_id d v of
        None \<Rightarrow> (if db_workspaces d = [] then None else Some Standing_unconfirmed)
      | Some workspace_id \<Rightarrow> standing_in d workspace_id user_id)"

definition in_good_standing :: "db \<Rightarrow> vault_row \<Rightarrow> int list \<Rightarrow> int list" where
  "in_good_standing d v user_ids =
     (if user_ids = [] then []
      else case home_workspace_id d v of
        None \<Rightarrow> (if db_workspaces d = [] then user_ids else [])
      | Some workspace_id \<Rightarrow>
          map wm_user_id (filter (\<lambda>m. wm_workspace_id m = workspace_id \<and> wm_user_id m \<in> set user_ids \<and> in_standing m)
            (db_workspace_members d)))"

section \<open>Who may sign\<close>

definition vault_member_of :: "db \<Rightarrow> int \<Rightarrow> int \<Rightarrow> vault_member option" where
  "vault_member_of d vault_id user_id =
     find (\<lambda>m. vm_vault_id m = vault_id \<and> vm_user_id m = user_id) (db_vault_members d)"

definition is_approver :: "vault_member \<Rightarrow> bool" where
  "is_approver m \<longleftrightarrow> vm_member_role m \<in> set SIGNER_ROLES"

definition is_current_approver :: "db \<Rightarrow> int \<Rightarrow> int \<Rightarrow> bool" where
  "is_current_approver d vault_id user_id =
     (case vault_member_of d vault_id user_id of None \<Rightarrow> False | Some m \<Rightarrow> is_approver m)"

definition vault_signer_ids :: "db \<Rightarrow> int \<Rightarrow> int list" where
  "vault_signer_ids d vault_id =
     sort (map vm_user_id (filter (\<lambda>m. vm_vault_id m = vault_id \<and> is_approver m) (db_vault_members d)))"

definition current_signer_ids :: "db \<Rightarrow> vault_row \<Rightarrow> int list" where
  "current_signer_ids d v = in_good_standing d v (vault_signer_ids d (v_id v))"

definition signing_vault_ids :: "db \<Rightarrow> int \<Rightarrow> int list" where
  "signing_vault_ids d user_id =
     (let rows = filter (\<lambda>v. \<exists>m \<in> set (db_vault_members d). vm_vault_id m = v_id v \<and> vm_user_id m = user_id \<and> is_approver m)
            (db_vaults d);
          good = standing_workspace_ids d user_id;
          no_workspaces = (\<exists>v \<in> set rows. home_workspace_id d v = None) \<and> db_workspaces d = []
      in map v_id (filter (\<lambda>v. case home_workspace_id d v of
           Some home \<Rightarrow> home \<in> set good | None \<Rightarrow> no_workspaces) rows))"

definition vault_allows_requester :: "db \<Rightarrow> int \<Rightarrow> bool" where
  "vault_allows_requester d vault_id =
     (case find (\<lambda>r. vr_vault_id r = vault_id) (db_vault_rules d) of
        None \<Rightarrow> True | Some rule \<Rightarrow> vr_requester_can_approve rule)"

definition frozen_allows :: "db \<Rightarrow> proposal_row \<Rightarrow> bool" where
  "frozen_allows d p =
     (case lifecycle_of d p of
        Some l \<Rightarrow> (case pl_requester_can_approve l of Some b \<Rightarrow> b | None \<Rightarrow> True)
      | None \<Rightarrow> True)"

definition requester_may_approve :: "db \<Rightarrow> proposal_row \<Rightarrow> bool" where
  "requester_may_approve d p =
     (if p_status p \<noteq> ''open'' then frozen_allows d p
      else frozen_allows d p \<and> vault_allows_requester d (p_vault_id p))"

definition own_decision_blocked :: "db \<Rightarrow> proposal_row \<Rightarrow> int \<Rightarrow> bool" where
  "own_decision_blocked d p user_id \<longleftrightarrow> p_creator_id p = user_id \<and> \<not> requester_may_approve d p"

definition eligible_ids :: "db \<Rightarrow> vault_row \<Rightarrow> proposal_row \<Rightarrow> int list \<Rightarrow> int list" where
  "eligible_ids d v p ids =
     filter (\<lambda>i. i \<in> set (current_signer_ids d v) \<and> (requester_may_approve d p \<or> i \<noteq> p_creator_id p)) (remdups ids)"

definition can_sign :: "db \<Rightarrow> vault_row \<Rightarrow> proposal_row \<Rightarrow> int list \<Rightarrow> int \<Rightarrow> bool" where
  "can_sign d v p ids user_id \<longleftrightarrow> user_id \<in> set (eligible_ids d v p ids)"

definition voter_ids :: "db \<Rightarrow> proposal_row \<Rightarrow> int list \<Rightarrow> int list" where
  "voter_ids d p ids = filter (\<lambda>i. requester_may_approve d p \<or> i \<noteq> p_creator_id p) (remdups ids)"

section \<open>When it is decided\<close>

definition requester_excluded :: "db \<Rightarrow> proposal_row \<Rightarrow> int list \<Rightarrow> bool" where
  "requester_excluded d p ids \<longleftrightarrow>
     p_creator_id p \<in> set ids \<and> \<not> requester_may_approve d p
     \<and> \<not> (\<exists>s \<in> set (signatures_of d p). s_signer_id s = p_creator_id p)"

definition deciding_n :: "db \<Rightarrow> proposal_row \<Rightarrow> int list \<Rightarrow> int" where
  "deciding_n d p ids = p_required_n p - (if requester_excluded d p ids then 1 else 0)"

definition rejection_closes :: "db \<Rightarrow> proposal_row \<Rightarrow> int list \<Rightarrow> int \<Rightarrow> bool" where
  "rejection_closes d p ids rejections \<longleftrightarrow> rejections > deciding_n d p ids - p_required_m p"

record outlook_report =
  ol_still :: "int list"
  ol_needed :: int

definition reachable_outlook :: "outlook_report \<Rightarrow> bool" where
  "reachable_outlook o' \<longleftrightarrow> int (length (ol_still o')) \<ge> ol_needed o'"

definition outlook :: "proposal_row \<Rightarrow> int \<Rightarrow> int list \<Rightarrow> int list \<Rightarrow> outlook_report" where
  "outlook p approvals voted eligible =
     \<lparr>ol_still = sort (filter (\<lambda>i. i \<notin> set voted) (remdups eligible)), ol_needed = max (p_required_m p - approvals) 0\<rparr>"

definition stored_outlook :: "db \<Rightarrow> vault_row \<Rightarrow> proposal_row \<Rightarrow> int list \<Rightarrow> outlook_report" where
  "stored_outlook d v p ids =
     outlook p (int (length (filter (\<lambda>s. s_decision s = ''approve'') (signatures_of d p))))
       (map s_signer_id (signatures_of d p)) (eligible_ids d v p ids)"

definition cannot_pass :: "db \<Rightarrow> vault_row \<Rightarrow> proposal_row \<Rightarrow> int list \<Rightarrow> bool" where
  "cannot_pass d v p ids \<longleftrightarrow> p_status p = ''open'' \<and> \<not> reachable_outlook (stored_outlook d v p ids)"

record shortfall_report =
  sf_demoted :: "int list"
  sf_removed :: "int list"
  sf_suspended :: "int list"
  sf_auditors :: "int list"
  sf_requester :: "int option"
  sf_rejected :: "int list"

datatype stopped_by = By_nothing | By_removed | By_demoted | By_requester | By_auditor | By_suspended

definition vote_decision :: "db \<Rightarrow> proposal_row \<Rightarrow> int \<Rightarrow> ustr option" where
  "vote_decision d p user_id = map_of (rev (map (\<lambda>s. (s_signer_id s, s_decision s)) (signatures_of d p))) user_id"

definition stopped :: "db \<Rightarrow> vault_row \<Rightarrow> proposal_row \<Rightarrow> int list \<Rightarrow> int \<Rightarrow> stopped_by" where
  "stopped d v p ids uid =
     (if vote_decision d p uid = Some ''approve'' \<or> uid \<in> set (eligible_ids d v p ids) then By_nothing
      else case vault_member_of d (v_id v) uid of
        None \<Rightarrow> By_removed
      | Some m \<Rightarrow>
          (if \<not> is_approver m then By_demoted
           else if uid = p_creator_id p \<and> \<not> requester_may_approve d p then By_requester
           else case home_workspace_id d v of
             None \<Rightarrow> By_suspended
           | Some w \<Rightarrow>
               (case membership d w uid of
                  Some wm \<Rightarrow> (if is_active wm \<and> wm_role wm = ''auditor'' then By_auditor else By_suspended)
                | None \<Rightarrow> By_suspended)))"

definition shortfall :: "db \<Rightarrow> vault_row \<Rightarrow> proposal_row \<Rightarrow> int list \<Rightarrow> shortfall_report" where
  "shortfall d v p ids =
     (let people = sort (remdups ids); by = (\<lambda>r. filter (\<lambda>uid. stopped d v p ids uid = r) people)
      in \<lparr>sf_demoted = by By_demoted, sf_removed = by By_removed, sf_suspended = by By_suspended,
          sf_auditors = by By_auditor,
          sf_requester = (case by By_requester of [] \<Rightarrow> None | u # _ \<Rightarrow> Some u),
          sf_rejected = sort (filter (\<lambda>u. vote_decision d p u = Some ''reject'') (eligible_ids d v p ids))\<rparr>)"

section \<open>Whether a decision raised now could pass\<close>

definition able_to_approve :: "db \<Rightarrow> vault_row \<Rightarrow> int option \<Rightarrow> int list" where
  "able_to_approve d v requester =
     filter (\<lambda>i. vault_allows_requester d (v_id v) \<or> requester \<noteq> Some i) (remdups (current_signer_ids d v))"

definition able_count :: "db \<Rightarrow> vault_row \<Rightarrow> int option \<Rightarrow> int" where
  "able_count d v requester =
     (let able = able_to_approve d v requester in
      if requester = None \<and> \<not> vault_allows_requester d (v_id v) \<and> able \<noteq> [] then int (length able) - 1
      else int (length able))"

definition impossible_to_pass :: "db \<Rightarrow> vault_row \<Rightarrow> int option \<Rightarrow> bool" where
  "impossible_to_pass d v requester \<longleftrightarrow> v_threshold_m v > able_count d v requester"

text \<open>The right single quotation mark, in UTF-8.\<close>

definition apos :: ustr where "apos = [CHR 0xE2, CHR 0x80, CHR 0x99]"

definition CANNOT_PASS_UNDER_SOD :: ustr where
  "CANNOT_PASS_UNDER_SOD =
     ''This vault needs every one of its approvers, and the person who raises a decision can'' @ [CHR 0x27]
     @ ''t approve it, so a decision raised here could never pass. Ask the vault'' @ [CHR 0x27]
     @ ''s owner to lower the threshold, add an approver, or let the person who raises a decision approve it.''"

definition why_cannot_pass_if_raised :: "db \<Rightarrow> vault_row \<Rightarrow> int option \<Rightarrow> ustr option" where
  "why_cannot_pass_if_raised d v requester =
     (let m = v_threshold_m v; able = able_count d v requester in
      if m \<le> able then None
      else
        (let sod = \<not> vault_allows_requester d (v_id v);
             signers = remdups (vault_signer_ids d (v_id v));
             stopped = int (length (filter (\<lambda>i. i \<notin> set (current_signer_ids d v)) signers));
             own = (if requester \<noteq> None then ''you can'' @ apos @ ''t approve your own decision here''
                    else ''whoever raises a decision can'' @ apos @ ''t approve it'');
             ask = ''Ask the vault'' @ apos @ ''s owner to ''
               @ (if sod then ''lower the threshold, add an approver, or let the person who raises a decision approve it''
                  else ''lower the threshold, or add an approver'')
               @ (if stopped \<noteq> 0 then '', or ask a workspace admin to reinstate a suspended approver'' else [])
         in if sod \<and> stopped = 0 \<and> m = int (length signers)
            then Some (''it needs ''
              @ (if m = 1 then ''its only approver'' else ''all '' @ dec_int m @ '' of its approvers'')
              @ '', and '' @ own @ ''. '' @ ask @ ''.'')
            else
              (let reasons = (if sod then [own] else [])
                   @ (if stopped \<noteq> 0 then [dec_int stopped @ '' of its approvers '' @ (if stopped = 1 then ''is'' else ''are'')
                        @ '' suspended from the workspace or read-only there''] else []);
                   who = (if able \<le> 0 then ''nobody''
                     else ''only '' @ dec_int able @ '' '' @ (if able = 1 then ''person'' else ''people''));
                   because = (if reasons = [] then [] else '', because '' @ join '' and '' reasons)
               in Some (''it needs '' @ dec_int m @ '' approval'' @ (if m = 1 then [] else ''s'') @ '', and '' @ who
                    @ '' could give one'' @ because @ ''. '' @ ask @ ''.''))))"

definition starts_with :: "ustr \<Rightarrow> ustr \<Rightarrow> bool" where
  "starts_with prefix s \<longleftrightarrow> take (length prefix) s = prefix"

definition cannot_raise :: "db \<Rightarrow> vault_row \<Rightarrow> int option \<Rightarrow> ustr option" where
  "cannot_raise d v requester =
     (case why_cannot_pass_if_raised d v requester of
        None \<Rightarrow> None
      | Some words \<Rightarrow>
          (if starts_with ''it needs all '' words \<or> starts_with ''it needs its only approver'' words
           then Some CANNOT_PASS_UNDER_SOD
           else Some (''A decision raised here could never pass: '' @ words)))"

end
