(* ===== verification/Chain_Action.thy ===== *)
theory Chain_Action
  imports Signing
begin

text \<open>
  \<open>qvault/chain/evm.py\<close>, the digests of \<open>qvault/chain/digest.py\<close> and \<open>qvault/chain/action.py\<close>: the
  payment a decision authorises, its one accepted shape, and the 32 bytes a treasury contract checks.

  keccak-256, the EIP-55 checksum functions and the ABI encoder are third-party code: \<open>evm_lib\<close> holds
  them.  A Python value of unknown type is a \<open>json\<close> value; a time is in microseconds.
\<close>

section \<open>EVM primitives\<close>

datatype abi_value = Abi_bytes bytes | Abi_uint int | Abi_address ustr | Abi_bytes_list "bytes list"

record evm_lib =
  ev_keccak :: "bytes \<Rightarrow> bytes"
  ev_is_hex_address :: "ustr \<Rightarrow> bool"
  ev_is_checksum_address :: "ustr \<Rightarrow> bool"
  ev_to_checksum_address :: "ustr \<Rightarrow> ustr"
  ev_to_canonical_address :: "ustr \<Rightarrow> bytes"
  ev_encode :: "(ustr \<times> abi_value) list \<Rightarrow> bytes"

datatype chain_value_error =
    Not_an_address | Bad_checksum | Not_hex_text ustr | Not_32_bytes ustr nat | Not_uint256 ustr
  | Not_uint64 ustr | Call_data_too_long nat | Bad_threshold

definition UINT256_MAX :: int where "UINT256_MAX = 2 ^ 256 - 1"
definition UINT64_MAX :: int where "UINT64_MAX = 2 ^ 64 - 1"
definition MAX_THRESHOLD :: int where "MAX_THRESHOLD = 8"
definition MAX_CALL_DATA_BYTES :: nat where "MAX_CALL_DATA_BYTES = 4096"

definition lower_char :: "char \<Rightarrow> char" where
  "lower_char c = (if 65 \<le> code_of c \<and> code_of c \<le> 90 then byte_of (code_of c + 32) else c)"

definition upper_letter :: "char \<Rightarrow> char" where
  "upper_letter c = (if 97 \<le> code_of c \<and> code_of c \<le> 122 then byte_of (code_of c - 32) else c)"

text \<open>\<open>lower()\<close> and \<open>upper()\<close> are only applied to the 40 hex digits \<open>is_hex_address\<close> accepted, so the ASCII
  letters are all there is to change.\<close>

definition checksum_address :: "evm_lib \<Rightarrow> json \<Rightarrow> chain_value_error + ustr" where
  "checksum_address L value =
     (case value of
        JStr s \<Rightarrow>
          (if take 2 s \<noteq> ''0x'' \<or> \<not> ev_is_hex_address L s then Inl Not_an_address
           else let digits = drop 2 s in
             if digits \<noteq> map lower_char digits \<and> digits \<noteq> map upper_letter digits \<and> \<not> ev_is_checksum_address L s
             then Inl Bad_checksum
             else Inr (ev_to_checksum_address L s))
      | _ \<Rightarrow> Inl Not_an_address)"

definition address_bytes :: "evm_lib \<Rightarrow> json \<Rightarrow> chain_value_error + bytes" where
  "address_bytes L value = bindE (checksum_address L value) (\<lambda>a. Inr (ev_to_canonical_address L a))"

definition bytes32_from_hex :: "ustr \<Rightarrow> ustr \<Rightarrow> chain_value_error + bytes" where
  "bytes32_from_hex value what =
     (let text' = (if take 2 value = ''0x'' then drop 2 value else value) in
      case from_hex text' of
        None \<Rightarrow> Inl (Not_hex_text what)
      | Some raw \<Rightarrow> (if length raw \<noteq> 32 then Inl (Not_32_bytes what (length raw)) else Inr raw))"

definition check_uint256 :: "int \<Rightarrow> ustr \<Rightarrow> chain_value_error + int" where
  "check_uint256 value what = (if 0 \<le> value \<and> value \<le> UINT256_MAX then Inr value else Inl (Not_uint256 what))"

definition check_uint64 :: "int \<Rightarrow> ustr \<Rightarrow> chain_value_error + int" where
  "check_uint64 value what = (if 0 \<le> value \<and> value \<le> UINT64_MAX then Inr value else Inl (Not_uint64 what))"

section \<open>Digests\<close>

definition TREASURY_VERSION :: ustr where "TREASURY_VERSION = ''QVAULT-TREASURY-v1''"

definition EXECUTE_TAG :: "evm_lib \<Rightarrow> bytes" where
  "EXECUTE_TAG L = ev_keccak L (TREASURY_VERSION @ '':EXECUTE'')"

definition RECONFIGURE_TAG :: "evm_lib \<Rightarrow> bytes" where
  "RECONFIGURE_TAG L = ev_keccak L (TREASURY_VERSION @ '':RECONFIGURE'')"

definition proposal_id :: "ustr \<Rightarrow> chain_value_error + bytes" where
  "proposal_id payload_hash = bytes32_from_hex payload_hash ''payload_hash''"

text \<open>What \<open>execution_digest\<close> hands to the ABI encoder once every argument has passed its check.\<close>

definition execute_words :: "evm_lib \<Rightarrow> int \<Rightarrow> ustr \<Rightarrow> int \<Rightarrow> bytes \<Rightarrow> ustr \<Rightarrow> int \<Rightarrow> bytes \<Rightarrow> int \<Rightarrow> int
    \<Rightarrow> (ustr \<times> abi_value) list" where
  "execute_words L chain_id treasury config_nonce pid to value_wei data_hash call_gas valid_until =
     [(''bytes32'', Abi_bytes (EXECUTE_TAG L)), (''uint256'', Abi_uint chain_id), (''address'', Abi_address treasury),
      (''uint256'', Abi_uint config_nonce), (''bytes32'', Abi_bytes pid), (''address'', Abi_address to),
      (''uint256'', Abi_uint value_wei), (''bytes32'', Abi_bytes data_hash), (''uint64'', Abi_uint call_gas),
      (''uint64'', Abi_uint valid_until)]"

definition execution_digest :: "evm_lib \<Rightarrow> int \<Rightarrow> ustr \<Rightarrow> int \<Rightarrow> bytes \<Rightarrow> ustr \<Rightarrow> int \<Rightarrow> bytes \<Rightarrow> int \<Rightarrow> int
    \<Rightarrow> chain_value_error + bytes" where
  "execution_digest L chain_id treasury config_nonce pid to value_wei call_data call_gas valid_until =
     (if length pid \<noteq> 32 then Inl (Not_32_bytes ''proposal_id'' (length pid))
      else if MAX_CALL_DATA_BYTES < length call_data then Inl (Call_data_too_long (length call_data))
      else bindE (check_uint256 chain_id ''chain_id'') (\<lambda>chain_id.
        bindE (checksum_address L (JStr treasury)) (\<lambda>treasury.
        bindE (check_uint256 config_nonce ''config_nonce'') (\<lambda>config_nonce.
        bindE (checksum_address L (JStr to)) (\<lambda>to.
        bindE (check_uint256 value_wei ''value_wei'') (\<lambda>value_wei.
        bindE (check_uint64 call_gas ''call_gas'') (\<lambda>call_gas.
        bindE (check_uint64 valid_until ''valid_until'') (\<lambda>valid_until.
          Inr (ev_keccak L (ev_encode L (execute_words L chain_id treasury config_nonce pid to value_wei
            (ev_keccak L call_data) call_gas valid_until)))))))))))"

definition reconfigure_words :: "evm_lib \<Rightarrow> int \<Rightarrow> ustr \<Rightarrow> int \<Rightarrow> bytes \<Rightarrow> bytes \<Rightarrow> int \<Rightarrow> int
    \<Rightarrow> (ustr \<times> abi_value) list" where
  "reconfigure_words L chain_id treasury config_nonce add_hash remove_hash threshold valid_until =
     [(''bytes32'', Abi_bytes (RECONFIGURE_TAG L)), (''uint256'', Abi_uint chain_id), (''address'', Abi_address treasury),
      (''uint256'', Abi_uint config_nonce), (''bytes32'', Abi_bytes add_hash), (''bytes32'', Abi_bytes remove_hash),
      (''uint64'', Abi_uint threshold), (''uint64'', Abi_uint valid_until)]"

definition signer_list_hash :: "evm_lib \<Rightarrow> bytes list \<Rightarrow> bytes" where
  "signer_list_hash L signers = ev_keccak L (ev_encode L [(''bytes[]'', Abi_bytes_list signers)])"

definition reconfigure_digest_unchecked :: "evm_lib \<Rightarrow> int \<Rightarrow> ustr \<Rightarrow> int \<Rightarrow> bytes list \<Rightarrow> bytes list \<Rightarrow> int \<Rightarrow> int
    \<Rightarrow> chain_value_error + bytes" where
  "reconfigure_digest_unchecked L chain_id treasury config_nonce add remove threshold valid_until =
     bindE (check_uint256 chain_id ''chain_id'') (\<lambda>chain_id.
     bindE (checksum_address L (JStr treasury)) (\<lambda>treasury.
     bindE (check_uint256 config_nonce ''config_nonce'') (\<lambda>config_nonce.
     bindE (check_uint64 threshold ''threshold'') (\<lambda>threshold.
     bindE (check_uint64 valid_until ''valid_until'') (\<lambda>valid_until.
       Inr (ev_keccak L (ev_encode L (reconfigure_words L chain_id treasury config_nonce
         (signer_list_hash L add) (signer_list_hash L remove) threshold valid_until))))))))"

definition reconfigure_digest :: "evm_lib \<Rightarrow> int \<Rightarrow> ustr \<Rightarrow> int \<Rightarrow> bytes list \<Rightarrow> bytes list \<Rightarrow> int \<Rightarrow> int
    \<Rightarrow> chain_value_error + bytes" where
  "reconfigure_digest L chain_id treasury config_nonce add remove threshold valid_until =
     (if 1 \<le> threshold \<and> threshold \<le> MAX_THRESHOLD
      then reconfigure_digest_unchecked L chain_id treasury config_nonce add remove threshold valid_until
      else Inl Bad_threshold)"

section \<open>The payment action\<close>

definition KIND_ETH_TRANSFER :: ustr where "KIND_ETH_TRANSFER = ''eth_transfer''"

definition ACTION_KEYS :: "ustr list" where
  "ACTION_KEYS = [''kind'', ''chain_id'', ''treasury'', ''to'', ''value_wei'', ''data'', ''call_gas'',
     ''valid_until'', ''config_nonce'']"

definition MAX_SAFE_INTEGER :: int where "MAX_SAFE_INTEGER = 2 ^ 53 - 1"
definition TX_GAS_CAP :: int where "TX_GAS_CAP = 16777216"
definition ETH_TRANSFER_CALL_GAS :: int where "ETH_TRANSFER_CALL_GAS = 100000"
definition ZERO_ADDRESS :: ustr where "ZERO_ADDRESS = ''0x'' @ replicate 40 (CHR ''0'')"

definition seconds :: "int \<Rightarrow> int" where "seconds n = n * 1000000"
definition DEFAULT_DEADLINE :: int where "DEFAULT_DEADLINE = seconds (7 * 86400)"
definition MAX_DEADLINE :: int where "MAX_DEADLINE = seconds (30 * 86400)"
definition EXECUTION_WINDOW :: int where "EXECUTION_WINDOW = seconds (72 * 3600)"

datatype action_error =
    Action_not_object | Action_wrong_keys | Action_unsupported_kind | Action_call_data | Action_bad_amount
  | Action_not_safe_integer ustr | Action_chain int | Action_below_one_wei | Action_above_uint256
  | Action_gas | Action_valid_until | Action_pays_itself | Action_bad_address ustr | Action_not_checksummed ustr
  | Action_zero_address ustr | Action_not_described | Action_amount_form | Action_too_many_decimals
  | Action_deadline_past | Action_deadline_too_far

record eth_transfer =
  et_chain_id :: int
  et_treasury :: ustr
  et_to :: ustr
  et_value_wei :: int
  et_call_gas :: int
  et_valid_until :: int
  et_config_nonce :: int

definition transfer_canonical :: "eth_transfer \<Rightarrow> json" where
  "transfer_canonical t = JObj
    [(''kind'', JStr KIND_ETH_TRANSFER), (''chain_id'', JInt (et_chain_id t)), (''treasury'', JStr (et_treasury t)),
     (''to'', JStr (et_to t)), (''value_wei'', JStr (dec_int (et_value_wei t))), (''data'', JStr ''0x''),
     (''call_gas'', JInt (et_call_gas t)), (''valid_until'', JInt (et_valid_until t)),
     (''config_nonce'', JInt (et_config_nonce t))]"

definition describe :: "eth_transfer \<Rightarrow> action_error + ustr" where
  "describe t = (case payment_text (transfer_canonical t) of None \<Rightarrow> Inl Action_not_described | Some s \<Rightarrow> Inr s)"

definition transfer_digest :: "evm_lib \<Rightarrow> eth_transfer \<Rightarrow> ustr \<Rightarrow> chain_value_error + bytes" where
  "transfer_digest L t payload_hash =
     bindE (proposal_id payload_hash) (\<lambda>pid.
       execution_digest L (et_chain_id t) (et_treasury t) (et_config_nonce t) pid (et_to t) (et_value_wei t) []
         (et_call_gas t) (et_valid_until t))"

definition safe_integer :: "json \<Rightarrow> ustr \<Rightarrow> action_error + int" where
  "safe_integer value what =
     (case value of
        JInt i \<Rightarrow> (if 0 \<le> i \<and> i \<le> MAX_SAFE_INTEGER then Inr i else Inl (Action_not_safe_integer what))
      | _ \<Rightarrow> Inl (Action_not_safe_integer what))"

definition action_address :: "evm_lib \<Rightarrow> json \<Rightarrow> ustr \<Rightarrow> bool \<Rightarrow> action_error + ustr" where
  "action_address L value what canonical_only =
     (case checksum_address L value of
        Inl _ \<Rightarrow> Inl (Action_bad_address what)
      | Inr checksummed \<Rightarrow>
          (if canonical_only \<and> value \<noteq> JStr checksummed then Inl (Action_not_checksummed what)
           else if checksum_address L (JStr ZERO_ADDRESS) = Inr checksummed then Inl (Action_zero_address what)
           else Inr checksummed))"

definition checked_transfer :: "json \<Rightarrow> ustr \<Rightarrow> ustr \<Rightarrow> int \<Rightarrow> json \<Rightarrow> json \<Rightarrow> json \<Rightarrow> action_error + eth_transfer" where
  "checked_transfer chain_id treasury to value_wei call_gas valid_until config_nonce =
     bindE (safe_integer chain_id ''chain_id'') (\<lambda>chain.
       if map_of PAYMENT_NETWORKS chain = None then Inl (Action_chain chain)
       else if value_wei < 1 then Inl Action_below_one_wei
       else if UINT256_MAX < value_wei then Inl Action_above_uint256
       else bindE (safe_integer call_gas ''call_gas'') (\<lambda>gas.
         if \<not> (1 \<le> gas \<and> gas \<le> TX_GAS_CAP) then Inl Action_gas
         else bindE (safe_integer valid_until ''valid_until'') (\<lambda>deadline.
           if deadline < 1 then Inl Action_valid_until
           else bindE (safe_integer config_nonce ''config_nonce'') (\<lambda>nonce.
             if to = treasury then Inl Action_pays_itself
             else Inr \<lparr>et_chain_id = chain, et_treasury = treasury, et_to = to, et_value_wei = value_wei,
                       et_call_gas = gas, et_valid_until = deadline, et_config_nonce = nonce\<rparr>))))"

text \<open>The regular expression \<open>(?:0|[1-9][0-9]*)\<close>, matched in full.\<close>

definition decimal_text :: "ustr \<Rightarrow> bool" where
  "decimal_text s \<longleftrightarrow> s \<noteq> [] \<and> list_all is_digit s \<and> (s = ''0'' \<or> hd s \<noteq> CHR ''0'')"

definition parse_action :: "evm_lib \<Rightarrow> json \<Rightarrow> action_error + eth_transfer" where
  "parse_action L obj =
     (case obj of
        JObj kvs \<Rightarrow>
          (if set (map fst kvs) \<noteq> set ACTION_KEYS then Inl Action_wrong_keys
           else if dict_get ''kind'' kvs \<noteq> JStr KIND_ETH_TRANSFER then Inl Action_unsupported_kind
           else if dict_get ''data'' kvs \<noteq> JStr ''0x'' then Inl Action_call_data
           else case dict_get ''value_wei'' kvs of
             JStr value \<Rightarrow>
               (if \<not> decimal_text value then Inl Action_bad_amount
                else bindE (action_address L (dict_get ''treasury'' kvs) ''treasury'' True) (\<lambda>treasury.
                  bindE (action_address L (dict_get ''to'' kvs) ''recipient'' True) (\<lambda>to.
                    checked_transfer (dict_get ''chain_id'' kvs) treasury to (int (dec_value value))
                      (dict_get ''call_gas'' kvs) (dict_get ''valid_until'' kvs) (dict_get ''config_nonce'' kvs))))
           | _ \<Rightarrow> Inl Action_bad_amount)
      | _ \<Rightarrow> Inl Action_not_object)"

text \<open>\<open>build_eth_transfer\<close> with an aware deadline; \<open>timestamp()\<close> is truncated towards zero by \<open>int\<close>.\<close>

definition build_eth_transfer :: "evm_lib \<Rightarrow> int \<Rightarrow> ustr \<Rightarrow> ustr \<Rightarrow> int \<Rightarrow> int \<Rightarrow> int \<Rightarrow> action_error + eth_transfer" where
  "build_eth_transfer L chain_id treasury to value_wei deadline config_nonce =
     (let at = deadline + EXECUTION_WINDOW;
          valid_until = (if at < 0 then - ((- at) div 1000000) else at div 1000000) in
      bindE (action_address L (JStr treasury) ''treasury'' False) (\<lambda>treasury.
      bindE (action_address L (JStr to) ''recipient'' False) (\<lambda>to.
        checked_transfer (JInt chain_id) treasury to value_wei (JInt ETH_TRANSFER_CALL_GAS) (JInt valid_until)
          (JInt config_nonce))))"

text \<open>\<open>payment_deadline\<close>, of aware times.\<close>

definition payment_deadline :: "int \<Rightarrow> int option \<Rightarrow> action_error + int" where
  "payment_deadline now requested =
     (case requested of
        None \<Rightarrow> Inr (now + DEFAULT_DEADLINE)
      | Some t \<Rightarrow> (if t \<le> now then Inl Action_deadline_past
                   else if MAX_DEADLINE < t - now then Inl Action_deadline_too_far else Inr t))"

text \<open>\<open>parse_eth_value\<close>: digits, then optionally a point and digits.\<close>

definition parse_eth_value :: "ustr \<Rightarrow> action_error + int" where
  "parse_eth_value s =
     (let t = strip s; whole = takeWhile is_digit t; rest = dropWhile is_digit t;
          fraction = (case rest of [] \<Rightarrow> [] | _ # f \<Rightarrow> f) in
      if 100 < str_len t \<or> whole = []
         \<or> \<not> (rest = [] \<or> (hd rest = CHR ''.'' \<and> fraction \<noteq> [] \<and> list_all is_digit fraction))
      then Inl Action_amount_form
      else if 18 < length fraction then Inl Action_too_many_decimals
      else Inr (int (dec_value whole) * WEI_PER_ETH
                + int (dec_value (fraction @ replicate (18 - length fraction) (CHR ''0'')))))"

end
