(* ===== verification/Execution.thy ===== *)
theory Execution
  imports Eligibility Chain_Action Ledger
begin

text \<open>
  \<open>services/execution_service.py\<close>: the second signature of a payment's approval, over the digest the
  treasury contract checks.  Whether a key can approve is decided from the treasury's rows before a
  password is spent and again when the signature is stored.

  The answer of the Ethereum node is an argument.  What a person is told is a constructor of
  \<open>refusal\<close>; \<open>Crash\<close> carries an exception no handler of this code catches.
\<close>

datatype crash = Type_error | Lookup_failed crypto_error | Bad_snapshot | Bad_message | Key_error | No_row

datatype wrong_key =
    Held_key_dead bool | Approve_on_phone | Approve_on_other_phone | Approve_in_web_app | Earlier_key

datatype exec_refusal =
    No_payment
  | Payment_unreadable
  | Not_linked
  | Reconfigured
  | Nonce_ahead
  | Reconfiguring
  | Not_registered
  | Wrong_key wrong_key
  | Treasury_algorithm ustr
  | Chain_unreachable
  | Key_not_yours
  | Execution_length nat nat
  | Execution_unverified

section \<open>What an approver signs\<close>

definition ALGORITHM :: ustr where "ALGORITHM = ''ML-DSA-65''"

definition OPEN_STATES :: "ustr list" where
  "OPEN_STATES = [''queued'', ''registering_keys'', ''collecting_approvals'', ''submitting'', ''finalizing'']"

definition is_payment :: "db \<Rightarrow> proposal_row \<Rightarrow> bool" where
  "is_payment d p \<longleftrightarrow> action_of d p \<noteq> None"

definition digest_for :: "evm_lib \<Rightarrow> db \<Rightarrow> proposal_row \<Rightarrow> exec_refusal + bytes" where
  "digest_for L d p =
     (case action_of d p of
        None \<Rightarrow> Inl No_payment
      | Some stored \<Rightarrow>
          (case parse_action L (canonical_action stored) of
             Inl _ \<Rightarrow> Inl Payment_unreadable
           | Inr t \<Rightarrow> (case transfer_digest L t (p_payload_hash p) of Inl _ \<Rightarrow> Inl Payment_unreadable | Inr x \<Rightarrow> Inr x)))"

section \<open>Whether a key can approve\<close>

definition nonce_problem :: "int \<Rightarrow> int \<Rightarrow> exec_refusal option" where
  "nonce_problem made_at current =
     (if made_at = current then None else if made_at < current then Some Reconfigured else Some Nonce_ahead)"

text \<open>The column may hold anything; comparing text with an integer raises.  A fraction, which SQLite
  also lets an editor store, is put with text.\<close>

definition stored_nonce_problem :: "json \<Rightarrow> int \<Rightarrow> crash + exec_refusal option" where
  "stored_nonce_problem made_at current =
     (case made_at of JInt i \<Rightarrow> Inr (nonce_problem i current) | _ \<Rightarrow> Inl Type_error)"

definition wrong_key :: "key_row option \<Rightarrow> key_row \<Rightarrow> wrong_key" where
  "wrong_key held key =
     (let held_on_device = (case held of None \<Rightarrow> False | Some h \<Rightarrow> k_wrap_domain h = ''device'') in
      if (case held of None \<Rightarrow> True | Some h \<Rightarrow> k_status h \<noteq> ''active'' \<or> \<not> k_can_sign h) then Held_key_dead held_on_device
      else if held_on_device then
        (if k_wrap_domain key \<noteq> ''device'' then Approve_on_phone else Approve_on_other_phone)
      else if k_wrap_domain key = ''device'' then Approve_in_web_app
      else Earlier_key)"

definition treasury_mismatch :: "proposal_row \<Rightarrow> action_row \<Rightarrow> treasury_row option \<Rightarrow> bool" where
  "treasury_mismatch p a t \<longleftrightarrow>
     (case t of
        None \<Rightarrow> True
      | Some t \<Rightarrow> t_status t \<noteq> ''linked'' \<or> t_vault_id t \<noteq> p_vault_id p
                 \<or> pa_chain_id a \<noteq> JInt (t_chain_id t) \<or> pa_treasury_address a \<noteq> JStr (t_address t))"

definition treasury_seat :: "db \<Rightarrow> int \<Rightarrow> int \<Rightarrow> treasury_signer option" where
  "treasury_seat d treasury_id user_id =
     find (\<lambda>s. ts_treasury_id s = treasury_id \<and> ts_user_id s = user_id) (db_treasury_signers d)"

definition seat :: "db \<Rightarrow> proposal_row \<Rightarrow> int \<Rightarrow> key_row \<Rightarrow> crash + treasury_signer option \<times> exec_refusal option" where
  "seat d p signer_id key =
     (case action_of d p of
        None \<Rightarrow> Inr (None, None)
      | Some a \<Rightarrow>
          (case get_treasury d (pa_treasury_id a) of
             None \<Rightarrow> Inr (None, Some Not_linked)
           | Some t \<Rightarrow>
               (if treasury_mismatch p a (Some t) then Inr (None, Some Not_linked)
                else bindE (stored_nonce_problem (pa_config_nonce a) (t_config_nonce t)) (\<lambda>problem.
                  if problem \<noteq> None then Inr (None, problem)
                  else if \<exists>r \<in> set (db_reconfigurations d). rc_treasury_id r = t_id t \<and> rc_state r \<in> set OPEN_STATES
                  then Inr (None, Some Reconfiguring)
                  else case treasury_seat d (t_id t) signer_id of
                    None \<Rightarrow> Inr (None, Some Not_registered)
                  | Some registered \<Rightarrow>
                      (if ts_key_id registered \<noteq> k_id key
                       then Inr (Some registered, Some (Wrong_key (wrong_key (get_key d (ts_key_id registered)) key)))
                       else if k_alg_id key \<noteq> ALGORITHM then Inr (Some registered, Some (Treasury_algorithm (k_alg_id key)))
                       else Inr (Some registered, None))))))"

definition approval_problem :: "db \<Rightarrow> proposal_row \<Rightarrow> int \<Rightarrow> key_row \<Rightarrow> crash + exec_refusal option" where
  "approval_problem d p signer_id key = bindE (seat d p signer_id key) (\<lambda>s. Inr (snd s))"

text \<open>The relayer of the application: the chain it speaks to, and what the treasury at an address
  answers when asked for its configuration, \<open>None\<close> when the question fails.\<close>

record relayer_view =
  rl_chain_id :: int
  rl_config_nonce :: "json \<Rightarrow> int option"

definition chain_nonce_problem :: "relayer_view option \<Rightarrow> db \<Rightarrow> proposal_row \<Rightarrow> crash + exec_refusal option" where
  "chain_nonce_problem relayer d p =
     (case action_of d p of
        None \<Rightarrow> Inr None
      | Some a \<Rightarrow>
          (case relayer of
             None \<Rightarrow> Inr (Some Chain_unreachable)
           | Some r \<Rightarrow>
               (if pa_chain_id a \<noteq> JInt (rl_chain_id r) then Inr (Some Chain_unreachable)
                else case rl_config_nonce r (pa_treasury_address a) of
                  None \<Rightarrow> Inr (Some Chain_unreachable)
                | Some onchain \<Rightarrow> stored_nonce_problem (pa_config_nonce a) onchain)))"

section \<open>Storing the signature\<close>

definition find_provider :: "vault_env \<Rightarrow> ustr \<Rightarrow> crash + signature_provider" where
  "find_provider env alg = (case signature (ce_registry env) alg of Inl e \<Rightarrow> Inl (Lookup_failed e) | Inr x \<Rightarrow> Inr x)"

definition signature_size :: "signature_provider \<Rightarrow> nat option" where
  "signature_size provider = map_of (am_sizes (sp_meta provider)) ''signature''"

datatype record_problem = Refused_execution exec_refusal | Execution_crash crash

definition execution_record ::
  "vault_env \<Rightarrow> db \<Rightarrow> proposal_row \<Rightarrow> int \<Rightarrow> key_row \<Rightarrow> bytes \<Rightarrow> bytes \<Rightarrow> record_problem + execution_signature" where
  "execution_record env d p signer_id key digest sig =
     (if action_of d p = None then Inl (Refused_execution No_payment)
      else if k_owner_id key \<noteq> Some signer_id then Inl (Refused_execution Key_not_yours)
      else case seat d p signer_id key of
        Inl c \<Rightarrow> Inl (Execution_crash c)
      | Inr (_, Some problem) \<Rightarrow> Inl (Refused_execution problem)
      | Inr (None, None) \<Rightarrow> Inl (Refused_execution Not_registered)
      | Inr (Some registered, None) \<Rightarrow>
          (case find_provider env (k_alg_id key) of
             Inl c \<Rightarrow> Inl (Execution_crash c)
           | Inr provider \<Rightarrow>
               (case signature_size provider of
                  None \<Rightarrow> Inl (Execution_crash Key_error)
                | Some expected \<Rightarrow>
                    (if length sig \<noteq> expected then Inl (Refused_execution (Execution_length expected (length sig)))
                     else if \<not> sp_verify provider (k_public_key key) digest sig
                     then Inl (Refused_execution Execution_unverified)
                     else Inr \<lparr>es_proposal_id = p_id p, es_signer_id = signer_id, es_key_id = k_id key,
                               es_alg_id = k_alg_id key, es_backend = k_backend key,
                               es_public_key = k_public_key key, es_digest = digest, es_signature = sig,
                               es_identity_hex = ts_identity_hex registered\<rparr>))))"

definition signatures_for :: "db \<Rightarrow> proposal_row \<Rightarrow> execution_signature list" where
  "signatures_for d p = filter (\<lambda>s. es_proposal_id s = p_id p) (db_execution_signatures d)"

section \<open>Facts\<close>

text \<open>An execution signature is stored only with the key the linked treasury holds for the signer, for
  a payment at its current configuration, and only if it verifies.\<close>

lemma execution_record_sound:
  assumes "execution_record env d p signer key digest sig = Inr r"
  obtains a t s provider where "action_of d p = Some a" "get_treasury d (pa_treasury_id a) = Some t"
    "\<not> treasury_mismatch p a (Some t)" "pa_config_nonce a = JInt (t_config_nonce t)"
    "treasury_seat d (t_id t) signer = Some s" "ts_key_id s = k_id key" "k_owner_id key = Some signer"
    "k_alg_id key = ALGORITHM" "find_provider env ALGORITHM = Inr provider"
    "sp_verify provider (k_public_key key) digest sig" "es_digest r = digest" "es_signature r = sig"
    "es_public_key r = k_public_key key" "es_identity_hex r = ts_identity_hex s" "es_signer_id r = signer"
    "es_proposal_id r = p_id p"
proof -
  obtain registered provider where r: "seat d p signer key = Inr (Some registered, None)"
    "find_provider env (k_alg_id key) = Inr provider" "sp_verify provider (k_public_key key) digest sig"
    "k_owner_id key = Some signer" "es_digest r = digest" "es_signature r = sig"
    "es_public_key r = k_public_key key" "es_identity_hex r = ts_identity_hex registered"
    "es_signer_id r = signer" "es_proposal_id r = p_id p"
    using assms by (auto simp: execution_record_def split: if_splits sum.splits option.splits)
  from r(1) obtain a t where at: "action_of d p = Some a" "get_treasury d (pa_treasury_id a) = Some t"
    "\<not> treasury_mismatch p a (Some t)" "stored_nonce_problem (pa_config_nonce a) (t_config_nonce t) = Inr None"
    "treasury_seat d (t_id t) signer = Some registered" "ts_key_id registered = k_id key" "k_alg_id key = ALGORITHM"
    by (auto simp: seat_def bindE_def split: if_splits sum.splits option.splits)
  from at(4) have "pa_config_nonce a = JInt (t_config_nonce t)"
    by (auto simp: stored_nonce_problem_def nonce_problem_def split: json.splits if_splits)
  with at r show thesis by (intro that [of a t registered provider]) simp_all
qed

end
