(* ===== verification/Approval.thy ===== *)
theory Approval
  imports Execution
begin

text \<open>
  \<open>services/approval_service.py\<close>: the state machine of a decision.  A decision is open until its
  verified approvals reach M, its verified rejections close it, its deadline passes or its requester
  withdraws it.  The vote from the browser, which unlocks a key first, is in \<open>Browser_Vote\<close>.

  A decision is named by its id and read from the database, which is where a concurrent change would
  be seen; a vote cast on a phone is two steps, the gate and the write, and other steps can come in
  between.  A refusal is a constructor of \<open>approval_error\<close>.  The gate may commit an expiry before it
  refuses, so its result carries the database either way; a vote that is refused, or that raises,
  writes nothing.  \<open>now\<close> is the clock of the request.
\<close>

section \<open>Errors\<close>

datatype approval_error =
    Bad_decision
  | Not_open ustr
  | Not_a_signer
  | No_longer_approver
  | Standing standing_problem
  | Own_decision
  | Already_voted
  | Cannot_pass
  | Reason_not_text
  | Reason_required
  | Reason_too_long
  | No_signing_key
  | No_device_key
  | Key_of_another
  | Not_signing_key
  | Not_device_key
  | Device_revoked
  | No_provider ustr
  | Execution_only_with_payment
  | Signature_length nat nat
  | Signature_unverified bool
  | Execution_refused exec_refusal
  | Binding_broken
  | Execution_missing
  | Execution_not_wanted
  | Execution_without_vote
  | Not_yours_to_withdraw
  | Left_vault
  | Withdraw_standing standing_problem
  | Not_withdrawable ustr
  | Raised_exception crash

definition REASON_MAX :: nat where "REASON_MAX = 255"

section \<open>The decision on screen is the one that was signed\<close>

datatype binding_detail =
    Binding_good | Contents_changed | Text_not_payment | Other_treasury | No_creation_record | Hash_not_in_ledger

record binding_report =
  br_ok :: bool
  br_detail :: binding_detail
  br_recomputed_hash :: ustr
  br_recorded_hash :: ustr
  br_ledger_hash :: json
  br_content_matches :: bool
  br_ledger_matches :: bool

definition tampered :: "binding_report \<Rightarrow> bool" where
  "tampered b \<longleftrightarrow> \<not> br_ok b"

definition creation_entry :: "db \<Rightarrow> proposal_row \<Rightarrow> ledger_entry option" where
  "creation_entry d p =
     first_by le_seq (filter (\<lambda>e. le_event_type e = ''proposal_created'' \<and> le_ref_type e = Some ''proposal''
         \<and> le_ref_id e = Some (p_uuid p)) (db_entries d))"

text \<open>\<open>None\<close> and a stored \<open>null\<close> are one value here, as they are to the code that reads it.\<close>

definition creation_ledger_hash :: "db \<Rightarrow> proposal_row \<Rightarrow> json" where
  "creation_ledger_hash d p =
     (case creation_entry d p of
        None \<Rightarrow> JNull
      | Some e \<Rightarrow> (case loads (le_payload_json e) of Some (JObj kvs) \<Rightarrow> dict_get ''payload_hash'' kvs | _ \<Rightarrow> JNull))"

definition payment_problem :: "db \<Rightarrow> proposal_row \<Rightarrow> binding_detail option" where
  "payment_problem d p =
     (case action_of d p of
        None \<Rightarrow> None
      | Some stored \<Rightarrow>
          (if payment_text (canonical_action stored) \<noteq> Some (p_action_text p) then Some Text_not_payment
           else case get_treasury d (pa_treasury_id stored) of
             None \<Rightarrow> Some Other_treasury
           | Some t \<Rightarrow>
               (if pa_treasury_address stored \<noteq> JStr (t_address t) \<or> pa_chain_id stored \<noteq> JInt (t_chain_id t)
                then Some Other_treasury else None)))"

definition verify_proposal_binding :: "vault_env \<Rightarrow> db \<Rightarrow> proposal_row \<Rightarrow> crash + binding_report" where
  "verify_proposal_binding env d p =
     (case signing_bytes_for d p of
        None \<Rightarrow> Inl Bad_snapshot
      | Some message \<Rightarrow>
          (let recorded = p_payload_hash p;
               recomputed = sha256_hex (ce_hash env) message;
               ledger_hash = creation_ledger_hash d p;
               content = (recomputed = recorded \<and> payment_problem d p = None);
               in_ledger = (ledger_hash = JStr recorded)
           in Inr \<lparr>br_ok = (content \<and> in_ledger),
                   br_detail =
                     (if recomputed \<noteq> recorded then Contents_changed
                      else case payment_problem d p of
                        Some problem \<Rightarrow> problem
                      | None \<Rightarrow> (if ledger_hash = JNull then No_creation_record
                                 else if \<not> in_ledger then Hash_not_in_ledger else Binding_good)),
                   br_recomputed_hash = recomputed, br_recorded_hash = recorded, br_ledger_hash = ledger_hash,
                   br_content_matches = content, br_ledger_matches = in_ledger\<rparr>))"

section \<open>Counting votes\<close>

definition verify_signature :: "vault_env \<Rightarrow> db \<Rightarrow> signature_row \<Rightarrow> proposal_row \<Rightarrow> crash + bool" where
  "verify_signature env d s p =
     (case get_key d (s_key_id s) of
        None \<Rightarrow> Inr False
      | Some k \<Rightarrow>
          (if k_owner_id k \<noteq> Some (s_signer_id s) then Inr False
           else if s_public_key s \<noteq> k_public_key k \<or> s_alg_id s \<noteq> k_alg_id k then Inr False
           else if s_signed_payload_hash s \<noteq> p_payload_hash p then Inr False
           else case vote_signing_bytes (s_signed_payload_hash s) (s_decision s) (s_signer_id s) of
             Inl _ \<Rightarrow> Inl Bad_message
           | Inr message \<Rightarrow>
               bindE (find_provider env (s_alg_id s)) (\<lambda>provider.
                 Inr (sp_verify provider (s_public_key s) message (s_signature s)))))"

fun count_verified :: "(signature_row \<Rightarrow> crash + bool) \<Rightarrow> ustr \<Rightarrow> signature_row list \<Rightarrow> crash + int" where
  "count_verified verifies decision [] = Inr 0"
| "count_verified verifies decision (s # ss) =
     (if s_decision s = decision then
        bindE (verifies s) (\<lambda>ok. bindE (count_verified verifies decision ss) (\<lambda>n. Inr (if ok then n + 1 else n)))
      else count_verified verifies decision ss)"

definition tally :: "vault_env \<Rightarrow> db \<Rightarrow> proposal_row \<Rightarrow> crash + int \<times> int" where
  "tally env d p =
     bindE (verify_proposal_binding env d p) (\<lambda>b.
       if \<not> br_ok b then Inr (0, 0)
       else bindE (count_verified (\<lambda>s. verify_signature env d s p) ''approve'' (signatures_of d p)) (\<lambda>approvals.
            bindE (count_verified (\<lambda>s. verify_signature env d s p) ''reject'' (signatures_of d p)) (\<lambda>rejections.
              Inr (approvals, rejections))))"

definition vote_of :: "db \<Rightarrow> proposal_row \<Rightarrow> int \<Rightarrow> signature_row option" where
  "vote_of d p user_id = find (\<lambda>s. s_signer_id s = user_id) (signatures_of d p)"

section \<open>Closing a decision\<close>

definition user_actor :: "int option \<Rightarrow> ustr" where
  "user_actor actor_id = (case actor_id of None \<Rightarrow> ''SYSTEM'' | Some i \<Rightarrow> ''user:'' @ dec_int i)"

definition decision_event :: "ustr \<Rightarrow> (ustr \<times> json) list \<Rightarrow> int option \<Rightarrow> proposal_row \<Rightarrow> ledger_event" where
  "decision_event event details actor_id p =
     \<lparr>ev_type = event,
      ev_payload = JObj ([(''proposal_uuid'', JStr (p_uuid p)), (''vault_id'', JInt (p_vault_id p))] @ details),
      ev_actor = user_actor actor_id, ev_actor_id = actor_id, ev_vault_id = Some (p_vault_id p),
      ev_ref_type = Some ''proposal'', ev_ref_id = Some (p_uuid p)\<rparr>"

definition close_as :: "vault_env \<Rightarrow> int \<Rightarrow> (proposal_row \<Rightarrow> proposal_row) \<Rightarrow> ledger_event \<Rightarrow> proposal_row \<Rightarrow> db \<Rightarrow> db" where
  "close_as env now f ev p d = snd (ledger_append env now ev (update_proposal (p_id p) f d))"

definition finalize_if_decided :: "vault_env \<Rightarrow> int \<Rightarrow> int option \<Rightarrow> int \<Rightarrow> db \<Rightarrow> crash + db" where
  "finalize_if_decided env now actor_id pid d =
     (case get_proposal d pid of
        None \<Rightarrow> Inl No_row
      | Some p \<Rightarrow>
          (if p_status p \<noteq> ''open'' then Inr d
           else bindE (tally env d p) (\<lambda>(approvals, rejections).
             if approvals \<ge> p_required_m p then
               Inr (close_as env now (\<lambda>p. p\<lparr>p_status := ''approved'', p_approved_at := Some now\<rparr>)
                 (decision_event ''proposal_approved''
                   [(''approvals'', JInt approvals), (''M'', JInt (p_required_m p)), (''N'', JInt (p_required_n p))]
                   actor_id p) p d)
             else case snapshot_ids p of
               None \<Rightarrow> Inl Bad_snapshot
             | Some ids \<Rightarrow>
                 (if rejection_closes d p ids rejections then
                    Inr (close_as env now (\<lambda>p. p\<lparr>p_status := ''rejected'', p_rejected_at := Some now\<rparr>)
                      (decision_event ''proposal_rejected''
                        ([(''rejections'', JInt rejections), (''M'', JInt (p_required_m p)), (''N'', JInt (p_required_n p))]
                         @ (if requester_excluded d p ids then [(''requester_excluded'', JBool True)] else []))
                        actor_id p) p d)
                  else Inr d))))"

definition refresh_expiry :: "vault_env \<Rightarrow> int \<Rightarrow> int \<Rightarrow> db \<Rightarrow> crash + bool \<times> db" where
  "refresh_expiry env now pid d =
     (case get_proposal d pid of
        None \<Rightarrow> Inl No_row
      | Some p \<Rightarrow>
          (if p_status p \<noteq> ''open'' then Inr (False, d)
           else case p_expires_at p of
             None \<Rightarrow> Inr (False, d)
           | Some deadline \<Rightarrow>
               (if now \<le> deadline then Inr (False, d)
                else bindE (finalize_if_decided env now None pid d) (\<lambda>d'.
                  case get_proposal d' pid of
                    None \<Rightarrow> Inl No_row
                  | Some p' \<Rightarrow>
                      (if p_status p' \<noteq> ''open'' then Inr (False, d')
                       else Inr (True, close_as env now (\<lambda>p. p\<lparr>p_status := ''expired''\<rparr>)
                         (decision_event ''proposal_expired'' [(''expired_at'', JStr (isoformat now))] None p') p' d'))))))"

text \<open>One unreadable decision does not stop the others; reading how many people may decide one is
  outside that protection.\<close>

fun finalize_each :: "vault_env \<Rightarrow> int \<Rightarrow> int list \<Rightarrow> int \<times> db \<Rightarrow> crash + int \<times> db" where
  "finalize_each env now [] acc = Inr acc"
| "finalize_each env now (pid # pids) (decided, d) =
     (case get_proposal d pid of
        None \<Rightarrow> Inl No_row
      | Some p \<Rightarrow>
          (case snapshot_ids p of
             None \<Rightarrow> Inl Bad_snapshot
           | Some ids \<Rightarrow>
               (if int (length (signatures_of d p)) < min (p_required_m p) (deciding_n d p ids - p_required_m p + 1)
                then finalize_each env now pids (decided, d)
                else case finalize_if_decided env now None pid d of
                  Inl _ \<Rightarrow> finalize_each env now pids (decided, d)
                | Inr d' \<Rightarrow>
                    finalize_each env now pids
                      (case get_proposal d' pid of
                         Some p' \<Rightarrow> (if p_status p' \<noteq> ''open'' then decided + 1 else decided)
                       | None \<Rightarrow> decided, d'))))"

definition finalize_stalled :: "vault_env \<Rightarrow> int \<Rightarrow> db \<Rightarrow> crash + int \<times> db" where
  "finalize_stalled env now d =
     finalize_each env now (map p_id (filter (\<lambda>p. p_status p = ''open'') (db_proposals d))) (0, d)"

section \<open>The gate every vote passes\<close>

definition reason_note :: "json \<Rightarrow> ustr" where
  "reason_note reason = (case reason of JStr s \<Rightarrow> strip s | _ \<Rightarrow> [])"

definition reason_problem :: "ustr \<Rightarrow> json \<Rightarrow> approval_error option" where
  "reason_problem decision reason =
     (if \<not> (case reason of JNull \<Rightarrow> True | JStr _ \<Rightarrow> True | _ \<Rightarrow> False) then Some Reason_not_text
      else if decision = ''reject'' \<and> reason_note reason = [] then Some Reason_required
      else if REASON_MAX < str_len (reason_note reason) then Some Reason_too_long
      else None)"

definition vote_gate :: "db \<Rightarrow> vault_row \<Rightarrow> proposal_row \<Rightarrow> int list \<Rightarrow> int \<Rightarrow> ustr \<Rightarrow> json \<Rightarrow> approval_error option" where
  "vote_gate d v p ids signer_id decision reason =
     (if signer_id \<notin> set ids then Some Not_a_signer
      else if \<not> is_current_approver d (p_vault_id p) signer_id then Some No_longer_approver
      else case signing_standing d v signer_id of
        Some problem \<Rightarrow> Some (Standing problem)
      | None \<Rightarrow>
          (if signer_id = p_creator_id p \<and> \<not> requester_may_approve d p then Some Own_decision
           else if vote_of d p signer_id \<noteq> None then Some Already_voted
           else if decision = ''approve'' \<and> cannot_pass d v p ids then Some Cannot_pass
           else reason_problem decision reason))"

text \<open>The decision with what its relationships load: its vault and its frozen signers.\<close>

definition loaded :: "db \<Rightarrow> int \<Rightarrow> crash + proposal_row \<times> vault_row \<times> int list" where
  "loaded d pid =
     (case get_proposal d pid of
        None \<Rightarrow> Inl No_row
      | Some p \<Rightarrow>
          (case snapshot_ids p of
             None \<Rightarrow> Inl Bad_snapshot
           | Some ids \<Rightarrow> (case get_vault d (p_vault_id p) of None \<Rightarrow> Inl No_row | Some v \<Rightarrow> Inr (p, v, ids))))"

definition authorize_vote :: "vault_env \<Rightarrow> int \<Rightarrow> int \<Rightarrow> int \<Rightarrow> ustr \<Rightarrow> json \<Rightarrow> db \<Rightarrow> (approval_error + unit) \<times> db" where
  "authorize_vote env now pid signer_id decision reason d =
     (if decision \<notin> {''approve'', ''reject''} then (Inl Bad_decision, d)
      else case refresh_expiry env now pid d of
        Inl c \<Rightarrow> (Inl (Raised_exception c), d)
      | Inr (_, d') \<Rightarrow>
          (case get_proposal d' pid of
             None \<Rightarrow> (Inl (Raised_exception No_row), d')
           | Some p \<Rightarrow>
               (if p_status p \<noteq> ''open'' then (Inl (Not_open (p_status p)), d')
                else case loaded d' pid of
                  Inl c \<Rightarrow> (Inl (Raised_exception c), d')
                | Inr (p, v, ids) \<Rightarrow>
                    (case vote_gate d' v p ids signer_id decision reason of
                       Some e \<Rightarrow> (Inl e, d') | None \<Rightarrow> (Inr (), d')))))"

definition require_device_signing_key :: "vault_env \<Rightarrow> int \<Rightarrow> key_row option \<Rightarrow> approval_error + key_row" where
  "require_device_signing_key env signer_id key =
     (case key of
        None \<Rightarrow> Inl No_device_key
      | Some k \<Rightarrow>
          (if k_owner_id k \<noteq> Some signer_id then Inl Key_of_another
           else if k_role k \<noteq> ''sig'' then Inl Not_signing_key
           else if k_wrap_domain k \<noteq> ''device'' then Inl Not_device_key
           else if k_status k \<noteq> ''active'' \<or> \<not> k_can_sign k then Inl Device_revoked
           else if \<not> has_signature (ce_registry env) (k_alg_id k) then Inl (No_provider (k_alg_id k))
           else Inr k))"

section \<open>Writing a vote\<close>

text \<open>The gate's standing, role and separation-of-duties checks again, as they are written a second
  time: from the rows as they are now.\<close>

definition still_entitled :: "db \<Rightarrow> vault_row \<Rightarrow> proposal_row \<Rightarrow> int \<Rightarrow> approval_error option" where
  "still_entitled d v p signer_id =
     (let role_refusal = (if \<not> is_current_approver d (p_vault_id p) signer_id then Some No_longer_approver else None);
          place_refusal =
            (case home_workspace_id d v of
               None \<Rightarrow> None
             | Some w \<Rightarrow>
                 (case membership d w signer_id of
                    None \<Rightarrow> Some (Standing Standing_not_member)
                  | Some m \<Rightarrow>
                      (if wm_status m \<noteq> ''active'' then Some (Standing Standing_suspended)
                       else if wm_role m = ''auditor'' then Some (Standing Standing_auditor)
                       else None)));
          frozen =
            (case lifecycle_of d p of None \<Rightarrow> True | Some l \<Rightarrow> pl_requester_can_approve l \<noteq> Some False);
          now_allows =
            (case find (\<lambda>r. vr_vault_id r = p_vault_id p) (db_vault_rules d) of
               None \<Rightarrow> True | Some r \<Rightarrow> vr_requester_can_approve r)
      in if role_refusal \<noteq> None then role_refusal
         else if place_refusal \<noteq> None then place_refusal
         else if signer_id = p_creator_id p \<and> \<not> (frozen \<and> now_allows) then Some Own_decision
         else None)"

definition new_signature :: "int \<Rightarrow> db \<Rightarrow> proposal_row \<Rightarrow> int \<Rightarrow> key_row \<Rightarrow> ustr \<Rightarrow> bytes \<Rightarrow> json \<Rightarrow> signature_row" where
  "new_signature now d p signer_id key decision sig_bytes reason =
     \<lparr>s_id = next_id (map s_id (db_signatures d)), s_proposal_id = p_id p, s_signer_id = signer_id,
      s_key_id = k_id key, s_alg_id = k_alg_id key, s_backend = k_backend key, s_public_key = k_public_key key,
      s_decision = decision, s_signature = sig_bytes, s_signed_payload_hash = p_payload_hash p,
      s_reason = (if reason_note reason = [] then None else Some (reason_note reason)), s_created_at = now\<rparr>"

definition signed_event :: "vault_env \<Rightarrow> proposal_row \<Rightarrow> key_row \<Rightarrow> signature_row \<Rightarrow> execution_signature option \<Rightarrow> ledger_event" where
  "signed_event env p key s execution =
     decision_event ''proposal_signed''
       ([(''signer_id'', JInt (s_signer_id s)), (''decision'', JStr (s_decision s)), (''alg_id'', JStr (k_alg_id key)),
         (''signature_sha256'', JStr (sha256_hex (ce_hash env) (s_signature s)))]
        @ (case execution of
             None \<Rightarrow> []
           | Some x \<Rightarrow> [(''execution_signature_sha256'', JStr (sha256_hex (ce_hash env) (es_signature x)))])
        @ [(''custody'', JStr (if k_wrap_domain key = ''device'' then ''device'' else ''server'')),
           (''key_id'', JInt (k_id key)),
           (''public_key_sha256'', JStr (sha256_hex (ce_hash env) (k_public_key key)))])
       (Some (s_signer_id s)) p"

text \<open>What has to hold of the bytes before anything is written.\<close>

definition check_vote_bytes :: "vault_env \<Rightarrow> proposal_row \<Rightarrow> int \<Rightarrow> key_row \<Rightarrow> ustr \<Rightarrow> bytes \<Rightarrow> approval_error + unit" where
  "check_vote_bytes env p signer_id key decision sig_bytes =
     (case vote_signing_bytes (p_payload_hash p) decision signer_id of
        Inl _ \<Rightarrow> Inl (Raised_exception Bad_message)
      | Inr message \<Rightarrow>
          (case find_provider env (k_alg_id key) of
             Inl c \<Rightarrow> Inl (Raised_exception c)
           | Inr provider \<Rightarrow>
               (case signature_size provider of
                  None \<Rightarrow> Inl (Raised_exception Key_error)
                | Some expected \<Rightarrow>
                    (if length sig_bytes \<noteq> expected then Inl (Signature_length expected (length sig_bytes))
                     else if \<not> sp_verify provider (k_public_key key) message sig_bytes
                     then Inl (Signature_unverified (k_wrap_domain key = ''device''))
                     else Inr ()))))"

definition store_execution ::
  "vault_env \<Rightarrow> db \<Rightarrow> proposal_row \<Rightarrow> int \<Rightarrow> key_row \<Rightarrow> (bytes \<times> bytes) option \<Rightarrow> approval_error + execution_signature option" where
  "store_execution env d p signer_id key execution =
     (case execution of
        None \<Rightarrow> Inr None
      | Some (digest, sig) \<Rightarrow>
          (case execution_record env d p signer_id key digest sig of
             Inl (Refused_execution problem) \<Rightarrow> Inl (Execution_refused problem)
           | Inl (Execution_crash c) \<Rightarrow> Inl (Raised_exception c)
           | Inr row \<Rightarrow> Inr (Some row)))"

text \<open>The unique constraints on (proposal, signer) of the two tables.\<close>

definition vote_clash :: "db \<Rightarrow> proposal_row \<Rightarrow> int \<Rightarrow> execution_signature option \<Rightarrow> approval_error option" where
  "vote_clash d p signer_id execution =
     (if vote_of d p signer_id \<noteq> None then Some Already_voted
      else if execution \<noteq> None \<and> (\<exists>x \<in> set (signatures_for d p). es_signer_id x = signer_id) then Some Execution_without_vote
      else None)"

definition write_vote ::
  "vault_env \<Rightarrow> int \<Rightarrow> proposal_row \<Rightarrow> key_row \<Rightarrow> signature_row \<Rightarrow> execution_signature option \<Rightarrow> db \<Rightarrow> db" where
  "write_vote env now p key s execution d =
     snd (ledger_append env now (signed_event env p key s execution)
       (d\<lparr>db_signatures := db_signatures d @ [s],
          db_execution_signatures := db_execution_signatures d @ (case execution of None \<Rightarrow> [] | Some x \<Rightarrow> [x])\<rparr>))"

definition record_vote ::
  "vault_env \<Rightarrow> int \<Rightarrow> int \<Rightarrow> int \<Rightarrow> key_row \<Rightarrow> ustr \<Rightarrow> bytes \<Rightarrow> json \<Rightarrow> (bytes \<times> bytes) option \<Rightarrow> db
     \<Rightarrow> approval_error + signature_row \<times> db" where
  "record_vote env now pid signer_id key decision sig_bytes reason execution d =
     (case get_proposal d pid of
        None \<Rightarrow> Inl (Raised_exception No_row)
      | Some p \<Rightarrow>
          (if (execution \<noteq> None) \<noteq> (decision = ''approve'' \<and> is_payment d p) then Inl Execution_only_with_payment
           else bindE (check_vote_bytes env p signer_id key decision sig_bytes) (\<lambda>_.
             if p_status p \<noteq> ''open'' then Inl (Not_open (p_status p))
             else case get_vault d (p_vault_id p) of
               None \<Rightarrow> Inl (Raised_exception No_row)
             | Some v \<Rightarrow>
                 (case still_entitled d v p signer_id of
                    Some refusal \<Rightarrow> Inl refusal
                  | None \<Rightarrow>
                      bindE (store_execution env d p signer_id key execution) (\<lambda>row.
                        case vote_clash d p signer_id row of
                          Some e \<Rightarrow> Inl e
                        | None \<Rightarrow>
                            (let s = new_signature now d p signer_id key decision sig_bytes reason in
                             case finalize_if_decided env now (Some signer_id) pid (write_vote env now p key s row d) of
                               Inl c \<Rightarrow> Inl (Raised_exception c)
                             | Inr d' \<Rightarrow> Inr (s, d')))))))"

section \<open>A vote from a phone\<close>

definition payment_digest ::
  "vault_env \<Rightarrow> evm_lib \<Rightarrow> relayer_view option \<Rightarrow> db \<Rightarrow> proposal_row \<Rightarrow> int \<Rightarrow> key_row \<Rightarrow> approval_error + bytes" where
  "payment_digest env L relayer d p signer_id key =
     (case verify_proposal_binding env d p of
        Inl c \<Rightarrow> Inl (Raised_exception c)
      | Inr b \<Rightarrow>
          (if \<not> br_ok b then Inl Binding_broken
           else case approval_problem d p signer_id key of
             Inl c \<Rightarrow> Inl (Raised_exception c)
           | Inr (Some problem) \<Rightarrow> Inl (Execution_refused problem)
           | Inr None \<Rightarrow>
               (case chain_nonce_problem relayer d p of
                  Inl c \<Rightarrow> Inl (Raised_exception c)
                | Inr (Some problem) \<Rightarrow> Inl (Execution_refused problem)
                | Inr None \<Rightarrow>
                    (case digest_for L d p of Inl problem \<Rightarrow> Inl (Execution_refused problem) | Inr x \<Rightarrow> Inr x))))"

definition device_execution ::
  "vault_env \<Rightarrow> evm_lib \<Rightarrow> relayer_view option \<Rightarrow> db \<Rightarrow> proposal_row \<Rightarrow> int \<Rightarrow> key_row \<Rightarrow> ustr \<Rightarrow> bytes option
     \<Rightarrow> approval_error + (bytes \<times> bytes) option" where
  "device_execution env L relayer d p signer_id key decision execution =
     (if decision = ''approve'' \<and> is_payment d p then
        (case execution of
           None \<Rightarrow> Inl Execution_missing
         | Some sig \<Rightarrow> bindE (payment_digest env L relayer d p signer_id key) (\<lambda>digest. Inr (Some (digest, sig))))
      else if execution \<noteq> None then Inl Execution_not_wanted
      else Inr None)"

definition record_device_vote ::
  "vault_env \<Rightarrow> evm_lib \<Rightarrow> relayer_view option \<Rightarrow> int \<Rightarrow> int \<Rightarrow> int \<Rightarrow> key_row option \<Rightarrow> ustr \<Rightarrow> bytes \<Rightarrow> json \<Rightarrow> bytes option
     \<Rightarrow> db \<Rightarrow> (approval_error + signature_row) \<times> db" where
  "record_device_vote env L relayer now pid signer_id key decision sig_bytes reason execution d =
     (case authorize_vote env now pid signer_id decision reason d of
        (Inl e, d') \<Rightarrow> (Inl e, d')
      | (Inr _, d') \<Rightarrow>
          (case bindE (require_device_signing_key env signer_id key) (\<lambda>k.
               case get_proposal d' pid of
                 None \<Rightarrow> Inl (Raised_exception No_row)
               | Some p \<Rightarrow>
                   bindE (device_execution env L relayer d' p signer_id k decision execution) (\<lambda>pair.
                     record_vote env now pid signer_id k decision sig_bytes reason pair d')) of
             Inl e \<Rightarrow> (Inl e, d')
           | Inr (s, d'') \<Rightarrow> (Inr s, d'')))"

section \<open>Withdrawing\<close>

definition not_theirs_to_withdraw :: "db \<Rightarrow> vault_row \<Rightarrow> proposal_row \<Rightarrow> int \<Rightarrow> approval_error option" where
  "not_theirs_to_withdraw d v p actor_id =
     (if actor_id \<noteq> p_creator_id p then Some Not_yours_to_withdraw
      else if vault_member_of d (v_id v) actor_id = None then Some Left_vault
      else case signing_standing d v actor_id of
        None \<Rightarrow> None
      | Some problem \<Rightarrow> (if problem = Standing_auditor then None else Some (Withdraw_standing problem)))"

definition mark_withdrawn :: "int \<Rightarrow> int \<Rightarrow> proposal_row \<Rightarrow> db \<Rightarrow> db" where
  "mark_withdrawn now actor_id p d =
     (let d' = update_proposal (p_id p) (\<lambda>p. p\<lparr>p_status := ''withdrawn''\<rparr>) d in
      case lifecycle_of d p of
        None \<Rightarrow> d'\<lparr>db_lifecycles := db_lifecycles d' @
          [\<lparr>pl_proposal_id = p_id p, pl_requester_can_approve = None, pl_withdrawn_at = Some now,
            pl_withdrawn_by_id = Some actor_id, pl_raised_again_from_id = None\<rparr>]\<rparr>
      | Some _ \<Rightarrow> d'\<lparr>db_lifecycles :=
          map (\<lambda>l. if pl_proposal_id l = p_id p
                   then l\<lparr>pl_withdrawn_at := Some now, pl_withdrawn_by_id := Some actor_id\<rparr> else l) (db_lifecycles d')\<rparr>)"

definition withdraw :: "vault_env \<Rightarrow> int \<Rightarrow> int \<Rightarrow> int \<Rightarrow> db \<Rightarrow> (approval_error + unit) \<times> db" where
  "withdraw env now pid actor_id d =
     (case get_proposal d pid of
        None \<Rightarrow> (Inl (Raised_exception No_row), d)
      | Some p \<Rightarrow>
          (case get_vault d (p_vault_id p) of
             None \<Rightarrow> (Inl (Raised_exception No_row), d)
           | Some v \<Rightarrow>
               (case not_theirs_to_withdraw d v p actor_id of
                  Some refusal \<Rightarrow> (Inl refusal, d)
                | None \<Rightarrow>
                    (case refresh_expiry env now pid d of
                       Inl c \<Rightarrow> (Inl (Raised_exception c), d)
                     | Inr (_, d') \<Rightarrow>
                         (case get_proposal d' pid of
                            None \<Rightarrow> (Inl (Raised_exception No_row), d')
                          | Some p' \<Rightarrow>
                              (if p_status p' \<noteq> ''open'' then (Inl (Not_withdrawable (p_status p')), d')
                               else (Inr (), snd (ledger_append env now
                                 (decision_event ''proposal_withdrawn'' [(''withdrawn_at'', JStr (isoformat now))] (Some actor_id) p')
                                 (mark_withdrawn now actor_id p' d')))))))))"

text \<open>\<open>effective_status\<close> of \<open>services/inbox_service.py\<close>, which the screens read.\<close>

definition effective_status :: "db \<Rightarrow> int \<Rightarrow> proposal_row \<Rightarrow> int list \<Rightarrow> ustr" where
  "effective_status d now p ids =
     (case p_expires_at p of
        Some deadline \<Rightarrow>
          (if p_status p = ''open'' \<and> deadline \<le> now then
             (let approvals = int (length (filter (\<lambda>s. s_decision s = ''approve'') (signatures_of d p)));
                  rejections = int (length (filter (\<lambda>s. s_decision s = ''reject'') (signatures_of d p)))
              in if approvals \<ge> p_required_m p then ''approved''
                 else if rejections > p_required_n p - p_required_m p
                         \<or> (rejections > p_required_n p - 1 - p_required_m p \<and> rejection_closes d p ids rejections)
                 then ''rejected'' else ''expired'')
           else p_status p)
      | None \<Rightarrow> p_status p)"

definition why_cannot_withdraw :: "db \<Rightarrow> int \<Rightarrow> vault_row \<Rightarrow> proposal_row \<Rightarrow> int list \<Rightarrow> int \<Rightarrow> approval_error option" where
  "why_cannot_withdraw d now v p ids actor_id =
     (case not_theirs_to_withdraw d v p actor_id of
        Some refusal \<Rightarrow> Some refusal
      | None \<Rightarrow>
          (let status = effective_status d now p ids
           in if status \<noteq> ''open'' then Some (Not_withdrawable status) else None))"

end
