(* ===== verification/Approval_Proofs.thy ===== *)
theory Approval_Proofs
  imports Approval Transitions
begin

text \<open>
  The state machine of a decision does what an M-of-N ballot does.  The first part says what each
  operation leaves alone; then, in a sound state (the decision still matches what was signed, every
  stored vote verifies, nobody voted twice), the tally is the plain count of the stored votes, and
  every operation keeps the state sound.
\<close>

section \<open>What the ledger leaves alone\<close>

lemma ledger_append_entries:
  obtains es where "snd (ledger_append env now ev d) = d\<lparr>db_entries := db_entries d @ es\<rparr>"
    "\<forall>e \<in> set es. le_event_type e \<in> {''genesis'', ev_type ev}"
proof (cases "last_entry d")
  case (Some e)
  then show ?thesis
    by (intro that [of "[chained_entry (ce_hash env) now ev e]"]) (simp_all add: ledger_append_def chained_entry_def Let_def)
next
  case None
  then have empty: "db_entries d = []" by (simp add: last_entry_def)
  let ?g = "genesis_entry (ce_hash env) now"
  have "snd (ledger_append env now ev d) = d\<lparr>db_entries := db_entries d @ [?g, chained_entry (ce_hash env) now ev ?g]\<rparr>"
    using None empty by (simp add: ledger_append_def ensure_genesis_def Let_def)
  then show ?thesis by (rule that) (simp add: genesis_entry_def chained_entry_def Let_def)
qed

lemma ledger_append_tables [simp]:
  "db_keys (snd (ledger_append env now ev d)) = db_keys d"
  "db_proposals (snd (ledger_append env now ev d)) = db_proposals d"
  "db_lifecycles (snd (ledger_append env now ev d)) = db_lifecycles d"
  "db_files (snd (ledger_append env now ev d)) = db_files d"
  "db_signatures (snd (ledger_append env now ev d)) = db_signatures d"
  "db_treasuries (snd (ledger_append env now ev d)) = db_treasuries d"
  "db_actions (snd (ledger_append env now ev d)) = db_actions d"
  "db_execution_signatures (snd (ledger_append env now ev d)) = db_execution_signatures d"
  "db_vaults (snd (ledger_append env now ev d)) = db_vaults d"
  "db_vault_members (snd (ledger_append env now ev d)) = db_vault_members d"
  "db_vault_rules (snd (ledger_append env now ev d)) = db_vault_rules d"
  "db_workspaces (snd (ledger_append env now ev d)) = db_workspaces d"
  "db_workspace_members (snd (ledger_append env now ev d)) = db_workspace_members d"
  "db_users (snd (ledger_append env now ev d)) = db_users d"
  "db_invitations (snd (ledger_append env now ev d)) = db_invitations d"
  "db_treasury_signers (snd (ledger_append env now ev d)) = db_treasury_signers d"
  "db_reconfigurations (snd (ledger_append env now ev d)) = db_reconfigurations d"
  "db_decision_fields (snd (ledger_append env now ev d)) = db_decision_fields d"
  by (rule ledger_append_entries [of env now ev d]; simp)+

lemma first_by_filter_other: "\<forall>e \<in> set es. \<not> P e \<Longrightarrow> first_by f (filter P (xs @ es)) = first_by f (filter P xs)"
  by (simp add: filter_empty_conv)

lemma creation_entry_append [simp]:
  assumes "ev_type ev \<noteq> ''proposal_created''"
  shows "creation_entry (snd (ledger_append env now ev d)) p = creation_entry d p"
proof -
  obtain es where es: "snd (ledger_append env now ev d) = d\<lparr>db_entries := db_entries d @ es\<rparr>"
    "\<forall>e \<in> set es. le_event_type e \<in> {''genesis'', ev_type ev}" by (rule ledger_append_entries)
  have "\<forall>e \<in> set es. \<not> (le_event_type e = ''proposal_created'' \<and> le_ref_type e = Some ''proposal''
      \<and> le_ref_id e = Some (p_uuid p))" using es(2) assms by auto
  then show ?thesis unfolding creation_entry_def es(1) by (simp add: filter_empty_conv)
qed

section \<open>What a decision's verdict depends on\<close>

definition core :: "proposal_row \<Rightarrow> proposal_row" where
  "core p = p\<lparr>p_status := [], p_approved_at := None, p_rejected_at := None\<rparr>"

lemma core_fields:
  assumes "core p = core p'"
  shows "p_id p' = p_id p" "p_uuid p' = p_uuid p" "p_vault_id p' = p_vault_id p" "p_creator_id p' = p_creator_id p"
    "p_action_text p' = p_action_text p" "p_nonce p' = p_nonce p"
    "p_authorized_signers_snapshot p' = p_authorized_signers_snapshot p" "p_created_at_iso p' = p_created_at_iso p"
    "p_payload_hash p' = p_payload_hash p" "p_required_m p' = p_required_m p" "p_required_n p' = p_required_n p"
    "p_expires_at p' = p_expires_at p"
  using assms by (cases p; cases p'; simp add: core_def)+

definition key_material :: "db \<Rightarrow> int \<Rightarrow> (int option \<times> bytes \<times> ustr) option" where
  "key_material d i = map_option (\<lambda>k. (k_owner_id k, k_public_key k, k_alg_id k)) (get_key d i)"

definition treasury_place :: "db \<Rightarrow> int \<Rightarrow> (ustr \<times> int) option" where
  "treasury_place d i = map_option (\<lambda>t. (t_address t, t_chain_id t)) (get_treasury d i)"

text \<open>The evidence for a decision is kept: its file, its payment and its creation entry stay as they
  are; no key changes hands or material, no treasury moves.  Keys may be added or retired.\<close>

definition evidence_kept :: "proposal_row \<Rightarrow> db \<Rightarrow> db \<Rightarrow> bool" where
  "evidence_kept p d d' \<longleftrightarrow>
     file_of d' p = file_of d p \<and> action_of d' p = action_of d p \<and> creation_entry d' p = creation_entry d p
     \<and> (\<forall>i x. key_material d i = Some x \<longrightarrow> key_material d' i = Some x)
     \<and> (\<forall>i x. treasury_place d i = Some x \<longrightarrow> treasury_place d' i = Some x)"

lemma evidence_refl: "evidence_kept p d d"
  by (simp add: evidence_kept_def)

lemma evidence_trans: "evidence_kept p d d' \<Longrightarrow> evidence_kept p d' d'' \<Longrightarrow> evidence_kept p d d''"
  by (simp add: evidence_kept_def)

lemma evidence_same_tables:
  assumes "db_keys d' = db_keys d" "db_files d' = db_files d" "db_actions d' = db_actions d"
    "db_treasuries d' = db_treasuries d" "creation_entry d' p = creation_entry d p"
  shows "evidence_kept p d d'"
  using assms by (simp add: evidence_kept_def file_of_def action_of_def key_material_def get_key_def
      treasury_place_def get_treasury_def)

definition binding_ok :: "vault_env \<Rightarrow> db \<Rightarrow> proposal_row \<Rightarrow> bool" where
  "binding_ok env d p \<longleftrightarrow> (\<exists>b. verify_proposal_binding env d p = Inr b \<and> br_ok b)"

lemma binding_ok_iff:
  "binding_ok env d p \<longleftrightarrow>
     (\<exists>m. signing_bytes_for d p = Some m \<and> sha256_hex (ce_hash env) m = p_payload_hash p)
     \<and> payment_problem d p = None \<and> creation_ledger_hash d p = JStr (p_payload_hash p)"
  by (auto simp: binding_ok_def verify_proposal_binding_def Let_def split: option.splits)

lemma payment_problem_None:
  "payment_problem d p = None \<longleftrightarrow>
     (case action_of d p of
        None \<Rightarrow> True
      | Some a \<Rightarrow> payment_text (canonical_action a) = Some (p_action_text p)
          \<and> (\<exists>x. treasury_place d (pa_treasury_id a) = Some x \<and> pa_treasury_address a = JStr (fst x)
                 \<and> pa_chain_id a = JInt (snd x)))"
  by (auto simp: payment_problem_def treasury_place_def split: option.splits if_splits)

lemma binding_kept:
  assumes "binding_ok env d p" "evidence_kept p d d'" "core p = core p'"
  shows "binding_ok env d' p'"
proof -
  note same = core_fields [OF assms(3)]
  have "signing_bytes_for d' p' = signing_bytes_for d p"
    using assms(2) same by (simp add: signing_bytes_for_def stored_fields_def snapshot_ids_def evidence_kept_def
        file_of_def action_of_def)
  moreover have "creation_ledger_hash d' p' = creation_ledger_hash d p"
  proof -
    have "creation_entry d' p' = creation_entry d p"
      using assms(2) same by (simp add: evidence_kept_def creation_entry_def)
    then show ?thesis by (simp add: creation_ledger_hash_def)
  qed
  moreover have "action_of d' p' = action_of d p" using assms(2) same by (simp add: evidence_kept_def action_of_def)
  ultimately show ?thesis
    using assms(1,2) same unfolding binding_ok_iff payment_problem_None
    by (auto simp: evidence_kept_def split: option.splits)
qed

lemma verify_signature_iff:
  "verify_signature env d s p = Inr True \<longleftrightarrow>
     key_material d (s_key_id s) = Some (Some (s_signer_id s), s_public_key s, s_alg_id s)
     \<and> s_signed_payload_hash s = p_payload_hash p
     \<and> (\<exists>m provider. vote_signing_bytes (p_payload_hash p) (s_decision s) (s_signer_id s) = Inr m
          \<and> find_provider env (s_alg_id s) = Inr provider
          \<and> sp_verify provider (s_public_key s) m (s_signature s))"
  by (auto simp: verify_signature_def key_material_def bindE_def split: option.splits sum.splits if_splits)

lemma vote_kept:
  assumes "verify_signature env d s p = Inr True" "evidence_kept p d d'" "core p = core p'"
  shows "verify_signature env d' s p' = Inr True"
  using assms core_fields [OF assms(3)] unfolding verify_signature_iff evidence_kept_def by simp

section \<open>Sound decisions\<close>

definition votes_sound :: "vault_env \<Rightarrow> db \<Rightarrow> proposal_row \<Rightarrow> int list \<Rightarrow> bool" where
  "votes_sound env d p ids \<longleftrightarrow>
     distinct (map s_signer_id (signatures_of d p))
     \<and> (\<forall>s \<in> set (signatures_of d p). s_signer_id s \<in> set ids \<and> s_decision s \<in> {''approve'', ''reject''}
          \<and> verify_signature env d s p = Inr True)"

definition sound_decision :: "vault_env \<Rightarrow> int \<Rightarrow> proposal_row \<Rightarrow> int list \<Rightarrow> db \<Rightarrow> bool" where
  "sound_decision env pid p ids d \<longleftrightarrow>
     get_proposal d pid = Some p \<and> snapshot_ids p = Some ids \<and> binding_ok env d p \<and> votes_sound env d p ids"

definition votes_for :: "ustr \<Rightarrow> db \<Rightarrow> proposal_row \<Rightarrow> int" where
  "votes_for decision d p = int (length (filter (\<lambda>s. s_decision s = decision) (signatures_of d p)))"

lemma get_proposal_id: "get_proposal d pid = Some p \<Longrightarrow> p_id p = pid"
  unfolding get_proposal_def by (drule find_Some_in) simp

lemma count_verified_all:
  "\<forall>s \<in> set ss. verifies s = Inr True \<Longrightarrow>
     count_verified verifies decision ss = Inr (int (length (filter (\<lambda>s. s_decision s = decision) ss)))"
  by (induction ss) (simp_all add: bindE_def)

text \<open>In a sound decision the tally is the count of the stored votes.\<close>

lemma sound_tally:
  assumes "sound_decision env pid p ids d"
  shows "tally env d p = Inr (votes_for ''approve'' d p, votes_for ''reject'' d p)"
proof -
  obtain b where b: "verify_proposal_binding env d p = Inr b" "br_ok b"
    using assms by (auto simp: sound_decision_def binding_ok_def)
  have "\<forall>s \<in> set (signatures_of d p). verify_signature env d s p = Inr True"
    using assms by (simp add: sound_decision_def votes_sound_def)
  then have "count_verified (\<lambda>s. verify_signature env d s p) x (signatures_of d p) = Inr (votes_for x d p)" for x
    unfolding votes_for_def by (rule count_verified_all)
  with b show ?thesis by (simp add: tally_def bindE_def)
qed

lemma votes_split:
  assumes "votes_sound env d p ids"
  shows "votes_for ''approve'' d p + votes_for ''reject'' d p = int (length (signatures_of d p))"
proof -
  have "\<forall>s \<in> set xs. s_decision s \<in> {''approve'', ''reject''} \<Longrightarrow>
      length (filter (\<lambda>s. s_decision s = ''approve'') xs) + length (filter (\<lambda>s. s_decision s = ''reject'') xs)
        = length xs" for xs
    by (induction xs) auto
  then show ?thesis using assms by (fastforce simp: votes_for_def votes_sound_def)
qed

lemma sound_kept:
  assumes "sound_decision env pid p ids d" "get_proposal d' pid = Some p'" "core p = core p'"
    "evidence_kept p d d'" "signatures_of d' p' = signatures_of d p"
  shows "sound_decision env pid p' ids d'"
proof -
  note same = core_fields [OF assms(3)] and sigs = assms(5)
  have "snapshot_ids p' = Some ids" using assms(1) same by (simp add: sound_decision_def snapshot_ids_def)
  moreover have "binding_ok env d' p'" using assms binding_kept [of env d p d' p'] by (simp add: sound_decision_def)
  moreover have "votes_sound env d' p' ids"
    using assms(1) vote_kept [OF _ assms(4,3)] sigs by (simp add: sound_decision_def votes_sound_def)
  ultimately show ?thesis using assms(2) by (simp add: sound_decision_def)
qed

lemma find_map_same: "\<forall>x. P (f x) = P x \<Longrightarrow> find P (map f xs) = map_option f (find P xs)"
  by (induction xs) auto

lemma get_update_proposal:
  assumes "\<forall>p. p_id (f p) = p_id p"
  shows "get_proposal (update_proposal i f d) j = map_option (\<lambda>p. if p_id p = i then f p else p) (get_proposal d j)"
  unfolding get_proposal_def update_proposal_def using assms by (simp add: find_map_same)

lemma update_proposal_tables [simp]:
  "db_signatures (update_proposal i f d) = db_signatures d" "db_entries (update_proposal i f d) = db_entries d"
  "db_keys (update_proposal i f d) = db_keys d" "db_files (update_proposal i f d) = db_files d"
  "db_actions (update_proposal i f d) = db_actions d" "db_treasuries (update_proposal i f d) = db_treasuries d"
  "db_lifecycles (update_proposal i f d) = db_lifecycles d" "db_vaults (update_proposal i f d) = db_vaults d"
  "db_execution_signatures (update_proposal i f d) = db_execution_signatures d"
  by (simp_all add: update_proposal_def)

lemma creation_entry_cong: "db_entries d' = db_entries d \<Longrightarrow> creation_entry d' p = creation_entry d p"
  by (simp add: creation_entry_def)

text \<open>Every transition to a closed state writes the row and one entry of the ledger, and no more.\<close>

lemma close_as_effect:
  assumes "\<forall>q. core (f q) = core q" "ev_type ev \<noteq> ''proposal_created''" "d' = close_as env now f ev p d"
  shows "get_proposal d' j = map_option (\<lambda>q. if p_id q = p_id p then f q else q) (get_proposal d j)"
    "db_signatures d' = db_signatures d" "db_lifecycles d' = db_lifecycles d" "db_vaults d' = db_vaults d"
    "db_execution_signatures d' = db_execution_signatures d"
    "evidence_kept q d d'"
proof -
  have id: "\<forall>q. p_id (f q) = p_id q" using assms(1) core_fields(1) by metis
  have "get_proposal d' j = get_proposal (update_proposal (p_id p) f d) j"
    by (simp add: assms(3) close_as_def get_proposal_def)
  then show "get_proposal d' j = map_option (\<lambda>q. if p_id q = p_id p then f q else q) (get_proposal d j)"
    by (simp add: get_update_proposal id)
  show "db_signatures d' = db_signatures d" "db_lifecycles d' = db_lifecycles d" "db_vaults d' = db_vaults d"
    "db_execution_signatures d' = db_execution_signatures d"
    by (simp_all add: assms(3) close_as_def)
  show "evidence_kept q d d'"
    by (rule evidence_same_tables) (simp_all add: assms(2,3) close_as_def creation_entry_cong [of "update_proposal _ _ _"])
qed

lemma finalize_cases:
  assumes "finalize_if_decided env now actor qid d = Inr d'"
  obtains (unchanged) "d' = d"
  | (closed) q f ev where "get_proposal d qid = Some q" "p_status q = ''open''" "d' = close_as env now f ev q d"
      "\<forall>x. core (f x) = core x" "ev_type ev \<noteq> ''proposal_created''" "\<forall>x. p_status (f x) \<in> {''approved'', ''rejected''}"
proof -
  obtain q where q: "get_proposal d qid = Some q" using assms by (auto simp: finalize_if_decided_def split: option.splits)
  show thesis
  proof (cases "d' = d")
    case False
    then obtain f ev where "p_status q = ''open''" "d' = close_as env now f ev q d" "\<forall>x. core (f x) = core x"
      "ev_type ev \<noteq> ''proposal_created''" "\<forall>x. p_status (f x) \<in> {''approved'', ''rejected''}"
      using assms q by (auto simp: finalize_if_decided_def bindE_def decision_event_def core_def
          split: sum.splits option.splits if_splits)
    with q show ?thesis by (rule closed)
  qed (rule unchanged)
qed

text \<open>The verdict the counted votes give.\<close>

definition verdict :: "db \<Rightarrow> proposal_row \<Rightarrow> int list \<Rightarrow> ustr" where
  "verdict d p ids =
     (if votes_for ''approve'' d p \<ge> p_required_m p then ''approved''
      else if rejection_closes d p ids (votes_for ''reject'' d p) then ''rejected''
      else ''open'')"

lemma finalize_sound:
  assumes "sound_decision env pid p ids d" "p_status p = ''open''"
  obtains d' p' where "finalize_if_decided env now actor pid d = Inr d'" "get_proposal d' pid = Some p'"
    "core p = core p'" "p_status p' = verdict d p ids" "db_signatures d' = db_signatures d"
    "evidence_kept p d d'" "db_lifecycles d' = db_lifecycles d"
proof -
  have p: "get_proposal d pid = Some p" "snapshot_ids p = Some ids" using assms(1) by (auto simp: sound_decision_def)
  note id = get_proposal_id [OF p(1)]
  let ?close = "\<lambda>f ev. close_as env now f ev p d"
  have eff: "\<forall>q. core (f q) = core q \<Longrightarrow> ev_type ev \<noteq> ''proposal_created'' \<Longrightarrow> p_status (f p) = verdict d p ids \<Longrightarrow>
      finalize_if_decided env now actor pid d = Inr (?close f ev) \<Longrightarrow> thesis" for f ev
  proof -
    assume a: "\<forall>q. core (f q) = core q" "ev_type ev \<noteq> ''proposal_created''" "p_status (f p) = verdict d p ids"
      "finalize_if_decided env now actor pid d = Inr (?close f ev)"
    note e = close_as_effect [OF a(1,2) refl, where env = env and now = now and p = p and d = d]
    show thesis
    proof (rule that [OF a(4)])
      show "get_proposal (?close f ev) pid = Some (f p)" using e(1) [where j = pid] p(1) id by simp
    qed (use a e in simp_all)
  qed
  show thesis
  proof (cases "verdict d p ids = ''open''")
    case True
    then have "finalize_if_decided env now actor pid d = Inr d"
      using p assms(2) by (simp add: finalize_if_decided_def sound_tally [OF assms(1)] bindE_def verdict_def split: if_splits)
    then show thesis by (rule that) (use p True assms(2) in \<open>simp_all add: evidence_refl\<close>)
  next
    case False
    show thesis
    proof (cases "votes_for ''approve'' d p \<ge> p_required_m p")
      case True
      show thesis
        by (rule eff [of "\<lambda>p. p\<lparr>p_status := ''approved'', p_approved_at := Some now\<rparr>"
             "decision_event ''proposal_approved'' [(''approvals'', JInt (votes_for ''approve'' d p)),
                (''M'', JInt (p_required_m p)), (''N'', JInt (p_required_n p))] actor p"])
          (use True p assms(2) in \<open>simp_all add: core_def decision_event_def verdict_def finalize_if_decided_def
             sound_tally [OF assms(1)] bindE_def\<close>)
    next
      case F: False
      with False have closes: "rejection_closes d p ids (votes_for ''reject'' d p)" by (simp add: verdict_def split: if_splits)
      show thesis
        by (rule eff [of "\<lambda>p. p\<lparr>p_status := ''rejected'', p_rejected_at := Some now\<rparr>"
             "decision_event ''proposal_rejected'' ([(''rejections'', JInt (votes_for ''reject'' d p)),
                (''M'', JInt (p_required_m p)), (''N'', JInt (p_required_n p))]
                @ (if requester_excluded d p ids then [(''requester_excluded'', JBool True)] else [])) actor p"])
          (use F closes p assms(2) in \<open>simp_all add: core_def decision_event_def verdict_def finalize_if_decided_def
             sound_tally [OF assms(1)] bindE_def\<close>)
    qed
  qed
qed

section \<open>Every operation keeps a ballot sound\<close>

definition outcome_ok :: "db \<Rightarrow> proposal_row \<Rightarrow> bool" where
  "outcome_ok d p \<longleftrightarrow>
     (p_status p = ''approved'' \<longrightarrow> votes_for ''approve'' d p \<ge> p_required_m p)
     \<and> (p_status p = ''rejected'' \<longrightarrow> votes_for ''reject'' d p > p_required_n p - 1 - p_required_m p)"

definition ballot_ok :: "vault_env \<Rightarrow> int \<Rightarrow> db \<Rightarrow> bool" where
  "ballot_ok env pid d \<longleftrightarrow> (\<exists>p ids. sound_decision env pid p ids d \<and> outcome_ok d p)"

text \<open>Later states keep what was signed and every vote, and a closed decision as it closed.\<close>

definition follows :: "int \<Rightarrow> db \<Rightarrow> db \<Rightarrow> bool" where
  "follows pid d d' \<longleftrightarrow>
     (\<forall>p. get_proposal d pid = Some p \<longrightarrow>
        (\<exists>p' ss. get_proposal d' pid = Some p' \<and> core p' = core p \<and> signatures_of d' p' = signatures_of d p @ ss
           \<and> (p_status p \<noteq> ''open'' \<longrightarrow> p_status p' = p_status p \<and> ss = [])))"

lemma follows_refl: "follows pid d d"
  by (simp add: follows_def)

lemma follows_trans:
  assumes "follows pid d d'" "follows pid d' d''"
  shows "follows pid d d''"
  unfolding follows_def
proof (intro allI impI)
  fix p assume "get_proposal d pid = Some p"
  then obtain p' ss where 1: "get_proposal d' pid = Some p'" "core p' = core p" "signatures_of d' p' = signatures_of d p @ ss"
      "p_status p \<noteq> ''open'' \<longrightarrow> p_status p' = p_status p \<and> ss = []"
    using assms(1) by (auto simp: follows_def)
  then obtain p'' ss' where 2: "get_proposal d'' pid = Some p''" "core p'' = core p'"
      "signatures_of d'' p'' = signatures_of d' p' @ ss'" "p_status p' \<noteq> ''open'' \<longrightarrow> p_status p'' = p_status p' \<and> ss' = []"
    using assms(2) by (auto simp: follows_def)
  show "\<exists>p' ss. get_proposal d'' pid = Some p' \<and> core p' = core p \<and> signatures_of d'' p' = signatures_of d p @ ss
           \<and> (p_status p \<noteq> ''open'' \<longrightarrow> p_status p' = p_status p \<and> ss = [])"
  proof (intro exI conjI)
    show "get_proposal d'' pid = Some p''" by (rule 2(1))
    show "core p'' = core p" using 1(2) 2(2) by simp
    show "signatures_of d'' p'' = signatures_of d p @ (ss @ ss')" using 1(3) 2(3) by simp
    show "p_status p \<noteq> ''open'' \<longrightarrow> p_status p'' = p_status p \<and> ss @ ss' = []" using 1(4) 2(4) by simp
  qed
qed

definition moved :: "int \<Rightarrow> proposal_row \<Rightarrow> db \<Rightarrow> proposal_row \<Rightarrow> db \<Rightarrow> bool" where
  "moved pid p d p' d' \<longleftrightarrow>
     get_proposal d' pid = Some p' \<and> core p = core p' \<and> evidence_kept p d d' \<and> signatures_of d' p' = signatures_of d p"

lemma moved_ok:
  assumes "sound_decision env pid p ids d" "moved pid p d p' d'" "outcome_ok d' p'"
    "p_status p \<noteq> ''open'' \<longrightarrow> p_status p' = p_status p"
  shows "ballot_ok env pid d' \<and> follows pid d d'"
proof -
  have "sound_decision env pid p' ids d'" by (rule sound_kept [OF assms(1)]) (use assms(2) in \<open>simp_all add: moved_def\<close>)
  moreover have "follows pid d d'"
    unfolding follows_def
  proof (intro allI impI)
    fix q assume "get_proposal d pid = Some q"
    then have "q = p" using assms(1) by (simp add: sound_decision_def)
    then show "\<exists>p' ss. get_proposal d' pid = Some p' \<and> core p' = core q \<and> signatures_of d' p' = signatures_of d q @ ss
        \<and> (p_status q \<noteq> ''open'' \<longrightarrow> p_status p' = p_status q \<and> ss = [])"
      using assms(2,4) by (intro exI [of _ p'] exI [of _ "[]"]) (simp add: moved_def)
  qed
  ultimately show ?thesis using assms(3) by (auto simp: ballot_ok_def)
qed

lemma votes_for_cong: "signatures_of d' p' = signatures_of d p \<Longrightarrow> votes_for x d' p' = votes_for x d p"
  by (simp add: votes_for_def)

lemma outcome_same:
  assumes "outcome_ok d p" "moved pid p d p' d'" "p_status p' = p_status p"
  shows "outcome_ok d' p'"
proof -
  have c: "core p = core p'" and "signatures_of d' p' = signatures_of d p" using assms(2) by (simp_all add: moved_def)
  then have "votes_for x d' p' = votes_for x d p" for x by (intro votes_for_cong)
  then show ?thesis using assms(1,3) core_fields [OF c] by (simp add: outcome_ok_def)
qed

lemma verdict_outcome:
  assumes "moved pid p d p' d'" "p_status p' = verdict d p ids"
  shows "outcome_ok d' p'"
proof -
  have c: "core p = core p'" and "signatures_of d' p' = signatures_of d p" using assms(1) by (simp_all add: moved_def)
  then have "votes_for x d' p' = votes_for x d p" for x by (intro votes_for_cong)
  then show ?thesis
    using assms(2) core_fields [OF c]
    by (auto simp: outcome_ok_def verdict_def rejection_closes_def deciding_n_def split: if_splits)
qed

lemma signatures_of_same: "db_signatures d' = db_signatures d \<Longrightarrow> core p = core p' \<Longrightarrow> signatures_of d' p' = signatures_of d p"
  using core_fields(1) [of p p'] by (simp add: signatures_of_def)

lemma finalize_moves:
  assumes "sound_decision env pid p ids d" "finalize_if_decided env now actor qid d = Inr d'"
  obtains p' where "moved pid p d p' d'"
    "p_status p' = (if qid = pid \<and> p_status p = ''open'' then verdict d p ids else p_status p)"
proof (cases "qid = pid \<and> p_status p = ''open''")
  case True
  show ?thesis
    by (rule finalize_sound [OF assms(1), of now actor])
      (use True assms(2) signatures_of_same in \<open>fastforce intro: that simp: moved_def\<close>)+
next
  case False
  have p: "get_proposal d pid = Some p" using assms(1) by (simp add: sound_decision_def)
  from assms(2) show ?thesis
  proof (cases rule: finalize_cases)
    case unchanged
    then show ?thesis using p False by (intro that [of p]) (auto simp: moved_def evidence_refl)
  next
    case (closed q f ev)
    note e = close_as_effect [OF closed(4,5,3)]
    have "qid \<noteq> pid"
    proof
      assume "qid = pid"
      then show False using closed(1,2) p False by simp
    qed
    then have "p_id p \<noteq> p_id q" using get_proposal_id [OF closed(1)] get_proposal_id [OF p] by simp
    then have "get_proposal d' pid = Some p" using e(1) [of pid] p by simp
    then show ?thesis using e False by (intro that [of p]) (auto simp: moved_def signatures_of_def)
  qed
qed

lemma finalize_ok:
  assumes "ballot_ok env pid d" "finalize_if_decided env now actor qid d = Inr d'"
  shows "ballot_ok env pid d' \<and> follows pid d d'"
proof -
  obtain p ids where s: "sound_decision env pid p ids d" "outcome_ok d p" using assms(1) by (auto simp: ballot_ok_def)
  obtain p' where m: "moved pid p d p' d'"
    "p_status p' = (if qid = pid \<and> p_status p = ''open'' then verdict d p ids else p_status p)"
    by (rule finalize_moves [OF s(1) assms(2)])
  have "outcome_ok d' p'"
  proof (cases "qid = pid \<and> p_status p = ''open''")
    case True
    with m show ?thesis by (intro verdict_outcome [OF m(1)]) simp
  next
    case False
    with m show ?thesis by (intro outcome_same [OF s(2) m(1)]) auto
  qed
  with m show ?thesis by (intro moved_ok [OF s(1) m(1)]) auto
qed

lemma finalize_each_ok:
  assumes "finalize_each env now pids (n, d) = Inr (n', d')" "ballot_ok env pid d"
  shows "ballot_ok env pid d' \<and> follows pid d d'"
  using assms
proof (induction pids arbitrary: n d)
  case Nil
  then show ?case by (simp add: follows_refl)
next
  case (Cons q pids)
  show ?case
  proof (cases "finalize_if_decided env now None q d")
    case (Inl c)
    with Cons show ?thesis by (auto split: option.splits if_splits)
  next
    case (Inr d1)
    note one = finalize_ok [OF Cons.prems(2) Inr]
    from Cons.prems(1) Inr consider "finalize_each env now pids (n, d) = Inr (n', d')"
      | m where "finalize_each env now pids (m, d1) = Inr (n', d')"
      by (auto split: option.splits if_splits)
    then show ?thesis
    proof cases
      case 1
      then show ?thesis using Cons.IH Cons.prems(2) by blast
    next
      case 2
      then show ?thesis using Cons.IH [OF 2] one follows_trans by blast
    qed
  qed
qed

lemma close_ok:
  assumes "ballot_ok env pid d" "get_proposal d qid = Some q" "p_status q = ''open''"
    "\<forall>x. core (f x) = core x" "ev_type ev \<noteq> ''proposal_created''" "p_status (f q) \<notin> {''approved'', ''rejected''}"
    "get_proposal d' pid = get_proposal (close_as env now f ev q d) pid" "db_signatures d' = db_signatures d"
    "evidence_kept p d d'"
    "get_proposal d pid = Some p"
  shows "ballot_ok env pid d' \<and> follows pid d d'"
proof -
  obtain ids where s: "sound_decision env pid p ids d" "outcome_ok d p"
    using assms(1,10) by (auto simp: ballot_ok_def sound_decision_def)
  note e = close_as_effect [OF assms(4,5) refl, where env = env and now = now and p = q and d = d]
  note same_id = get_proposal_id [OF assms(2)] get_proposal_id [OF assms(10)]
  let ?p' = "if qid = pid then f p else p"
  have m: "moved pid p d ?p' d'"
    using e(1) [where j = pid] assms(4,7-10) same_id signatures_of_same [of d' d p ?p']
    by (auto simp: moved_def)
  show ?thesis
  proof (cases "qid = pid")
    case True
    then have "q = p" using assms(2,10) by simp
    then show ?thesis using True assms(3,6) m by (intro moved_ok [OF s(1) m]) (simp_all add: outcome_ok_def)
  next
    case False
    then show ?thesis using m outcome_same [OF s(2) m] by (intro moved_ok [OF s(1) m]) simp_all
  qed
qed

lemma expire_ok:
  assumes "ballot_ok env pid d" "get_proposal d qid = Some q" "p_status q = ''open''"
    "\<forall>x. core (f x) = core x" "ev_type ev \<noteq> ''proposal_created''" "p_status (f q) \<notin> {''approved'', ''rejected''}"
  shows "ballot_ok env pid (close_as env now f ev q d) \<and> follows pid d (close_as env now f ev q d)"
proof -
  obtain p where p: "get_proposal d pid = Some p" using assms(1) by (auto simp: ballot_ok_def sound_decision_def)
  show ?thesis
    by (rule close_ok [OF assms, where p = p]) (use p close_as_effect [OF assms(4,5) refl] in simp_all)
qed

lemma refresh_cases:
  assumes "refresh_expiry env now qid d = Inr (b, d')"
  obtains (early) "d' = d"
  | (decided) "finalize_if_decided env now None qid d = Inr d'"
  | (expired) d1 q ev where "finalize_if_decided env now None qid d = Inr d1" "get_proposal d1 qid = Some q"
      "p_status q = ''open''" "ev_type ev \<noteq> ''proposal_created''"
      "d' = close_as env now (\<lambda>p. p\<lparr>p_status := ''expired''\<rparr>) ev q d1"
proof -
  note result = assms [unfolded refresh_expiry_def bindE_def]
  show thesis
  proof (cases "d' = d")
    case False
    with result obtain d1 q where f: "finalize_if_decided env now None qid d = Inr d1" "get_proposal d1 qid = Some q"
      and e: "(if p_status q \<noteq> ''open'' then Inr (False, d1) else Inr (True, close_as env now (\<lambda>p. p\<lparr>p_status := ''expired''\<rparr>)
        (decision_event ''proposal_expired'' [(''expired_at'', JStr (isoformat now))] None q) q d1)) = (Inr (b, d') :: crash + _)"
      by (auto split: option.splits sum.splits if_split_asm)
    show thesis
    proof (cases "p_status q = ''open''")
      case True
      then show thesis using e by (intro expired [OF f]) (auto simp: decision_event_def)
    next
      case False
      then show thesis using e f(1) by (intro decided) simp
    qed
  qed (rule early)
qed

lemma refresh_ok:
  assumes "ballot_ok env pid d" "refresh_expiry env now qid d = Inr (b, d')"
  shows "ballot_ok env pid d' \<and> follows pid d d'"
  using assms(2)
proof (cases rule: refresh_cases)
  case early
  then show ?thesis using assms(1) follows_refl by simp
next
  case decided
  then show ?thesis by (rule finalize_ok [OF assms(1)])
next
  case (expired d1 q ev)
  note 1 = finalize_ok [OF assms(1) expired(1)]
  then have "ballot_ok env pid d' \<and> follows pid d1 d'"
    unfolding expired(5) using expired(4) by (intro expire_ok [OF _ expired(2,3)]) (simp_all add: core_def)
  then show ?thesis using 1 follows_trans by blast
qed

lemma close_as_keys [simp]: "db_keys (close_as env now f ev p d) = db_keys d"
  by (simp add: close_as_def)

lemma finalize_keeps_keys: "finalize_if_decided env now actor qid d = Inr d' \<Longrightarrow> db_keys d' = db_keys d"
  by (erule finalize_cases) simp_all

lemma refresh_keeps_keys: "refresh_expiry env now qid d = Inr (b, d') \<Longrightarrow> db_keys d' = db_keys d"
  by (erule refresh_cases) (auto dest: finalize_keeps_keys)

lemma mark_withdrawn_fields:
  "get_proposal (mark_withdrawn now actor q d) j = get_proposal (update_proposal (p_id q) (\<lambda>p. p\<lparr>p_status := ''withdrawn''\<rparr>) d) j"
  "db_signatures (mark_withdrawn now actor q d) = db_signatures d" "db_keys (mark_withdrawn now actor q d) = db_keys d"
  "db_files (mark_withdrawn now actor q d) = db_files d" "db_actions (mark_withdrawn now actor q d) = db_actions d"
  "db_treasuries (mark_withdrawn now actor q d) = db_treasuries d" "db_entries (mark_withdrawn now actor q d) = db_entries d"
  by (simp_all add: mark_withdrawn_def Let_def get_proposal_def split: option.split)

lemma withdraw_ok:
  assumes "ballot_ok env pid d" "withdraw env now qid actor d = (r, d')"
  shows "ballot_ok env pid d' \<and> follows pid d d'"
proof (cases "d' = d")
  case True
  then show ?thesis using assms(1) follows_refl by simp
next
  case False
  with assms(2) obtain b d1 where 1: "refresh_expiry env now qid d = Inr (b, d1)"
    and 2: "d' = d1 \<or> (\<exists>q. get_proposal d1 qid = Some q \<and> p_status q = ''open'' \<and> d' = snd (ledger_append env now
        (decision_event ''proposal_withdrawn'' [(''withdrawn_at'', JStr (isoformat now))] (Some actor) q) (mark_withdrawn now actor q d1)))"
    by (auto simp: withdraw_def split: option.splits sum.splits if_splits)
  note r = refresh_ok [OF assms(1) 1]
  from 2 have "ballot_ok env pid d' \<and> follows pid d1 d'"
  proof
    assume "d' = d1"
    then show ?thesis using r follows_refl by simp
  next
    let ?ev = "\<lambda>q. decision_event ''proposal_withdrawn'' [(''withdrawn_at'', JStr (isoformat now))] (Some actor) q"
    assume "\<exists>q. get_proposal d1 qid = Some q \<and> p_status q = ''open''
      \<and> d' = snd (ledger_append env now (?ev q) (mark_withdrawn now actor q d1))"
    then obtain q where q: "get_proposal d1 qid = Some q"
      and w: "p_status q = ''open'' \<and> d' = snd (ledger_append env now (?ev q) (mark_withdrawn now actor q d1))" by blast
    obtain p where p: "get_proposal d1 pid = Some p" using r by (auto simp: ballot_ok_def sound_decision_def)
    have ev: "ev_type (?ev q) \<noteq> ''proposal_created''" by (simp add: decision_event_def)
    show ?thesis
    proof (rule close_ok [where f = "\<lambda>p. p\<lparr>p_status := ''withdrawn''\<rparr>" and ev = "?ev q" and q = q and now = now and p = p])
      show "evidence_kept p d1 d'"
        by (rule evidence_same_tables) (use w ev in \<open>simp_all add: mark_withdrawn_fields creation_entry_cong [of "mark_withdrawn _ _ _ _"]\<close>)
      show "get_proposal d' pid = get_proposal (close_as env now (\<lambda>p. p\<lparr>p_status := ''withdrawn''\<rparr>) (?ev q) q d1) pid"
        using w mark_withdrawn_fields(1) [of now actor q d1 pid] by (simp add: close_as_def get_proposal_def)
    qed (use w p r q ev in \<open>simp_all add: core_def mark_withdrawn_fields\<close>)
  qed
  then show ?thesis using r follows_trans by blast
qed

section \<open>Votes\<close>

lemma record_vote_cases:
  assumes "record_vote env now qid signer key decision sb reason execution d = Inr (s, d')"
  obtains q v row where "get_proposal d qid = Some q" "p_status q = ''open''" "get_vault d (p_vault_id q) = Some v"
    "(execution \<noteq> None) = (decision = ''approve'' \<and> is_payment d q)"
    "check_vote_bytes env q signer key decision sb = Inr ()" "still_entitled d v q signer = None"
    "store_execution env d q signer key execution = Inr row" "vote_of d q signer = None"
    "s = new_signature now d q signer key decision sb reason"
    "finalize_if_decided env now (Some signer) qid (write_vote env now q key s row d) = Inr d'"
proof -
  note r = assms [unfolded record_vote_def bindE_def]
  from r obtain q where q: "get_proposal d qid = Some q" by (auto split: option.splits)
  from r q have x: "(execution \<noteq> None) = (decision = ''approve'' \<and> is_payment d q)" by (simp split: if_split_asm)
  from r q have c: "check_vote_bytes env q signer key decision sb = Inr ()"
    by (simp split: if_split_asm sum.split_asm)
  from r q x c have o': "p_status q = ''open''" by (simp split: if_split_asm)
  from r q x c o' obtain v where v: "get_vault d (p_vault_id q) = Some v" by (auto split: option.split_asm if_split_asm)
  from r q x c o' v have e: "still_entitled d v q signer = None" by (simp split: option.split_asm if_split_asm)
  from r q x c o' v e obtain row where row: "store_execution env d q signer key execution = Inr row"
    by (auto split: sum.split_asm if_split_asm)
  from r q x c o' v e row have clash: "vote_clash d q signer row = None" by (simp split: option.split_asm if_split_asm)
  let ?s = "new_signature now d q signer key decision sb reason"
  from r q x c o' v e row clash
  have s: "(case finalize_if_decided env now (Some signer) qid (write_vote env now q key ?s row d) of
      Inl c \<Rightarrow> Inl (Raised_exception c) | Inr d' \<Rightarrow> Inr (?s, d')) = Inr (s, d')"
    by (simp add: Let_def split: if_split_asm)
  have "vote_of d q signer = None" using clash by (simp add: vote_clash_def split: if_split_asm)
  with s show thesis by (intro that [OF q o' v x c e row]) (auto split: sum.split_asm)
qed

lemma authorize_cases:
  assumes "authorize_vote env now qid signer decision reason d = (r, d')"
  obtains (same) e where "d' = d" "r = Inl e"
  | (refreshed) b e where "refresh_expiry env now qid d = Inr (b, d')" "r = Inl e"
  | (passed) b p v ids where "refresh_expiry env now qid d = Inr (b, d')" "r = Inr ()"
      "decision \<in> {''approve'', ''reject''}" "p_status p = ''open''" "loaded d' qid = Inr (p, v, ids)"
      "vote_gate d' v p ids signer decision reason = None"
proof (cases r)
  case (Inl e)
  with assms show ?thesis
    by (auto simp: authorize_vote_def intro: same refreshed split: if_split_asm sum.splits option.splits prod.splits)
next
  case (Inr u)
  note a = assms [unfolded authorize_vote_def Inr]
  from a have dec: "decision \<in> {''approve'', ''reject''}" by (auto split: if_split_asm)
  from a dec obtain b where b: "refresh_expiry env now qid d = Inr (b, d')"
    by (auto split: if_split_asm sum.splits option.splits prod.splits)
  from a dec b obtain p where p: "get_proposal d' qid = Some p" "p_status p = ''open''"
    by (auto split: if_split_asm option.splits)
  from a dec b p obtain t where t: "loaded d' qid = Inr t" by (auto split: sum.splits)
  then obtain v ids where "loaded d' qid = Inr (p, v, ids)" using p(1) by (auto simp: loaded_def split: option.splits)
  then show ?thesis using a dec b p by (intro passed [OF b _ dec p(2)]) (auto simp: Inr split: option.splits)
qed

lemma device_vote_cases:
  assumes "record_device_vote env L relayer now qid signer key decision sb reason execution d = (r, d')"
  obtains (refused) e d1 where "authorize_vote env now qid signer decision reason d = (e, d')" "r = Inl d1"
  | (accepted) d1 k p pair s where "authorize_vote env now qid signer decision reason d = (Inr (), d1)"
      "require_device_signing_key env signer key = Inr k" "get_proposal d1 qid = Some p"
      "device_execution env L relayer d1 p signer k decision execution = Inr pair"
      "record_vote env now qid signer k decision sb reason pair d1 = Inr (s, d')" "r = Inr s"
proof (cases r)
  case (Inl e)
  with assms show ?thesis
    by (auto simp: record_device_vote_def intro: refused split: sum.splits prod.splits)
next
  case (Inr s)
  with assms show ?thesis
    by (auto simp: record_device_vote_def bindE_def intro: accepted split: sum.splits prod.splits option.splits)
qed

lemma new_signature_fields [simp]:
  "s_proposal_id (new_signature now d q signer key decision sb reason) = p_id q"
  "s_signer_id (new_signature now d q signer key decision sb reason) = signer"
  "s_decision (new_signature now d q signer key decision sb reason) = decision"
  "s_key_id (new_signature now d q signer key decision sb reason) = k_id key"
  "s_alg_id (new_signature now d q signer key decision sb reason) = k_alg_id key"
  "s_public_key (new_signature now d q signer key decision sb reason) = k_public_key key"
  "s_signature (new_signature now d q signer key decision sb reason) = sb"
  "s_signed_payload_hash (new_signature now d q signer key decision sb reason) = p_payload_hash q"
  by (simp_all add: new_signature_def)

lemma write_vote_effect:
  "get_proposal (write_vote env now q key s row d) j = get_proposal d j"
  "db_signatures (write_vote env now q key s row d) = db_signatures d @ [s]"
  "evidence_kept p d (write_vote env now q key s row d)"
proof -
  show "get_proposal (write_vote env now q key s row d) j = get_proposal d j"
    "db_signatures (write_vote env now q key s row d) = db_signatures d @ [s]"
    by (simp_all add: write_vote_def get_proposal_def)
  have "ev_type (signed_event env q key s row) \<noteq> ''proposal_created''" by (simp add: signed_event_def decision_event_def)
  moreover have "creation_entry (d\<lparr>db_signatures := ss, db_execution_signatures := xs\<rparr>) p = creation_entry d p" for ss xs
    by (simp add: creation_entry_def)
  ultimately show "evidence_kept p d (write_vote env now q key s row d)"
    by (intro evidence_same_tables) (simp_all add: write_vote_def)
qed

text \<open>A vote that passed the checks of its bytes verifies where it is stored.\<close>

lemma checked_vote_verifies:
  assumes "check_vote_bytes env q signer key decision sb = Inr ()" "get_key d (k_id key) = Some key"
    "k_owner_id key = Some signer"
  shows "verify_signature env d (new_signature now d' q signer key decision sb reason) q = Inr True"
  using assms unfolding verify_signature_iff
  by (auto simp: check_vote_bytes_def key_material_def split: sum.splits option.splits if_split_asm)

lemma written_sound:
  fixes now :: int and reason :: json and row :: "execution_signature option"
  assumes "sound_decision env pid p ids d" "signer \<in> set ids" "vote_of d p signer = None"
    "check_vote_bytes env p signer key decision sb = Inr ()" "get_key d (k_id key) = Some key" "k_owner_id key = Some signer"
    "decision \<in> {''approve'', ''reject''}"
  defines "s \<equiv> new_signature now d p signer key decision sb reason"
  defines "d' \<equiv> write_vote env now p key s row d"
  shows "sound_decision env pid p ids d'" "signatures_of d' p = signatures_of d p @ [s]"
proof -
  note w = write_vote_effect [where env = env and now = now and q = p and key = key and s = s and row = row and d = d, folded d'_def]
  show sigs: "signatures_of d' p = signatures_of d p @ [s]" using w(2) by (simp add: signatures_of_def s_def)
  have "verify_signature env d s p = Inr True"
    unfolding s_def by (rule checked_vote_verifies [OF assms(4-6)])
  then have "verify_signature env d' x p = Inr True" if "x \<in> set (signatures_of d p) \<union> {s}" for x
    using that assms(1) vote_kept [OF _ w(3) refl] by (auto simp: sound_decision_def votes_sound_def)
  moreover have "signer \<notin> set (map s_signer_id (signatures_of d p))"
    using assms(3) by (auto simp: vote_of_def find_None_iff)
  ultimately have "votes_sound env d' p ids"
    using assms(1,2,7) unfolding votes_sound_def sigs by (auto simp: s_def sound_decision_def votes_sound_def)
  moreover have "binding_ok env d' p" using assms(1) binding_kept [OF _ w(3) refl] by (simp add: sound_decision_def)
  ultimately show "sound_decision env pid p ids d'" using assms(1) w(1) by (simp add: sound_decision_def)
qed

lemma written_ok:
  fixes now :: int and reason :: json and row :: "execution_signature option"
  assumes "ballot_ok env pid d" "get_proposal d qid = Some q" "p_status q = ''open''" "snapshot_ids q = Some qids"
    "signer \<in> set qids" "vote_of d q signer = None" "check_vote_bytes env q signer key decision sb = Inr ()"
    "get_key d (k_id key) = Some key" "k_owner_id key = Some signer" "decision \<in> {''approve'', ''reject''}"
  defines "d' \<equiv> write_vote env now q key (new_signature now d q signer key decision sb reason) row d"
  shows "ballot_ok env pid d' \<and> follows pid d d'"
proof -
  let ?s = "new_signature now d q signer key decision sb reason"
  note w = write_vote_effect [where env = env and now = now and q = q and key = key and s = ?s and row = row and d = d, folded d'_def]
  obtain p ids where s: "sound_decision env pid p ids d" "outcome_ok d p" using assms(1) by (auto simp: ballot_ok_def)
  then have p: "get_proposal d pid = Some p" by (simp add: sound_decision_def)
  show ?thesis
  proof (cases "qid = pid")
    case True
    then have "q = p" "qids = ids" using assms(2,4) s(1) by (auto simp: sound_decision_def)
    then have "sound_decision env pid p ids d'" "signatures_of d' p = signatures_of d p @ [?s]"
      unfolding d'_def using written_sound [OF s(1) _ _ _ assms(8,9,10)] assms(5-7) by simp_all
    moreover from this(2) have "follows pid d d'"
      using p w(1) assms(3) \<open>q = p\<close> by (auto simp: follows_def)
    ultimately show ?thesis using assms(3) \<open>q = p\<close> by (auto simp: ballot_ok_def outcome_ok_def)
  next
    case False
    then have "p_id q \<noteq> p_id p" using get_proposal_id [OF assms(2)] get_proposal_id [OF p] by simp
    then have m: "moved pid p d p d'" using p w by (simp add: moved_def signatures_of_def)
    then show ?thesis using outcome_same [OF s(2) m] by (intro moved_ok [OF s(1) m]) simp_all
  qed
qed

lemma gate_passed:
  assumes "vote_gate d v p ids signer decision reason = None"
  shows "signer \<in> set ids" "is_current_approver d (p_vault_id p) signer" "signing_standing d v signer = None"
    "signer = p_creator_id p \<longrightarrow> requester_may_approve d p" "vote_of d p signer = None"
    "decision = ''approve'' \<longrightarrow> \<not> cannot_pass d v p ids" "reason_problem decision reason = None"
  using assms by (auto simp: vote_gate_def split: if_split_asm option.split_asm)

lemma device_key_facts:
  assumes "require_device_signing_key env signer key = Inr k"
  shows "key = Some k" "k_owner_id k = Some signer" "k_wrap_domain k = ''device''" "k_status k = ''active''" "k_can_sign k"
  using assms by (auto simp: require_device_signing_key_def split: option.split_asm if_split_asm)

text \<open>Once the gate was passed, recording a vote keeps the ballot sound, whichever way its bytes came.\<close>

lemma recorded_ok:
  assumes "ballot_ok env pid d" "record_vote env now qid signer key decision sb reason pair d = Inr (s, d')"
    "get_proposal d qid = Some p" "snapshot_ids p = Some ids" "signer \<in> set ids" "get_key d (k_id key) = Some key"
    "k_owner_id key = Some signer" "decision \<in> {''approve'', ''reject''}"
  shows "ballot_ok env pid d' \<and> follows pid d d'"
proof -
  from assms(2) obtain row where w: "p_status p = ''open''" "check_vote_bytes env p signer key decision sb = Inr ()"
    "vote_of d p signer = None"
    "finalize_if_decided env now (Some signer) qid
       (write_vote env now p key (new_signature now d p signer key decision sb reason) row d) = Inr d'"
    by (rule record_vote_cases) (use assms(3) in auto)
  let ?w = "write_vote env now p key (new_signature now d p signer key decision sb reason) row d"
  have 1: "ballot_ok env pid ?w \<and> follows pid d ?w"
    using assms w by (intro written_ok) simp_all
  then have "ballot_ok env pid d' \<and> follows pid ?w d'" using w(4) by (intro finalize_ok) simp_all
  with 1 show ?thesis using follows_trans by blast
qed

lemma device_vote_ok:
  assumes "ballot_ok env pid d"
    "record_device_vote env L relayer now qid signer key decision sb reason execution d = (r, d')"
    "\<forall>k. key = Some k \<longrightarrow> get_key d (k_id k) = Some k"
  shows "ballot_ok env pid d' \<and> follows pid d d'"
  using assms(2)
proof (cases rule: device_vote_cases)
  case (refused e d1)
  from refused(1) show ?thesis
  proof (cases rule: authorize_cases)
    case same
    then show ?thesis using assms(1) follows_refl by simp
  qed (rule refresh_ok [OF assms(1)], assumption)+
next
  case (accepted d1 k p pair s)
  from accepted(1) obtain b p' v ids where a: "refresh_expiry env now qid d = Inr (b, d1)"
    "decision \<in> {''approve'', ''reject''}" "loaded d1 qid = Inr (p', v, ids)" "vote_gate d1 v p' ids signer decision reason = None"
    by (cases rule: authorize_cases) auto
  have keys: "db_keys d1 = db_keys d" using a(1) by (rule refresh_keeps_keys)
  note 1 = refresh_ok [OF assms(1) a(1)]
  note k = device_key_facts [OF accepted(2)]
  from a(3) have l: "get_proposal d1 qid = Some p'" "snapshot_ids p' = Some ids"
    by (auto simp: loaded_def split: option.split_asm)
  have "get_key d1 (k_id k) = Some k" using assms(3) k(1) keys by (simp add: get_key_def)
  then have "ballot_ok env pid d' \<and> follows pid d1 d'"
    using 1 l gate_passed(1) [OF a(4)] k(2) a(2) by (intro recorded_ok [OF _ accepted(5)]) simp_all
  with 1 show ?thesis using follows_trans by blast
qed

section \<open>The rest of the program\<close>

text \<open>What keeps the decision's row, its votes and its evidence.\<close>

definition elsewhere :: "int \<Rightarrow> db \<Rightarrow> db \<Rightarrow> bool" where
  "elsewhere pid d d' \<longleftrightarrow>
     (\<forall>p. get_proposal d pid = Some p \<longrightarrow>
        get_proposal d' pid = Some p \<and> signatures_of d' p = signatures_of d p \<and> evidence_kept p d d')"

lemma elsewhere_ok:
  assumes "ballot_ok env pid d" "elsewhere pid d d'"
  shows "ballot_ok env pid d' \<and> follows pid d d'"
proof -
  obtain p ids where s: "sound_decision env pid p ids d" "outcome_ok d p" using assms(1) by (auto simp: ballot_ok_def)
  then have m: "moved pid p d p d'" using assms(2) by (simp add: elsewhere_def moved_def sound_decision_def)
  then show ?thesis using outcome_same [OF s(2) m] by (intro moved_ok [OF s(1) m]) simp_all
qed

end
