(* ===== verification/Password_Attempts.thy ===== *)
theory Password_Attempts
  imports Vault_Prelude Complex_Main
begin

text \<open>
  The in-process part of \<open>security/password_attempts.py\<close>: wrong passwords typed by someone signed in,
  counted per web session under a ceiling per account, and the refusal to check another one while there
  are too many.  A deque is the list of its times, oldest first; times are seconds of the monotonic clock
  as exact rationals.  The rows \<open>settle\<close> writes after the view (ended sessions, alarms) are not modelled.
\<close>

definition MAX_FAILURES :: nat where "MAX_FAILURES = 10"
definition ACCOUNT_MAX_FAILURES :: nat where "ACCOUNT_MAX_FAILURES = 50"
definition WINDOW_SECONDS :: rat where "WINDOW_SECONDS = 900"

record attempts =
  pa_failures :: "int \<times> ustr option \<rightharpoonup> rat list"
  pa_account :: "int \<rightharpoonup> rat list"

definition no_attempts :: attempts where
  "no_attempts = \<lparr>pa_failures = (\<lambda>_. None), pa_account = (\<lambda>_. None)\<rparr>"

definition prune :: "rat \<Rightarrow> rat \<Rightarrow> rat list \<Rightarrow> rat list" where
  "prune now window ts = dropWhile (\<lambda>t. t \<le> now - window) ts"

text \<open>An entry that is pruned to nothing is deleted.\<close>

definition pruned :: "rat \<Rightarrow> rat \<Rightarrow> rat list option \<Rightarrow> rat list option" where
  "pruned now window entry =
     (case entry of
        None \<Rightarrow> None
      | Some ts \<Rightarrow> (if prune now window ts = [] then None else Some (prune now window ts)))"

text \<open>The seconds until this session of this account may try again, \<open>0\<close> if it may now.  The limits are
  at least one.\<close>

definition attempts_wait ::
  "int \<Rightarrow> nat \<Rightarrow> rat \<Rightarrow> rat \<Rightarrow> ustr option \<Rightarrow> nat \<Rightarrow> attempts \<Rightarrow> rat \<times> attempts" where
  "attempts_wait user_id limit window now session_id account_limit a =
     (let key = (user_id, session_id);
          mine = pruned now window (pa_failures a key);
          every = pruned now window (pa_account a user_id);
          wait_mine = (case mine of Some (t # ts) \<Rightarrow> (if limit \<le> length (t # ts) then max 1 (t + window - now) else 0) | _ \<Rightarrow> 0);
          wait_every = (case every of
              Some ts \<Rightarrow> (if account_limit \<le> length ts then max 1 (ts ! (length ts - account_limit) + window - now) else 0)
            | None \<Rightarrow> 0)
      in (max 0 (max wait_mine wait_every),
          a\<lparr>pa_failures := (pa_failures a)(key := mine), pa_account := (pa_account a)(user_id := every)\<rparr>))"

definition keep_newest :: "nat \<Rightarrow> rat list \<Rightarrow> rat list" where
  "keep_newest n ts = drop (length ts - n) ts"

definition attempts_failed :: "int \<Rightarrow> rat \<Rightarrow> ustr option \<Rightarrow> attempts \<Rightarrow> attempts" where
  "attempts_failed user_id now session_id a =
     (let key = (user_id, session_id);
          mine = (case pa_failures a key of None \<Rightarrow> [] | Some ts \<Rightarrow> ts) @ [now];
          every = (case pa_account a user_id of None \<Rightarrow> [] | Some ts \<Rightarrow> ts) @ [now]
      in a\<lparr>pa_failures := (pa_failures a)(key \<mapsto> keep_newest (4 * MAX_FAILURES) mine),
           pa_account := (pa_account a)(user_id \<mapsto> keep_newest (4 * ACCOUNT_MAX_FAILURES) every)\<rparr>)"

definition attempts_succeeded :: "int \<Rightarrow> ustr option \<Rightarrow> attempts \<Rightarrow> attempts" where
  "attempts_succeeded user_id session_id a = a\<lparr>pa_failures := (pa_failures a)((user_id, session_id) := None)\<rparr>"

section \<open>What the services ask\<close>

text \<open>The settings; a limit that is not set is the default.\<close>

record attempt_config =
  pc_enabled :: bool
  pc_limit :: "(nat \<times> rat) option"
  pc_account_limit :: "nat option"

definition attempt_limits :: "attempt_config \<Rightarrow> nat \<times> rat" where
  "attempt_limits c = (case pc_limit c of None \<Rightarrow> (MAX_FAILURES, WINDOW_SECONDS) | Some l \<Rightarrow> l)"

definition account_limit :: "attempt_config \<Rightarrow> nat" where
  "account_limit c = (case pc_account_limit c of None \<Rightarrow> ACCOUNT_MAX_FAILURES | Some n \<Rightarrow> n)"

text \<open>The minutes the refusal names, \<open>None\<close> where the password is to be checked.\<close>

definition password_refusal :: "attempt_config \<Rightarrow> int \<Rightarrow> rat \<Rightarrow> ustr option \<Rightarrow> attempts \<Rightarrow> int option \<times> attempts" where
  "password_refusal c user_id now session_id a =
     (if \<not> pc_enabled c then (None, a)
      else let (limit, window) = attempt_limits c;
               (wait, a') = attempts_wait user_id limit window now session_id (account_limit c) a
           in (if wait = 0 then None else Some (max 1 \<lceil>wait / 60\<rceil>), a'))"

definition record_attempt :: "attempt_config \<Rightarrow> int \<Rightarrow> bool \<Rightarrow> rat \<Rightarrow> ustr option \<Rightarrow> attempts \<Rightarrow> attempts" where
  "record_attempt c user_id ok now session_id a =
     (if \<not> pc_enabled c then a
      else if ok then attempts_succeeded user_id session_id a
      else attempts_failed user_id now session_id a)"

section \<open>What the limit gives\<close>

lemma keep_newest_length: "length (keep_newest n ts) \<le> n"
  by (simp add: keep_newest_def)

text \<open>A session that has as many wrong passwords inside the window as the limit is refused.\<close>

lemma prune_all: "\<forall>t \<in> set ts. now - window < t \<Longrightarrow> prune now window ts = ts"
  by (cases ts) (auto simp: prune_def)

lemma session_locked:
  assumes "pc_enabled c" "attempt_limits c = (limit, window)" "0 < limit" "limit \<le> length ts"
    "pa_failures a (user_id, session_id) = Some ts" "\<forall>t \<in> set ts. now - window < t"
  shows "\<exists>minutes. fst (password_refusal c user_id now session_id a) = Some minutes \<and> 1 \<le> minutes"
proof -
  obtain t rest where ts: "ts = t # rest" using assms(3,4) by (cases ts) auto
  have p: "pruned now window (pa_failures a (user_id, session_id)) = Some (t # rest)"
    using assms(5) prune_all [OF assms(6)] ts by (simp add: pruned_def)
  have "fst (attempts_wait user_id limit window now session_id (account_limit c) a) > 0"
    using assms(4) ts by (auto simp: attempts_wait_def Let_def p max_def)
  then show ?thesis using assms(1,2) by (auto simp: password_refusal_def split: prod.splits)
qed

text \<open>A right password clears only its own session: the account's count stands.\<close>

lemma success_clears_session:
  "pa_failures (attempts_succeeded user_id session_id a) (user_id, session_id) = None"
  "pa_account (attempts_succeeded user_id session_id a) = pa_account a"
  "(u, s) \<noteq> (user_id, session_id) \<Longrightarrow> pa_failures (attempts_succeeded user_id session_id a) (u, s) = pa_failures a (u, s)"
  by (auto simp: attempts_succeeded_def)

end
