(* ===== verification/Recovery_Cancel.thy ===== *)
theory Recovery_Cancel
  imports Ledger
begin

text \<open>
  Cancelling an account's recoveries: the rows of \<open>models/recovery.py\<close>, \<open>cancel\<close>, \<open>recovery_due\<close>,
  \<open>password_proven\<close> and \<open>settle_password_proofs\<close> of \<open>services/recovery_service.py\<close>, \<open>revoke\<close> of
  \<open>recovery_kit.py\<close>, and \<open>cancellable\<close> and \<open>end_live_approvals\<close> of \<open>recovery_phone.py\<close>.  Whoever proves the
  account's password cancels what was started to get round it, in the same transaction; a vote from the
  browser is such a proof.

  The recovery tables are a record of their own beside the database; an operation takes and returns both.
  The rows have the columns these operations read or write and those that say what they cancel; the times
  and tokens of starting and claiming a recovery are left out.  The conditional updates that settle races
  are tests of the row.  Notices are left out.
\<close>

section \<open>Rows\<close>

record recovery_kit =
  kt_id :: int
  kt_uuid :: ustr
  kt_user_id :: int
  kt_state :: ustr
  kt_kit_salt :: bytes
  kt_kdf_params :: ustr
  kt_kem_alg :: ustr
  kt_kem_public_key :: bytes
  kt_kem_public_key_mac :: bytes
  kt_kem_sk_nonce :: "bytes option"
  kt_kem_sk_wrapped :: "bytes option"
  kt_created_at :: int
  kt_confirmed_at :: "int option"
  kt_revoked_at :: "int option"
  kt_revoked_reason :: "ustr option"

record kit_wrap =
  kw_kit_id :: int
  kw_key_id :: int
  kw_kem_ciphertext :: bytes
  kw_nonce :: bytes
  kw_wrapped :: bytes

record recovery_request =
  rq_id :: int
  rq_uuid :: ustr
  rq_user_id :: int
  rq_route :: ustr
  rq_state :: ustr
  rq_kit_id :: "int option"
  rq_created_at :: int
  rq_completes_at :: "int option"
  rq_finished_at :: "int option"
  rq_cancelled_by_id :: "int option"
  rq_cancelled_as :: "ustr option"
  rq_cancel_reason :: "ustr option"
  rq_kit_burned :: bool
  rq_pending_password_hash :: "ustr option"
  rq_pending_kek_salt :: "bytes option"
  rq_pending_kdf_params :: "ustr option"
  rq_pending_public_key :: "bytes option"
  rq_pending_sk_wrapped :: "bytes option"
  rq_pending_sk_nonce :: "bytes option"

record request_wrap =
  rw_request_id :: int
  rw_key_id :: int
  rw_wrapped_sha256 :: bytes
  rw_new_nonce :: "bytes option"
  rw_new_wrapped :: "bytes option"

record phone_approval =
  pv_id :: int
  pv_request_id :: int
  pv_purpose :: ustr
  pv_device_id :: int
  pv_key_id :: int
  pv_state :: ustr

record recovery_db =
  rd_kits :: "recovery_kit list"
  rd_kit_wraps :: "kit_wrap list"
  rd_requests :: "recovery_request list"
  rd_request_wraps :: "request_wrap list"
  rd_phone_approvals :: "phone_approval list"

definition no_recoveries :: recovery_db where
  "no_recoveries = \<lparr>rd_kits = [], rd_kit_wraps = [], rd_requests = [], rd_request_wraps = [], rd_phone_approvals = []\<rparr>"

definition RECOVERY_OPEN_STATES :: "ustr list" where
  "RECOVERY_OPEN_STATES = [''claimed'', ''approving'', ''waiting'']"

definition PHONE_PRECLAIM_STATES :: "ustr list" where
  "PHONE_PRECLAIM_STATES = [''phone_pending'', ''phone_approved'']"

section \<open>Reading\<close>

definition open_request :: "recovery_db \<Rightarrow> int \<Rightarrow> recovery_request option" where
  "open_request r user_id =
     find (\<lambda>q. rq_user_id q = user_id \<and> rq_state q \<in> set RECOVERY_OPEN_STATES) (rd_requests r)"

text \<open>A request that waits has a time it completes at.\<close>

definition recovery_due :: "recovery_db \<Rightarrow> int \<Rightarrow> int \<Rightarrow> bool" where
  "recovery_due r now user_id \<longleftrightarrow>
     (case open_request r user_id of
        None \<Rightarrow> False
      | Some q \<Rightarrow> rq_state q = ''waiting'' \<and> (case rq_completes_at q of None \<Rightarrow> False | Some t \<Rightarrow> t \<le> now))"

definition cancellable :: "recovery_db \<Rightarrow> int \<Rightarrow> int list" where
  "cancellable r user_id =
     sort (map rq_id (filter (\<lambda>q. rq_user_id q = user_id
        \<and> rq_state q \<in> set (RECOVERY_OPEN_STATES @ PHONE_PRECLAIM_STATES)) (rd_requests r)))"

section \<open>Ending a kit\<close>

definition user_event :: "ustr \<Rightarrow> json \<Rightarrow> int \<Rightarrow> int \<Rightarrow> ledger_event" where
  "user_event event payload actor_id user_id =
     \<lparr>ev_type = event, ev_payload = payload, ev_actor = ''user:'' @ dec_int actor_id, ev_actor_id = Some actor_id,
      ev_vault_id = None, ev_ref_type = Some ''user'', ev_ref_id = Some (dec_int user_id)\<rparr>"

definition revoke_kit ::
  "vault_env \<Rightarrow> int \<Rightarrow> int \<Rightarrow> ustr \<Rightarrow> bool \<Rightarrow> recovery_db \<times> db \<Rightarrow> bool \<times> recovery_db \<times> db" where
  "revoke_kit env now kit_id reason only_active = (\<lambda>(r, d).
     case find (\<lambda>k. kt_id k = kit_id) (rd_kits r) of
       None \<Rightarrow> (False, r, d)
     | Some kit \<Rightarrow>
         (if kt_state kit \<notin> set (if only_active then [''active''] else [''active'', ''stale'']) then (False, r, d)
          else (True,
            r\<lparr>rd_kits := map (\<lambda>k. if kt_id k = kit_id
                then k\<lparr>kt_state := ''revoked'', kt_revoked_at := Some now, kt_revoked_reason := Some reason,
                       kt_kem_sk_wrapped := None, kt_kem_sk_nonce := None\<rparr> else k) (rd_kits r),
              rd_kit_wraps := filter (\<lambda>w. kw_kit_id w \<noteq> kit_id) (rd_kit_wraps r)\<rparr>,
            snd (ledger_append env now
              (user_event ''recovery_kit_revoked''
                (JObj [(''user_id'', JInt (kt_user_id kit)), (''kit_uuid'', JStr (kt_uuid kit)), (''reason'', JStr reason)])
                (kt_user_id kit) (kt_user_id kit)) d))))"

section \<open>Cancelling a request\<close>

definition end_live_approvals :: "int \<Rightarrow> recovery_db \<Rightarrow> recovery_db" where
  "end_live_approvals request_id r =
     r\<lparr>rd_phone_approvals := map (\<lambda>v. if pv_request_id v = request_id \<and> pv_state v \<in> {''pending'', ''approved''}
        then v\<lparr>pv_state := ''ended''\<rparr> else v) (rd_phone_approvals r)\<rparr>"

definition erase_pending :: "recovery_request \<Rightarrow> recovery_request" where
  "erase_pending q = q\<lparr>rq_pending_password_hash := None, rq_pending_kek_salt := None, rq_pending_kdf_params := None,
     rq_pending_public_key := None, rq_pending_sk_wrapped := None, rq_pending_sk_nonce := None\<rparr>"

definition still_cancellable :: "int \<Rightarrow> recovery_request \<Rightarrow> bool" where
  "still_cancellable now q \<longleftrightarrow>
     (if rq_state q = ''waiting'' then (case rq_completes_at q of None \<Rightarrow> False | Some t \<Rightarrow> now < t)
      else rq_state q \<in> set PHONE_PRECLAIM_STATES)"

definition cancelled_row :: "int \<Rightarrow> int option \<Rightarrow> ustr \<Rightarrow> ustr \<Rightarrow> bool \<Rightarrow> recovery_request \<Rightarrow> recovery_request" where
  "cancelled_row now actor as_role reason burn q =
     erase_pending (q\<lparr>rq_state := ''cancelled'', rq_finished_at := Some now, rq_cancelled_by_id := actor,
       rq_cancelled_as := Some as_role, rq_cancel_reason := Some reason,
       rq_kit_burned := (burn \<and> rq_route q = ''kit'')\<rparr>)"

text \<open>\<open>actor\<close> is the person cancelling, where it is a person.\<close>

definition cancel_request ::
  "vault_env \<Rightarrow> int \<Rightarrow> int option \<Rightarrow> ustr \<Rightarrow> ustr \<Rightarrow> bool \<Rightarrow> int \<Rightarrow> recovery_db \<times> db \<Rightarrow> bool \<times> recovery_db \<times> db" where
  "cancel_request env now actor as_role reason burn request_id = (\<lambda>(r, d).
     case find (\<lambda>q. rq_id q = request_id) (rd_requests r) of
       None \<Rightarrow> (False, r, d)
     | Some q \<Rightarrow>
         (if \<not> still_cancellable now q then (False, r, d)
          else
            let q' = cancelled_row now actor as_role reason burn q;
                r1 = end_live_approvals request_id
                  (r\<lparr>rd_requests := map (\<lambda>x. if rq_id x = request_id then q' else x) (rd_requests r),
                     rd_request_wraps := filter (\<lambda>w. rw_request_id w \<noteq> request_id) (rd_request_wraps r)\<rparr>)
            in if rq_state q = ''phone_pending'' then (True, r1, d)
               else
                 let (r2, d2) = (case rq_kit_id q of
                        Some kit_id \<Rightarrow> (if rq_kit_burned q' then snd (revoke_kit env now kit_id ''burned'' False (r1, d)) else (r1, d))
                      | None \<Rightarrow> (r1, d));
                     who = (case actor of Some i \<Rightarrow> i | None \<Rightarrow> rq_user_id q)
                 in (True, r2, snd (ledger_append env now
                      (user_event ''recovery_cancelled''
                        (JObj [(''request_uuid'', JStr (rq_uuid q)),
                               (''by'', (case actor of Some i \<Rightarrow> JInt i | None \<Rightarrow> JStr as_role)),
                               (''as'', JStr as_role), (''reason'', JStr reason), (''kit_burned'', JBool (rq_kit_burned q'))])
                        who (rq_user_id q)) d2))))"

section \<open>Proving the password\<close>

definition password_proven :: "vault_env \<Rightarrow> int \<Rightarrow> ustr \<Rightarrow> int \<Rightarrow> recovery_db \<times> db \<Rightarrow> recovery_db \<times> db" where
  "password_proven env now via user_id rd =
     fold (\<lambda>request_id rd. snd (cancel_request env now (Some user_id) ''password'' (''password_used:'' @ via) True request_id rd))
       (cancellable (fst rd) user_id) rd"

text \<open>At the end of a request the proofs made in it are made again in a transaction of their own, whatever
  became of the request's.\<close>

definition settle_password_proofs :: "vault_env \<Rightarrow> int \<Rightarrow> (int \<times> ustr) list \<Rightarrow> recovery_db \<times> db \<Rightarrow> recovery_db \<times> db" where
  "settle_password_proofs env now proofs rd =
     fold (\<lambda>(user_id, via) rd.
         if \<exists>u \<in> set (db_users (snd rd)). u_id u = user_id then password_proven env now via user_id rd else rd)
       proofs rd"

section \<open>What is written to the rest of the database\<close>

text \<open>Entries of the ledger, and nothing else.\<close>

definition ledger_grows :: "db \<Rightarrow> db \<Rightarrow> bool" where
  "ledger_grows d d' \<longleftrightarrow> (\<exists>es. d' = d\<lparr>db_entries := db_entries d @ es\<rparr>
     \<and> (\<forall>e \<in> set es. le_event_type e \<in> {''genesis'', ''recovery_cancelled'', ''recovery_kit_revoked''}))"

lemma ledger_grows_refl: "ledger_grows d d"
  unfolding ledger_grows_def by (rule exI [of _ "[]"]) simp

lemma ledger_grows_trans: "ledger_grows d d' \<Longrightarrow> ledger_grows d' d'' \<Longrightarrow> ledger_grows d d''"
  unfolding ledger_grows_def by (elim exE conjE, rule_tac x = "es @ esa" in exI) auto

lemma ledger_grows_append:
  assumes "ev_type ev \<in> {''recovery_cancelled'', ''recovery_kit_revoked''}"
  shows "ledger_grows d (snd (ledger_append env now ev d))"
proof (cases "last_entry d")
  case (Some e)
  then have "snd (ledger_append env now ev d) = d\<lparr>db_entries := db_entries d @ [chained_entry (ce_hash env) now ev e]\<rparr>"
    by (simp add: ledger_append_def Let_def)
  moreover have "le_event_type (chained_entry (ce_hash env) now ev e) = ev_type ev" by (simp add: chained_entry_def Let_def)
  ultimately show ?thesis using assms unfolding ledger_grows_def by (intro exI [of _ "[chained_entry (ce_hash env) now ev e]"]) simp
next
  case None
  let ?g = "genesis_entry (ce_hash env) now"
  have "db_entries d = []" using None by (simp add: last_entry_def)
  then have "snd (ledger_append env now ev d) = d\<lparr>db_entries := db_entries d @ [?g, chained_entry (ce_hash env) now ev ?g]\<rparr>"
    using None by (simp add: ledger_append_def ensure_genesis_def Let_def)
  moreover have "le_event_type (chained_entry (ce_hash env) now ev ?g) = ev_type ev" "le_event_type ?g = ''genesis''"
    by (simp_all add: chained_entry_def genesis_entry_def Let_def)
  ultimately show ?thesis using assms unfolding ledger_grows_def
    by (intro exI [of _ "[?g, chained_entry (ce_hash env) now ev ?g]"]) simp
qed

lemma user_event_type [simp]: "ev_type (user_event event payload a u) = event"
  by (simp add: user_event_def)

lemma revoke_kit_grows: "ledger_grows (snd rd) (snd (snd (revoke_kit env now kit reason only rd)))"
  by (auto simp: revoke_kit_def ledger_grows_refl ledger_grows_append split: prod.split option.split)

lemma cancel_request_grows: "ledger_grows (snd rd) (snd (snd (cancel_request env now actor as_role reason burn i rd)))"
proof -
  obtain r d where rd: "rd = (r, d)" by (cases rd)
  have k: "ledger_grows d d2" if "snd (revoke_kit env now kit x only (r1, d)) = (r2, d2)" for kit x only r1 r2 d2
    using revoke_kit_grows [of "(r1, d)" env now kit x only] that by simp
  then have kit: "ledger_grows d d2" if "(case kid of Some kit \<Rightarrow> (if b then snd (revoke_kit env now kit x only (r1, d)) else (r1, d))
      | None \<Rightarrow> (r1, d)) = (r2, d2)" for kid b x only r1 r2 d2
    using that ledger_grows_refl by (auto split: option.split_asm if_split_asm)
  have ev: "ledger_grows e (snd (ledger_append env now (user_event ''recovery_cancelled'' p a u) e))" for p a u e
    by (rule ledger_grows_append) simp
  show ?thesis
    unfolding rd cancel_request_def Let_def
    by (auto simp: ledger_grows_refl simp del: o_apply intro: ledger_grows_trans [OF kit ev] split: option.split prod.split simp flip: split_def)
qed

lemma fold_grows:
  assumes "\<And>x rd. ledger_grows (snd rd) (snd (f x rd))"
  shows "ledger_grows (snd rd) (snd (fold f xs rd))"
proof (induction xs arbitrary: rd)
  case (Cons x xs)
  show ?case using ledger_grows_trans [OF assms Cons.IH] by simp
qed (simp add: ledger_grows_refl)

lemma password_proven_grows: "ledger_grows (snd rd) (snd (password_proven env now via user_id rd))"
  unfolding password_proven_def by (rule fold_grows) (rule cancel_request_grows)

lemma settle_grows: "ledger_grows (snd rd) (snd (settle_password_proofs env now proofs rd))"
  unfolding settle_password_proofs_def
proof (rule fold_grows)
  fix x :: "int \<times> ustr" and rd :: "recovery_db \<times> db"
  obtain u via where x: "x = (u, via)" by (cases x)
  show "ledger_grows (snd rd) (snd ((\<lambda>(user_id, via) rd. if \<exists>u \<in> set (db_users (snd rd)). u_id u = user_id
      then password_proven env now via user_id rd else rd) x rd))"
    unfolding x prod.case using ledger_grows_refl password_proven_grows by simp
qed

end
