(* ===== verification/Key_Service.thy ===== *)
theory Key_Service
  imports Password_Attempts Recovery_Cancel Execution
begin

text \<open>
  Signing with a key the server holds wrapped: \<open>active_signing_key\<close>, \<open>unlock_secret_key\<close> and
  \<open>sign_messages\<close> of \<open>services/key_service.py\<close>, with \<open>derive_kek\<close> of \<open>crypto/kdf.py\<close>.  Argon2id is a
  parameter, and the cipher and the signature scheme are providers of the registry.

  The wrong passwords counted in this process survive an exception; what was written to the database does
  not.  So an operation returns its result, the database inside where it succeeds, and the counts beside it.
\<close>

section \<open>A request and its settings\<close>

record password_env =
  pe_argon2 :: "bytes \<Rightarrow> bytes \<Rightarrow> int \<Rightarrow> int \<Rightarrow> int \<Rightarrow> int \<Rightarrow> bytes"
  pe_attempts :: attempt_config

text \<open>The two clocks a request reads, and its web session.\<close>

record web_request =
  web_now :: int
  web_monotonic :: rat
  web_session :: "ustr option"

datatype key_error =
    No_private_half
  | Password_locked int
  | Recovery_took_effect
  | Wrong_password
  | Sign_fault
  | Key_exception crash

section \<open>Choosing the key\<close>

definition active_signing_key :: "db \<Rightarrow> int \<Rightarrow> key_row option" where
  "active_signing_key d user_id =
     last_by (\<lambda>k. (k_created_at k, k_id k))
       (filter (\<lambda>k. k_owner_id k = Some user_id \<and> k_role k = ''sig'' \<and> k_status k = ''active'' \<and> k_wrap_domain k = ''password'')
         (db_keys d))"

section \<open>The key-encryption key\<close>

definition KEK_LENGTH :: int where "KEK_LENGTH = 32"
definition DEFAULT_PARAMS :: "(ustr \<times> int) list" where
  "DEFAULT_PARAMS = [(''time_cost'', 3), (''memory_cost'', 65536), (''parallelism'', 4)]"

text \<open>A stored parameter, or its default; what is not an integer, Argon2 refuses.\<close>

definition kdf_param :: "(ustr \<times> json) list \<Rightarrow> ustr \<Rightarrow> int \<Rightarrow> crash + int" where
  "kdf_param params name otherwise =
     (case map_of params name of None \<Rightarrow> Inr otherwise | Some (JInt i) \<Rightarrow> Inr i | Some _ \<Rightarrow> Inl Type_error)"

definition default_param :: "ustr \<Rightarrow> int" where
  "default_param name = the (map_of DEFAULT_PARAMS name)"

definition derive_kek :: "password_env \<Rightarrow> ustr \<Rightarrow> bytes \<Rightarrow> (ustr \<times> json) list \<Rightarrow> crash + bytes" where
  "derive_kek P password salt params =
     bindE (kdf_param params ''time_cost'' (default_param ''time_cost'')) (\<lambda>t.
     bindE (kdf_param params ''memory_cost'' (default_param ''memory_cost'')) (\<lambda>m.
     bindE (kdf_param params ''parallelism'' (default_param ''parallelism'')) (\<lambda>lanes.
     bindE (kdf_param params ''length'' KEK_LENGTH) (\<lambda>size.
       Inr (pe_argon2 P password salt t m lanes size)))))"

definition derive_user_kek :: "password_env \<Rightarrow> user_row \<Rightarrow> ustr \<Rightarrow> crash + bytes" where
  "derive_user_kek P u password =
     (case loads (u_kdf_params u) of Some (JObj params) \<Rightarrow> derive_kek P password (u_kek_salt u) params | _ \<Rightarrow> Inl Type_error)"

section \<open>Unlocking\<close>

definition WRAP_AAD :: bytes where "WRAP_AAD = ''qvault:sk-wrap:v1''"

text \<open>The wrapped private half under the key the password gives; \<open>None\<close> where the tag does not verify.\<close>

definition unwrap_with :: "vault_env \<Rightarrow> password_env \<Rightarrow> user_row \<Rightarrow> ustr \<Rightarrow> bytes \<Rightarrow> bytes \<Rightarrow> crash + bytes option" where
  "unwrap_with env P u password nonce wrapped =
     bindE (derive_user_kek P u password) (\<lambda>kek.
       case symmetric (ce_registry env) SYMMETRIC_ALG of
         Inl e \<Rightarrow> Inl (Lookup_failed e)
       | Inr cipher \<Rightarrow> Inr (sy_decrypt cipher kek nonce wrapped WRAP_AAD))"

type_synonym vault_state = "recovery_db \<times> db"

definition unlock_secret_key ::
  "vault_env \<Rightarrow> password_env \<Rightarrow> web_request \<Rightarrow> user_row \<Rightarrow> key_row \<Rightarrow> ustr \<Rightarrow> vault_state \<Rightarrow> attempts
     \<Rightarrow> (key_error + bytes \<times> vault_state) \<times> attempts" where
  "unlock_secret_key env P web u key password s a =
     (case (k_secret_key_nonce key, k_secret_key_wrapped key) of
        (Some nonce, Some wrapped) \<Rightarrow>
          (case password_refusal (pe_attempts P) (u_id u) (web_monotonic web) (web_session web) a of
             (Some minutes, a1) \<Rightarrow> (Inl (Password_locked minutes), a1)
           | (None, a1) \<Rightarrow>
               (if recovery_due (fst s) (web_now web) (u_id u) then (Inl Recovery_took_effect, a1)
                else
                  let count = (\<lambda>ok. record_attempt (pe_attempts P) (u_id u) ok (web_monotonic web) (web_session web) a1) in
                  case unwrap_with env P u password nonce wrapped of
                    Inl c \<Rightarrow> (Inl (Key_exception c), a1)
                  | Inr None \<Rightarrow> (Inl Wrong_password, count False)
                  | Inr (Some secret) \<Rightarrow>
                      (Inr (secret, password_proven env (web_now web) ''signing'' (u_id u) s), count True)))
      | _ \<Rightarrow> (Inl No_private_half, a))"

section \<open>Signing\<close>

text \<open>Each signature is verified before any is returned; \<open>None\<close> where one does not verify.\<close>

fun sign_each :: "signature_provider \<Rightarrow> bytes \<Rightarrow> bytes \<Rightarrow> bytes list \<Rightarrow> bytes list option" where
  "sign_each provider public_key secret [] = Some []"
| "sign_each provider public_key secret (m # ms) =
     (let sig = sp_sign provider secret m in
      if \<not> sp_verify provider public_key m sig then None
      else map_option ((#) sig) (sign_each provider public_key secret ms))"

definition sign_messages ::
  "vault_env \<Rightarrow> password_env \<Rightarrow> web_request \<Rightarrow> user_row \<Rightarrow> key_row \<Rightarrow> ustr \<Rightarrow> bytes list \<Rightarrow> vault_state \<Rightarrow> attempts
     \<Rightarrow> (key_error + bytes list \<times> vault_state) \<times> attempts" where
  "sign_messages env P web u key password messages s a =
     (case find_provider env (k_alg_id key) of
        Inl c \<Rightarrow> (Inl (Key_exception c), a)
      | Inr provider \<Rightarrow>
          (case unlock_secret_key env P web u key password s a of
             (Inl e, a') \<Rightarrow> (Inl e, a')
           | (Inr (secret, s'), a') \<Rightarrow>
               (case sign_each provider (k_public_key key) secret messages of
                  None \<Rightarrow> (Inl Sign_fault, a')
                | Some sigs \<Rightarrow> (Inr (sigs, s'), a'))))"

definition sign_with_key ::
  "vault_env \<Rightarrow> password_env \<Rightarrow> web_request \<Rightarrow> user_row \<Rightarrow> key_row \<Rightarrow> ustr \<Rightarrow> bytes \<Rightarrow> vault_state \<Rightarrow> attempts
     \<Rightarrow> (key_error + bytes \<times> vault_state) \<times> attempts" where
  "sign_with_key env P web u key password message s a =
     (case sign_messages env P web u key password [message] s a of
        (Inl e, a') \<Rightarrow> (Inl e, a') | (Inr (sigs, s'), a') \<Rightarrow> (Inr (hd sigs, s'), a'))"

section \<open>Facts\<close>

lemma active_signing_key_facts:
  assumes "active_signing_key d user_id = Some k"
  shows "k \<in> set (db_keys d)" "k_owner_id k = Some user_id" "k_role k = ''sig''" "k_status k = ''active''"
    "k_wrap_domain k = ''password''"
  using last_by_in [OF assms [unfolded active_signing_key_def]] by auto

text \<open>The key chosen is the newest: no other active one was made later.\<close>

lemma active_signing_key_newest:
  assumes "active_signing_key d user_id = Some k" "k' \<in> set (db_keys d)" "k_owner_id k' = Some user_id" "k_role k' = ''sig''"
    "k_status k' = ''active''" "k_wrap_domain k' = ''password''"
  shows "(k_created_at k', k_id k') \<le> (k_created_at k, k_id k)"
  using last_by_max [OF assms(1) [unfolded active_signing_key_def]] assms(2-) by simp

lemma unlock_cases:
  assumes "unlock_secret_key env P web u key password s a = (Inr (secret, s'), a')"
  obtains nonce wrapped where "k_secret_key_nonce key = Some nonce" "k_secret_key_wrapped key = Some wrapped"
    "fst (password_refusal (pe_attempts P) (u_id u) (web_monotonic web) (web_session web) a) = None"
    "\<not> recovery_due (fst s) (web_now web) (u_id u)" "unwrap_with env P u password nonce wrapped = Inr (Some secret)"
    "s' = password_proven env (web_now web) ''signing'' (u_id u) s"
  using assms
  by (auto simp: unlock_secret_key_def Let_def split: option.splits sum.splits prod.splits if_split_asm)

lemma sign_each_Some:
  "sign_each provider pk secret ms = Some sigs \<longleftrightarrow>
     sigs = map (sp_sign provider secret) ms \<and> (\<forall>m \<in> set ms. sp_verify provider pk m (sp_sign provider secret m))"
  by (induction ms arbitrary: sigs) (auto simp: Let_def)

text \<open>Nothing is emitted that was not just verified, and what is emitted was made with the private half the
  password opens.\<close>

lemma sign_messages_cases:
  assumes "sign_messages env P web u key password messages s a = (Inr (sigs, s'), a')"
  obtains provider secret nonce wrapped where "find_provider env (k_alg_id key) = Inr provider"
    "k_secret_key_nonce key = Some nonce" "k_secret_key_wrapped key = Some wrapped"
    "fst (password_refusal (pe_attempts P) (u_id u) (web_monotonic web) (web_session web) a) = None"
    "\<not> recovery_due (fst s) (web_now web) (u_id u)" "unwrap_with env P u password nonce wrapped = Inr (Some secret)"
    "s' = password_proven env (web_now web) ''signing'' (u_id u) s"
    "sigs = map (sp_sign provider secret) messages"
    "\<forall>m \<in> set messages. sp_verify provider (k_public_key key) m (sp_sign provider secret m)"
proof -
  obtain provider where p: "find_provider env (k_alg_id key) = Inr provider"
    using assms by (cases "find_provider env (k_alg_id key)") (simp_all add: sign_messages_def)
  obtain secret a1 where u: "unlock_secret_key env P web u key password s a = (Inr (secret, s'), a1)"
    "sign_each provider (k_public_key key) secret messages = Some sigs"
    using assms p by (auto simp: sign_messages_def split: sum.splits prod.splits option.splits)
  from u(1) show thesis
    by (rule unlock_cases) (use p u(2) in \<open>auto simp: sign_each_Some intro: that\<close>)
qed

text \<open>A wrong password is counted, and opens nothing.\<close>

lemma wrong_password_counted:
  assumes "k_secret_key_nonce key = Some nonce" "k_secret_key_wrapped key = Some wrapped"
    "password_refusal (pe_attempts P) (u_id u) (web_monotonic web) (web_session web) a = (None, a1)"
    "\<not> recovery_due (fst s) (web_now web) (u_id u)" "unwrap_with env P u password nonce wrapped = Inr None"
  shows "unlock_secret_key env P web u key password s a
    = (Inl Wrong_password, record_attempt (pe_attempts P) (u_id u) False (web_monotonic web) (web_session web) a1)"
  using assms by (simp add: unlock_secret_key_def Let_def)

lemma locked_checks_nothing:
  assumes "fst (password_refusal (pe_attempts P) (u_id u) (web_monotonic web) (web_session web) a) \<noteq> None"
  shows "\<exists>e. fst (unlock_secret_key env P web u key password s a) = Inl e \<and> e \<in> {No_private_half} \<union> range Password_locked"
  using assms by (auto simp: unlock_secret_key_def split: option.splits prod.splits)

end
