(* ===== verification/Browser_Vote.thy ===== *)
theory Browser_Vote
  imports Approval Key_Service
begin

text \<open>
  \<open>cast_vote\<close> of \<open>services/approval_service.py\<close>: the vote of someone signed in on the website.  The server
  passes the gate, unlocks the person's own key with the password just typed, signs, and records the vote.
  What unlocking writes (the recoveries it cancels) is kept only with the vote: where the operation
  raises, the request rolls back what the gate did not commit itself, and the wrong passwords counted stay.
\<close>

datatype cast_error = Vote_refused approval_error | Key_refused key_error

section \<open>What is signed\<close>

text \<open>The digest the treasury checks, for an approval of a payment.\<close>

definition vote_execution_digest ::
  "vault_env \<Rightarrow> evm_lib \<Rightarrow> relayer_view option \<Rightarrow> db \<Rightarrow> proposal_row \<Rightarrow> int \<Rightarrow> key_row \<Rightarrow> ustr \<Rightarrow> approval_error + bytes option" where
  "vote_execution_digest env L relayer d p signer_id key decision =
     (if decision = ''approve'' \<and> is_payment d p
      then bindE (payment_digest env L relayer d p signer_id key) (\<lambda>digest. Inr (Some digest))
      else Inr None)"

text \<open>One unlock signs both: the vote's signature, and the digest with its own.\<close>

definition sign_vote ::
  "vault_env \<Rightarrow> password_env \<Rightarrow> web_request \<Rightarrow> user_row \<Rightarrow> key_row \<Rightarrow> ustr \<Rightarrow> bytes \<Rightarrow> bytes option \<Rightarrow> vault_state \<Rightarrow> attempts
     \<Rightarrow> (key_error + (bytes \<times> (bytes \<times> bytes) option) \<times> vault_state) \<times> attempts" where
  "sign_vote env P web signer key password message digest s a =
     (case digest of
        Some x \<Rightarrow>
          (case sign_messages env P web signer key password [message, x] s a of
             (Inl e, a') \<Rightarrow> (Inl e, a')
           | (Inr (sigs, s'), a') \<Rightarrow> (Inr ((sigs ! 0, Some (x, sigs ! 1)), s'), a'))
      | None \<Rightarrow>
          (case sign_with_key env P web signer key password message s a of
             (Inl e, a') \<Rightarrow> (Inl e, a')
           | (Inr (sig, s'), a') \<Rightarrow> (Inr ((sig, None), s'), a')))"

section \<open>The vote\<close>

text \<open>Everything between the gate and the write: the key, the bytes, the digest, the signatures.\<close>

definition prepare_vote ::
  "vault_env \<Rightarrow> password_env \<Rightarrow> evm_lib \<Rightarrow> relayer_view option \<Rightarrow> web_request \<Rightarrow> int \<Rightarrow> user_row \<Rightarrow> ustr \<Rightarrow> ustr
     \<Rightarrow> vault_state \<Rightarrow> attempts \<Rightarrow> (cast_error + (key_row \<times> bytes \<times> (bytes \<times> bytes) option) \<times> vault_state) \<times> attempts" where
  "prepare_vote env P L relayer web pid signer password decision s a =
     (case (active_signing_key (snd s) (u_id signer), get_proposal (snd s) pid) of
        (None, _) \<Rightarrow> (Inl (Vote_refused No_signing_key), a)
      | (Some key, None) \<Rightarrow> (Inl (Vote_refused (Raised_exception No_row)), a)
      | (Some key, Some p) \<Rightarrow>
          (case vote_signing_bytes (p_payload_hash p) decision (u_id signer) of
             Inl _ \<Rightarrow> (Inl (Vote_refused (Raised_exception Bad_message)), a)
           | Inr message \<Rightarrow>
               (case vote_execution_digest env L relayer (snd s) p (u_id signer) key decision of
                  Inl e \<Rightarrow> (Inl (Vote_refused e), a)
                | Inr digest \<Rightarrow>
                    (case sign_vote env P web signer key password message digest s a of
                       (Inl e, a') \<Rightarrow> (Inl (Key_refused e), a')
                     | (Inr ((sig, execution), s'), a') \<Rightarrow> (Inr ((key, sig, execution), s'), a')))))"

definition cast_vote ::
  "vault_env \<Rightarrow> password_env \<Rightarrow> evm_lib \<Rightarrow> relayer_view option \<Rightarrow> web_request \<Rightarrow> int \<Rightarrow> user_row \<Rightarrow> ustr \<Rightarrow> ustr \<Rightarrow> json
     \<Rightarrow> vault_state \<Rightarrow> attempts \<Rightarrow> (cast_error + signature_row) \<times> vault_state \<times> attempts" where
  "cast_vote env P L relayer web pid signer password decision reason s a =
     (case authorize_vote env (web_now web) pid (u_id signer) decision reason (snd s) of
        (Inl e, d) \<Rightarrow> (Inl (Vote_refused e), (fst s, d), a)
      | (Inr _, d) \<Rightarrow>
          (case prepare_vote env P L relayer web pid signer password decision (fst s, d) a of
             (Inl e, a') \<Rightarrow> (Inl e, (fst s, d), a')
           | (Inr ((key, sig, execution), (r', d')), a') \<Rightarrow>
               (case record_vote env (web_now web) pid (u_id signer) key decision sig reason execution d' of
                  Inl e \<Rightarrow> (Inl (Vote_refused e), (fst s, d), a')
                | Inr (row, d'') \<Rightarrow> (Inr row, (r', d''), a'))))"

end
