(* ===== verification/Browser_Vote_Proofs.thy ===== *)
theory Browser_Vote_Proofs
  imports Approval_Proofs Browser_Vote
begin

text \<open>
  The vote from the browser keeps a ballot sound: it passes the same gate and the same write as the vote
  from a phone, with a key the person owns, and what unlocking writes in between is none of the
  decision's evidence.
\<close>

section \<open>Cancelled recoveries leave decisions alone\<close>

lemma ledger_grows_tables:
  assumes "ledger_grows d d'"
  shows "db_keys d' = db_keys d" "db_proposals d' = db_proposals d" "db_signatures d' = db_signatures d"
    "db_execution_signatures d' = db_execution_signatures d" "db_vaults d' = db_vaults d" "db_actions d' = db_actions d"
    "db_files d' = db_files d" "db_treasuries d' = db_treasuries d" "db_users d' = db_users d"
    "db_workspaces d' = db_workspaces d" "db_workspace_members d' = db_workspace_members d"
    "db_vault_members d' = db_vault_members d" "db_vault_rules d' = db_vault_rules d" "db_lifecycles d' = db_lifecycles d"
    "creation_entry d' p = creation_entry d p"
proof -
  obtain es where es: "d' = d\<lparr>db_entries := db_entries d @ es\<rparr>"
    "\<forall>e \<in> set es. le_event_type e \<in> {''genesis'', ''recovery_cancelled'', ''recovery_kit_revoked''}"
    using assms by (auto simp: ledger_grows_def)
  show "db_keys d' = db_keys d" "db_proposals d' = db_proposals d" "db_signatures d' = db_signatures d"
    "db_execution_signatures d' = db_execution_signatures d" "db_vaults d' = db_vaults d" "db_actions d' = db_actions d"
    "db_files d' = db_files d" "db_treasuries d' = db_treasuries d" "db_users d' = db_users d"
    "db_workspaces d' = db_workspaces d" "db_workspace_members d' = db_workspace_members d"
    "db_vault_members d' = db_vault_members d" "db_vault_rules d' = db_vault_rules d" "db_lifecycles d' = db_lifecycles d"
    by (simp_all add: es(1))
  have "\<forall>e \<in> set es. le_event_type e \<noteq> ''proposal_created''" using es(2) by auto
  then show "creation_entry d' p = creation_entry d p"
    by (auto simp: creation_entry_def es(1) filter_empty_conv)
qed

lemma ledger_grows_reads:
  assumes "ledger_grows d d'"
  shows "get_proposal d' i = get_proposal d i" "get_vault d' i = get_vault d i" "get_key d' i = get_key d i"
    "signatures_of d' p = signatures_of d p" "vote_of d' p u = vote_of d p u" "action_of d' p = action_of d p"
    "is_payment d' p = is_payment d p" "evidence_kept p d d'"
  by (simp_all add: get_proposal_def get_vault_def get_key_def signatures_of_def vote_of_def action_of_def is_payment_def
      ledger_grows_tables [OF assms])
    (intro evidence_same_tables; simp add: ledger_grows_tables [OF assms])

lemma ledger_grows_elsewhere: "ledger_grows d d' \<Longrightarrow> elsewhere pid d d'"
  by (simp add: elsewhere_def ledger_grows_reads)

section \<open>What an accepted vote went through\<close>

text \<open>The signature was made with the private half that the password opens.\<close>

definition signed_with :: "vault_env \<Rightarrow> password_env \<Rightarrow> user_row \<Rightarrow> key_row \<Rightarrow> ustr \<Rightarrow> bytes \<Rightarrow> bytes \<Rightarrow> bool" where
  "signed_with env P u key password message sig \<longleftrightarrow>
     (\<exists>provider nonce wrapped secret. find_provider env (k_alg_id key) = Inr provider
        \<and> k_secret_key_nonce key = Some nonce \<and> k_secret_key_wrapped key = Some wrapped
        \<and> unwrap_with env P u password nonce wrapped = Inr (Some secret) \<and> sig = sp_sign provider secret message)"

lemma sign_vote_cases:
  assumes "sign_vote env P web u key password message digest s a = (Inr ((sig, execution), s'), a')"
  shows "signed_with env P u key password message sig \<and> s' = password_proven env (web_now web) ''signing'' (u_id u) s
    \<and> \<not> recovery_due (fst s) (web_now web) (u_id u)
    \<and> fst (password_refusal (pe_attempts P) (u_id u) (web_monotonic web) (web_session web) a) = None
    \<and> map_option fst execution = digest"
proof (cases digest)
  case None
  with assms obtain sigs where s: "sign_messages env P web u key password [message] s a = (Inr (sigs, s'), a')"
    "sig = hd sigs" "execution = None"
    by (auto simp: sign_vote_def sign_with_key_def split: sum.splits prod.splits)
  from s(1) show ?thesis by (rule sign_messages_cases) (use s(2,3) None in \<open>auto simp: signed_with_def\<close>)
next
  case (Some x)
  with assms obtain sigs where s: "sign_messages env P web u key password [message, x] s a = (Inr (sigs, s'), a')"
    "sig = sigs ! 0" "execution = Some (x, sigs ! 1)"
    by (auto simp: sign_vote_def split: sum.splits prod.splits)
  from s(1) show ?thesis by (rule sign_messages_cases) (use s(2,3) Some in \<open>auto simp: signed_with_def\<close>)
qed

lemma prepare_vote_cases:
  assumes "prepare_vote env P L relayer web pid u password decision s a = (Inr ((key, sig, execution), s'), a')"
  obtains p message digest where "active_signing_key (snd s) (u_id u) = Some key" "get_proposal (snd s) pid = Some p"
    "vote_signing_bytes (p_payload_hash p) decision (u_id u) = Inr message"
    "vote_execution_digest env L relayer (snd s) p (u_id u) key decision = Inr digest"
    "sign_vote env P web u key password message digest s a = (Inr ((sig, execution), s'), a')"
  using assms by (auto simp: prepare_vote_def split: option.splits sum.splits prod.splits)

lemma cast_vote_cases:
  assumes "cast_vote env P L relayer web pid u password decision reason s a = (r, (r', d'), a')"
  obtains (refused) e e' where "authorize_vote env (web_now web) pid (u_id u) decision reason (snd s) = (e, d')" "r = Inl e'"
  | (accepted) d1 d2 key sig execution row where
      "authorize_vote env (web_now web) pid (u_id u) decision reason (snd s) = (Inr (), d1)"
      "prepare_vote env P L relayer web pid u password decision (fst s, d1) a = (Inr ((key, sig, execution), r', d2), a')"
      "record_vote env (web_now web) pid (u_id u) key decision sig reason execution d2 = Inr (row, d')" "r = Inr row"
proof (cases r)
  case (Inl e)
  with assms show ?thesis by (auto simp: cast_vote_def intro: refused split: sum.splits prod.splits)
next
  case (Inr row)
  with assms show ?thesis by (auto simp: cast_vote_def intro: accepted split: sum.splits prod.splits)
qed

lemma distinct_key_found: "distinct (map k_id (db_keys d)) \<Longrightarrow> k \<in> set (db_keys d) \<Longrightarrow> get_key d (k_id k) = Some k"
  unfolding get_key_def by (rule find_distinct)

lemma prepared_key:
  assumes "prepare_vote env P L relayer web pid u password decision (r, d1) a = (Inr ((key, sig, execution), r', d2), a')"
    "distinct (map k_id (db_keys d1))"
  shows "active_signing_key d1 (u_id u) = Some key" "ledger_grows d1 d2" "get_key d2 (k_id key) = Some key"
    "k_owner_id key = Some (u_id u)" "k_status key = ''active''" "k_wrap_domain key = ''password''"
proof -
  from assms(1) obtain p message digest where p: "active_signing_key d1 (u_id u) = Some key"
    "sign_vote env P web u key password message digest (r, d1) a = (Inr ((sig, execution), r', d2), a')"
    by (rule prepare_vote_cases) simp
  show "active_signing_key d1 (u_id u) = Some key" by (rule p(1))
  note k = active_signing_key_facts [OF p(1)]
  show "k_owner_id key = Some (u_id u)" "k_status key = ''active''" "k_wrap_domain key = ''password''" by (rule k)+
  have "(r', d2) = password_proven env (web_now web) ''signing'' (u_id u) (r, d1)" using sign_vote_cases [OF p(2)] by simp
  then show g: "ledger_grows d1 d2" using password_proven_grows [of "(r, d1)"] by (metis snd_conv)
  show "get_key d2 (k_id key) = Some key"
    unfolding ledger_grows_reads(3) [OF g] by (rule distinct_key_found [OF assms(2) k(1)])
qed

section \<open>The vote keeps the ballot sound\<close>

lemma authorize_keeps:
  assumes "ballot_ok env pid d" "authorize_vote env now qid signer decision reason d = (r, d')"
  shows "ballot_ok env pid d' \<and> follows pid d d' \<and> db_keys d' = db_keys d"
  using assms(2)
proof (cases rule: authorize_cases)
  case same
  then show ?thesis using assms(1) follows_refl by simp
qed (use refresh_ok [OF assms(1)] refresh_keeps_keys in blast)+

lemma cast_vote_ok:
  assumes "ballot_ok env pid d" "cast_vote env P L relayer web qid u password decision reason (r, d) a = (result, (r', d'), a')"
    "distinct (map k_id (db_keys d))"
  shows "ballot_ok env pid d' \<and> follows pid d d'"
  using assms(2)
proof (cases rule: cast_vote_cases)
  case (refused e e')
  then show ?thesis using authorize_keeps [OF assms(1)] by simp
next
  case (accepted d1 d2 key sig execution row)
  note 1 = authorize_keeps [OF assms(1) accepted(1) [simplified]]
  from accepted(1) obtain p v ids where g: "loaded d1 qid = Inr (p, v, ids)" "decision \<in> {''approve'', ''reject''}"
    "vote_gate d1 v p ids (u_id u) decision reason = None"
    by (cases rule: authorize_cases) auto
  then have l: "get_proposal d1 qid = Some p" "snapshot_ids p = Some ids" by (auto simp: loaded_def split: option.split_asm)
  have keys: "distinct (map k_id (db_keys d1))" using 1 assms(3) by simp
  note k = prepared_key [OF accepted(2) [simplified] keys]
  have 2: "ballot_ok env pid d2 \<and> follows pid d1 d2" using 1 ledger_grows_elsewhere [OF k(2)] by (intro elsewhere_ok) simp_all
  then have "ballot_ok env pid d' \<and> follows pid d2 d'"
    using l k(3,4) g(2) gate_passed(1) [OF g(3)] ledger_grows_reads(1) [OF k(2)] by (intro recorded_ok [OF _ accepted(3)]) simp_all
  with 1 2 show ?thesis using follows_trans by blast
qed

end
