(* ===== verification/Eligibility_Proofs.thy ===== *)
theory Eligibility_Proofs
  imports Approval
begin

text \<open>
  The three readings of one rule agree: the reason the gate gives one person, the set the screens
  count, and the list of vaults the bell asks about.  The tables have one row per (workspace, user)
  and per (vault, user), as their unique constraints say.
\<close>

definition rows_unique :: "db \<Rightarrow> bool" where
  "rows_unique d \<longleftrightarrow>
     distinct (map (\<lambda>m. (wm_workspace_id m, wm_user_id m)) (db_workspace_members d))
     \<and> distinct (map (\<lambda>m. (vm_vault_id m, vm_user_id m)) (db_vault_members d))
     \<and> distinct (map v_id (db_vaults d))"

text \<open>Where a key column is unique, looking a row up and filtering for it are the same.\<close>

lemma find_unique_key:
  assumes "distinct (map f xs)"
  shows "(case find (\<lambda>x. f x = k) xs of None \<Rightarrow> False | Some x \<Rightarrow> Q x) \<longleftrightarrow> (\<exists>x \<in> set xs. f x = k \<and> Q x)"
  using assms
proof (induction xs)
  case (Cons y ys)
  show ?case
  proof (cases "f y = k")
    case True
    then have "\<forall>x \<in> set ys. f x \<noteq> k" using Cons.prems by (auto simp: image_iff)
    then show ?thesis using True by auto
  qed (use Cons in auto)
qed simp

lemma membership_find: "membership d w u = find (\<lambda>m. (wm_workspace_id m, wm_user_id m) = (w, u)) (db_workspace_members d)"
  by (simp add: membership_def)

lemma standing_in_iff:
  assumes "rows_unique d"
  shows "standing_in d w u = None \<longleftrightarrow>
    (\<exists>m \<in> set (db_workspace_members d). wm_workspace_id m = w \<and> wm_user_id m = u \<and> in_standing m)"
proof -
  have "standing_in d w u = None \<longleftrightarrow> (case membership d w u of None \<Rightarrow> False | Some m \<Rightarrow> in_standing m)"
    by (simp add: standing_in_def in_standing_def split: option.split)
  also have "\<dots> \<longleftrightarrow> (\<exists>m \<in> set (db_workspace_members d). (wm_workspace_id m, wm_user_id m) = (w, u) \<and> in_standing m)"
    unfolding membership_find using assms by (intro find_unique_key) (simp add: rows_unique_def)
  finally show ?thesis by simp
qed

lemma in_good_standing_iff:
  assumes "rows_unique d"
  shows "u \<in> set (in_good_standing d v us) \<longleftrightarrow> u \<in> set us \<and> signing_standing d v u = None"
  using standing_in_iff [OF assms]
  by (auto simp: in_good_standing_def signing_standing_def split: option.split)

lemma vault_signer_iff:
  assumes "rows_unique d"
  shows "u \<in> set (vault_signer_ids d vid) \<longleftrightarrow> is_current_approver d vid u"
proof -
  have "is_current_approver d vid u \<longleftrightarrow> (\<exists>m \<in> set (db_vault_members d). (vm_vault_id m, vm_user_id m) = (vid, u) \<and> is_approver m)"
    using find_unique_key [where f = "\<lambda>m. (vm_vault_id m, vm_user_id m)" and xs = "db_vault_members d"
        and k = "(vid, u)" and Q = is_approver] assms
    by (simp add: is_current_approver_def vault_member_of_def rows_unique_def)
  then show ?thesis by (auto simp: vault_signer_ids_def)
qed

lemma current_signer_iff:
  assumes "rows_unique d"
  shows "u \<in> set (current_signer_ids d v) \<longleftrightarrow> is_current_approver d (v_id v) u \<and> signing_standing d v u = None"
  by (simp add: current_signer_ids_def in_good_standing_iff [OF assms] vault_signer_iff [OF assms])

lemma standing_workspace_iff:
  assumes "rows_unique d"
  shows "w \<in> set (standing_workspace_ids d u) \<longleftrightarrow> standing_in d w u = None"
  by (auto simp: standing_workspace_ids_def standing_in_iff [OF assms])

lemma signing_vaults_iff:
  assumes "rows_unique d"
  shows "vid \<in> set (signing_vault_ids d u) \<longleftrightarrow>
    (\<exists>v \<in> set (db_vaults d). v_id v = vid \<and> is_current_approver d vid u \<and> signing_standing d v u = None)"
proof -
  have approver: "(\<exists>m \<in> set (db_vault_members d). vm_vault_id m = v_id v \<and> vm_user_id m = u \<and> is_approver m)
      \<longleftrightarrow> is_current_approver d (v_id v) u" for v
    using vault_signer_iff [OF assms, of u "v_id v"] by (auto simp: vault_signer_ids_def)
  show ?thesis
    unfolding signing_vault_ids_def Let_def approver
    by (auto simp: signing_standing_def standing_workspace_iff [OF assms] split: option.splits)
qed

text \<open>One rule, three readers.  For every person and vault, the gate finds no reason to refuse exactly
  when the person is among the signers the screens count, and exactly when the vault is among those
  the person may sign in.\<close>

theorem standing_readers_agree:
  assumes "rows_unique d" "v \<in> set (db_vaults d)"
  shows "(is_current_approver d (v_id v) u \<and> signing_standing d v u = None \<longleftrightarrow> u \<in> set (current_signer_ids d v))
    \<and> (is_current_approver d (v_id v) u \<and> signing_standing d v u = None \<longleftrightarrow> v_id v \<in> set (signing_vault_ids d u))"
proof -
  have "v' = v" if "v' \<in> set (db_vaults d)" "v_id v' = v_id v" for v'
    using that assms by (auto simp: rows_unique_def distinct_map inj_on_def)
  then show ?thesis
    using assms(2) unfolding signing_vaults_iff [OF assms(1)] current_signer_iff [OF assms(1)] by blast
qed

section \<open>The gate\<close>

lemma eligible_iff:
  assumes "rows_unique d"
  shows "can_sign d v p ids u \<longleftrightarrow>
    u \<in> set ids \<and> is_current_approver d (v_id v) u \<and> signing_standing d v u = None
    \<and> \<not> (u = p_creator_id p \<and> \<not> requester_may_approve d p)"
  by (auto simp: can_sign_def eligible_ids_def current_signer_iff [OF assms])

text \<open>C38: The gate takes a vote exactly from the people the screens offer it to: those who can sign the
  decision, have not voted, are not approving what can no longer pass, and give a reason when they
  reject.\<close>

theorem gate_is_can_sign:
  assumes "rows_unique d" "v_id v = p_vault_id p"
  shows "vote_gate d v p ids u decision reason = None \<longleftrightarrow>
    can_sign d v p ids u \<and> vote_of d p u = None \<and> (decision = ''approve'' \<longrightarrow> \<not> cannot_pass d v p ids)
    \<and> reason_problem decision reason = None"
  unfolding eligible_iff [OF assms(1)] using assms(2)
  by (auto simp: vote_gate_def split: option.splits)

text \<open>The second reading of steps 5 to 7, when the vote is written, agrees with the first one while the
  vault's workspace can be told.\<close>

lemma still_entitled_iff:
  assumes "home_workspace_id d v \<noteq> None \<or> db_workspaces d = []" "v_id v = p_vault_id p" "p_status p = ''open''"
  shows "still_entitled d v p u = None \<longleftrightarrow>
    is_current_approver d (p_vault_id p) u \<and> signing_standing d v u = None
    \<and> \<not> (u = p_creator_id p \<and> \<not> requester_may_approve d p)"
proof -
  have sod: "(case lifecycle_of d p of None \<Rightarrow> True | Some l \<Rightarrow> pl_requester_can_approve l \<noteq> Some False)
      \<and> (case find (\<lambda>r. vr_vault_id r = p_vault_id p) (db_vault_rules d) of None \<Rightarrow> True | Some r \<Rightarrow> vr_requester_can_approve r)
      \<longleftrightarrow> requester_may_approve d p"
    using assms(3) by (auto simp: requester_may_approve_def frozen_allows_def vault_allows_requester_def split: option.splits)
  show ?thesis
    using assms(1) sod
    by (auto simp: still_entitled_def Let_def signing_standing_def standing_in_def is_active_def
        split: option.splits if_split_asm)
qed

text \<open>Where it cannot be told, the two readings differ: the gate refuses, the second reading does not
  look.\<close>

lemma still_entitled_gap:
  assumes "home_workspace_id d v = None" "db_workspaces d \<noteq> []" "is_current_approver d (p_vault_id p) u"
    "u \<noteq> p_creator_id p"
  shows "signing_standing d v u = Some Standing_unconfirmed \<and> still_entitled d v p u = None"
  using assms by (simp add: still_entitled_def signing_standing_def)

section \<open>Deciding\<close>

text \<open>The words a person is shown are there exactly when a decision could not pass.\<close>

lemma why_cannot_pass_iff: "why_cannot_pass_if_raised d v r = None \<longleftrightarrow> \<not> impossible_to_pass d v r"
  by (auto simp: why_cannot_pass_if_raised_def impossible_to_pass_def Let_def)

lemma cannot_raise_iff: "cannot_raise d v r = None \<longleftrightarrow> \<not> impossible_to_pass d v r"
  using why_cannot_pass_iff [of d v r] by (auto simp: cannot_raise_def split: option.split)

end
