(* ===== verification/Approval_Machine.thy ===== *)
theory Approval_Machine
  imports Browser_Vote_Proofs Eligibility_Proofs
begin

text \<open>
  The decision as a state machine: a vote from the browser or from a phone on any decision, the looks at
  its deadline, the scheduler's sweeps, withdrawal, the recoveries a password proof cancels, and whatever
  the rest of the program does that keeps the decision's evidence, in any order.  The abstract machine it
  implements is a ballot: a list of votes, an outcome, and the M-of-N rule.
\<close>

section \<open>The step relation\<close>

text \<open>The phone's key is the row of the table the authenticated device names; the website's is looked up.
  The id is the primary key of the table of keys.\<close>

inductive decision_step :: "vault_env \<Rightarrow> int \<Rightarrow> db \<Rightarrow> db \<Rightarrow> bool" for env pid where
  voted: "record_device_vote env L relayer now qid signer (Some key) decision sb reason execution d = (r, d')
     \<Longrightarrow> get_key d (k_id key) = Some key \<Longrightarrow> decision_step env pid d d'"
| cast: "cast_vote env P L relayer web qid u password decision reason (rec, d) a = (r, (rec', d'), a')
     \<Longrightarrow> distinct (map k_id (db_keys d)) \<Longrightarrow> decision_step env pid d d'"
| settled: "settle_password_proofs env now proofs (rec, d) = (rec', d') \<Longrightarrow> decision_step env pid d d'"
| refreshed: "refresh_expiry env now qid d = Inr (b, d') \<Longrightarrow> decision_step env pid d d'"
| swept: "finalize_stalled env now d = Inr (n, d') \<Longrightarrow> decision_step env pid d d'"
| withdrawn: "withdraw env now qid actor d = (r, d') \<Longrightarrow> decision_step env pid d d'"
| elsewhere: "elsewhere pid d d' \<Longrightarrow> decision_step env pid d d'"

lemma step_ok:
  assumes "ballot_ok env pid d" "decision_step env pid d d'"
  shows "ballot_ok env pid d' \<and> follows pid d d'"
  using assms(2)
proof (cases rule: decision_step.cases)
  case voted
  then show ?thesis by (intro device_vote_ok [OF assms(1)]) auto
next
  case cast
  then show ?thesis by (rule cast_vote_ok [OF assms(1)])
next
  case (settled now proofs rec rec')
  then show ?thesis
    using settle_grows [of "(rec, d)" env now proofs] by (intro elsewhere_ok [OF assms(1)] ledger_grows_elsewhere) simp
next
  case refreshed
  then show ?thesis by (intro refresh_ok [OF assms(1)])
next
  case swept
  then show ?thesis using finalize_each_ok [OF _ assms(1)] by (simp add: finalize_stalled_def)
next
  case withdrawn
  then show ?thesis by (intro withdraw_ok [OF assms(1)])
next
  case elsewhere
  then show ?thesis by (rule elsewhere_ok [OF assms(1)])
qed

interpretation ballots: kept "decision_step env pid" "ballot_ok env pid"
  by unfold_locales (use step_ok in blast)

interpretation history: evolving "decision_step env pid" "ballot_ok env pid" "follows pid"
  by unfold_locales (use step_ok follows_refl follows_trans in blast)+

text \<open>A decision just raised: it is the one recorded in the ledger, and nobody has voted.\<close>

definition just_raised :: "vault_env \<Rightarrow> int \<Rightarrow> db \<Rightarrow> bool" where
  "just_raised env pid d \<longleftrightarrow>
     (\<exists>p ids. get_proposal d pid = Some p \<and> snapshot_ids p = Some ids \<and> binding_ok env d p
        \<and> signatures_of d p = [] \<and> p_status p = ''open'')"

lemma just_raised_ok: "just_raised env pid d \<Longrightarrow> ballot_ok env pid d"
  by (auto simp: just_raised_def ballot_ok_def sound_decision_def votes_sound_def outcome_ok_def)

lemma reached_sound:
  assumes "just_raised env pid d0" "(decision_step env pid)\<^sup>*\<^sup>* d0 d" "get_proposal d pid = Some p"
  obtains ids where "sound_decision env pid p ids d" "outcome_ok d p"
  using ballots.always [OF assms(2) just_raised_ok [OF assms(1)]] assms(3)
  by (auto simp: ballot_ok_def sound_decision_def)

section \<open>What the outcomes mean\<close>

lemma approved_voters:
  assumes "just_raised env pid d0" "(decision_step env pid)\<^sup>*\<^sup>* d0 d" "get_proposal d pid = Some p"
    "p_status p = ''approved''"
  shows "\<exists>ids voters. snapshot_ids p = Some ids \<and> distinct voters \<and> set voters \<subseteq> set ids
    \<and> p_required_m p \<le> int (length voters) \<and> binding_ok env d p
    \<and> (\<forall>i \<in> set voters. \<exists>s \<in> set (signatures_of d p).
         s_signer_id s = i \<and> s_decision s = ''approve'' \<and> verify_signature env d s p = Inr True)"
proof -
  obtain ids where s: "sound_decision env pid p ids d" "outcome_ok d p" by (rule reached_sound [OF assms(1-3)])
  let ?yes = "filter (\<lambda>s. s_decision s = ''approve'') (signatures_of d p)"
  have v: "votes_sound env d p ids" using s(1) by (simp add: sound_decision_def)
  have "distinct (map s_signer_id ?yes)" using v by (auto simp: votes_sound_def distinct_map inj_on_def)
  moreover have "p_required_m p \<le> int (length (map s_signer_id ?yes))"
    using s(2) assms(4) by (simp add: outcome_ok_def votes_for_def)
  moreover have "set (map s_signer_id ?yes) \<subseteq> set ids" using v by (auto simp: votes_sound_def)
  moreover have "\<forall>i \<in> set (map s_signer_id ?yes). \<exists>s \<in> set (signatures_of d p).
         s_signer_id s = i \<and> s_decision s = ''approve'' \<and> verify_signature env d s p = Inr True"
    using v by (auto simp: votes_sound_def)
  ultimately show ?thesis
    using s(1) by (intro exI [of _ ids] exI [of _ "map s_signer_id ?yes"]) (simp add: sound_decision_def)
qed

text \<open>C2: Approved means M people approved.  In every state a decision can reach after it was raised, if it
  is approved then its text is the text recorded in the ledger when it was raised, and at least M
  different people of its frozen signer set each have an approval stored that verifies now under
  their own registered key.\<close>

theorem approved_means:
  assumes "just_raised env pid d0" "(decision_step env pid)\<^sup>*\<^sup>* d0 d" "get_proposal d pid = Some p"
    "p_status p = ''approved''"
  shows "\<exists>ids voters. snapshot_ids p = Some ids \<and> distinct voters \<and> set voters \<subseteq> set ids
    \<and> p_required_m p \<le> int (length voters) \<and> binding_ok env d p
    \<and> (\<forall>i \<in> set voters. \<exists>s \<in> set (signatures_of d p).
         s_signer_id s = i \<and> s_decision s = ''approve'' \<and> verify_signature env d s p = Inr True)"
  by (rule approved_voters [OF assms])

text \<open>C3: A closed decision is closed for good.  Once a decision is no longer open, nothing that happens
  later changes its outcome, its votes or anything that was signed.\<close>

theorem closed_is_final:
  assumes "just_raised env pid d0" "(decision_step env pid)\<^sup>*\<^sup>* d0 d" "(decision_step env pid)\<^sup>*\<^sup>* d d'"
    "get_proposal d pid = Some p" "p_status p \<noteq> ''open''"
  shows "\<exists>p'. get_proposal d' pid = Some p' \<and> p_status p' = p_status p \<and> core p' = core p
    \<and> signatures_of d' p' = signatures_of d p"
proof -
  have "follows pid d d'"
    using history.evolve [OF assms(3)] ballots.always [OF assms(2) just_raised_ok [OF assms(1)]] by blast
  then show ?thesis using assms(4,5) by (auto simp: follows_def)
qed

section \<open>An accepted vote\<close>

lemma refresh_open:
  assumes "refresh_expiry env now qid d = Inr (b, d1)" "get_proposal d1 qid = Some p" "p_status p = ''open''"
  shows "d1 = d"
proof (rule ccontr)
  assume ne: "d1 \<noteq> d"
  with assms(1) obtain d2 q where q: "get_proposal d2 qid = Some q" and
    c: "(if p_status q \<noteq> ''open'' then Inr (False, d2) else Inr (True, close_as env now (\<lambda>p. p\<lparr>p_status := ''expired''\<rparr>)
        (decision_event ''proposal_expired'' [(''expired_at'', JStr (isoformat now))] None q) q d2)) = (Inr (b, d1) :: crash + _)"
    by (auto simp: refresh_expiry_def bindE_def split: option.splits sum.splits if_split_asm)
  show False
  proof (cases "p_status q = ''open''")
    case True
    let ?f = "\<lambda>p. p\<lparr>p_status := ''expired''\<rparr>"
    let ?ev = "decision_event ''proposal_expired'' [(''expired_at'', JStr (isoformat now))] None q"
    have d1: "d1 = close_as env now ?f ?ev q d2" using c True by simp
    have "get_proposal d1 qid = Some (?f q)"
      using close_as_effect(1) [of ?f ?ev d1 env now q d2 qid] q d1 by (simp add: core_def decision_event_def)
    then show False using assms(2,3) by auto
  next
    case False
    then show False using c q assms(2,3) by simp
  qed
qed

text \<open>A vote is taken from a phone, or from the browser of someone who typed a password.\<close>

inductive vote_taken ::
  "vault_env \<Rightarrow> password_env \<Rightarrow> int \<Rightarrow> int \<Rightarrow> key_row \<Rightarrow> ustr \<Rightarrow> db \<Rightarrow> signature_row \<Rightarrow> db \<Rightarrow> bool" for env P pid where
  by_phone: "record_device_vote env L relayer now pid signer (Some key) decision sb reason execution d = (Inr s, d')
     \<Longrightarrow> get_key d (k_id key) = Some key \<Longrightarrow> vote_taken env P pid signer key decision d s d'"
| by_browser: "cast_vote env P L relayer web pid u password decision reason (rec, d) a = (Inr s, (rec', d'), a')
     \<Longrightarrow> distinct (map k_id (db_keys d)) \<Longrightarrow> active_signing_key d (u_id u) = Some key
     \<Longrightarrow> vote_taken env P pid (u_id u) key decision d s d'"

text \<open>Whose key signed, by the way the vote came: a phone's key, usable then, or the person's own password
  key, opened by the password that was typed.\<close>

definition key_used :: "vault_env \<Rightarrow> password_env \<Rightarrow> proposal_row \<Rightarrow> int \<Rightarrow> key_row \<Rightarrow> ustr \<Rightarrow> bytes \<Rightarrow> bool" where
  "key_used env P p signer key decision sig \<longleftrightarrow>
     k_owner_id key = Some signer \<and> k_status key = ''active''
     \<and> (k_wrap_domain key = ''device'' \<and> k_can_sign key
        \<or> k_wrap_domain key = ''password'' \<and> (\<exists>u password message. u_id u = signer
            \<and> vote_signing_bytes (p_payload_hash p) decision signer = Inr message
            \<and> signed_with env P u key password message sig))"

lemma gate_opened:
  assumes "authorize_vote env now pid signer decision reason d = (Inr (), d1)"
  obtains p v ids where "d1 = d" "get_proposal d pid = Some p" "p_status p = ''open''" "snapshot_ids p = Some ids"
    "get_vault d (p_vault_id p) = Some v" "decision \<in> {''approve'', ''reject''}" "vote_gate d v p ids signer decision reason = None"
proof -
  from assms obtain b p v ids where a: "refresh_expiry env now pid d = Inr (b, d1)" "p_status p = ''open''"
    "decision \<in> {''approve'', ''reject''}" "loaded d1 pid = Inr (p, v, ids)" "vote_gate d1 v p ids signer decision reason = None"
    by (cases rule: authorize_cases) auto
  from a(4) have l: "get_proposal d1 pid = Some p" "snapshot_ids p = Some ids" "get_vault d1 (p_vault_id p) = Some v"
    by (auto simp: loaded_def split: option.split_asm)
  have "d1 = d" by (rule refresh_open [OF a(1) l(1) a(2)])
  then show thesis using a l by (intro that) simp_all
qed

text \<open>What both ways have in common: the gate on the database as it was, then the write, on a database with
  at most more entries in the ledger.\<close>

lemma vote_taken_cases:
  assumes "vote_taken env P pid signer key decision d s d'"
  obtains p v ids sig reason now pair row e where "get_proposal d pid = Some p" "p_status p = ''open''"
    "snapshot_ids p = Some ids" "get_vault d (p_vault_id p) = Some v" "decision \<in> {''approve'', ''reject''}"
    "vote_gate d v p ids signer decision reason = None" "ledger_grows d e" "get_key e (k_id key) = Some key"
    "key_used env P p signer key decision sig" "(pair \<noteq> None) = (decision = ''approve'' \<and> is_payment d p)"
    "check_vote_bytes env p signer key decision sig = Inr ()" "store_execution env e p signer key pair = Inr row"
    "s = new_signature now e p signer key decision sig reason"
    "finalize_if_decided env now (Some signer) pid (write_vote env now p key s row e) = Inr d'"
  using assms
proof cases
  case (by_phone L relayer now sb reason execution)
  from by_phone(1) obtain d1 pair where a: "authorize_vote env now pid signer decision reason d = (Inr (), d1)"
    "require_device_signing_key env signer (Some key) = Inr key"
    "record_vote env now pid signer key decision sb reason pair d1 = Inr (s, d')"
    by (cases rule: device_vote_cases) (auto dest: device_key_facts(1))
  from a(1) obtain p v ids where g: "d1 = d" "get_proposal d pid = Some p" "p_status p = ''open''" "snapshot_ids p = Some ids"
    "get_vault d (p_vault_id p) = Some v" "decision \<in> {''approve'', ''reject''}" "vote_gate d v p ids signer decision reason = None"
    by (rule gate_opened)
  have "key_used env P p signer key decision sb" using device_key_facts [OF a(2)] by (simp add: key_used_def)
  from a(3) [unfolded g(1)] show ?thesis
  proof (cases rule: record_vote_cases)
    case (1 q v' row)
    then have "q = p" using g(2) by simp
    then show ?thesis
      using 1 g by_phone(2) \<open>key_used env P p signer key decision sb\<close> ledger_grows_refl
      by (intro that [of p ids v reason d sb pair row now]) simp_all
  qed
next
  case (by_browser L relayer web u password reason rec a rec' a')
  from by_browser(2) obtain d1 e k sig pair where a: "authorize_vote env (web_now web) pid signer decision reason d = (Inr (), d1)"
    "prepare_vote env P L relayer web pid u password decision (rec, d1) a = (Inr ((k, sig, pair), rec', e), a')"
    "record_vote env (web_now web) pid signer k decision sig reason pair e = Inr (s, d')"
    unfolding by_browser(1) by (cases rule: cast_vote_cases) auto
  from a(1) obtain p v ids where g: "d1 = d" "get_proposal d pid = Some p" "p_status p = ''open''" "snapshot_ids p = Some ids"
    "get_vault d (p_vault_id p) = Some v" "decision \<in> {''approve'', ''reject''}" "vote_gate d v p ids signer decision reason = None"
    by (rule gate_opened)
  note k = prepared_key [OF a(2) [unfolded g(1)] by_browser(3)]
  have key: "k = key" using k(1) by_browser(4) by simp
  from a(2) obtain message digest where m: "vote_signing_bytes (p_payload_hash p) decision (u_id u) = Inr message"
    "sign_vote env P web u k password message digest (rec, d) a = (Inr ((sig, pair), rec', e), a')"
    by (rule prepare_vote_cases) (use g in auto)
  have used: "key_used env P p signer key decision sig"
    using k(4-6) m(1) sign_vote_cases [OF m(2)] by (auto simp: key_used_def key by_browser(1))
  note reads = ledger_grows_reads [OF k(2)]
  from a(3) show ?thesis
  proof (cases rule: record_vote_cases)
    case (1 q v' row)
    then have "q = p" using g(2) reads(1) by simp
    then show ?thesis
      using 1 g k(2,3) used by (intro that [of p ids v reason e sig pair row "web_now web"]) (simp_all add: key reads(7))
  qed
qed

text \<open>The row added to the execution signatures, and the frame of closing.\<close>

lemma finalize_keeps_executions:
  "finalize_if_decided env now actor qid d = Inr d' \<Longrightarrow> db_execution_signatures d' = db_execution_signatures d"
  by (erule finalize_cases) (simp_all add: close_as_def)

lemma stored_execution:
  assumes "store_execution env d p signer key pair = Inr row"
  shows "(row = None) = (pair = None) \<and> (\<forall>x. row = Some x \<longrightarrow> es_signer_id x = signer \<and> es_proposal_id x = p_id p)"
  using assms
  by (auto simp: store_execution_def split: option.split_asm sum.split_asm record_problem.split_asm elim: execution_record_sound)

text \<open>C4: A vote is stored only for someone entitled to it, whether it comes from a phone or from the browser: in
  the decision's frozen signer set, an approver of its vault and in standing in its workspace at that
  moment, not its requester where the rule forbids it, and for the first time.  It is signed with an active
  key of their own, a phone's that may sign or the one their password opened, and what is stored verifies.
  An approval of a payment, and no other vote, also stores a signature for the treasury, of theirs.\<close>

theorem accepted_vote_means:
  assumes "vote_taken env P pid signer key decision d s d'"
  shows "\<exists>p v ids xs. get_proposal d pid = Some p \<and> p_status p = ''open'' \<and> get_vault d (p_vault_id p) = Some v
    \<and> snapshot_ids p = Some ids \<and> signer \<in> set ids \<and> is_current_approver d (p_vault_id p) signer
    \<and> signing_standing d v signer = None \<and> (signer = p_creator_id p \<longrightarrow> requester_may_approve d p)
    \<and> vote_of d p signer = None \<and> decision \<in> {''approve'', ''reject''}
    \<and> s_signer_id s = signer \<and> s_decision s = decision \<and> key_used env P p signer key decision (s_signature s)
    \<and> verify_signature env d s p = Inr True
    \<and> db_execution_signatures d' = db_execution_signatures d @ xs
    \<and> (xs \<noteq> []) = (decision = ''approve'' \<and> is_payment d p)
    \<and> list_all (\<lambda>x. es_signer_id x = signer \<and> es_proposal_id x = p_id p) xs"
  using assms
proof (rule vote_taken_cases)
  fix p v ids sig reason now pair row e
  assume a: "get_proposal d pid = Some p" "p_status p = ''open''" "snapshot_ids p = Some ids" "get_vault d (p_vault_id p) = Some v"
    "decision \<in> {''approve'', ''reject''}" "vote_gate d v p ids signer decision reason = None" "ledger_grows d e"
    "get_key e (k_id key) = Some key" "key_used env P p signer key decision sig"
    "(pair \<noteq> None) = (decision = ''approve'' \<and> is_payment d p)" "check_vote_bytes env p signer key decision sig = Inr ()"
    "store_execution env e p signer key pair = Inr row" "s = new_signature now e p signer key decision sig reason"
    "finalize_if_decided env now (Some signer) pid (write_vote env now p key s row e) = Inr d'"
  let ?xs = "case row of None \<Rightarrow> [] | Some x \<Rightarrow> [x]"
  have key: "get_key d (k_id key) = Some key" "k_owner_id key = Some signer"
    using a(8,9) ledger_grows_reads(3) [OF a(7)] by (simp_all add: key_used_def)
  have "verify_signature env d s p = Inr True" unfolding a(13) by (rule checked_vote_verifies [OF a(11) key])
  moreover have "db_execution_signatures d' = db_execution_signatures d @ ?xs"
    using finalize_keeps_executions [OF a(14)] ledger_grows_tables(4) [OF a(7)] by (simp add: write_vote_def)
  moreover have "(?xs \<noteq> []) = (decision = ''approve'' \<and> is_payment d p)"
    "list_all (\<lambda>x. es_signer_id x = signer \<and> es_proposal_id x = p_id p) ?xs"
    using stored_execution [OF a(12)] a(10) by (auto split: option.split)
  ultimately show ?thesis
    using a(1-6,9,13) gate_passed [OF a(6)] by (intro exI [of _ p] exI [of _ v] exI [of _ ids] exI [of _ ?xs]) simp
qed

section \<open>The abstract ballot\<close>

record ballot =
  bl_votes :: "(int \<times> ustr) list"
  bl_outcome :: ustr

definition ballot_of :: "db \<Rightarrow> proposal_row \<Rightarrow> ballot" where
  "ballot_of d p = \<lparr>bl_votes = map (\<lambda>s. (s_signer_id s, s_decision s)) (signatures_of d p), bl_outcome = p_status p\<rparr>"

definition count_votes :: "ustr \<Rightarrow> (int \<times> ustr) list \<Rightarrow> int" where
  "count_votes decision votes = int (length (filter (\<lambda>v. snd v = decision) votes))"

text \<open>The M-of-N rule with \<open>n\<close> voters: M approvals pass; more rejections than \<open>n - m\<close> fail.\<close>

definition cast_ballot :: "int \<Rightarrow> int \<Rightarrow> int \<Rightarrow> ustr \<Rightarrow> ballot \<Rightarrow> ballot" where
  "cast_ballot m n i decision b =
     (let votes = bl_votes b @ [(i, decision)]
      in \<lparr>bl_votes = votes,
          bl_outcome =
            (if m \<le> count_votes ''approve'' votes then ''approved''
             else if n - m < count_votes ''reject'' votes then ''rejected'' else ''open'')\<rparr>)"

lemma votes_for_ballot: "votes_for x d p = count_votes x (bl_votes (ballot_of d p))"
proof -
  have "length (filter (\<lambda>s. s_decision s = x) ss)
      = length (filter (\<lambda>v. snd v = x) (map (\<lambda>s. (s_signer_id s, s_decision s)) ss))" for ss :: "signature_row list"
    by (induction ss) simp_all
  then show ?thesis by (simp add: votes_for_def count_votes_def ballot_of_def)
qed

lemma deciding_after_vote:
  assumes "signer = p_creator_id p \<longrightarrow> requester_may_approve d p" "s_signer_id s = signer" "s_proposal_id s = p_id p"
  shows "deciding_n (write_vote env now p key s row d) p ids = deciding_n d p ids"
proof -
  let ?d = "write_vote env now p key s row d"
  have may: "requester_may_approve ?d p = requester_may_approve d p"
    by (simp add: write_vote_def requester_may_approve_def frozen_allows_def vault_allows_requester_def lifecycle_of_def)
  have "signatures_of ?d p = signatures_of d p @ [s]" using assms(3) by (simp add: signatures_of_def write_vote_effect)
  then show ?thesis using assms(1,2) may by (auto simp: deciding_n_def requester_excluded_def)
qed

lemma ledger_grows_ballot:
  assumes "ledger_grows d e"
  shows "ballot_of e p = ballot_of d p" "deciding_n e p ids = deciding_n d p ids"
    "requester_may_approve e p = requester_may_approve d p"
  by (simp_all add: ballot_of_def deciding_n_def requester_excluded_def requester_may_approve_def frozen_allows_def
      vault_allows_requester_def lifecycle_of_def ledger_grows_reads [OF assms] ledger_grows_tables [OF assms])

text \<open>C5: The code implements the M-of-N ballot.  Whenever a vote on a decision is taken, from a phone or from the
  browser, in any state the decision can reach, the decision afterwards is the ballot with that vote cast
  under the abstract rule, with its signed N less the requester where separation of duties keeps them from
  voting.\<close>

theorem vote_refines_ballot:
  assumes "just_raised env pid d0" "(decision_step env pid)\<^sup>*\<^sup>* d0 d" "get_proposal d pid = Some p" "snapshot_ids p = Some ids"
    "vote_taken env P pid signer key decision d s d'"
  shows "\<exists>p'. get_proposal d' pid = Some p' \<and> core p' = core p
    \<and> ballot_of d' p' = cast_ballot (p_required_m p) (deciding_n d p ids) signer decision (ballot_of d p)"
  using assms(5)
proof (rule vote_taken_cases)
  fix q v qids sig reason now pair row e
  assume a: "get_proposal d pid = Some q" "p_status q = ''open''" "snapshot_ids q = Some qids" "decision \<in> {''approve'', ''reject''}"
    "vote_gate d v q qids signer decision reason = None" "ledger_grows d e" "get_key e (k_id key) = Some key"
    "key_used env P q signer key decision sig" "check_vote_bytes env q signer key decision sig = Inr ()"
    "s = new_signature now e q signer key decision sig reason"
    "finalize_if_decided env now (Some signer) pid (write_vote env now q key s row e) = Inr d'"
  let ?d = "write_vote env now p key s row e"
  have q: "q = p" "qids = ids" using a(1,3) assms(3,4) by simp_all
  note g = gate_passed [OF a(5), unfolded q] and reads = ledger_grows_reads [OF a(6)] and same = ledger_grows_ballot [OF a(6)]
  have "sound_decision env pid p ids d" by (rule reached_sound [OF assms(1-3)]) (use assms(4) in \<open>simp add: sound_decision_def\<close>)
  then have s: "sound_decision env pid p ids e" by (rule sound_kept) (simp_all add: reads assms(3))
  have owner: "k_owner_id key = Some signer" using a(8) by (simp add: key_used_def)
  have w: "sound_decision env pid p ids ?d" "signatures_of ?d p = signatures_of e p @ [s]"
    unfolding a(10) q using written_sound [OF s g(1) _ _ a(7) owner a(4)] g(5) a(9) unfolding q by (simp_all add: reads)
  obtain d'' p' where f: "finalize_if_decided env now (Some signer) pid ?d = Inr d''" "get_proposal d'' pid = Some p'"
    "core p = core p'" "p_status p' = verdict ?d p ids" "db_signatures d'' = db_signatures ?d"
    by (rule finalize_sound [OF w(1), where now = now and actor = "Some signer"]) (use a(2) q in simp_all)
  have "d'' = d'" using f(1) a(11) q by simp
  have sigs: "signatures_of d'' p' = signatures_of e p @ [s]" using signatures_of_same [OF f(5,3)] w(2) by simp
  then have votes: "bl_votes (ballot_of d'' p') = bl_votes (ballot_of e p) @ [(signer, decision)]"
    "bl_votes (ballot_of ?d p) = bl_votes (ballot_of e p) @ [(signer, decision)]"
    using w(2) a(10) by (simp_all add: ballot_of_def)
  have n: "deciding_n ?d p ids = deciding_n d p ids"
    using deciding_after_vote [of signer p e s] g(4) by (simp add: same a(10) q)
  have "ballot_of d'' p' = cast_ballot (p_required_m p) (deciding_n d p ids) signer decision (ballot_of e p)"
  proof -
    have "ballot_of d'' p' = \<lparr>bl_votes = bl_votes (ballot_of e p) @ [(signer, decision)], bl_outcome = verdict ?d p ids\<rparr>"
      using votes(1) f(4) by (simp add: ballot_of_def)
    then show ?thesis
      by (simp add: cast_ballot_def Let_def verdict_def rejection_closes_def n votes_for_ballot votes(2))
  qed
  then show ?thesis using f(2,3) \<open>d'' = d'\<close> same(1) by auto
qed

section \<open>No decision stays open once everyone has voted\<close>



section \<open>What the lists show\<close>

text \<open>After the deadline a list shows what the next look will record, from the votes as stored.\<close>

lemma effective_status_after_deadline:
  assumes "just_raised env pid d0" "(decision_step env pid)\<^sup>*\<^sup>* d0 d" "get_proposal d pid = Some p" "snapshot_ids p = Some ids"
    "p_expires_at p = Some deadline" "deadline < now" "refresh_expiry env now pid d = Inr (b, d')" "get_proposal d' pid = Some p'"
  shows "effective_status d now p ids = p_status p'"
proof (cases "p_status p = ''open''")
  case False
  then have "d' = d" using assms(3,7) by (simp add: refresh_expiry_def)
  then show ?thesis using False assms(3,5,8) by (simp add: effective_status_def)
next
  case True
  have s: "sound_decision env pid p ids d" by (rule reached_sound [OF assms(1-3)]) (use assms(4) in \<open>simp add: sound_decision_def\<close>)
  obtain d1 p1 where f: "finalize_if_decided env now None pid d = Inr d1" "get_proposal d1 pid = Some p1"
    "p_status p1 = verdict d p ids" by (rule finalize_sound [OF s True, where now = now and actor = None])
  have closes: "rejections > p_required_n p - p_required_m p
        \<or> (rejections > p_required_n p - 1 - p_required_m p \<and> rejection_closes d p ids rejections)
      \<longleftrightarrow> rejection_closes d p ids rejections" for rejections
    by (auto simp: rejection_closes_def deciding_n_def)
  have e: "effective_status d now p ids = (if verdict d p ids = ''open'' then ''expired'' else verdict d p ids)"
    using True assms(5,6) closes by (auto simp: effective_status_def verdict_def Let_def votes_for_def)
  show ?thesis
  proof (cases "verdict d p ids = ''open''")
    case open': True
    let ?f = "\<lambda>p. p\<lparr>p_status := ''expired''\<rparr>"
    let ?ev = "decision_event ''proposal_expired'' [(''expired_at'', JStr (isoformat now))] None p1"
    have "d' = close_as env now ?f ?ev p1 d1"
      using assms(3,5,6,7) True f open' by (simp add: refresh_expiry_def bindE_def)
    then have "get_proposal d' pid = Some (?f p1)"
      using close_as_effect(1) [of ?f ?ev d' env now p1 d1 pid] f(2) by (simp add: core_def decision_event_def)
    then show ?thesis using e open' assms(8) by auto
  next
    case False
    then have "d' = d1" using assms(3,5,6,7) True f by (simp add: refresh_expiry_def bindE_def)
    then show ?thesis using e False f assms(8) by simp
  qed
qed

text \<open>At the deadline itself the two readings differ: the list already says expired and the page no
  longer offers to withdraw, while the operation still takes the decision as open.\<close>

lemma deadline_boundary:
  assumes "get_proposal d pid = Some p" "p_status p = ''open''" "p_expires_at p = Some now"
    "signatures_of d p = []" "0 < p_required_m p" "p_required_m p < p_required_n p"
  shows "effective_status d now p ids = ''expired'' \<and> refresh_expiry env now pid d = Inr (False, d)"
  using assms by (simp add: effective_status_def refresh_expiry_def)

end
