(* ===== verification/Chain_Proofs.thy ===== *)
theory Chain_Proofs
  imports Chain_Action Sha256
begin

text \<open>
  The payment action: what \<open>parse_action\<close> accepts is exactly the canonical form of the transfer it
  gives, what \<open>build_eth_transfer\<close> builds is accepted again, an accepted action always has a digest,
  the digest binds every field, and a typed amount is the amount shown.
\<close>

section \<open>Decimal texts\<close>

lemma dec_value_pos: "list_all is_digit s \<Longrightarrow> s \<noteq> [] \<Longrightarrow> hd s \<noteq> CHR ''0'' \<Longrightarrow> 0 < dec_value s"
proof (induction s rule: rev_induct)
  case (snoc c cs)
  show ?case
  proof (cases cs)
    case Nil
    then have "is_digit c" "c \<noteq> CHR ''0''" using snoc.prems by auto
    then have "code_of c \<noteq> (48 :: nat)" using code_of_eq [of c "CHR ''0''"] by auto
    then show ?thesis using \<open>is_digit c\<close> Nil by (simp add: is_digit_def dec_value_def)
  next
    case (Cons x xs)
    then have "0 < dec_value cs" using snoc by simp
    then show ?thesis by (simp add: dec_value_snoc)
  qed
qed simp

lemma dec_nat_single: "n < 10 \<Longrightarrow> dec_nat n = [byte_of (48 + n)]"
  by (subst dec_nat.simps) simp

lemma dec_nat_step: "0 < n \<Longrightarrow> d < 10 \<Longrightarrow> dec_nat (10 * n + d) = dec_nat n @ [byte_of (48 + d)]"
  by (subst dec_nat.simps) simp

lemma digit_byte: "is_digit c \<Longrightarrow> byte_of (48 + (code_of c - 48)) = c \<and> code_of c - 48 < (10 :: nat)"
  by (auto simp: is_digit_def)

lemma dec_nat_dec_value: "decimal_text s \<Longrightarrow> dec_nat (dec_value s) = s"
proof (induction s rule: rev_induct)
  case (snoc c cs)
  have c: "is_digit c" using snoc.prems by (simp add: decimal_text_def)
  show ?case
  proof (cases cs)
    case Nil
    then show ?thesis using digit_byte [OF c] by (simp add: dec_value_def dec_nat_single)
  next
    case (Cons x xs)
    then have cs: "decimal_text cs" "0 < dec_value cs"
      using snoc.prems dec_value_pos [of cs] by (auto simp: decimal_text_def)
    then show ?thesis using snoc.IH digit_byte [OF c] by (simp add: dec_value_snoc dec_nat_step)
  qed
qed (simp add: decimal_text_def)

lemma decimal_text_dec_nat [simp]: "decimal_text (dec_nat n)"
proof -
  have "dec_nat n = ''0'' \<or> hd (dec_nat n) \<noteq> CHR ''0''"
    using dec_nat_no_zero [of n] dec_nat_0 by auto
  then show ?thesis using dec_nat_digits by (auto simp: decimal_text_def list_all_iff)
qed

section \<open>What is accepted is exactly the canonical form\<close>

lemma action_address_Inr:
  "action_address L v what True = Inr a \<longleftrightarrow>
    v = JStr a \<and> checksum_address L v = Inr a \<and> checksum_address L (JStr ZERO_ADDRESS) \<noteq> Inr a"
  by (auto simp: action_address_def split: sum.splits if_splits)

lemma safe_integer_Inr: "safe_integer v what = Inr i \<longleftrightarrow> v = JInt i \<and> 0 \<le> i \<and> i \<le> MAX_SAFE_INTEGER"
  by (auto simp: safe_integer_def split: json.splits if_splits)

definition transfer_ok :: "eth_transfer \<Rightarrow> bool" where
  "transfer_ok t \<longleftrightarrow> map_of PAYMENT_NETWORKS (et_chain_id t) \<noteq> None
     \<and> 1 \<le> et_value_wei t \<and> et_value_wei t \<le> UINT256_MAX
     \<and> 1 \<le> et_call_gas t \<and> et_call_gas t \<le> TX_GAS_CAP
     \<and> 1 \<le> et_valid_until t \<and> et_valid_until t \<le> MAX_SAFE_INTEGER
     \<and> 0 \<le> et_config_nonce t \<and> et_config_nonce t \<le> MAX_SAFE_INTEGER
     \<and> et_to t \<noteq> et_treasury t"

lemma checked_transfer_Inr:
  "checked_transfer c tr to v g u n = Inr t \<longleftrightarrow>
    c = JInt (et_chain_id t) \<and> tr = et_treasury t \<and> to = et_to t \<and> v = et_value_wei t
    \<and> g = JInt (et_call_gas t) \<and> u = JInt (et_valid_until t) \<and> n = JInt (et_config_nonce t)
    \<and> 0 \<le> et_chain_id t \<and> et_chain_id t \<le> MAX_SAFE_INTEGER \<and> et_call_gas t \<le> MAX_SAFE_INTEGER \<and> transfer_ok t"
    (is "?l \<longleftrightarrow> ?r")
proof
  show "?l \<Longrightarrow> ?r"
    by (auto simp: checked_transfer_def bindE_Inr safe_integer_Inr transfer_ok_def split: if_splits)
  show "?r \<Longrightarrow> ?l"
    by (auto simp: checked_transfer_def safe_integer_def transfer_ok_def)
qed

lemma parse_action_Inr:
  assumes "parse_action L obj = Inr t"
  obtains kvs where "obj = JObj kvs" "set (map fst kvs) = set ACTION_KEYS"
    "dict_get ''kind'' kvs = JStr KIND_ETH_TRANSFER" "dict_get ''data'' kvs = JStr ''0x''"
    "dict_get ''value_wei'' kvs = JStr (dec_int (et_value_wei t))"
    "dict_get ''chain_id'' kvs = JInt (et_chain_id t)" "dict_get ''call_gas'' kvs = JInt (et_call_gas t)"
    "dict_get ''valid_until'' kvs = JInt (et_valid_until t)" "dict_get ''config_nonce'' kvs = JInt (et_config_nonce t)"
    "dict_get ''treasury'' kvs = JStr (et_treasury t)" "dict_get ''to'' kvs = JStr (et_to t)"
    "checksum_address L (JStr (et_treasury t)) = Inr (et_treasury t)" "checksum_address L (JStr (et_to t)) = Inr (et_to t)"
    "checksum_address L (JStr ZERO_ADDRESS) \<noteq> Inr (et_treasury t)" "checksum_address L (JStr ZERO_ADDRESS) \<noteq> Inr (et_to t)"
    "transfer_ok t" "0 \<le> et_chain_id t" "et_chain_id t \<le> MAX_SAFE_INTEGER" "et_call_gas t \<le> MAX_SAFE_INTEGER"
proof -
  obtain kvs val tr rcpt where k: "obj = JObj kvs" "set (map fst kvs) = set ACTION_KEYS"
    "dict_get ''kind'' kvs = JStr KIND_ETH_TRANSFER" "dict_get ''data'' kvs = JStr ''0x''"
    "dict_get ''value_wei'' kvs = JStr val" "decimal_text val"
    "action_address L (dict_get ''treasury'' kvs) ''treasury'' True = Inr tr"
    "action_address L (dict_get ''to'' kvs) ''recipient'' True = Inr rcpt"
    "checked_transfer (dict_get ''chain_id'' kvs) tr rcpt (int (dec_value val))
       (dict_get ''call_gas'' kvs) (dict_get ''valid_until'' kvs) (dict_get ''config_nonce'' kvs) = Inr t"
    using assms by (auto simp: parse_action_def bindE_Inr split: json.splits if_splits)
  have c: "int (dec_value val) = et_value_wei t" "tr = et_treasury t" "rcpt = et_to t"
    using k(9) unfolding checked_transfer_Inr by auto
  have "val = dec_int (et_value_wei t)"
    using dec_nat_dec_value [OF k(6)] by (simp add: dec_int_def flip: c(1))
  then show thesis
    using that [OF k(1-4)] k(5,7,8) k(9) [unfolded checked_transfer_Inr] c(2,3)
    unfolding action_address_Inr by auto
qed

lemma parse_canonical:
  assumes "checksum_address L (JStr (et_treasury t)) = Inr (et_treasury t)" "checksum_address L (JStr (et_to t)) = Inr (et_to t)"
    "checksum_address L (JStr ZERO_ADDRESS) \<noteq> Inr (et_treasury t)" "checksum_address L (JStr ZERO_ADDRESS) \<noteq> Inr (et_to t)"
    "transfer_ok t" "0 \<le> et_chain_id t" "et_chain_id t \<le> MAX_SAFE_INTEGER" "et_call_gas t \<le> MAX_SAFE_INTEGER"
  shows "parse_action L (transfer_canonical t) = Inr t"
proof -
  have v: "decimal_text (dec_int (et_value_wei t))" "int (dec_value (dec_int (et_value_wei t))) = et_value_wei t"
    using assms(5) by (simp_all add: dec_int_def transfer_ok_def)
  have "checked_transfer (JInt (et_chain_id t)) (et_treasury t) (et_to t) (et_value_wei t) (JInt (et_call_gas t))
      (JInt (et_valid_until t)) (JInt (et_config_nonce t)) = Inr t"
    unfolding checked_transfer_Inr using assms by simp
  moreover have "action_address L (JStr (et_treasury t)) ''treasury'' True = Inr (et_treasury t)"
      "action_address L (JStr (et_to t)) ''recipient'' True = Inr (et_to t)"
    unfolding action_address_Inr using assms by auto
  moreover have "set (map fst (fields)) = set ACTION_KEYS" if "JObj fields = transfer_canonical t" for fields
    using that by (auto simp: transfer_canonical_def ACTION_KEYS_def)
  ultimately show ?thesis
    using v by (simp add: parse_action_def transfer_canonical_def dict_get_def ACTION_KEYS_def insert_commute)
qed

lemma sorted_fields_eq:
  assumes "distinct (map fst kvs)" "distinct (map fst kws)" "map_of kvs = map_of kws"
  shows "sort_key fst kvs = sort_key fst kws"
proof (rule map_sorted_distinct_set_unique [of fst])
  have set_eq: "set kvs = set kws" using assms map_of_inject_set by blast
  show "inj_on fst (set (sort_key fst kvs) \<union> set (sort_key fst kws))"
    using assms(1) by (simp add: set_eq distinct_map)
  show "set (sort_key fst kvs) = set (sort_key fst kws)" by (simp add: set_eq)
qed (use assms distinct_map_sort_key in auto)

lemma canonical_same_map:
  assumes "distinct (map fst kvs)" "distinct (map fst kws)" "map_of kvs = map_of kws"
  shows "canonical_json (JObj kvs) = canonical_json (JObj kws)"
  using sorted_fields_eq [OF assms] by (simp add: canonical_json_def)

lemma dict_get_Some: "dict_get k kvs = v \<Longrightarrow> v \<noteq> JNull \<Longrightarrow> map_of kvs k = Some v"
  by (auto simp: dict_get_def split: option.splits)

text \<open>One payment, one form.  An object the parser accepts has exactly the canonical bytes of the
  transfer it gives, whatever the order of its keys; the transfer is within every bound of the policy,
  and parsing its canonical form gives it back.\<close>

theorem parse_is_canonical:
  assumes "parse_action L (JObj kvs) = Inr t" "distinct (map fst kvs)"
  shows "canonical_json (JObj kvs) = canonical_json (transfer_canonical t) \<and> transfer_ok t
    \<and> parse_action L (transfer_canonical t) = Inr t"
  using assms(1)
proof (cases rule: parse_action_Inr)
  case (1 kvs')
  obtain fields where fields: "transfer_canonical t = JObj fields" "map fst fields = ACTION_KEYS"
    by (simp add: transfer_canonical_def ACTION_KEYS_def)
  have "map_of kvs = map_of fields"
  proof
    fix k show "map_of kvs k = map_of fields k"
  proof (cases "k \<in> set ACTION_KEYS")
    case True
    then show ?thesis
      using "1" (1,3-11) fields(1) by (auto simp: ACTION_KEYS_def transfer_canonical_def dest!: dict_get_Some)
  next
    case False
    then show ?thesis using "1" (1,2) fields(2) by (metis json.inject(6) list.set_map map_of_eq_None_iff)
  qed
  qed
  moreover have "distinct (map fst fields)" unfolding fields(2) by (simp add: ACTION_KEYS_def)
  ultimately show ?thesis
    using "1" parse_canonical [of L t] canonical_same_map [OF assms(2)] fields(1) by auto
qed

section \<open>A typed amount is the amount shown\<close>

definition amount_text :: "int \<Rightarrow> ustr" where
  "amount_text w =
     (let fraction = w mod WEI_PER_ETH
      in if fraction = 0 then dec_int (w div WEI_PER_ETH)
         else dec_int (w div WEI_PER_ETH) @ ''.'' @ rstrip_zeros (pad_left 18 (dec_int fraction)))"

lemma format_wei_amount: "format_wei w = amount_text w @ '' ETH''"
  by (simp add: format_wei_def amount_text_def Let_def)

lemma digit_not_space: "is_digit c \<Longrightarrow> \<not> space1 c" "is_digit c \<Longrightarrow> \<not> space2 c d" "is_digit c \<Longrightarrow> \<not> space2 d c"
  "is_digit c \<Longrightarrow> \<not> space3 c d e" "is_digit c \<Longrightarrow> \<not> space3 e d c"
  by (auto simp: is_digit_def space1_def space2_def space3_def)

lemma strip_front_stop: "s \<noteq> [] \<Longrightarrow> \<not> p1 (hd s) \<Longrightarrow> (\<And>d. \<not> p2 (hd s) d) \<Longrightarrow> (\<And>d e. \<not> p3 (hd s) d e) \<Longrightarrow>
    strip_front p1 p2 p3 s = s"
  by (cases "(p1, p2, p3, s)" rule: strip_front.cases) auto

lemma strip_digits: "s \<noteq> [] \<Longrightarrow> is_digit (hd s) \<Longrightarrow> is_digit (last s) \<Longrightarrow> strip s = s"
  unfolding strip_def by (simp add: strip_front_stop digit_not_space hd_rev)

lemma fraction_text:
  assumes "0 < f" "f < WEI_PER_ETH"
  defines "F \<equiv> rstrip_zeros (pad_left 18 (dec_int f))"
  shows "F \<noteq> []" "length F \<le> 18" "\<forall>c \<in> set F. is_digit c"
    "int (dec_value (F @ replicate (18 - length F) (CHR ''0''))) = f"
proof -
  let ?P = "pad_left 18 (dec_int f)"
  have f: "nat f < 10 ^ 18" using assms(1,2) by (simp add: WEI_PER_ETH_def nat_less_iff)
  then have len: "length ?P = 18"
    using length_dec_nat [OF f] assms(1) by (simp add: dec_int_def pad_left_length)
  obtain k where k: "?P = F @ replicate k (CHR ''0'')" using rstrip_zeros_pad [of ?P] by (auto simp: F_def)
  have val: "int (dec_value ?P) = f"
    using assms(1) by (simp add: pad_left_def dec_value_zeros dec_int_def)
  show "length F \<le> 18" using len k by simp
  have "k = 18 - length F" using len arg_cong [OF k, of length] by simp
  then show "int (dec_value (F @ replicate (18 - length F) (CHR ''0''))) = f" using k val by simp
  show "F \<noteq> []"
  proof
    assume "F = []"
    then have "dec_value ?P = 0" using k dec_value_zeros [of k "[]"] by (simp add: dec_value_def)
    then show False using val assms(1) by simp
  qed
  have "is_digit (CHR ''0'')" by (simp add: is_digit_def)
  then have "\<forall>c \<in> set ?P. is_digit c" using assms(1) dec_int_digits [of f] by (auto simp: pad_left_def)
  then show "\<forall>c \<in> set F. is_digit c" unfolding F_def by (rule rstrip_zeros_digits)
qed

lemma takeWhile_digits: "\<forall>c \<in> set a. P c \<Longrightarrow> r = [] \<or> \<not> P (hd r) \<Longrightarrow> takeWhile P (a @ r) = a \<and> dropWhile P (a @ r) = r"
  by (cases r) auto

text \<open>The amount a person types is the amount the decision shows.  For every amount a payment can
  carry, parsing the number in its sentence gives that amount back, to the last wei.\<close>

theorem amount_round_trip:
  assumes "0 \<le> w" "w \<le> UINT256_MAX"
  shows "format_wei w = amount_text w @ '' ETH'' \<and> parse_eth_value (amount_text w) = Inr w"
proof -
  define whole frac where "whole = w div WEI_PER_ETH" and "frac = w mod WEI_PER_ETH"
  have pos: "0 < WEI_PER_ETH" by (simp add: WEI_PER_ETH_def)
  have w: "w = whole * WEI_PER_ETH + frac" and frac: "0 \<le> frac" "frac < WEI_PER_ETH" and whole: "0 \<le> whole"
    using assms(1) pos by (simp_all add: whole_def frac_def pos_imp_zdiv_nonneg_iff)
  have "whole * 10 ^ 18 \<le> 2 ^ 256"
    using w frac assms(2) by (simp add: WEI_PER_ETH_def UINT256_MAX_def)
  then have "nat whole < 10 ^ 60" by (simp add: nat_less_iff)
  then have len: "length (dec_int whole) \<le> 60" using length_dec_nat whole by (simp add: dec_int_def)
  have d: "\<forall>c \<in> set (dec_int whole). is_digit c" "dec_int whole \<noteq> []" "int (dec_value (dec_int whole)) = whole"
    using dec_int_digits [OF whole] whole by (simp_all add: dec_int_def)
  have dot: "\<not> is_digit (CHR ''.'')" by (simp add: is_digit_def)
  have "parse_eth_value (amount_text w) = Inr (whole * WEI_PER_ETH + frac)"
  proof (cases "frac = 0")
    case True
    then have a: "amount_text w = dec_int whole" by (simp add: amount_text_def whole_def frac_def Let_def)
    have "strip (dec_int whole) = dec_int whole" using d by (intro strip_digits) auto
    moreover have "str_len (dec_int whole) \<le> 60" using len str_len_le order_trans by blast
    moreover have "dec_value (replicate 18 (CHR ''0'')) = 0" by code_simp
    moreover have run: "takeWhile is_digit (dec_int whole) = dec_int whole" "dropWhile is_digit (dec_int whole) = []"
      using d takeWhile_digits [of "dec_int whole" is_digit "[]"] by simp_all
    ultimately show ?thesis
      using d True
      by (simp add: run a parse_eth_value_def Let_def)
  next
    case False
    define F where "F = rstrip_zeros (pad_left 18 (dec_int frac))"
    have F: "F \<noteq> []" "length F \<le> 18" "\<forall>c \<in> set F. is_digit c"
      "int (dec_value (F @ replicate (18 - length F) (CHR ''0''))) = frac"
      using fraction_text [of frac] frac False by (auto simp: F_def)
    have a: "amount_text w = dec_int whole @ CHR ''.'' # F"
      using False by (simp add: amount_text_def whole_def frac_def Let_def F_def)
    have "strip (dec_int whole @ CHR ''.'' # F) = dec_int whole @ CHR ''.'' # F"
      using d F by (intro strip_digits) auto
    moreover have "str_len (dec_int whole @ CHR ''.'' # F) \<le> 79"
      using len F(2) str_len_le [of "dec_int whole @ CHR ''.'' # F"] by simp
    moreover have "list_all is_digit F" using F(3) by (simp add: list_all_iff)
    ultimately show ?thesis
      using d F takeWhile_digits [of "dec_int whole" is_digit "CHR ''.'' # F"] dot
      by (simp add: a parse_eth_value_def Let_def)
  qed
  then show ?thesis by (simp add: format_wei_amount flip: w)
qed

section \<open>The execution digest\<close>

text \<open>What the third-party library documents: keccak-256 gives 32 bytes, checksumming is idempotent and
  its results are checksummed addresses, and the ABI encoding of one list of static types is
  injective on well-typed values.\<close>

definition abi_typed :: "evm_lib \<Rightarrow> ustr \<times> abi_value \<Rightarrow> bool" where
  "abi_typed L w =
     (case w of
        (ty, Abi_bytes b) \<Rightarrow> ty = ''bytes32'' \<and> length b = 32
      | (ty, Abi_uint i) \<Rightarrow> 0 \<le> i \<and> (ty = ''uint256'' \<and> i \<le> UINT256_MAX \<or> ty = ''uint64'' \<and> i \<le> UINT64_MAX)
      | (ty, Abi_address a) \<Rightarrow> ty = ''address'' \<and> ev_is_hex_address L a \<and> ev_to_checksum_address L a = a
      | (ty, Abi_bytes_list _) \<Rightarrow> False)"

definition evm_lib_ok :: "evm_lib \<Rightarrow> bool" where
  "evm_lib_ok L \<longleftrightarrow>
     (\<forall>x. length (ev_keccak L x) = 32)
     \<and> (\<forall>s. take 2 s = ''0x'' \<and> ev_is_hex_address L s \<longrightarrow>
          (let c = ev_to_checksum_address L s in
           take 2 c = ''0x'' \<and> ev_is_hex_address L c \<and> ev_is_checksum_address L c \<and> ev_to_checksum_address L c = c))
     \<and> (\<forall>ws ws'. list_all (abi_typed L) ws \<and> list_all (abi_typed L) ws' \<and> map fst ws = map fst ws'
          \<and> ev_encode L ws = ev_encode L ws' \<longrightarrow> ws = ws')"

lemma execute_words_inj:
  "execute_words L c tr n pid to v h g u = execute_words L c' tr' n' pid' to' v' h' g' u' \<longleftrightarrow>
    c = c' \<and> tr = tr' \<and> n = n' \<and> pid = pid' \<and> to = to' \<and> v = v' \<and> h = h' \<and> g = g' \<and> u = u'"
  by (simp add: execute_words_def)

lemma encode_inj:
  assumes "evm_lib_ok L" "list_all (abi_typed L) ws" "list_all (abi_typed L) ws'" "map fst ws = map fst ws'"
    "ev_encode L ws = ev_encode L ws'"
  shows "ws = ws'"
  using assms unfolding evm_lib_ok_def by blast

lemma checksum_address_Inr:
  "checksum_address L (JStr s) = Inr a \<Longrightarrow> take 2 s = ''0x'' \<and> ev_is_hex_address L s \<and> a = ev_to_checksum_address L s"
  by (auto simp: checksum_address_def Let_def split: if_splits)

lemma checksum_idempotent:
  assumes "evm_lib_ok L" "checksum_address L (JStr s) = Inr a"
  shows "checksum_address L (JStr a) = Inr a" "ev_is_hex_address L a" "ev_to_checksum_address L a = a"
  using assms checksum_address_Inr [OF assms(2)] by (auto simp: evm_lib_ok_def Let_def checksum_address_def)

definition execution_preimage :: "evm_lib \<Rightarrow> int \<Rightarrow> ustr \<Rightarrow> int \<Rightarrow> bytes \<Rightarrow> ustr \<Rightarrow> int \<Rightarrow> bytes \<Rightarrow> int \<Rightarrow> int \<Rightarrow> bytes" where
  "execution_preimage L c tr n pid to v d g u =
     ev_encode L (execute_words L c (ev_to_checksum_address L tr) n pid (ev_to_checksum_address L to) v (ev_keccak L d) g u)"

lemma execution_digest_Inr:
  assumes "execution_digest L c tr n pid to v d g u = Inr x"
  shows "x = ev_keccak L (execution_preimage L c tr n pid to v d g u)"
    "evm_lib_ok L \<Longrightarrow> list_all (abi_typed L)
      (execute_words L c (ev_to_checksum_address L tr) n pid (ev_to_checksum_address L to) v (ev_keccak L d) g u)"
proof -
  obtain tr' to' where a: "checksum_address L (JStr tr) = Inr tr'" "checksum_address L (JStr to) = Inr to'"
    and x: "x = ev_keccak L (ev_encode L (execute_words L c tr' n pid to' v (ev_keccak L d) g u))"
    and b: "length pid = 32" "0 \<le> c" "c \<le> UINT256_MAX" "0 \<le> n" "n \<le> UINT256_MAX" "0 \<le> v" "v \<le> UINT256_MAX"
      "0 \<le> g" "g \<le> UINT64_MAX" "0 \<le> u" "u \<le> UINT64_MAX"
    using assms by (auto simp: execution_digest_def bindE_Inr check_uint256_def check_uint64_def split: if_splits)
  note t = checksum_address_Inr [OF a(1)] checksum_address_Inr [OF a(2)]
  show "x = ev_keccak L (execution_preimage L c tr n pid to v d g u)"
    using x t by (simp add: execution_preimage_def)
  assume ok: "evm_lib_ok L"
  have "length (EXECUTE_TAG L) = 32" "length (ev_keccak L d) = 32"
    using ok by (simp_all add: evm_lib_ok_def EXECUTE_TAG_def)
  then show "list_all (abi_typed L)
      (execute_words L c (ev_to_checksum_address L tr) n pid (ev_to_checksum_address L to) v (ev_keccak L d) g u)"
    using b t checksum_idempotent [OF ok a(1)] checksum_idempotent [OF ok a(2)]
    by (simp add: execute_words_def abi_typed_def)
qed

text \<open>C26: An execution signature is for one payment only.  Two calls with one execution digest agree on the
  chain, the treasury, its configuration, the decision, the recipient, the amount, the call data, the
  gas and the deadline, unless keccak-256 collides on what was hashed.\<close>

theorem execution_digest_binds:
  assumes "evm_lib_ok L"
    and "execution_digest L c tr n pid to v d g u = Inr x" "execution_digest L c' tr' n' pid' to' v' d' g' u' = Inr x"
    and "collision_free (ev_keccak L)
      {execution_preimage L c tr n pid to v d g u, execution_preimage L c' tr' n' pid' to' v' d' g' u', d, d'}"
  shows "c = c' \<and> ev_to_checksum_address L tr = ev_to_checksum_address L tr' \<and> n = n' \<and> pid = pid'
    \<and> ev_to_checksum_address L to = ev_to_checksum_address L to' \<and> v = v' \<and> d = d' \<and> g = g' \<and> u = u'"
proof -
  let ?ws = "execute_words L c (ev_to_checksum_address L tr) n pid (ev_to_checksum_address L to) v (ev_keccak L d) g u"
  let ?ws' = "execute_words L c' (ev_to_checksum_address L tr') n' pid' (ev_to_checksum_address L to') v' (ev_keccak L d') g' u'"
  note typed = execution_digest_Inr(2) [OF assms(2,1)] execution_digest_Inr(2) [OF assms(3,1)]
  have "execution_preimage L c tr n pid to v d g u = execution_preimage L c' tr' n' pid' to' v' d' g' u'"
    using trans [OF execution_digest_Inr(1) [OF assms(2), symmetric] execution_digest_Inr(1) [OF assms(3)]]
    by (rule collision_freeD [OF assms(4)]) blast+
  moreover have "map fst ?ws = map fst ?ws'" by (simp add: execute_words_def)
  ultimately have "?ws = ?ws'"
    using encode_inj [OF assms(1) typed] by (simp only: execution_preimage_def)
  note fields = this [unfolded execute_words_inj]
  have "d = d'" by (rule collision_freeD [OF assms(4)]) (use fields in blast)+
  then show ?thesis using fields by blast
qed

lemma action_address_any:
  "action_address L (JStr a) what b = Inr c \<Longrightarrow>
    checksum_address L (JStr a) = Inr c \<and> checksum_address L (JStr ZERO_ADDRESS) \<noteq> Inr c"
  by (auto simp: action_address_def split: sum.splits if_splits)

lemma transfer_digest_total:
  assumes "checksum_address L (JStr (et_treasury t)) = Inr (et_treasury t)" "checksum_address L (JStr (et_to t)) = Inr (et_to t)"
    "transfer_ok t" "0 \<le> et_chain_id t" "et_chain_id t \<le> MAX_SAFE_INTEGER" "proposal_id h = Inr pid"
  shows "\<exists>x. transfer_digest L t h = Inr x"
proof -
  have "length pid = 32" using assms(6) by (auto simp: proposal_id_def bytes32_from_hex_def Let_def split: option.splits if_splits)
  then show ?thesis
    using assms by (simp add: transfer_digest_def execution_digest_def check_uint256_def check_uint64_def transfer_ok_def
        UINT256_MAX_def UINT64_MAX_def MAX_SAFE_INTEGER_def TX_GAS_CAP_def)
qed

text \<open>An accepted payment can always be signed for.  Every action the parser accepts has an execution
  digest under every 32-byte payload hash, and a transfer the builder makes is accepted as it is.\<close>

theorem built_payment_is_signable:
  assumes "evm_lib_ok L" "build_eth_transfer L chain treasury to amount deadline nonce = Inr t"
    and "proposal_id payload_hash = Inr pid"
  shows "parse_action L (transfer_canonical t) = Inr t \<and> transfer_ok t
    \<and> (\<exists>x. transfer_digest L t payload_hash = Inr x)"
proof -
  obtain u where built: "action_address L (JStr treasury) ''treasury'' False = Inr (et_treasury t)"
    "action_address L (JStr to) ''recipient'' False = Inr (et_to t)"
    "0 \<le> et_chain_id t" "et_chain_id t \<le> MAX_SAFE_INTEGER" "et_call_gas t \<le> MAX_SAFE_INTEGER" "transfer_ok t"
    using assms(2) by (auto simp: build_eth_transfer_def bindE_Inr checked_transfer_Inr Let_def)
  note a = action_address_any [OF built(1)] action_address_any [OF built(2)]
  note i = checksum_idempotent(1) [OF assms(1)]
  have "parse_action L (transfer_canonical t) = Inr t"
    using a i built by (intro parse_canonical) auto
  then show ?thesis using transfer_digest_total [OF _ _ built(6,3,4) assms(3)] a i built(6) by blast
qed

section \<open>An example library\<close>

text \<open>The first 32 bytes, padded, for keccak-256, every 42-character text an address in its only form, and each static value a
  field of fixed length.\<close>

definition toy_word :: "ustr \<times> abi_value \<Rightarrow> bytes" where
  "toy_word w =
     (case snd w of Abi_bytes b \<Rightarrow> b | Abi_uint i \<Rightarrow> to_be 32 (nat i) | Abi_address a \<Rightarrow> a | Abi_bytes_list bs \<Rightarrow> concat bs)"

definition toy_evm :: evm_lib where
  "toy_evm = \<lparr>ev_keccak = (\<lambda>x. take 32 (x @ replicate 32 (CHR ''0''))), ev_is_hex_address = (\<lambda>s. length s = 42), ev_is_checksum_address = (\<lambda>s. True),
     ev_to_checksum_address = (\<lambda>s. s), ev_to_canonical_address = (\<lambda>s. s), ev_encode = (\<lambda>ws. concat (map toy_word ws))\<rparr>"

lemma toy_word_inj:
  assumes "abi_typed toy_evm a" "abi_typed toy_evm b" "fst a = fst b"
  shows "length (toy_word a) = length (toy_word b)" "toy_word a = toy_word b \<Longrightarrow> a = b"
proof -
  have "UINT256_MAX < 256 ^ 32" "UINT64_MAX < 256 ^ 32" by (simp_all add: UINT256_MAX_def UINT64_MAX_def)
  then have inj: "0 \<le> i \<and> 0 \<le> j \<and> i < 256 ^ 32 \<and> j < 256 ^ 32 \<Longrightarrow> to_be 32 (nat i) = to_be 32 (nat j) \<longleftrightarrow> i = j"
    and small: "i \<le> UINT256_MAX \<or> i \<le> UINT64_MAX \<Longrightarrow> i < 256 ^ 32" for i j
    using to_be_inj [of "nat i" 32 "nat j"] by (auto simp: nat_less_iff)
  obtain ta va tb vb where ab: "a = (ta, va)" "b = (tb, vb)" by (metis surj_pair)
  show "length (toy_word a) = length (toy_word b)"
    using assms ab by (cases va; cases vb) (auto simp: abi_typed_def toy_word_def toy_evm_def)
  assume "toy_word a = toy_word b"
  then show "a = b"
    using assms ab inj small by (cases va; cases vb) (auto simp: abi_typed_def toy_word_def toy_evm_def)
qed

lemma toy_encode_inj:
  assumes "list_all (abi_typed toy_evm) ws" "list_all (abi_typed toy_evm) ws'" "map fst ws = map fst ws'"
    "concat (map toy_word ws) = concat (map toy_word ws')"
  shows "ws = ws'"
  using assms
proof (induction ws arbitrary: ws')
  case (Cons w ws)
  then obtain v vs where ws': "ws' = v # vs" by (cases ws') simp_all
  have typed: "abi_typed toy_evm w" "abi_typed toy_evm v" "fst w = fst v" using Cons.prems ws' by simp_all
  have "toy_word w @ concat (map toy_word ws) = toy_word v @ concat (map toy_word vs)"
    using Cons.prems(4) ws' by simp
  then have "toy_word w = toy_word v" "concat (map toy_word ws) = concat (map toy_word vs)"
    using toy_word_inj(1) [OF typed] by simp_all
  moreover have "ws = vs" using Cons.IH [of vs] Cons.prems ws' calculation(2) by simp
  ultimately show ?case using toy_word_inj(2) [OF typed] ws' by simp
qed simp

lemma toy_evm_ok: "evm_lib_ok toy_evm"
  using toy_encode_inj by (auto simp: evm_lib_ok_def toy_evm_def)

definition addr :: "char \<Rightarrow> ustr" where "addr c = ''0x'' @ replicate 40 c"

definition toy_transfer :: eth_transfer where
  "toy_transfer = \<lparr>et_chain_id = 11155111, et_treasury = addr (CHR ''1''), et_to = addr (CHR ''2''),
     et_value_wei = 5, et_call_gas = 100000, et_valid_until = 864000, et_config_nonce = 0\<rparr>"

lemma toy_addresses: "checksum_address toy_evm (JStr (addr c)) = Inr (addr c)"
  by (simp add: checksum_address_def toy_evm_def addr_def)

lemma toy_built: "build_eth_transfer toy_evm 11155111 (addr (CHR ''1'')) (addr (CHR ''2'')) 5 (604800 * 1000000) 0 = Inr toy_transfer"
  using toy_addresses [of "CHR ''1''"] toy_addresses [of "CHR ''2''"] toy_addresses [of "CHR ''0''"]
  by (simp add: build_eth_transfer_def action_address_def checked_transfer_def safe_integer_def toy_transfer_def
      ZERO_ADDRESS_def addr_def PAYMENT_NETWORKS_def MAX_SAFE_INTEGER_def UINT256_MAX_def TX_GAS_CAP_def
      ETH_TRANSFER_CALL_GAS_def EXECUTION_WINDOW_def seconds_def Let_def)

lemma toy_pid: "proposal_id (to_hex (sha256 [])) = Inr (sha256 [])"
proof -
  have "take 2 (to_hex (sha256 [])) \<noteq> ''0x''" by code_simp
  then show ?thesis by (simp add: proposal_id_def bytes32_from_hex_def)
qed

lemma built_payment_is_signable_witness: "parse_action toy_evm (transfer_canonical toy_transfer) = Inr toy_transfer"
  using built_payment_is_signable [OF toy_evm_ok toy_built toy_pid] by blast

lemma parse_is_canonical_witness: "transfer_ok toy_transfer"
proof -
  obtain kvs where kvs: "transfer_canonical toy_transfer = JObj kvs" "distinct (map fst kvs)"
    by (simp add: transfer_canonical_def)
  have "parse_action toy_evm (JObj kvs) = Inr toy_transfer"
    unfolding kvs(1) [symmetric] using toy_addresses
    by (intro parse_canonical)
      (simp_all add: toy_transfer_def transfer_ok_def PAYMENT_NETWORKS_def UINT256_MAX_def TX_GAS_CAP_def MAX_SAFE_INTEGER_def
        ZERO_ADDRESS_def addr_def checksum_address_def toy_evm_def)
  then show ?thesis using parse_is_canonical kvs(2) by blast
qed

lemma amount_round_trip_witness: "parse_eth_value (amount_text 1500000000000000000) = Inr 1500000000000000000"
  using amount_round_trip [of 1500000000000000000] by (simp add: UINT256_MAX_def)

lemma execution_digest_binds_witness:
  "(\<exists>x. execution_digest toy_evm 11155111 (addr (CHR ''1'')) 0 (sha256 []) (addr (CHR ''2'')) 5 [] 100000 864000 = Inr x)
    \<and> ev_to_checksum_address toy_evm (addr (CHR ''2'')) = addr (CHR ''2'')"
proof -
  obtain x where x: "execution_digest toy_evm 11155111 (addr (CHR ''1'')) 0 (sha256 []) (addr (CHR ''2'')) 5 [] 100000 864000 = Inr x"
    using toy_addresses by (simp add: execution_digest_def check_uint256_def check_uint64_def UINT256_MAX_def UINT64_MAX_def)
  let ?p = "execution_preimage toy_evm 11155111 (addr (CHR ''1'')) 0 (sha256 []) (addr (CHR ''2'')) 5 [] 100000 864000"
  have "hd (ev_keccak toy_evm ?p) = CHR ''Q''"
    by (simp add: execution_preimage_def toy_evm_def execute_words_def toy_word_def EXECUTE_TAG_def TREASURY_VERSION_def)
  moreover have "hd (ev_keccak toy_evm []) = CHR ''0''" by (simp add: toy_evm_def hd_replicate)
  ultimately have "ev_keccak toy_evm ?p \<noteq> ev_keccak toy_evm []" by auto
  then have cf: "collision_free (ev_keccak toy_evm) {?p, ?p, [], []}" by (auto simp: collision_free_def inj_on_def)
  have same: "ev_to_checksum_address toy_evm (addr (CHR ''2'')) = addr (CHR ''2'')" by (simp add: toy_evm_def)
  from execution_digest_binds [OF toy_evm_ok x x cf]
  have "ev_to_checksum_address toy_evm (addr (CHR ''2'')) = ev_to_checksum_address toy_evm (addr (CHR ''2''))"
    by (elim conjE)
  from trans [OF this same] x show ?thesis by blast
qed

end
