(* ===== verification/Approval_Examples.thy ===== *)
theory Approval_Examples
  imports Approval_Machine Ledger_Proofs Chain_Proofs
begin

text \<open>
  The theorems on decisions, applied to one: two approvers, one approval needed, and the second approver,
  who casts it from a phone, or from the browser with a password.
\<close>

definition vote_provider :: signature_provider where
  "vote_provider = \<lparr>sp_meta = \<lparr>am_alg_id = ''ML-DSA-65'', am_family = ''toy'', am_security_category = 3,
     am_backend = ''toy'', am_sizes = [(''signature'', 2)], am_quantum_vulnerable = False\<rparr>,
     sp_keygen = (\<lambda>r. \<lparr>kp_public_key = r, kp_secret_key = r, kp_alg_id = ''ML-DSA-65''\<rparr>),
     sp_sign = (\<lambda>sk m. [hd sk, last m]), sp_verify = (\<lambda>pk m s. s = [hd pk, last m])\<rparr>"

definition vote_env :: vault_env where
  "vote_env = toy_env\<lparr>ce_hash := (\<lambda>_. ''h''), ce_registry := register_symmetric (register_signature empty_registry vote_provider) toy_symmetric\<rparr>"

definition phone :: key_row where
  "phone = \<lparr>k_id = 7, k_owner_id = Some 2, k_role = ''sig'', k_alg_id = ''ML-DSA-65'', k_backend = ''noble-pqc'',
     k_public_key = ''k'', k_public_key_mac = None, k_secret_key_wrapped = None, k_secret_key_nonce = None,
     k_wrap_domain = ''device'', k_status = ''active'', k_can_sign = True, k_can_verify = True, k_version = 1,
     k_rotate_after = None, k_created_at = 0, k_retired_at = None\<rparr>"

definition proposal_one :: proposal_row where
  "proposal_one = \<lparr>p_id = 3, p_uuid = ''u'', p_vault_id = 1, p_creator_id = 1, p_title = ''t'', p_action_text = ''a'',
     p_nonce = ''n'', p_authorized_signers_snapshot = ''[1, 2]'', p_created_at_iso = ''c'', p_payload_hash = ''68'',
     p_required_m = 1, p_required_n = 2, p_status = ''open'', p_expires_at = None, p_approved_at = None,
     p_rejected_at = None\<rparr>"

definition raised_event :: ledger_event where
  "raised_event = \<lparr>ev_type = ''proposal_created'', ev_payload = JObj [(''payload_hash'', JStr ''68'')], ev_actor = ''user:1'',
     ev_actor_id = Some 1, ev_vault_id = Some 1, ev_ref_type = Some ''proposal'', ev_ref_id = Some ''u''\<rparr>"

definition vault_one :: vault_row where
  "vault_one = \<lparr>v_id = 1, v_name = ''v'', v_owner_id = 1, v_threshold_m = 1, v_description = None, v_kem_alg_id = ''ML-KEM-768'',
     v_kem_public_key = [], v_kem_key_id = 5\<rparr>"

definition raised_db :: db where
  "raised_db = snd (ledger_append vote_env 0 raised_event (empty_db\<lparr>db_keys := [phone], db_proposals := [proposal_one],
     db_vaults := [vault_one],
     db_vault_members := [\<lparr>vm_vault_id = 1, vm_user_id = 1, vm_member_role = ''owner''\<rparr>,
       \<lparr>vm_vault_id = 1, vm_user_id = 2, vm_member_role = ''signer''\<rparr>]\<rparr>))"

lemma raised_tables [simp]:
  "db_keys raised_db = [phone]" "db_proposals raised_db = [proposal_one]" "db_vaults raised_db = [vault_one]"
  "db_signatures raised_db = []" "db_actions raised_db = []" "db_workspaces raised_db = []"
  "db_workspace_members raised_db = []" "db_lifecycles raised_db = []" "db_vault_rules raised_db = []"
  "db_vault_members raised_db = [\<lparr>vm_vault_id = 1, vm_user_id = 1, vm_member_role = ''owner''\<rparr>,
       \<lparr>vm_vault_id = 1, vm_user_id = 2, vm_member_role = ''signer''\<rparr>]"
  by (simp_all add: raised_db_def empty_db_def)

lemma proposal_one_fields:
  "p_id proposal_one = 3" "p_status proposal_one = ''open''" "p_vault_id proposal_one = 1" "p_required_m proposal_one = 1"
  "p_expires_at proposal_one = None" "p_required_n proposal_one = 2" "p_creator_id proposal_one = 1"
  by (simp_all add: proposal_one_def)

lemma snapshot_one: "snapshot_ids proposal_one = Some [1, 2]"
  by code_simp

lemma raised_created: "creation_ledger_hash raised_db proposal_one = JStr ''68''"
  by code_simp

lemma raised_rows:
  "get_proposal raised_db 3 = Some proposal_one" "get_vault raised_db 1 = Some vault_one"
  "get_key raised_db 7 = Some phone" "signatures_of raised_db proposal_one = []" "action_of raised_db proposal_one = None"
  "home_workspace_id raised_db v = None" "lifecycle_of raised_db proposal_one = None" "vault_allows_requester raised_db 1"
  by (simp_all add: get_proposal_def get_vault_def get_key_def signatures_of_def action_of_def phone_def vault_one_def
      proposal_one_fields home_workspace_id_def owners_workspace_id_def current_membership_def lifecycle_of_def
      vault_allows_requester_def)

lemma raised_may: "requester_may_approve raised_db proposal_one"
  by (simp add: requester_may_approve_def frozen_allows_def raised_rows proposal_one_fields)

lemma raised_approver: "is_current_approver raised_db 1 2"
  by (simp add: is_current_approver_def vault_member_of_def is_approver_def SIGNER_ROLES_def)

lemma raised_deciding: "deciding_n raised_db proposal_one [1, 2] = 2"
  by (simp add: deciding_n_def requester_excluded_def raised_may proposal_one_fields)

text \<open>The two votes the phone casts in what follows, with the reason of each.\<close>

definition phone_reason :: "ustr \<Rightarrow> json" where
  "phone_reason decision = (if decision = ''reject'' then JStr ''no'' else JNull)"

text \<open>A decision the phone may vote on: sound, in this vault, with no vote yet and the hash above.\<close>

definition phone_ready :: "db \<Rightarrow> int \<Rightarrow> proposal_row \<Rightarrow> bool" where
  "phone_ready d pid p \<longleftrightarrow>
     sound_decision vote_env pid p [1, 2] d \<and> signatures_of d p = [] \<and> action_of d p = None
     \<and> p_status p = ''open'' \<and> p_vault_id p = 1 \<and> p_required_m p = 1 \<and> p_required_n p = 2 \<and> p_expires_at p = None
     \<and> p_payload_hash p = ''68'' \<and> get_vault d 1 = Some vault_one \<and> db_workspaces d = [] \<and> db_workspace_members d = []
     \<and> is_current_approver d 1 2 \<and> requester_may_approve d p \<and> get_key d 7 = Some phone \<and> \<not> cannot_pass d vault_one p [1, 2]"

lemma ready:
  assumes "phone_ready d pid p"
  shows "sound_decision vote_env pid p [1, 2] d" "signatures_of d p = []" "action_of d p = None" "p_status p = ''open''"
    "p_vault_id p = 1" "p_required_m p = 1" "p_required_n p = 2" "p_expires_at p = None" "p_payload_hash p = ''68''"
    "get_vault d 1 = Some vault_one" "home_workspace_id d v = None" "db_workspaces d = []" "is_current_approver d 1 2"
    "requester_may_approve d p" "get_key d 7 = Some phone" "\<not> cannot_pass d vault_one p [1, 2]" "vote_of d p 2 = None"
    "get_proposal d pid = Some p" "snapshot_ids p = Some [1, 2]" "deciding_n d p [1, 2] = 2"
  using assms
  by (simp_all add: phone_ready_def vote_of_def sound_decision_def home_workspace_id_def owners_workspace_id_def
      current_membership_def deciding_n_def requester_excluded_def)

lemma phone_checks:
  assumes "phone_ready d pid p" "decision \<in> {''approve'', ''reject''}"
  shows "vote_gate d vault_one p [1, 2] 2 decision (phone_reason decision) = None"
    "check_vote_bytes vote_env p 2 phone decision ''k}'' = Inr ()"
    "require_device_signing_key vote_env 2 (Some phone) = Inr phone"
proof -
  note r = ready [OF assms(1)]
  have "signing_standing d vault_one 2 = None" by (simp add: signing_standing_def r)
  moreover have "reason_problem decision (phone_reason decision) = None" using assms(2) by (auto simp: phone_reason_def) code_simp+
  ultimately show "vote_gate d vault_one p [1, 2] 2 decision (phone_reason decision) = None"
    by (simp add: vote_gate_def r)
  have "check_vote_bytes vote_env proposal_one 2 phone ''approve'' ''k}'' = Inr ()"
    "check_vote_bytes vote_env proposal_one 2 phone ''reject'' ''k}'' = Inr ()" by code_simp+
  then have "check_vote_bytes vote_env proposal_one 2 phone decision ''k}'' = Inr ()" using assms(2) by auto
  then show "check_vote_bytes vote_env p 2 phone decision ''k}'' = Inr ()"
    using r(9) by (simp add: check_vote_bytes_def proposal_one_def)
  show "require_device_signing_key vote_env 2 (Some phone) = Inr phone" by code_simp
qed

lemma raised_sound: "sound_decision vote_env 3 proposal_one [1, 2] raised_db"
proof -
  have "\<exists>m. signing_bytes_for raised_db proposal_one = Some m"
    by (simp add: signing_bytes_for_def stored_fields_def snapshot_one)
  moreover have "sha256_hex (ce_hash vote_env) m = p_payload_hash proposal_one" for m
    by (simp add: sha256_hex_def vote_env_def proposal_one_def) code_simp
  moreover have "p_payload_hash proposal_one = ''68''" by (simp add: proposal_one_def)
  ultimately have "binding_ok vote_env raised_db proposal_one"
    by (auto simp: binding_ok_iff payment_problem_None raised_rows raised_created)
  then show ?thesis by (simp add: sound_decision_def votes_sound_def raised_rows snapshot_one)
qed

lemma just_raised_db: "just_raised vote_env 3 raised_db"
  using raised_sound by (auto simp: just_raised_def sound_decision_def raised_rows proposal_one_fields)

lemma raised_ready: "phone_ready raised_db 3 proposal_one"
proof -
  have "\<not> cannot_pass raised_db vault_one proposal_one [1, 2]" by code_simp
  then show ?thesis
    using raised_sound raised_approver raised_may by (simp add: phone_ready_def raised_rows proposal_one_fields) (simp add: proposal_one_def)
qed

lemma phone_key: "get_key raised_db (k_id phone) = Some phone" "k_owner_id phone = Some 2" "k_id phone = 7"
  using raised_rows(3) by (simp_all add: phone_def)

text \<open>The phone's vote is taken, and the outcome is the verdict: an approval decides it, a rejection does
  not.\<close>

abbreviation phone_votes :: "ustr \<Rightarrow> int \<Rightarrow> db \<Rightarrow> (approval_error + signature_row) \<times> db" where
  "phone_votes decision pid d \<equiv>
     record_device_vote vote_env toy_evm None 5 pid 2 (Some phone) decision ''k}'' (phone_reason decision) None d"

lemma phone_vote:
  assumes "phone_ready d pid p" "decision \<in> {''approve'', ''reject''}"
  obtains s d' p' where "phone_votes decision pid d = (Inr s, d')" "get_proposal d' pid = Some p'" "core p' = core p"
    "p_status p' = (if decision = ''approve'' then ''approved'' else ''open'')" "signatures_of d' p' = [s]" "s_signer_id s = 2"
    "decision_step vote_env pid d d'" "db_lifecycles d' = db_lifecycles d"
proof -
  note rd = ready [OF assms(1)]
  let ?s = "new_signature 5 d p 2 phone decision ''k}'' (phone_reason decision)"
  let ?w = "write_vote vote_env 5 p phone ?s None d"
  note c = phone_checks [OF assms]
  have key: "get_key d (k_id phone) = Some phone" using rd(15) phone_key(3) by simp
  have w: "sound_decision vote_env pid p [1, 2] ?w" "signatures_of ?w p = [?s]"
    using written_sound [OF rd(1) _ rd(17) c(2) key phone_key(2) assms(2)] by (simp_all add: rd)
  obtain d' p' where f: "finalize_if_decided vote_env 5 (Some 2) pid ?w = Inr d'" "get_proposal d' pid = Some p'"
    "core p = core p'" "p_status p' = verdict ?w p [1, 2]" "db_signatures d' = db_signatures ?w"
    "db_lifecycles d' = db_lifecycles ?w"
    by (rule finalize_sound [OF w(1) rd(4), where now = 5 and actor = "Some 2"])
  have a: "authorize_vote vote_env 5 pid 2 decision (phone_reason decision) d = (Inr (), d)"
    using assms(2) by (auto simp: authorize_vote_def refresh_expiry_def loaded_def rd c)
  have x: "device_execution vote_env toy_evm None d p 2 phone decision None = Inr None"
    by (simp add: device_execution_def is_payment_def rd)
  have e: "still_entitled d vault_one p 2 = None" 
    using rd(14) by (auto simp: still_entitled_def rd(4-13) Let_def requester_may_approve_def frozen_allows_def vault_allows_requester_def split: option.splits)
  have r: "phone_votes decision pid d = (Inr ?s, d')"
    by (simp add: record_device_vote_def a c x rd is_payment_def record_vote_def bindE_def e
        store_execution_def vote_clash_def Let_def f)
  have n: "deciding_n ?w p [1, 2] = 2"
    using deciding_after_vote [where p = p and d = d and signer = 2] rd(14,20) by simp
  have "p_status p' = (if decision = ''approve'' then ''approved'' else ''open'')"
    using f(4) w(2) assms(2) n by (auto simp: verdict_def votes_for_def rd rejection_closes_def)
  moreover have "signatures_of d' p' = [?s]" using signatures_of_same [OF f(5,3)] w(2) by simp
  moreover have "decision_step vote_env pid d d'" using r key by (rule decision_step.voted)
  moreover have "db_lifecycles d' = db_lifecycles d" using f(6) by (simp add: write_vote_def)
  ultimately show thesis using f(2,3) by (intro that [OF r]) simp_all
qed

lemma phone_approval:
  obtains s d' p' where "phone_votes ''approve'' 3 raised_db = (Inr s, d')" "get_proposal d' 3 = Some p'" "p_status p' = ''approved''"
    "decision_step vote_env 3 raised_db d'"
  by (rule phone_vote [OF raised_ready, of "''approve''"]) simp_all

lemma step_star: "decision_step env pid d d' \<Longrightarrow> (decision_step env pid)\<^sup>*\<^sup>* d d'"
  by blast

section \<open>The same vote from the browser\<close>

text \<open>The second approver's row and password key; the password is the key that wraps.\<close>

definition bob :: user_row where
  "bob = \<lparr>u_id = 2, u_email = ''b'', u_display_name = ''b'', u_password_hash = [], u_kek_salt = [], u_kdf_params = ''{}'',
     u_role = ''user'', u_created_at = 0\<rparr>"

definition web_key :: key_row where
  "web_key = phone\<lparr>k_id := 8, k_wrap_domain := ''password'', k_secret_key_nonce := Some [], k_secret_key_wrapped := Some ''pwk''\<rparr>"

definition web_db :: db where
  "web_db = raised_db\<lparr>db_keys := [phone, web_key]\<rparr>"

definition web_settings :: password_env where
  "web_settings = \<lparr>pe_argon2 = (\<lambda>password salt t m lanes size. password),
     pe_attempts = \<lparr>pc_enabled = True, pc_limit = None, pc_account_limit = None\<rparr>\<rparr>"

definition web_visit :: web_request where
  "web_visit = \<lparr>web_now = 5, web_monotonic = 0, web_session = None\<rparr>"

lemma web_tables [simp]:
  "db_keys web_db = [phone, web_key]" "db_proposals web_db = [proposal_one]" "db_vaults web_db = [vault_one]"
  "db_signatures web_db = []" "db_actions web_db = []" "db_workspaces web_db = []" "db_workspace_members web_db = []"
  "db_lifecycles web_db = []" "db_vault_rules web_db = []" "db_vault_members web_db = db_vault_members raised_db"
  "db_files web_db = db_files raised_db" "db_treasuries web_db = db_treasuries raised_db" "db_entries web_db = db_entries raised_db"
  by (simp_all add: web_db_def)

lemma web_ready: "phone_ready web_db 3 proposal_one"
proof -
  have ids: "k_id phone = 7" "k_id web_key = 8" by (simp_all add: phone_def web_key_def)
  have "evidence_kept proposal_one raised_db web_db"
    using ids by (simp add: evidence_kept_def file_of_def action_of_def creation_entry_def key_material_def get_key_def
        treasury_place_def get_treasury_def)
  then have "sound_decision vote_env 3 proposal_one [1, 2] web_db"
    by (intro sound_kept [OF raised_sound]) (simp_all add: get_proposal_def signatures_of_def proposal_one_fields)
  moreover have "\<not> cannot_pass web_db vault_one proposal_one [1, 2]" by code_simp
  moreover have "is_current_approver web_db 1 2" "requester_may_approve web_db proposal_one"
    using raised_approver raised_may
    by (simp_all add: is_current_approver_def vault_member_of_def requester_may_approve_def frozen_allows_def lifecycle_of_def
        vault_allows_requester_def)
  ultimately show ?thesis
    using ready [OF raised_ready] ids
    by (simp add: phone_ready_def get_vault_def get_key_def action_of_def signatures_of_def vault_one_def)
qed

lemma web_chosen: "active_signing_key web_db 2 = Some web_key" "k_public_key web_key = ''k''" "k_owner_id web_key = Some 2"
    "distinct (map k_id (db_keys web_db))"
  by (simp_all add: active_signing_key_def phone_def web_key_def)

lemma web_unwrapped: "unwrap_with vote_env web_settings bob ''pw'' [] ''pwk'' = Inr (Some ''k'')"
  by code_simp

lemma web_provider: "find_provider vote_env ''ML-DSA-65'' = Inr vote_provider"
  by (simp add: find_provider_def vote_env_def register_signature_def register_symmetric_def signature_def resolve_def
      empty_registry_def vote_provider_def toy_env_def)

lemma web_signed:
  "\<exists>a. sign_vote vote_env web_settings web_visit bob web_key ''pw'' m None (no_recoveries, d) no_attempts
     = (Inr ((''k'' @ [last m], None), (no_recoveries, d)), a)"
proof -
  have alg: "k_alg_id web_key = ''ML-DSA-65''" "k_secret_key_nonce web_key = Some []" "k_secret_key_wrapped web_key = Some ''pwk''"
    by (simp_all add: web_key_def phone_def)
  have proven: "password_proven vote_env t via u (no_recoveries, d) = (no_recoveries, d)" for t via u
    by (simp add: password_proven_def cancellable_def no_recoveries_def)
  have "\<exists>a. password_refusal (pe_attempts web_settings) 2 0 None no_attempts = (None, a)"
    by (simp add: web_settings_def password_refusal_def attempt_limits_def attempts_wait_def no_attempts_def pruned_def Let_def)
  moreover have "\<not> recovery_due no_recoveries 5 2" by (simp add: recovery_due_def open_request_def no_recoveries_def)
  ultimately have "\<exists>a. unlock_secret_key vote_env web_settings web_visit bob web_key ''pw'' (no_recoveries, d) no_attempts
      = (Inr (''k'', (no_recoveries, d)), a)"
    using web_unwrapped alg proven by (auto simp: unlock_secret_key_def web_visit_def bob_def Let_def)
  then show ?thesis
    using web_provider alg web_chosen(2)
    by (auto simp: sign_vote_def sign_with_key_def sign_messages_def) (simp_all add: vote_provider_def Let_def)
qed

lemma browser_vote:
  obtains s d' where "vote_taken vote_env web_settings 3 2 web_key ''approve'' web_db s d'" "decision_step vote_env 3 web_db d'"
proof -
  note rd = ready [OF web_ready]
  let ?s = "new_signature 5 web_db proposal_one 2 web_key ''approve'' ''k}'' JNull"
  let ?w = "write_vote vote_env 5 proposal_one web_key ?s None web_db"
  have gate: "vote_gate web_db vault_one proposal_one [1, 2] 2 ''approve'' JNull = None"
    using phone_checks(1) [OF web_ready, of "''approve''"] by (simp add: phone_reason_def)
  have bytes: "check_vote_bytes vote_env proposal_one 2 web_key ''approve'' ''k}'' = Inr ()" by code_simp
  have w: "sound_decision vote_env 3 proposal_one [1, 2] ?w"
    using written_sound [OF rd(1) _ rd(17) bytes _ web_chosen(3)] by (simp add: get_key_def web_key_def phone_def)
  obtain d' where f: "finalize_if_decided vote_env 5 (Some 2) 3 ?w = Inr d'"
    by (rule finalize_sound [OF w rd(4), where now = 5 and actor = "Some 2"])
  have a: "authorize_vote vote_env 5 3 2 ''approve'' JNull web_db = (Inr (), web_db)"
    by (simp add: authorize_vote_def refresh_expiry_def loaded_def rd gate)
  have "case vote_signing_bytes ''68'' ''approve'' 2 of Inl _ \<Rightarrow> False | Inr m \<Rightarrow> last m = CHR ''}''" by code_simp
  then obtain m where m: "vote_signing_bytes ''68'' ''approve'' 2 = Inr m" "last m = CHR ''}''" by (auto split: sum.splits)
  obtain tries where tries: "sign_vote vote_env web_settings web_visit bob web_key ''pw'' m None (no_recoveries, web_db) no_attempts
      = (Inr ((''k}'', None), (no_recoveries, web_db)), tries)" using web_signed [of m web_db] m(2) by auto
  have e: "still_entitled web_db vault_one proposal_one 2 = None"
    using rd(14) by (auto simp: still_entitled_def rd(4-13) Let_def requester_may_approve_def frozen_allows_def
        vault_allows_requester_def split: option.splits)
  have u: "u_id bob = 2" "web_now web_visit = 5" by (simp_all add: bob_def web_visit_def)
  have p: "prepare_vote vote_env web_settings toy_evm None web_visit 3 bob ''pw'' ''approve'' (no_recoveries, web_db) no_attempts
      = (Inr ((web_key, ''k}'', None), (no_recoveries, web_db)), tries)"
    by (simp add: prepare_vote_def u web_chosen(1) rd m(1) vote_execution_digest_def is_payment_def tries)
  have "record_vote vote_env 5 3 2 web_key ''approve'' ''k}'' JNull None web_db = Inr (?s, d')"
    by (simp add: record_vote_def rd is_payment_def bindE_def bytes e store_execution_def vote_clash_def Let_def f)
  then have c: "cast_vote vote_env web_settings toy_evm None web_visit 3 bob ''pw'' ''approve'' JNull (no_recoveries, web_db) no_attempts
      = (Inr ?s, (no_recoveries, d'), tries)" by (simp add: cast_vote_def u a p)
  have "vote_taken vote_env web_settings 3 (u_id bob) web_key ''approve'' web_db ?s d'"
    by (rule vote_taken.by_browser [OF c web_chosen(4)]) (simp add: u web_chosen(1))
  then show thesis using decision_step.cast [OF c web_chosen(4)] u(1) by (intro that) simp_all
qed

section \<open>Witnesses\<close>

lemma approved_means_witness:
  "\<exists>d p ids voters. get_proposal d 3 = Some p \<and> p_status p = ''approved'' \<and> snapshot_ids p = Some ids
    \<and> distinct voters \<and> set voters \<subseteq> set ids \<and> p_required_m p \<le> int (length voters)"
proof (rule phone_approval)
  fix s d' p' assume v: "get_proposal d' 3 = Some p'" "p_status p' = ''approved''" "decision_step vote_env 3 raised_db d'"
  from approved_means [OF just_raised_db step_star [OF v(3)] v(1,2)] show ?thesis using v(1,2) by blast
qed

lemma closed_is_final_witness:
  "\<exists>d p p'. get_proposal d 3 = Some p \<and> p_status p = ''approved'' \<and> get_proposal d 3 = Some p' \<and> p_status p' = p_status p"
proof (rule phone_approval)
  fix s d' p' assume v: "get_proposal d' 3 = Some p'" "p_status p' = ''approved''" "decision_step vote_env 3 raised_db d'"
  then have "p_status p' \<noteq> ''open''" by simp
  from closed_is_final [OF just_raised_db step_star [OF v(3)] rtranclp.rtrancl_refl v(1) this] show ?thesis
    using v(1,2) by auto
qed

lemma accepted_vote_means_witness:
  "\<exists>s p. get_proposal web_db 3 = Some p \<and> verify_signature vote_env web_db s p = Inr True \<and> s_signer_id s = 2
    \<and> key_used vote_env web_settings p 2 web_key ''approve'' (s_signature s)"
proof (rule browser_vote)
  fix s d'
  assume v: "vote_taken vote_env web_settings 3 2 web_key ''approve'' web_db s d'"
  from accepted_vote_means [OF v] show ?thesis by blast
qed

lemma vote_refines_ballot_witness:
  "\<exists>d' p'. get_proposal d' 3 = Some p'
    \<and> ballot_of d' p' = cast_ballot 1 2 2 ''approve'' \<lparr>bl_votes = [], bl_outcome = ''open''\<rparr>"
proof (rule phone_approval)
  fix s d' p'
  assume v: "phone_votes ''approve'' 3 raised_db = (Inr s, d')"
  from vote_refines_ballot [OF just_raised_db rtranclp.rtrancl_refl raised_rows(1) snapshot_one vote_taken.by_phone [OF v phone_key(1)]]
  show ?thesis
    by (auto simp: raised_deciding raised_rows proposal_one_fields ballot_of_def)
qed


lemma standing_readers_agree_witness:
  "2 \<in> set (current_signer_ids raised_db vault_one) \<and> 1 \<in> set (signing_vault_ids raised_db 2)"
proof -
  have "rows_unique raised_db" "vault_one \<in> set (db_vaults raised_db)" "v_id vault_one = 1"
    by (simp_all add: rows_unique_def vault_one_def)
  moreover have "is_current_approver raised_db 1 2 \<and> signing_standing raised_db vault_one 2 = None"
    using raised_approver by (simp add: signing_standing_def raised_rows)
  ultimately show ?thesis using standing_readers_agree [of raised_db vault_one 2] by simp
qed

lemma gate_is_can_sign_witness:
  "can_sign raised_db vault_one proposal_one [1, 2] 2"
proof -
  have "rows_unique raised_db" "v_id vault_one = p_vault_id proposal_one"
    by (simp_all add: rows_unique_def vault_one_def proposal_one_def)
  from gate_is_can_sign [OF this] show ?thesis using phone_checks(1) [OF raised_ready, of "''approve''"] by simp
qed

end
