(* ===== verification/Shor.thy ===== *)
theory Shor
  imports Statement Signing Complex_Main
begin

text \<open>
  The arithmetic of \<open>attack/shor.py\<close> and \<open>attack/toy_rsa.py\<close>: order finding from measurements,
  the reduction from factoring, and the scaled RSA that it breaks.

  What is random is an argument: the bases a run draws, the outcomes of its measurements, the pairs
  of primes key generation samples.  The theorems hold for every sequence of them, so nothing depends
  on the distribution the simulator computes in floating point, which is not modelled; neither are
  the timings.
\<close>

section \<open>The quantum step, seen from its measurements\<close>

fun bit_length :: "nat \<Rightarrow> nat" where
  "bit_length n = (if n = 0 then 0 else Suc (bit_length (n div 2)))"

declare bit_length.simps [simp del]

definition MAX_N_STATEVECTOR :: nat where "MAX_N_STATEVECTOR = 511"
definition MAX_N_ANALYTIC :: nat where "MAX_N_ANALYTIC = 2047"
definition MAX_ORDER_MULTIPLE :: nat where "MAX_ORDER_MULTIPLE = 64"

datatype sim_mode = Statevector | Analytic

datatype shor_error = Shares_factor nat nat | No_order nat nat | Too_small nat | Past_statevector nat | Past_analytic nat

definition control_width :: "nat \<Rightarrow> nat" where
  "control_width n = 2 * bit_length n"

text \<open>The loop of \<open>_true_order\<close>, which stops by itself: \<open>order\<close> never passes \<open>n\<close>.\<close>

function order_loop :: "nat \<Rightarrow> nat \<Rightarrow> nat \<Rightarrow> nat \<Rightarrow> shor_error + nat" where
  "order_loop a n value' order =
     (if value' = 1 then Inr order
      else if n < order + 1 then Inl (No_order a n)
      else order_loop a n (value' * a mod n) (order + 1))"
  by pat_completeness auto
termination by (relation "measure (\<lambda>(a, n, v, order). Suc n - order)") auto

declare order_loop.simps [simp del]

definition true_order :: "nat \<Rightarrow> nat \<Rightarrow> shor_error + nat" where
  "true_order a n = order_loop a n (a mod n) 1"

record trail_line =
  tl_multiple :: nat
  tl_exponent :: nat
  tl_value :: nat

fun try_multiples :: "nat \<Rightarrow> nat \<Rightarrow> nat \<Rightarrow> nat list \<Rightarrow> trail_line list \<Rightarrow> nat option \<times> trail_line list" where
  "try_multiples a n candidate [] trail = (None, trail)"
| "try_multiples a n candidate (k # ks) trail =
     (let order = candidate * k in
      if n * n \<le> order then (None, trail)
      else let v = a ^ order mod n; trail' = trail @ [\<lparr>tl_multiple = k, tl_exponent = order, tl_value = v\<rparr>] in
        if v = 1 then (Some order, trail') else try_multiples a n candidate ks trail')"

definition confirm_order_trail :: "nat \<Rightarrow> nat \<Rightarrow> nat \<Rightarrow> nat option \<times> trail_line list" where
  "confirm_order_trail a n candidate =
     (if candidate = 0 then (None, [])
      else try_multiples a n candidate [1..<MAX_ORDER_MULTIPLE + 1] [])"

definition confirm_order :: "nat \<Rightarrow> nat \<Rightarrow> nat \<Rightarrow> nat option" where
  "confirm_order a n candidate = fst (confirm_order_trail a n candidate)"

text \<open>\<open>Fraction.limit_denominator\<close> of the standard library, for a fraction in lowest terms: the
  convergents p/q of its continued fraction, until the next denominator would pass the limit.\<close>

function convergents :: "nat \<Rightarrow> nat \<times> nat \<times> nat \<times> nat \<Rightarrow> nat \<Rightarrow> nat \<Rightarrow> (nat \<times> nat \<times> nat \<times> nat) \<times> nat" where
  "convergents limit (p0, q0, p1, q1) x y =
     (if y = 0 then ((p0, q0, p1, q1), y)
      else let c = x div y; q2 = q0 + c * q1 in
        if limit < q2 then ((p0, q0, p1, q1), y)
        else convergents limit (p1, q1, p0 + c * p1, q2) y (x mod y))"
  by pat_completeness auto
termination by (relation "measure (\<lambda>(l, c, x, y). y)") auto

declare convergents.simps [simp del]

definition limit_denominator :: "nat \<Rightarrow> nat \<Rightarrow> nat \<Rightarrow> nat \<times> nat" where
  "limit_denominator limit x y =
     (if y \<le> limit then (x, y)
      else let ((p0, q0, p1, q1), d) = convergents limit (0, 1, 1, 0) x y;
               k = (limit - q0) div q1
           in if 2 * d * (q0 + k * q1) \<le> y then (p1, q1) else (p0 + k * p1, q0 + k * q1))"

definition phase_denominator :: "nat \<Rightarrow> nat \<Rightarrow> nat \<Rightarrow> nat" where
  "phase_denominator measured_k t n =
     (let size = 2 ^ t; g = gcd measured_k size
      in snd (limit_denominator (n - 1) (measured_k div g) (size div g)))"

record order_finding =
  of_a :: nat
  of_n :: nat
  of_t :: nat
  of_qubits :: nat
  of_mode :: sim_mode
  of_measured_k :: nat
  of_phase :: rat
  of_candidate_r :: nat
  of_convergent_denominator :: nat
  of_confirmed :: bool
  of_attempts :: nat
  of_amplitudes_held :: nat

definition order_run :: "nat \<Rightarrow> nat \<Rightarrow> sim_mode \<Rightarrow> nat \<Rightarrow> nat \<Rightarrow> nat \<Rightarrow> bool \<Rightarrow> nat \<Rightarrow> order_finding" where
  "order_run a n mode k candidate r confirmed attempts =
     (let t = control_width n in
      \<lparr>of_a = a, of_n = n, of_t = t, of_qubits = t + bit_length n, of_mode = mode, of_measured_k = k,
       of_phase = of_nat k / of_nat (2 ^ t), of_candidate_r = r, of_convergent_denominator = candidate,
       of_confirmed = confirmed, of_attempts = attempts,
       of_amplitudes_held = (if mode = Statevector then 2 ^ t else 0)\<rparr>)"

text \<open>The measurements of one run, in the order they are taken; the last one is reported when none
  could be used.\<close>

fun measure_until :: "nat \<Rightarrow> nat \<Rightarrow> sim_mode \<Rightarrow> nat \<Rightarrow> nat \<Rightarrow> nat \<Rightarrow> nat \<Rightarrow> nat list \<Rightarrow> order_finding" where
  "measure_until a n mode max_measurements attempt k candidate [] =
     order_run a n mode k candidate candidate False max_measurements"
| "measure_until a n mode max_measurements attempt k candidate (k' # ks) =
     (let candidate' = phase_denominator k' (control_width n) n in
      case confirm_order a n candidate' of
        Some r \<Rightarrow> order_run a n mode k' candidate' r True attempt
      | None \<Rightarrow> measure_until a n mode max_measurements (attempt + 1) k' candidate' ks)"

definition find_order :: "nat \<Rightarrow> nat \<Rightarrow> sim_mode \<Rightarrow> nat list \<Rightarrow> shor_error + order_finding" where
  "find_order a n mode measured =
     (if gcd a n \<noteq> 1 then Inl (Shares_factor a n)
      else Inr (measure_until a n mode (length measured) 1 0 0 measured))"

section \<open>The reduction from factoring\<close>

datatype shortcut = Even_modulus | Perfect_power nat nat | Lucky_base nat nat

record shor_result =
  sr_n :: nat
  sr_factors :: "(nat \<times> nat) option"
  sr_order_runs :: "order_finding list"
  sr_classical_shortcut :: "shortcut option"
  sr_redrawn :: nat

definition shor_succeeded :: "shor_result \<Rightarrow> bool" where
  "shor_succeeded r \<longleftrightarrow> sr_factors r \<noteq> None"

text \<open>The e-th root rounded to the nearest integer, which is what the floating-point root rounds to at
  these sizes: no integer's root is half-way between two.\<close>

definition nearest_root :: "nat \<Rightarrow> nat \<Rightarrow> nat" where
  "nearest_root n e = length (filter (\<lambda>b. (2 * b + 1) ^ e \<le> 2 ^ e * n) [0..<n])"

definition as_perfect_power :: "nat \<Rightarrow> (nat \<times> nat) option" where
  "as_perfect_power n =
     find (\<lambda>(b, e). 1 < b \<and> b ^ e = n)
       (concat (map (\<lambda>e. let b = nearest_root n e in [(b - 1, e), (b, e), (b + 1, e)]) [2..<bit_length n + 1]))"

definition split_candidates :: "nat \<Rightarrow> nat \<Rightarrow> (nat \<times> nat) option" where
  "split_candidates half_power n =
     map_option (\<lambda>c. (c, n div c)) (find (\<lambda>c. 1 < c \<and> c < n) [gcd (half_power - 1) n, gcd (half_power + 1) n])"

text \<open>One round draws a base and takes measurements; a round without luck goes on to the next.\<close>

fun shor_rounds :: "nat \<Rightarrow> sim_mode \<Rightarrow> bool \<Rightarrow> (nat \<times> nat list) list \<Rightarrow> shor_result \<Rightarrow> shor_error + shor_result" where
  "shor_rounds n mode force_quantum [] result = Inr result"
| "shor_rounds n mode force_quantum ((a, measured) # rounds) result =
     (let common = gcd a n in
      if 1 < common then
        (if force_quantum then
           shor_rounds n mode force_quantum rounds (result\<lparr>sr_redrawn := sr_redrawn result + 1\<rparr>)
         else Inr (result\<lparr>sr_classical_shortcut := Some (Lucky_base a common), sr_factors := Some (common, n div common)\<rparr>))
      else bindE (find_order a n mode measured) (\<lambda>run.
        let result' = result\<lparr>sr_order_runs := sr_order_runs result @ [run]\<rparr>;
            half_power = a ^ (of_candidate_r run div 2) mod n in
        if \<not> of_confirmed run \<or> of_candidate_r run mod 2 \<noteq> 0 \<or> half_power = n - 1
        then shor_rounds n mode force_quantum rounds result'
        else case split_candidates half_power n of
          Some f \<Rightarrow> Inr (result'\<lparr>sr_factors := Some f\<rparr>)
        | None \<Rightarrow> shor_rounds n mode force_quantum rounds result'))"

definition shor_factor :: "nat \<Rightarrow> sim_mode option \<Rightarrow> bool \<Rightarrow> (nat \<times> nat list) list \<Rightarrow> shor_error + shor_result" where
  "shor_factor n mode force_quantum rounds =
     (let result = \<lparr>sr_n = n, sr_factors = None, sr_order_runs = [], sr_classical_shortcut = None, sr_redrawn = 0\<rparr> in
      if n < 4 then Inl (Too_small n)
      else
        let mode' = (case mode of Some m \<Rightarrow> m | None \<Rightarrow> if n \<le> MAX_N_STATEVECTOR then Statevector else Analytic) in
        if mode' = Statevector \<and> MAX_N_STATEVECTOR < n then Inl (Past_statevector n)
        else if MAX_N_ANALYTIC < n then Inl (Past_analytic n)
        else if n mod 2 = 0 then
          Inr (result\<lparr>sr_classical_shortcut := Some Even_modulus, sr_factors := Some (2, n div 2)\<rparr>)
        else case as_perfect_power n of
          Some (b, e) \<Rightarrow>
            Inr (result\<lparr>sr_classical_shortcut := Some (Perfect_power b e), sr_factors := Some (b, n div b)\<rparr>)
        | None \<Rightarrow> shor_rounds n mode' force_quantum rounds result)"

text \<open>\<open>pow(e, -1, m)\<close>: the inverse below \<open>m\<close>, when there is one.\<close>

definition mod_inverse :: "nat \<Rightarrow> nat \<Rightarrow> nat option" where
  "mod_inverse e m = find (\<lambda>d. e * d mod m = 1 mod m) [0..<m]"

definition recover_rsa_exponent :: "nat \<Rightarrow> nat \<Rightarrow> nat \<Rightarrow> nat option" where
  "recover_rsa_exponent e p q = mod_inverse e ((p - 1) * (q - 1) div gcd (p - 1) (q - 1))"

section \<open>The scaled RSA\<close>

definition DEFAULT_BITS :: nat where "DEFAULT_BITS = 9"
definition PUBLIC_EXPONENT_CANDIDATES :: "nat list" where "PUBLIC_EXPONENT_CANDIDATES = [17, 13, 11, 7, 5, 3]"
definition MAX_PRIME_RATIO :: nat where "MAX_PRIME_RATIO = 3"

record toy_rsa_key =
  tk_n :: nat
  tk_e :: nat
  tk_d :: nat
  tk_p :: nat
  tk_q :: nat
  tk_bits :: nat

text \<open>The odd numbers from \<open>max(3, low | 1)\<close> below \<open>high\<close> that no odd number from 3 to their square root
  divides.\<close>

definition primes_in :: "nat \<Rightarrow> nat \<Rightarrow> nat list" where
  "primes_in low high =
     filter (\<lambda>c. list_all (\<lambda>f. c mod f \<noteq> 0) (filter (\<lambda>f. odd f \<and> f * f \<le> c) [3..<c + 1]))
       (filter odd [max 3 (if even low then low + 1 else low)..<high])"

datatype rsa_error = Bits_out_of_range nat | No_modulus nat | Not_invertible nat nat

fun sample_primes :: "nat \<Rightarrow> (nat \<times> nat) list \<Rightarrow> rsa_error + toy_rsa_key" where
  "sample_primes bits [] = Inl (No_modulus bits)"
| "sample_primes bits ((p, q) # draws) =
     (let n = p * q in
      if bit_length n \<noteq> bits \<or> MAX_PRIME_RATIO * min p q < max p q then sample_primes bits draws
      else let lam = (p - 1) * (q - 1) div gcd (p - 1) (q - 1) in
        case find (\<lambda>e. e < lam \<and> gcd e lam = 1) PUBLIC_EXPONENT_CANDIDATES of
          None \<Rightarrow> sample_primes bits draws
        | Some e \<Rightarrow>
            (case mod_inverse e lam of
               None \<Rightarrow> Inl (Not_invertible e lam)
             | Some d \<Rightarrow> Inr \<lparr>tk_n = n, tk_e = e, tk_d = d, tk_p = p, tk_q = q, tk_bits = bits\<rparr>))"

text \<open>\<open>draws\<close> are the pairs \<open>rng.sample(pool, 2)\<close> returns, two places of the pool of primes each.\<close>

definition prime_pool :: "nat \<Rightarrow> nat list" where
  "prime_pool bits = primes_in (2 ^ (bits div 2 - 1)) (2 ^ (bits div 2 + 1))"

definition generate :: "nat \<Rightarrow> (nat \<times> nat) list \<Rightarrow> rsa_error + toy_rsa_key" where
  "generate bits draws =
     (if \<not> (6 \<le> bits \<and> bits \<le> 22) then Inl (Bits_out_of_range bits) else sample_primes bits (take 4000 draws))"

definition digest_to_int :: "(bytes \<Rightarrow> bytes) \<Rightarrow> bytes \<Rightarrow> nat \<Rightarrow> nat" where
  "digest_to_int H message n = from_be (H message) mod n"

text \<open>\<open>json.dumps(..., sort_keys=True)\<close> of a dictionary of integers, its keys given in order.\<close>

definition spaced_member :: "ustr \<times> nat \<Rightarrow> ustr" where
  "spaced_member kv = dumps_str (fst kv) @ '': '' @ dec_int (int (snd kv))"

definition dumps_integers :: "(ustr \<times> nat) list \<Rightarrow> bytes" where
  "dumps_integers kvs = ''{'' @ join '', '' (map spaced_member kvs) @ ''}''"

definition public_bytes :: "toy_rsa_key \<Rightarrow> bytes" where
  "public_bytes k = dumps_integers [(''bits'', tk_bits k), (''e'', tk_e k), (''n'', tk_n k)]"

definition secret_bytes :: "toy_rsa_key \<Rightarrow> bytes" where
  "secret_bytes k = dumps_integers [(''bits'', tk_bits k), (''d'', tk_d k), (''e'', tk_e k), (''n'', tk_n k)]"

text \<open>A member of a key's JSON that is a positive integer; keys hold nothing else, and \<open>None\<close> stands for
  every way another value fails.\<close>

definition key_member :: "ustr \<Rightarrow> bytes \<Rightarrow> nat option" where
  "key_member name key =
     (case loads key of
        Some (JObj kvs) \<Rightarrow> (case dict_get name kvs of JInt i \<Rightarrow> (if 0 < i then Some (nat i) else None) | _ \<Rightarrow> None)
      | _ \<Rightarrow> None)"

definition signature_width :: "nat \<Rightarrow> nat" where
  "signature_width n = (bit_length n + 7) div 8"

definition toy_sign :: "(bytes \<Rightarrow> bytes) \<Rightarrow> bytes \<Rightarrow> bytes \<Rightarrow> bytes option" where
  "toy_sign H secret_key message =
     (case (key_member ''n'' secret_key, key_member ''d'' secret_key) of
        (Some n, Some d) \<Rightarrow> Some (to_be (signature_width n) (digest_to_int H message n ^ d mod n))
      | _ \<Rightarrow> None)"

definition toy_verify :: "(bytes \<Rightarrow> bytes) \<Rightarrow> bytes \<Rightarrow> bytes \<Rightarrow> bytes \<Rightarrow> bool" where
  "toy_verify H public_key message sig =
     (case (key_member ''n'' public_key, key_member ''e'' public_key) of
        (Some n, Some e) \<Rightarrow> from_be sig ^ e mod n = digest_to_int H message n
      | _ \<Rightarrow> False)"

definition kem_kdf :: "(bytes \<Rightarrow> bytes) \<Rightarrow> nat \<Rightarrow> bytes" where
  "kem_kdf H z = H (''QVAULT-RSA-KEM-TOY-v1'' @ dec_nat z)"

text \<open>\<open>z\<close> is what \<open>randrange(2, n)\<close> draws.\<close>

definition encapsulate :: "(bytes \<Rightarrow> bytes) \<Rightarrow> bytes \<Rightarrow> nat \<Rightarrow> (bytes \<times> bytes) option" where
  "encapsulate H public_key z =
     (case (key_member ''n'' public_key, key_member ''e'' public_key) of
        (Some n, Some e) \<Rightarrow> Some (to_be (signature_width n) (z ^ e mod n), kem_kdf H z)
      | _ \<Rightarrow> None)"

definition decapsulate :: "(bytes \<Rightarrow> bytes) \<Rightarrow> bytes \<Rightarrow> bytes \<Rightarrow> bytes option" where
  "decapsulate H secret_key ciphertext =
     (case (key_member ''n'' secret_key, key_member ''d'' secret_key) of
        (Some n, Some d) \<Rightarrow> Some (kem_kdf H (from_be ciphertext ^ d mod n))
      | _ \<Rightarrow> None)"

end
