(* ===== verification/Shor_Proofs.thy ===== *)
theory Shor_Proofs
  imports Shor
begin

text \<open>
  Order finding ends and finds the order; the continued fraction stays below the modulus; whatever is
  measured, a factorisation that is reported is one; and the exponent recovered from the factors opens
  what the key signed.  Fermat's little theorem is proved here from the multiplication of residues.
\<close>

section \<open>Residues\<close>

lemma cancel_mod:
  assumes "coprime c n" "a * c mod n = b * c mod (n :: nat)"
  shows "a mod n = b mod n"
proof -
  have le: "x mod n = y mod n" if "y \<le> x" "x * c mod n = y * c mod n" for x y
  proof -
    have "n dvd x * c - y * c" using that by (simp add: mod_eq_dvd_iff_nat mult_le_mono1)
    then have "n dvd (x - y) * c" by (simp add: diff_mult_distrib)
    then have "n dvd x - y" using assms(1) by (simp add: coprime_commute coprime_dvd_mult_left_iff)
    then show ?thesis using that(1) by (simp add: mod_eq_dvd_iff_nat)
  qed
  show ?thesis
  proof (cases "b \<le> a")
    case True
    then show ?thesis using assms(2) by (rule le)
  next
    case False
    then have "a \<le> b" by simp
    then have "b mod n = a mod n" using assms(2) [symmetric] by (rule le)
    then show ?thesis by (rule sym)
  qed
qed

lemma power_mod_mult:
  assumes "a ^ i mod n = 1 mod (n :: nat)"
  shows "a ^ (i * j) mod n = 1 mod n"
proof -
  have "a ^ (i * j) mod n = (a ^ i mod n) ^ j mod n" by (simp only: power_mult power_mod)
  also have "\<dots> = (1 mod n) ^ j mod n" by (simp only: assms)
  also have "\<dots> = 1 mod n" by (simp only: power_mod power_one)
  finally show ?thesis .
qed

lemma coprime_power_cycle:
  assumes "1 < n" "coprime a n"
  obtains k where "0 < k" "k \<le> n" "a ^ k mod n = 1"
proof -
  let ?f = "\<lambda>k. a ^ k mod n"
  have "?f ` {0..n} \<subseteq> {..<n}" using assms(1) by auto
  then have "card (?f ` {0..n}) < card {0..n}" using card_mono [of "{..<n}" "?f ` {0..n}"] by simp
  then have "\<not> inj_on ?f {0..n}" by (rule pigeonhole)
  then obtain x y where "x \<noteq> y" "x \<le> n" "y \<le> n" "?f x = ?f y" by (auto simp: inj_on_def)
  then have "min x y < max x y" "max x y \<le> n" "?f (min x y) = ?f (max x y)" by (simp_all add: min_def max_def)
  then obtain i j where ij: "i < j" "j \<le> n" "?f i = ?f j" by blast
  have "a ^ (j - i) * a ^ i = a ^ j" using ij(1) by (simp flip: power_add)
  then have eq: "a ^ (j - i) * a ^ i mod n = 1 * a ^ i mod n" using ij(3) by simp
  have "coprime (a ^ i) n" using assms(2) by simp
  from cancel_mod [OF this eq] have "a ^ (j - i) mod n = 1 mod n" .
  also have "1 mod n = 1" using assms(1) by simp
  finally have "a ^ (j - i) mod n = 1" .
  then show ?thesis using ij by (intro that [of "j - i"]) simp_all
qed

section \<open>Order finding ends\<close>

lemma order_loop_finds:
  assumes "a ^ r mod n = 1" "r \<le> n" "\<forall>k. 0 < k \<and> k < r \<longrightarrow> a ^ k mod n \<noteq> 1" "0 < order" "order \<le> r"
  shows "order_loop a n (a ^ order mod n) order = Inr r"
  using assms(4,5)
proof (induction "r - order" arbitrary: order)
  case 0
  then show ?case using assms(1) by (simp add: order_loop.simps)
next
  case (Suc m)
  then have "a ^ order mod n \<noteq> 1" using assms(3) by simp
  moreover have "\<not> n < order + 1" using Suc assms(2) by simp
  moreover have "a ^ order mod n * a mod n = a ^ (order + 1) mod n" by (simp add: mod_mult_right_eq mult.commute)
  ultimately show ?case using Suc.hyps(1) [of "order + 1"] Suc.hyps(2) Suc.prems by (simp add: order_loop.simps [of a n _ order])
qed

text \<open>C39: The classical order loop ends by itself, and with the order.  For every modulus above one and every
  base coprime to it, it returns within the modulus, never raises, and what it returns is the least
  positive exponent that gives one.\<close>

theorem true_order_total:
  assumes "1 < n" "coprime a n"
  shows "\<exists>r. true_order a n = Inr r \<and> 0 < r \<and> r \<le> n \<and> a ^ r mod n = 1 \<and> (\<forall>k. 0 < k \<and> k < r \<longrightarrow> a ^ k mod n \<noteq> 1)"
proof -
  let ?P = "\<lambda>k. 0 < k \<and> a ^ k mod n = 1"
  obtain k where k: "0 < k" "k \<le> n" "a ^ k mod n = 1" by (rule coprime_power_cycle [OF assms])
  let ?r = "LEAST k. ?P k"
  have r: "?P ?r" using k by (intro LeastI [of ?P k]) simp
  have least: "\<forall>k. 0 < k \<and> k < ?r \<longrightarrow> a ^ k mod n \<noteq> 1" using not_less_Least [of _ ?P] by blast
  have "?r \<le> k" using k by (intro Least_le) simp
  then have "?r \<le> n" using k(2) by simp
  then have "true_order a n = Inr ?r"
    using order_loop_finds [of a ?r n 1] r least by (simp add: true_order_def)
  then show ?thesis using r least \<open>?r \<le> n\<close> by blast
qed

lemma true_order_total_witness: "\<exists>r. true_order 7 15 = Inr r \<and> 7 ^ r mod 15 = (1 :: nat)"
  using true_order_total [of 15 7] by (auto simp: coprime_iff_gcd_eq_1 gcd_non_0_nat)

section \<open>Measurements\<close>

lemma try_multiples_sound:
  assumes "try_multiples a n c ks trail = (Some r, trail')"
  shows "a ^ r mod n = 1 \<and> r < n * n \<and> (\<exists>k \<in> set ks. r = c * k)"
  using assms by (induction ks arbitrary: trail) (auto simp: Let_def split: if_splits)

lemma confirm_order_sound:
  assumes "confirm_order a n c = Some r"
  shows "a ^ r mod n = 1" "c dvd r" "0 < r" "r < n * n" "r \<le> MAX_ORDER_MULTIPLE * c"
proof -
  obtain trail where t: "0 < c" "try_multiples a n c [1..<MAX_ORDER_MULTIPLE + 1] [] = (Some r, trail)"
    using assms by (cases "confirm_order_trail a n c") (auto simp: confirm_order_def confirm_order_trail_def split: if_splits)
  from try_multiples_sound [OF t(2)] obtain k where "a ^ r mod n = 1" "r < n * n" "r = c * k" "1 \<le> k" "k \<le> MAX_ORDER_MULTIPLE"
    by auto
  then show "a ^ r mod n = 1" "c dvd r" "0 < r" "r < n * n" "r \<le> MAX_ORDER_MULTIPLE * c" using t(1) by simp_all
qed

lemma convergents_step:
  "convergents limit (p0, q0, p1, q1) x y =
     (if y = 0 \<or> limit < q0 + x div y * q1 then ((p0, q0, p1, q1), y)
      else convergents limit (p1, q1, p0 + x div y * p1, q0 + x div y * q1) y (x mod y))"
  by (subst convergents.simps) (simp add: Let_def)

text \<open>The denominators of the two convergents kept stay within the limit.\<close>

fun conv_ok :: "nat \<Rightarrow> nat \<times> nat \<times> nat \<times> nat \<Rightarrow> bool" where
  "conv_ok limit (p0, q0, p1, q1) = (q0 \<le> limit \<and> q1 \<le> limit \<and> 0 < q1 \<and> (0 < q0 \<or> q1 = 1))"

lemma convergents_keep:
  "conv_ok limit c \<Longrightarrow> 0 < fst (snd c) \<or> y \<le> x \<Longrightarrow> conv_ok limit (fst (convergents limit c x y))"
proof (induction limit c x y rule: convergents.induct)
  case (1 limit p0 q0 p1 q1 x y)
  show ?case
  proof (cases "y = 0 \<or> limit < q0 + x div y * q1")
    case True
    then have "convergents limit (p0, q0, p1, q1) x y = ((p0, q0, p1, q1), y)" by (simp add: convergents_step)
    then show ?thesis using 1(2) by simp
  next
    case False
    then have step: "convergents limit (p0, q0, p1, q1) x y
        = convergents limit (p1, q1, p0 + x div y * p1, q0 + x div y * q1) y (x mod y)"
      by (simp add: convergents_step [of limit p0])
    have "0 < q0 + x div y * q1" using False 1(2,3) by (auto simp: div_greater_zero_iff)
    then have "conv_ok limit (p1, q1, p0 + x div y * p1, q0 + x div y * q1)" using False 1(2) by simp
    with False show ?thesis unfolding step using 1(1) 1(2) by simp
  qed
qed

text \<open>The classical post-processing never leaves its range.  Whatever is measured, the denominator the
  continued fraction gives is at least one and below the modulus, so a confirmed exponent is at most
  64 times the modulus and below its square.\<close>

theorem phase_denominator_bounds:
  assumes "2 \<le> n"
  shows "1 \<le> phase_denominator k t n \<and> phase_denominator k t n < n
    \<and> (\<forall>a r. confirm_order a n (phase_denominator k t n) = Some r \<longrightarrow> r < n * n \<and> r < MAX_ORDER_MULTIPLE * n)"
proof -
  let ?y = "2 ^ t div gcd k (2 ^ t)"
  let ?x = "k div gcd k (2 ^ t)"
  have y: "0 < ?y" by (simp add: div_greater_zero_iff gcd_le2_nat)
  have b: "1 \<le> phase_denominator k t n \<and> phase_denominator k t n < n"
  proof (cases "?y \<le> n - 1")
    case True
    then show ?thesis using y assms by (simp add: phase_denominator_def limit_denominator_def Let_def)
  next
    case False
    obtain p0 q0 p1 q1 d where c: "convergents (n - 1) (0, 1, 1, 0) ?x ?y = ((p0, q0, p1, q1), d)"
      by (metis prod_cases4 surj_pair)
    have first: "convergents (n - 1) (0, 1, 1, 0) ?x ?y = convergents (n - 1) (1, 0, ?x div ?y, 1) ?y (?x mod ?y)"
      using convergents_step [of "n - 1" 0 1 1 0 ?x ?y] y assms by simp
    have "conv_ok (n - 1) (fst (convergents (n - 1) (1, 0, ?x div ?y, 1) ?y (?x mod ?y)))"
      using y assms by (intro convergents_keep) simp_all
    then have "conv_ok (n - 1) (p0, q0, p1, q1)" using c unfolding first by simp
    then have q: "q0 \<le> n - 1" "q1 \<le> n - 1" "0 < q1" "0 < q0 \<or> q1 = 1" by simp_all
    let ?k = "(n - 1 - q0) div q1"
    have "?k * q1 \<le> n - 1 - q0" by simp
    then have "q0 + ?k * q1 \<le> n - 1" using q(1) by linarith
    moreover have "1 \<le> q0 + ?k * q1" using q(4) assms by (cases "0 < q0") auto
    ultimately show ?thesis using c False q assms by (auto simp: phase_denominator_def limit_denominator_def Let_def)
  qed
  have "r < n * n \<and> r < MAX_ORDER_MULTIPLE * n" if "confirm_order a n (phase_denominator k t n) = Some r" for a r
  proof -
    have "MAX_ORDER_MULTIPLE * phase_denominator k t n < MAX_ORDER_MULTIPLE * n" using b by (simp add: MAX_ORDER_MULTIPLE_def)
    then show ?thesis using confirm_order_sound(4,5) [OF that] by linarith
  qed
  then show ?thesis using b by blast
qed

lemma phase_denominator_bounds_witness: "1 \<le> phase_denominator 64 8 15 \<and> phase_denominator 64 8 15 < 15"
  using phase_denominator_bounds [of 15 64 8] by simp

section \<open>Primes and Fermat's theorem\<close>

definition is_prime :: "nat \<Rightarrow> bool" where
  "is_prime p \<longleftrightarrow> 1 < p \<and> (\<forall>d. d dvd p \<longrightarrow> d = 1 \<or> d = p)"

lemma prime_coprime: "is_prime p \<Longrightarrow> \<not> p dvd a \<Longrightarrow> coprime a p"
proof (rule coprimeI)
  fix c assume "is_prime p" "\<not> p dvd a" "c dvd a" "c dvd p"
  then show "is_unit c" by (auto simp: is_prime_def)
qed

lemma prime_dvd_mult: "is_prime p \<Longrightarrow> p dvd a * b \<Longrightarrow> p dvd a \<or> p dvd b"
  using prime_coprime [of p a] by (metis coprime_commute coprime_dvd_mult_right_iff)

lemma fermat:
  assumes "is_prime p" "\<not> p dvd a"
  shows "a ^ (p - 1) mod p = 1 mod p"
proof -
  let ?S = "{1..<p}"
  let ?f = "\<lambda>x. a * x mod p"
  have small: "\<not> p dvd x" if "x \<in> ?S" for x using that by (auto dest: dvd_imp_le)
  have co: "coprime a p" using assms by (rule prime_coprime)
  have "inj_on ?f ?S"
  proof (rule inj_onI)
    fix x y assume xy: "x \<in> ?S" "y \<in> ?S" "a * x mod p = a * y mod p"
    have "x * a mod p = y * a mod p" using xy(3) by (simp add: mult.commute)
    with co have "x mod p = y mod p" by (rule cancel_mod)
    then show "x = y" using xy(1,2) by simp
  qed
  moreover have "?f ` ?S \<subseteq> ?S"
  proof clarify
    fix x assume x: "x \<in> ?S"
    then have "\<not> p dvd a * x" using assms small prime_dvd_mult by blast
    then have "?f x \<noteq> 0" by (simp add: dvd_eq_mod_eq_0)
    moreover have "?f x < p" using assms(1) by (simp add: is_prime_def)
    ultimately show "?f x \<in> ?S" by simp
  qed
  ultimately have image: "?f ` ?S = ?S" by (intro endo_inj_surj) simp_all
  have "\<Prod>?S mod p = (\<Prod>x\<in>?S. ?f x) mod p"
    using prod.reindex [OF \<open>inj_on ?f ?S\<close>, of "\<lambda>x. x"] image by simp
  also have "\<dots> = (\<Prod>x\<in>?S. a * x) mod p" by (rule mod_prod_eq)
  also have "(\<Prod>x\<in>?S. a * x) = a ^ (p - 1) * \<Prod>?S" by (simp add: prod.distrib)
  finally have eq: "a ^ (p - 1) * \<Prod>?S mod p = 1 * \<Prod>?S mod p" by simp
  have "coprime (\<Prod>?S) p" using small assms(1) by (intro prod_coprime_left prime_coprime) simp_all
  from cancel_mod [OF this eq] show ?thesis .
qed

lemma fermat_power:
  assumes "is_prime p" "0 < m" "p - 1 dvd m - 1"
  shows "x ^ m mod p = x mod p"
proof (cases "p dvd x")
  case True
  then have "p dvd x ^ m" using assms(2) by (cases m) simp_all
  with True show ?thesis by (simp add: dvd_eq_mod_eq_0)
next
  case False
  obtain k where k: "m - 1 = (p - 1) * k" using assms(3) by blast
  then have "x ^ m = x ^ ((p - 1) * k) * x" using assms(2) by (metis Suc_diff_1 power_Suc2)
  then have "x ^ m mod p = (x ^ ((p - 1) * k) mod p) * x mod p" by (simp only: mod_mult_left_eq)
  also have "\<dots> = (1 mod p) * x mod p" by (simp only: power_mod_mult [OF fermat [OF assms(1) False]])
  also have "\<dots> = x mod p" by (simp only: mod_mult_left_eq mult_1)
  finally show ?thesis .
qed

lemma two_primes_power:
  assumes "is_prime p" "is_prime q" "p \<noteq> q" "0 < m" "p - 1 dvd m - 1" "q - 1 dvd m - 1"
  shows "x ^ m mod (p * q) = x mod (p * q)"
proof -
  have "x \<le> x ^ m" using assms(4) by (cases "x = 0") (simp_all add: self_le_power)
  moreover have "p dvd x ^ m - x"
    using fermat_power [OF assms(1,4,5), of x] \<open>x \<le> x ^ m\<close> by (simp add: mod_eq_dvd_iff_nat)
  moreover have "q dvd x ^ m - x"
    using fermat_power [OF assms(2,4,6), of x] \<open>x \<le> x ^ m\<close> by (simp add: mod_eq_dvd_iff_nat)
  moreover have "coprime p q"
    using assms(1-3) by (intro prime_coprime) (auto simp: is_prime_def)
  ultimately show ?thesis by (simp add: mod_eq_dvd_iff_nat divides_mult)
qed

section \<open>Key generation\<close>

lemma primes_in_prime:
  assumes "p \<in> set (primes_in low high)"
  shows "is_prime p" "odd p" "3 \<le> p"
proof -
  from assms show "odd p" and p3: "3 \<le> p" by (auto simp: primes_in_def)
  have none: "p mod f \<noteq> 0" if "odd f" "f * f \<le> p" "3 \<le> f" for f
  proof -
    have "f \<le> p" using that(2,3) by (metis le_square order_trans)
    then show ?thesis using assms that by (auto simp: primes_in_def list_all_iff)
  qed
  have "d = 1 \<or> d = p" if d: "d dvd p" for d
  proof (rule ccontr)
    assume "\<not> (d = 1 \<or> d = p)"
    obtain c where c: "p = d * c" using d by blast
    then have "c \<noteq> 1" "1 < d" "1 < c" using \<open>\<not> (d = 1 \<or> d = p)\<close> p3 by (auto intro: Nat.gr0I simp: nat_neq_iff)
    let ?m = "min d c"
    have "?m * ?m \<le> p" unfolding c by (intro mult_le_mono) simp_all
    moreover have "?m dvd p" using c by (simp add: min_def)
    moreover have "odd ?m" using \<open>odd p\<close> \<open>?m dvd p\<close> by (meson dvd_trans)
    moreover have "3 \<le> ?m"
    proof -
      have "?m \<noteq> 2" using \<open>odd ?m\<close> by auto
      moreover have "1 < ?m" using \<open>1 < d\<close> \<open>1 < c\<close> by simp
      ultimately show ?thesis by linarith
    qed
    ultimately show False using none [of ?m] by (simp add: dvd_eq_mod_eq_0)
  qed
  then show "is_prime p" using p3 by (simp add: is_prime_def)
qed

lemma mod_inverse_Some: "mod_inverse e m = Some d \<Longrightarrow> e * d mod m = 1 mod m \<and> d < m"
  using find_Some_in [of "\<lambda>d. e * d mod m = 1 mod m" "[0..<m]" d] by (simp add: mod_inverse_def)

definition lam :: "nat \<Rightarrow> nat \<Rightarrow> nat" where
  "lam p q = (p - 1) * (q - 1) div gcd (p - 1) (q - 1)"

lemma lam_dvd: "p - 1 dvd lam p q" "q - 1 dvd lam p q"
  unfolding lam_def using dvd_lcm1 [of "p - 1" "q - 1"] dvd_lcm2 [of "q - 1" "p - 1"] by (simp_all only: lcm_nat_def)

lemma recover_lam: "recover_rsa_exponent e p q = mod_inverse e (lam p q)"
  by (simp only: recover_rsa_exponent_def lam_def)

text \<open>The factors a generated key is made of.\<close>

definition good_key :: "toy_rsa_key \<Rightarrow> bool" where
  "good_key k \<longleftrightarrow>
     is_prime (tk_p k) \<and> is_prime (tk_q k) \<and> tk_p k \<noteq> tk_q k \<and> tk_n k = tk_p k * tk_q k
     \<and> 1 < tk_e k \<and> 1 < lam (tk_p k) (tk_q k) \<and> recover_rsa_exponent (tk_e k) (tk_p k) (tk_q k) = Some (tk_d k)"

lemma sample_primes_good:
  assumes "sample_primes bits draws = Inr k"
    "\<forall>(p, q) \<in> set draws. is_prime p \<and> is_prime q \<and> p \<noteq> q"
  shows "good_key k \<and> bit_length (tk_n k) = bits \<and> tk_bits k = bits"
  using assms
proof (induction draws)
  case (Cons pq draws)
  obtain p q where pq: "pq = (p, q)" by (cases pq)
  show ?case
  proof (cases "sample_primes bits draws = Inr k")
    case True
    then show ?thesis using Cons by simp
  next
    case False
    with Cons.prems(1) obtain e d where f: "find (\<lambda>e. e < lam p q \<and> gcd e (lam p q) = 1) PUBLIC_EXPONENT_CANDIDATES = Some e"
      "mod_inverse e (lam p q) = Some d" "bit_length (p * q) = bits"
      "k = \<lparr>tk_n = p * q, tk_e = e, tk_d = d, tk_p = p, tk_q = q, tk_bits = bits\<rparr>"
      by (auto simp: pq Let_def lam_def split: if_split_asm option.split_asm)
    from find_Some_in [OF f(1)] have "1 < e" "e < lam p q" by (auto simp: PUBLIC_EXPONENT_CANDIDATES_def)
    then show ?thesis using f Cons.prems(2) by (simp add: good_key_def pq recover_lam)
  qed
qed simp

text \<open>The pairs key generation can draw: two different primes of its pool.\<close>

definition drawn_from_pool :: "nat \<Rightarrow> (nat \<times> nat) list \<Rightarrow> bool" where
  "drawn_from_pool bits draws \<longleftrightarrow> (\<forall>(p, q) \<in> set draws. p \<in> set (prime_pool bits) \<and> q \<in> set (prime_pool bits) \<and> p \<noteq> q)"

lemma generate_good:
  assumes "generate bits draws = Inr k" "drawn_from_pool bits draws"
  shows "good_key k \<and> bit_length (tk_n k) = bits \<and> tk_bits k = bits \<and> 6 \<le> bits"
proof -
  have "\<forall>(p, q) \<in> set (take 4000 draws). is_prime p \<and> is_prime q \<and> p \<noteq> q"
    using assms(2) primes_in_prime(1) unfolding drawn_from_pool_def prime_pool_def by (fastforce dest: in_set_takeD)
  then show ?thesis using assms(1) sample_primes_good [of bits "take 4000 draws" k] by (auto simp: generate_def split: if_split_asm)
qed

lemma exponents_cancel:
  assumes "is_prime p" "is_prime q" "p \<noteq> q" "e * d mod lam p q = 1 mod lam p q" "1 < lam p q"
  shows "(x ^ d mod (p * q)) ^ e mod (p * q) = x mod (p * q)"
proof -
  have "e * d mod lam p q = 1" using assms(4,5) by simp
  then have pos: "0 < e * d" by (cases "e * d = 0") auto
  have "lam p q dvd e * d - 1" using pos by (intro iffD1 [OF mod_eq_dvd_iff_nat assms(4)]) simp
  then have "p - 1 dvd e * d - 1" "q - 1 dvd e * d - 1" using lam_dvd dvd_trans by blast+
  then have "x ^ (e * d) mod (p * q) = x mod (p * q)" using assms(1-3) pos by (intro two_primes_power)
  then show ?thesis by (simp add: power_mod power_mult mult.commute)
qed

lemma good_key_cancels:
  assumes "good_key k"
  shows "(x ^ tk_d k mod tk_n k) ^ tk_e k mod tk_n k = x mod tk_n k" "(x ^ tk_e k mod tk_n k) ^ tk_d k mod tk_n k = x mod tk_n k"
proof -
  have inv: "tk_e k * tk_d k mod lam (tk_p k) (tk_q k) = 1 mod lam (tk_p k) (tk_q k)"
    using assms mod_inverse_Some by (simp add: good_key_def recover_lam)
  then have inv': "tk_d k * tk_e k mod lam (tk_p k) (tk_q k) = 1 mod lam (tk_p k) (tk_q k)" by (simp add: mult.commute)
  show "(x ^ tk_d k mod tk_n k) ^ tk_e k mod tk_n k = x mod tk_n k" "(x ^ tk_e k mod tk_n k) ^ tk_d k mod tk_n k = x mod tk_n k"
    using assms inv inv' exponents_cancel [of "tk_p k" "tk_q k"] by (simp_all add: good_key_def)
qed

section \<open>Keys as bytes\<close>

lemma read_spaced_members:
  assumes "kvs \<noteq> []" "length (join '', '' (map spaced_member kvs)) + 2 \<le> k"
  shows "read_members k (join '', '' (map spaced_member kvs) @ CHR ''}'' # r) = Some (map (\<lambda>kv. (fst kv, JInt (int (snd kv)))) kvs, r)"
  using assms
proof (induction kvs arbitrary: k)
  case (Cons kv kvs)
  obtain key n where kv: "kv = (key, n)" by (cases kv)
  from Cons.prems obtain k' where k: "k = Suc k'" by (cases k) auto
  have len: "length (dumps (JInt (int n))) < k'" using Cons.prems(2) k kv by (auto simp: join_Cons spaced_member_def)
  have read: "read_val k' (dec_int (int n) @ t) = Some (JInt (int n), t)" if "ends t" for t
    using readsD [OF reads_int that len] by simp
  have skip: "skip_ws (CHR '' '' # dec_int (int n) @ t) = dec_int (int n) @ t" for t
    using skip_ws_dumps [of "JInt (int n)" t] by (simp add: skip_ws_def json_ws_def)
  have text': "spaced_member kv @ t = quote # (concat (map json_char key) @ quote # (CHR '':'' # CHR '' '' # dec_int (int n) @ t))" for t
    by (simp add: spaced_member_def kv dumps_str_def)
  show ?case
  proof (cases "kvs = []")
    case True
    show ?thesis
      unfolding True list.map join.simps(2) text' k
      by (simp add: read_dumps_str skip read kv del: length_append)
  next
    case False
    define t where "t = join '', '' (map spaced_member kvs) @ CHR ''}'' # r"
    have rest: "read_members k' t = Some (map (\<lambda>kv. (fst kv, JInt (int (snd kv)))) kvs, r)"
      unfolding t_def using Cons.prems k False by (intro Cons.IH) (auto simp: join_Cons)
    have t: "skip_ws (CHR '' '' # t) = t"
      using False by (cases kvs) (auto simp: t_def join_Cons spaced_member_def dumps_str_def skip_ws_def json_ws_def quote_def)
    have whole: "join '', '' (map spaced_member (kv # kvs)) @ CHR ''}'' # r = spaced_member kv @ CHR '','' # CHR '' '' # t"
      using False by (simp add: join_Cons t_def)
    show ?thesis
      unfolding whole text' k by (simp add: read_dumps_str skip read kv t rest del: length_append)
  qed
qed simp

lemma loads_integers:
  assumes "kvs \<noteq> []" "distinct (map fst kvs)"
  shows "loads (dumps_integers kvs) = Some (JObj (map (\<lambda>kv. (fst kv, JInt (int (snd kv)))) kvs))"
proof -
  define t where "t = join '', '' (map spaced_member kvs) @ ''}''"
  have text': "dumps_integers kvs = CHR ''{'' # t" by (simp add: dumps_integers_def t_def)
  have "length (join '', '' (map spaced_member kvs)) + 2 \<le> Suc (length t)" by (simp add: t_def)
  from read_spaced_members [OF assms(1) this, of "[]"]
  have members: "read_members (Suc (length t)) t = Some (map (\<lambda>kv. (fst kv, JInt (int (snd kv)))) kvs, [])"
    by (simp only: t_def)
  obtain cs where t: "t = quote # cs" using assms(1) by (cases kvs) (auto simp: t_def join_Cons spaced_member_def dumps_str_def)
  have skip: "skip_ws t = t" "skip_ws (CHR ''{'' # t) = CHR ''{'' # t" by (simp_all add: t skip_ws_def json_ws_def quote_def)
  have "distinct (map fst (map (\<lambda>kv. (fst kv, JInt (int (snd kv)))) kvs))" using assms(2) by (simp add: comp_def)
  from dict_of_distinct [OF this] have "read_val (Suc (Suc (length t))) (CHR ''{'' # t)
      = Some (JObj (map (\<lambda>kv. (fst kv, JInt (int (snd kv)))) kvs), [])"
    using members skip(1) by (simp add: t quote_def Let_def del: read_members.simps)
  then show ?thesis using skip(2) by (simp add: loads_def text')
qed

lemma key_member_reads:
  assumes "kvs \<noteq> []" "distinct (map fst kvs)" "map_of kvs name = Some n" "0 < n"
  shows "key_member name (dumps_integers kvs) = Some n"
proof -
  have "map_of (map (\<lambda>kv. (fst kv, JInt (int (snd kv)))) kvs) name = Some (JInt (int n))"
    using assms(3) by (induction kvs) auto
  then show ?thesis using assms(4) by (simp add: key_member_def loads_integers [OF assms(1,2)] dict_get_def)
qed

section \<open>Signing, sealing and breaking\<close>

lemma good_key_positive: "good_key k \<Longrightarrow> 1 < tk_n k \<and> 0 < tk_e k \<and> 0 < tk_d k"
proof -
  assume g: "good_key k"
  then have "1 < tk_p k" "1 < tk_q k" by (simp_all add: good_key_def is_prime_def)
  then have "1 < tk_p k * tk_q k" by (rule less_1_mult)
  then have "1 < tk_n k" using g by (simp add: good_key_def)
  moreover have "tk_e k * tk_d k mod lam (tk_p k) (tk_q k) = 1"
    using g mod_inverse_Some [of "tk_e k"] by (auto simp: good_key_def recover_lam)
  then have "0 < tk_d k" by (cases "tk_d k = 0") auto
  ultimately show ?thesis using g by (simp add: good_key_def)
qed

lemma key_bytes:
  assumes "good_key k"
  shows "key_member ''n'' (public_bytes k) = Some (tk_n k)" "key_member ''e'' (public_bytes k) = Some (tk_e k)"
    "key_member ''n'' (secret_bytes k) = Some (tk_n k)" "key_member ''d'' (secret_bytes k) = Some (tk_d k)"
  using good_key_positive [OF assms] unfolding public_bytes_def secret_bytes_def
  by (intro key_member_reads; simp)+

lemma bit_length_bound: "n < 2 ^ bit_length n"
proof (induction n rule: bit_length.induct)
  case (1 n)
  show ?case
  proof (cases "n = 0")
    case False
    then have "n div 2 < 2 ^ bit_length (n div 2)" using 1 by simp
    then have "n < 2 * 2 ^ bit_length (n div 2)" by linarith
    then show ?thesis using False by (simp add: bit_length.simps [of n])
  qed (simp add: bit_length.simps)
qed

lemma fits_width: "x < n \<Longrightarrow> x < 256 ^ signature_width n"
proof -
  assume "x < n"
  also have "n < 2 ^ bit_length n" by (rule bit_length_bound)
  also have "(2 :: nat) ^ bit_length n \<le> 2 ^ (8 * signature_width n)"
    by (rule power_increasing) (auto simp: signature_width_def)
  also have "\<dots> = 256 ^ signature_width n" by (simp add: power_mult)
  finally show ?thesis .
qed

lemma from_to_be_residue: "0 < n \<Longrightarrow> from_be (to_be (signature_width n) (x mod n)) = x mod n"
  using fits_width [of "x mod n" n] by (simp add: from_be_to_be)

text \<open>The scaled RSA is RSA.  Every key the generator can give signs so that its own verifier accepts, and
  opens what was sealed to it, for every message, every secret and every hash.\<close>

theorem toy_rsa_works:
  assumes "generate bits draws = Inr k" "drawn_from_pool bits draws"
  shows "(\<exists>sig. toy_sign H (secret_bytes k) message = Some sig \<and> toy_verify H (public_bytes k) message sig)
    \<and> (z < tk_n k \<longrightarrow> (\<exists>c secret. encapsulate H (public_bytes k) z = Some (c, secret)
          \<and> decapsulate H (secret_bytes k) c = Some secret))"
proof -
  have g: "good_key k" using generate_good [OF assms] by blast
  note b = key_bytes [OF g] and c = good_key_cancels [OF g]
  have n: "0 < tk_n k" using good_key_positive [OF g] by simp
  let ?m = "digest_to_int H message (tk_n k)"
  have m: "?m mod tk_n k = ?m" by (simp add: digest_to_int_def)
  have "toy_verify H (public_bytes k) message (to_be (signature_width (tk_n k)) (?m ^ tk_d k mod tk_n k))"
    using b c(1) [of ?m] m by (simp add: toy_verify_def from_to_be_residue n)
  moreover have "decapsulate H (secret_bytes k) (to_be (signature_width (tk_n k)) (z ^ tk_e k mod tk_n k)) = Some (kem_kdf H z)"
    if "z < tk_n k"
    using b c(2) [of z] that by (simp add: decapsulate_def from_to_be_residue n)
  ultimately show ?thesis using b by (auto simp: toy_sign_def encapsulate_def)
qed

text \<open>The bases a run draws are \<open>randrange(2, n - 1)\<close>.\<close>

definition bases_ok :: "nat \<Rightarrow> (nat \<times> nat list) list \<Rightarrow> bool" where
  "bases_ok n rounds \<longleftrightarrow> (\<forall>(a, ms) \<in> set rounds. 2 \<le> a \<and> a < n - 1)"

definition splits :: "nat \<Rightarrow> (nat \<times> nat) option \<Rightarrow> bool" where
  "splits n f \<longleftrightarrow> (\<forall>p q. f = Some (p, q) \<longrightarrow> p * q = n \<and> 1 < p \<and> p < n)"

lemma split_candidates_sound: "split_candidates h n = Some f \<Longrightarrow> splits n (Some f)"
proof -
  assume "split_candidates h n = Some f"
  then obtain c where c: "f = (c, n div c)" "1 < c" "c < n" "c = gcd (h - 1) n \<or> c = gcd (h + 1) n"
    by (auto simp: split_candidates_def split: if_splits)
  then have "c dvd n" by auto
  then show ?thesis using c by (simp add: splits_def)
qed

lemma shor_rounds_sound:
  assumes "shor_rounds n mode force rounds r = Inr res" "bases_ok n rounds" "splits n (sr_factors r)"
  shows "splits n (sr_factors res)"
  using assms
proof (induction rounds arbitrary: r)
  case (Cons round rounds)
  obtain a ms where round: "round = (a, ms)" by (cases round)
  have a: "2 \<le> a" "a < n - 1" and rest: "bases_ok n rounds" using Cons.prems(2) by (simp_all add: bases_ok_def round)
  show ?case
  proof (cases "1 < gcd a n")
    case True
    have "gcd a n \<le> a" using a by (intro gcd_le1_nat) simp
    then have "gcd a n < n" using a by linarith
    then have "splits n (Some (gcd a n, n div gcd a n))" using True a by (simp add: splits_def)
    then show ?thesis using True Cons.prems Cons.IH [OF _ rest] by (auto simp: round Let_def split: if_split_asm)
  next
    case False
    then obtain run where run: "find_order a n mode ms = Inr run"
      using Cons.prems(1) by (cases "find_order a n mode ms") (simp_all add: round bindE_def)
    let ?h = "a ^ (of_candidate_r run div 2) mod n"
    show ?thesis
    proof (cases "split_candidates ?h n")
      case None
      then show ?thesis
        using False run Cons.prems Cons.IH [OF _ rest] by (auto simp: round bindE_def Let_def split: if_split_asm)
    next
      case (Some f)
      show ?thesis
        using False run Some split_candidates_sound [OF Some] Cons.prems Cons.IH [OF _ rest]
        by (auto simp: round bindE_def Let_def split: if_split_asm)
    qed
  qed
qed simp

lemma perfect_power_sound:
  assumes "as_perfect_power n = Some (b, e)" "1 < n"
  shows "splits n (Some (b, n div b))"
proof -
  from find_Some_in [OF assms(1) [unfolded as_perfect_power_def]] have b: "1 < b" "b ^ e = n" "2 \<le> e"
    by (auto simp: Let_def)
  then have "b ^ 1 < b ^ e" by (intro power_strict_increasing) simp_all
  moreover have "b dvd n" using b by (auto intro: dvd_power)
  ultimately show ?thesis using b by (simp add: splits_def)
qed

lemma shor_factor_splits:
  assumes "shor_factor n mode force rounds = Inr res" "bases_ok n rounds"
  shows "splits n (sr_factors res)"
proof -
  have "splits n (Some (2, n div 2))" if "n mod 2 = 0" "4 \<le> n" using that by (auto simp: splits_def)
  moreover have "4 \<le> n" using assms(1) by (auto simp: shor_factor_def Let_def split: if_split_asm)
  moreover have "splits n None" by (simp add: splits_def)
  ultimately show ?thesis
    using assms perfect_power_sound [of n] shor_rounds_sound [of n _ force rounds _ res]
    by (auto simp: shor_factor_def Let_def split: if_split_asm option.split_asm)
qed

text \<open>Factors of a product of two primes are those primes.\<close>

lemma splits_primes:
  assumes "splits (p * q) (Some (f1, f2))" "is_prime p" "is_prime q"
  shows "(f1, f2) = (p, q) \<or> (f1, f2) = (q, p)"
proof -
  have f: "f1 * f2 = p * q" "1 < f1" "f1 < p * q" using assms(1) by (simp_all add: splits_def)
  have pos: "0 < p" "0 < q" using assms(2,3) by (simp_all add: is_prime_def)
  have "p dvd f1 \<or> p dvd f2" using f(1) assms(2) by (intro prime_dvd_mult) simp_all
  then show ?thesis
  proof
    assume "p dvd f1"
    then obtain c where c: "f1 = p * c" by (rule dvdE)
    then have q: "q = c * f2" using f(1) pos by simp
    then have "c dvd q" by simp
    then have "c = 1 \<or> c = q" using assms(3) by (auto simp: is_prime_def)
    then have "c = 1" using f(3) c by auto
    then show ?thesis using c q by simp
  next
    assume "p dvd f2"
    then obtain c where c: "f2 = p * c" by (rule dvdE)
    then have "q = f1 * c" using f(1) pos by simp
    then have "f1 dvd q" by simp
    then have "f1 = q" using assms(3) f(2) by (auto simp: is_prime_def)
    then have "c = 1" using \<open>q = f1 * c\<close> pos by simp
    with \<open>f1 = q\<close> show ?thesis using c by simp
  qed
qed

lemma lam_commute: "lam p q = lam q p"
  by (simp add: lam_def mult.commute gcd.commute)

lemma factors_give_exponent:
  assumes "good_key k" "splits (tk_n k) (Some (f1, f2))"
  shows "recover_rsa_exponent (tk_e k) f1 f2 = Some (tk_d k)"
proof -
  have "(f1, f2) = (tk_p k, tk_q k) \<or> (f1, f2) = (tk_q k, tk_p k)"
    using assms by (intro splits_primes) (simp_all add: good_key_def)
  then have "lam f1 f2 = lam (tk_p k) (tk_q k)" by (auto simp: lam_commute)
  then show ?thesis using assms(1) by (simp add: good_key_def recover_lam)
qed

text \<open>C40: The attack recovers the key.  Whenever a run against a generated modulus reports factors, whatever
  bases it drew and whatever it measured, the exponent it recovers from them is the victim's own, and
  the key rebuilt from the public numbers and that exponent is, byte for byte, the victim's secret
  key.\<close>

theorem factoring_recovers_key:
  assumes "generate bits draws = Inr k" "drawn_from_pool bits draws"
    "shor_factor (tk_n k) mode force rounds = Inr res" "bases_ok (tk_n k) rounds" "sr_factors res = Some (f1, f2)"
  shows "{f1, f2} = {tk_p k, tk_q k}
    \<and> (\<exists>d. recover_rsa_exponent (tk_e k) f1 f2 = Some d
          \<and> secret_bytes \<lparr>tk_n = tk_n k, tk_e = tk_e k, tk_d = d, tk_p = f1, tk_q = f2, tk_bits = tk_bits k\<rparr> = secret_bytes k)"
proof -
  have g: "good_key k" using generate_good [OF assms(1,2)] by blast
  have s: "splits (tk_n k) (Some (f1, f2))" using shor_factor_splits [OF assms(3,4)] assms(5) by simp
  have "(f1, f2) = (tk_p k, tk_q k) \<or> (f1, f2) = (tk_q k, tk_p k)"
    using s g by (intro splits_primes) (simp_all add: good_key_def)
  then have "{f1, f2} = {tk_p k, tk_q k}" by auto
  then show ?thesis using factors_give_exponent [OF g s] by (simp add: secret_bytes_def)
qed

section \<open>A run\<close>

text \<open>A six-bit key, 5 times 11, broken by the order 20 of 2, read off 819 of 4096.\<close>

definition demo_key :: toy_rsa_key where
  "demo_key = \<lparr>tk_n = 55, tk_e = 17, tk_d = 13, tk_p = 5, tk_q = 11, tk_bits = 6\<rparr>"

lemma demo_pool: "drawn_from_pool 6 [(5, 11)]"
  by code_simp

lemma demo_generate: "generate 6 [(5, 11)] = Inr demo_key"
  by code_simp

definition run_factors :: "shor_error + shor_result \<Rightarrow> (nat \<times> nat) option" where
  "run_factors r = (case r of Inr res \<Rightarrow> sr_factors res | Inl _ \<Rightarrow> None)"

lemma below_55: "[0..<55] = 0 # 1 # [2..<55]"
  by (simp add: upt_conv_Cons numeral_2_eq_2)

lemma bits_55: "bit_length 55 = 6"
  by (simp add: bit_length.simps)

lemma demo_no_power: "as_perfect_power 55 = None"
  unfolding as_perfect_power_def nearest_root_def bits_55 below_55
  by (simp add: upt_rec_numeral Let_def) (simp flip: numeral_2_eq_2)

lemma demo_order: "find_order 2 55 Statevector [819] = Inr (order_run 2 55 Statevector 819 5 20 True 1)"
proof -
  have "phase_denominator 819 (control_width 55) 55 = 5"
    by (simp add: phase_denominator_def control_width_def bits_55 limit_denominator_def convergents.simps Let_def gcd_non_0_nat)
  moreover have "confirm_order 2 55 5 = Some 20"
    by (simp add: confirm_order_def confirm_order_trail_def MAX_ORDER_MULTIPLE_def upt_rec_numeral upt_conv_Cons)
  ultimately show ?thesis by (simp add: find_order_def gcd_non_0_nat)
qed

lemma demo_run: "run_factors (shor_factor 55 None False [(2, [819])]) = Some (11, 5)"
  by (simp add: shor_factor_def run_factors_def demo_no_power MAX_N_STATEVECTOR_def MAX_N_ANALYTIC_def demo_order bindE_def
      order_run_def split_candidates_def gcd_non_0_nat Let_def)

lemma demo_factor: "\<exists>res. shor_factor (tk_n demo_key) None False [(2, [819])] = Inr res \<and> sr_factors res = Some (11, 5)"
  using demo_run by (auto simp: run_factors_def demo_key_def split: sum.splits)

lemma toy_rsa_works_witness:
  "\<exists>sig. toy_sign id (secret_bytes demo_key) ''m'' = Some sig \<and> toy_verify id (public_bytes demo_key) ''m'' sig"
  using toy_rsa_works [OF demo_generate demo_pool, of id "''m''"] by blast

lemma factoring_recovers_key_witness: "recover_rsa_exponent 17 11 5 = Some 13"
proof -
  obtain res where "shor_factor (tk_n demo_key) None False [(2, [819])] = Inr res" "sr_factors res = Some (11, 5)"
    using demo_factor by blast
  moreover have "bases_ok (tk_n demo_key) [(2, [819])]" by (simp add: bases_ok_def demo_key_def)
  ultimately obtain d where "recover_rsa_exponent (tk_e demo_key) 11 5 = Some d"
    using factoring_recovers_key [OF demo_generate demo_pool] by blast
  moreover have "recover_rsa_exponent 17 5 11 = Some 13" by code_simp
  ultimately show ?thesis by (simp add: recover_lam lam_commute [of 11 5])
qed

end
