(* ===== verification/Rate_Limit.thy ===== *)
theory Rate_Limit
  imports Vault_Prelude Complex_Main "HOL-Library.AList"
begin

text \<open>
  \<open>security/rate_limit.py\<close>: the sliding-window limiter in front of the doors that take a password from
  anyone.  A bucket is an ordered dictionary, so its entries are an association list in insertion
  order; times are seconds of the monotonic clock as exact rationals, so the rounding of its floating
  point is not modelled.  The client's address is an argument.
\<close>

section \<open>Buckets\<close>

definition MAX_KEYS :: nat where "MAX_KEYS = 50000"
definition SWEEP_PER_HIT :: nat where "SWEEP_PER_HIT = 8"

type_synonym address_counts = "(ustr \<times> rat list) list"

record bucket =
  bk_window :: rat
  bk_hits :: address_counts

record limiter =
  lm_buckets :: "(ustr \<times> bucket) list"
  lm_max_keys :: nat

definition new_limiter :: "nat \<Rightarrow> limiter" where
  "new_limiter max_keys = \<lparr>lm_buckets = [], lm_max_keys = max_keys\<rparr>"

fun sweep_hits :: "rat \<Rightarrow> rat \<Rightarrow> nat \<Rightarrow> address_counts \<Rightarrow> address_counts" where
  "sweep_hits window now 0 hits = hits"
| "sweep_hits window now (Suc budget) [] = []"
| "sweep_hits window now (Suc budget) ((key, ts) # hits) =
     (if ts \<noteq> [] \<and> now - window < last ts then (key, ts) # hits
      else sweep_hits window now budget hits)"

definition sweep :: "rat \<Rightarrow> nat \<Rightarrow> bucket \<Rightarrow> bucket" where
  "sweep now budget b = b\<lparr>bk_hits := sweep_hits (bk_window b) now budget (bk_hits b)\<rparr>"

definition limiter_size :: "limiter \<Rightarrow> nat" where
  "limiter_size l = sum_list (map (\<lambda>(name, b). length (bk_hits b)) (lm_buckets l))"

text \<open>The times still inside the window.\<close>

definition standing :: "rat \<Rightarrow> rat \<Rightarrow> rat list \<Rightarrow> rat list" where
  "standing now window ts = dropWhile (\<lambda>t. t \<le> now - window) ts"

text \<open>Room for one more address: the least recently counted go first.  \<open>max_keys\<close> is at least one.\<close>

definition make_room :: "nat \<Rightarrow> address_counts \<Rightarrow> address_counts" where
  "make_room max_keys hits = drop (Suc (length hits) - max_keys) hits"

text \<open>One attempt in its bucket: nothing when it is allowed, otherwise the seconds to wait.  A limit is
  at least one.\<close>

definition count_attempt :: "nat \<Rightarrow> ustr \<Rightarrow> nat \<Rightarrow> rat \<Rightarrow> rat \<Rightarrow> bucket \<Rightarrow> rat \<times> bucket" where
  "count_attempt max_keys key limit window now b =
     (let hits = (case map_of (bk_hits b) key of
                    None \<Rightarrow> make_room max_keys (bk_hits b) @ [(key, [])]
                  | Some _ \<Rightarrow> bk_hits b);
          kept = standing now window (case map_of hits key of None \<Rightarrow> [] | Some ts \<Rightarrow> ts)
      in if limit \<le> length kept then (max 1 (hd kept + window - now), b\<lparr>bk_hits := AList.update key kept hits\<rparr>)
         else (0, b\<lparr>bk_hits := AList.delete key hits @ [(key, kept @ [now])]\<rparr>))"

definition hit :: "ustr \<Rightarrow> ustr \<Rightarrow> nat \<Rightarrow> rat \<Rightarrow> rat \<Rightarrow> limiter \<Rightarrow> rat \<times> limiter" where
  "hit name key limit window now l =
     (let b = (case map_of (lm_buckets l) name of None \<Rightarrow> \<lparr>bk_window = window, bk_hits = []\<rparr> | Some b \<Rightarrow> b);
          swept = map (\<lambda>(n, b). (n, sweep now SWEEP_PER_HIT b)) (AList.update name (b\<lparr>bk_window := window\<rparr>) (lm_buckets l));
          (wait, b') = count_attempt (lm_max_keys l) key limit window now (the (map_of swept name))
      in (wait, l\<lparr>lm_buckets := AList.update name b' swept\<rparr>))"

section \<open>The check before a view\<close>

definition ENDPOINT_BUCKETS :: "ustr \<rightharpoonup> ustr" where
  "ENDPOINT_BUCKETS = map_of
     [(''auth.login'', ''sign_in''), (''auth.register'', ''sign_up''), (''workspace.register'', ''sign_up''),
      (''api.request_challenge'', ''pair''), (''api.enrol_device'', ''pair''),
      (''recover.kit'', ''recover''), (''recover.status_cancel'', ''recover''),
      (''api.pairing_inspect'', ''pair_qr''), (''api.pairing_claim'', ''pair_qr''),
      (''recover.phone'', ''recover''), (''recover.status_phone_confirm'', ''recover''),
      (''admin.shor_rsa_new'', ''attack_shor_sim''), (''admin.shor_rsa_base'', ''attack_shor_sim''),
      (''admin.shor_rsa_measure'', ''attack_shor''), (''admin.shor_rsa_forge'', ''attack_shor''),
      (''admin.shor_lwe_brute'', ''attack_shor'')]"

definition DEFAULT_LIMITS :: "ustr \<rightharpoonup> nat \<times> rat" where
  "DEFAULT_LIMITS = map_of
     [(''sign_in'', (20, 600)), (''sign_up'', (10, 3600)), (''pair'', (20, 600)), (''recover'', (10, 3600)),
      (''pair_qr'', (30, 600)), (''attack_shor'', (600, 600)), (''attack_shor_sim'', (30, 600))]"

record limit_config =
  lc_enabled :: bool
  lc_signup_per_hour :: nat
  lc_overrides :: "ustr \<rightharpoonup> nat \<times> rat"

definition limits :: "limit_config \<Rightarrow> ustr \<rightharpoonup> nat \<times> rat" where
  "limits c =
     (if lc_signup_per_hour c \<noteq> 0 then DEFAULT_LIMITS(''sign_up'' \<mapsto> (lc_signup_per_hour c, 3600)) else DEFAULT_LIMITS)
     ++ lc_overrides c"

text \<open>What the check answers: let the request through, or refuse it and say when to come back.  Every
  bucket of \<open>ENDPOINT_BUCKETS\<close> has a limit.\<close>

datatype verdict = Pass | Refuse_429 (retry_after: int) (minutes_said: int)

definition check :: "limit_config \<Rightarrow> ustr \<Rightarrow> ustr \<Rightarrow> ustr \<Rightarrow> rat \<Rightarrow> limiter \<Rightarrow> verdict \<times> limiter" where
  "check c http_method endpoint address now l =
     (if http_method \<noteq> ''POST'' \<or> \<not> lc_enabled c then (Pass, l)
      else case ENDPOINT_BUCKETS endpoint of
        None \<Rightarrow> (Pass, l)
      | Some bucket \<Rightarrow>
          let (limit, window) = the (limits c bucket);
              (wait, l') = hit bucket address limit window now l;
              retry = \<lceil>wait\<rceil>
          in if wait = 0 then (Pass, l')
             else (Refuse_429 retry (max 1 \<lceil>rat_of_int retry / 60\<rceil>), l'))"

end
