(* ===== verification/Rate_Limit_Proofs.thy ===== *)
theory Rate_Limit_Proofs
  imports Rate_Limit
begin

text \<open>
  What the limiter promises, against a specification that keeps every allowed attempt for ever: while
  no bucket is full its answers are those of the specification, and whatever arrives a bucket stays
  bounded and ordered by its newest counts.
\<close>

section \<open>The specification\<close>

text \<open>An attempt is allowed when fewer than the limit were allowed to the same address, at the same
  bucket, inside the window before it.\<close>

type_synonym attempt = "ustr \<times> ustr \<times> rat"

definition recent :: "rat \<Rightarrow> rat \<Rightarrow> rat list \<Rightarrow> rat list" where
  "recent now window ts = filter (\<lambda>t. now - window < t) ts"

definition attempts_of :: "ustr \<Rightarrow> ustr \<Rightarrow> attempt list \<Rightarrow> rat list" where
  "attempts_of name key past = map (\<lambda>(n, k, t). t) (filter (\<lambda>(n, k, t). n = name \<and> k = key) past)"

fun allowed :: "(ustr \<Rightarrow> nat \<times> rat) \<Rightarrow> attempt list \<Rightarrow> attempt list \<Rightarrow> bool list" where
  "allowed lims past [] = []"
| "allowed lims past ((name, key, now) # rs) =
     (let ok = length (recent now (snd (lims name)) (attempts_of name key past)) < fst (lims name)
      in ok # allowed lims (if ok then past @ [(name, key, now)] else past) rs)"

fun serve :: "(ustr \<Rightarrow> nat \<times> rat) \<Rightarrow> limiter \<Rightarrow> attempt list \<Rightarrow> rat list \<times> limiter" where
  "serve lims l [] = ([], l)"
| "serve lims l ((name, key, now) # rs) =
     (let (w, l') = hit name key (fst (lims name)) (snd (lims name)) now l; (ws, l'') = serve lims l' rs
      in (w # ws, l''))"

lemma recent_simps [simp]:
  "recent now window [] = []"
  "recent now window (ts @ us) = recent now window ts @ recent now window us"
  by (simp_all add: recent_def)

lemma recent_later: "now \<le> now' \<Longrightarrow> recent now window ts = recent now window us \<Longrightarrow> recent now' window ts = recent now' window us"
proof -
  assume "now \<le> now'" and eq: "recent now window ts = recent now window us"
  then have "recent now' window vs = recent now' window (recent now window vs)" for vs
    by (auto simp: recent_def intro!: filter_cong)
  then show ?thesis using eq by metis
qed

lemma recent_old: "sorted ts \<Longrightarrow> ts = [] \<or> last ts \<le> now - window \<Longrightarrow> recent now window ts = []"
proof (induction ts rule: rev_induct)
  case (snoc t ts)
  then have "\<forall>u \<in> set ts. u \<le> t" "t \<le> now - window" by (auto simp: sorted_append)
  then have "recent now window (ts @ [t]) = []" by (fastforce simp: recent_def filter_empty_conv)
  then show ?case .
qed simp

lemma standing_recent: "sorted ts \<Longrightarrow> standing now window ts = recent now window ts"
proof (induction ts)
  case (Cons t ts)
  show ?case
  proof (cases "t \<le> now - window")
    case True
    then show ?thesis using Cons by (simp add: standing_def recent_def)
  next
    case False
    then have "\<forall>u \<in> set (t # ts). now - window < u" using Cons.prems by auto
    then have "filter (\<lambda>u. now - window < u) (t # ts) = t # ts" by (simp only: filter_id_conv)
    then show ?thesis using False by (simp add: standing_def recent_def)
  qed
qed (simp add: standing_def)

section \<open>One bucket\<close>

definition counts_of :: "address_counts \<Rightarrow> ustr \<Rightarrow> rat list" where
  "counts_of hits key = (case map_of hits key of None \<Rightarrow> [] | Some ts \<Rightarrow> ts)"

definition entry_ok :: "nat \<Rightarrow> rat \<Rightarrow> ustr \<times> rat list \<Rightarrow> bool" where
  "entry_ok limit now e \<longleftrightarrow> snd e \<noteq> [] \<and> sorted (snd e) \<and> last (snd e) \<le> now \<and> length (snd e) \<le> limit"

definition hits_ok :: "nat \<Rightarrow> nat \<Rightarrow> rat \<Rightarrow> address_counts \<Rightarrow> bool" where
  "hits_ok max_keys limit now hits \<longleftrightarrow>
     distinct (map fst hits) \<and> length hits \<le> max_keys \<and> (\<forall>e \<in> set hits. entry_ok limit now e)
     \<and> sorted (map (\<lambda>e. last (snd e)) hits)"

lemma entry_later: "entry_ok limit now e \<Longrightarrow> now \<le> now' \<Longrightarrow> entry_ok limit now' e"
  by (auto simp: entry_ok_def)

lemma hits_later: "hits_ok m limit now hits \<Longrightarrow> now \<le> now' \<Longrightarrow> hits_ok m limit now' hits"
  by (auto simp: hits_ok_def intro: entry_later)

lemma hits_drop: "hits_ok m limit now hits \<Longrightarrow> hits_ok m limit now (drop n hits)"
  by (auto simp: hits_ok_def sorted_wrt_drop simp flip: drop_map dest: in_set_dropD)

lemma sweep_suffix: "\<exists>n. sweep_hits window now budget hits = drop n hits"
proof (induction window now budget hits rule: sweep_hits.induct)
  case (3 window now budget key ts hits)
  show ?case
  proof (cases "ts \<noteq> [] \<and> now - window < last ts")
    case True
    then show ?thesis by (intro exI [of _ 0]) simp
  next
    case False
    then obtain n where "sweep_hits window now budget hits = drop n hits" using 3 by blast
    then have "sweep_hits window now (Suc budget) ((key, ts) # hits) = drop (Suc n) ((key, ts) # hits)" using False by auto
    then show ?thesis by blast
  qed
qed (simp_all add: exI [of _ 0])

text \<open>What the sweep drops has left the window.\<close>

lemma sweep_keeps_recent:
  assumes "distinct (map fst hits)" "\<forall>e \<in> set hits. sorted (snd e)"
  shows "recent now window (counts_of (sweep_hits window now budget hits) key) = recent now window (counts_of hits key)"
  using assms
proof (induction window now budget hits rule: sweep_hits.induct)
  case (3 window now budget k ts hits)
  show ?case
  proof (cases "ts \<noteq> [] \<and> now - window < last ts")
    case False
    then have old: "recent now window ts = []" using 3(3) by (intro recent_old) auto
    have "recent now window (counts_of (sweep_hits window now budget hits) key) = recent now window (counts_of hits key)"
      using 3 False by simp
    moreover have "counts_of hits k = []" using 3(2) by (simp add: counts_of_def map_of_eq_None_iff [THEN iffD2])
    ultimately show ?thesis using False old by (auto simp: counts_of_def)
  qed simp
qed simp_all

lemma entries_sorted: "hits_ok m limit now hits \<Longrightarrow> sorted (counts_of hits key)"
  by (auto simp: hits_ok_def entry_ok_def counts_of_def dest: map_of_SomeD split: option.split)

lemma counts_update [simp]:
  "counts_of (AList.update k ts hits) key = (if key = k then ts else counts_of hits key)"
  by (simp add: counts_of_def update_conv')

lemma counts_move [simp]:
  "counts_of (AList.delete k hits @ [(k, ts)]) key = (if key = k then ts else counts_of hits key)"
proof (cases "key = k")
  case True
  have "map_of (AList.delete k hits) k = None" by (simp add: delete_conv')
  then show ?thesis using True by (simp add: counts_of_def map_add_def)
next
  case False
  then show ?thesis by (simp add: counts_of_def map_add_def split: option.split)
qed

lemma count_attempt_cases:
  assumes ok: "hits_ok m limit now (bk_hits b)" and "0 < limit" "0 < m"
    and room: "map_of (bk_hits b) key = None \<longrightarrow> length (bk_hits b) < m"
    and r: "r = recent now window (counts_of (bk_hits b) key)"
  obtains (allowed) "count_attempt m key limit window now b
        = (0, b\<lparr>bk_hits := AList.delete key (bk_hits b) @ [(key, r @ [now])]\<rparr>)" "length r < limit"
    | (refused) "count_attempt m key limit window now b
        = (max 1 (hd r + window - now), b\<lparr>bk_hits := AList.update key r (bk_hits b)\<rparr>)" "length r = limit"
      "map_of (bk_hits b) key \<noteq> None"
proof -
  have sorted: "sorted (counts_of (bk_hits b) key)" using ok by (rule entries_sorted)
  have "length (counts_of (bk_hits b) key) \<le> limit"
    using ok by (auto simp: hits_ok_def entry_ok_def counts_of_def dest!: map_of_SomeD split: option.split)
  then have few: "length r \<le> limit" unfolding r recent_def using length_filter_le order_trans by blast
  show ?thesis
  proof (cases "map_of (bk_hits b) key")
    case None
    then have "make_room m (bk_hits b) = bk_hits b" using room by (simp add: make_room_def)
    moreover have "r = []" using None r by (simp add: counts_of_def)
    moreover have "key \<notin> fst ` set (bk_hits b)" using None by (simp add: map_of_eq_None_iff)
    ultimately have "count_attempt m key limit window now b
        = (0, b\<lparr>bk_hits := AList.delete key (bk_hits b) @ [(key, r @ [now])]\<rparr>)"
      using None assms(2) by (simp add: count_attempt_def Let_def standing_def map_add_def AList.delete_eq)
    then show ?thesis by (rule allowed) (use \<open>r = []\<close> assms(2) in simp_all)
  next
    case (Some ts)
    then have st: "standing now window ts = r" using r sorted by (simp add: counts_of_def standing_recent)
    show ?thesis
    proof (cases "limit \<le> length r")
      case True
      then show ?thesis using Some st few by (intro refused) (auto simp: count_attempt_def Let_def)
    next
      case False
      then show ?thesis using Some st by (intro allowed) (auto simp: count_attempt_def Let_def)
    qed
  qed
qed

lemma set_update: "set (AList.update k v al) \<subseteq> insert (k, v) (set al)"
  by (induction al) auto

lemma update_same_last:
  "map_of hits key = Some ts \<Longrightarrow> last r = last ts
    \<Longrightarrow> map (\<lambda>e. last (snd e)) (AList.update key r hits) = map (\<lambda>e. last (snd e)) hits"
  by (induction hits) auto

lemma length_update_old: "map_of hits key \<noteq> None \<Longrightarrow> length (AList.update key r hits) = length hits"
  by (induction hits) auto

lemma last_recent: "recent now window ts \<noteq> [] \<Longrightarrow> sorted ts \<Longrightarrow> last (recent now window ts) = last ts"
proof (induction ts rule: rev_induct)
  case (snoc t ts)
  have "now - window < t"
  proof (rule ccontr)
    assume "\<not> now - window < t"
    then have "recent now window (ts @ [t]) = []" using snoc.prems(2) by (intro recent_old) auto
    then show False using snoc.prems(1) by simp
  qed
  then show ?case by (simp add: recent_def)
qed simp

lemma sorted_le_last: "sorted ts \<Longrightarrow> t \<in> set ts \<Longrightarrow> t \<le> last ts"
  for ts :: "rat list"
  by (induction ts rule: rev_induct) (auto simp: sorted_append)

text \<open>A bucket stays bounded, its addresses distinct and in the order of their newest counts, and no
  address ever holds more than the limit.\<close>

lemma refused_keeps:
  assumes ok: "hits_ok m limit now hits" and key: "map_of hits key = Some ts"
    and r: "r = recent now window ts" "length r = limit" "0 < limit"
  shows "hits_ok m limit now (AList.update key r hits)"
proof -
  have e: "entry_ok limit now (key, ts)" using ok key by (auto simp: hits_ok_def dest: map_of_SomeD)
  have "r \<noteq> []" using r by auto
  then have last: "last r = last ts" using e r(1) by (auto simp: entry_ok_def intro: last_recent)
  have "sorted r" using e by (simp add: r(1) recent_def entry_ok_def sorted_wrt_filter)
  then have "entry_ok limit now (key, r)" using e last r \<open>r \<noteq> []\<close> by (simp add: entry_ok_def)
  then show ?thesis
    using ok key last set_update [of key r hits]
    by (auto simp: hits_ok_def distinct_update update_same_last length_update_old)
qed

lemma allowed_keeps:
  assumes ok: "hits_ok m limit now hits" and room: "map_of hits key = None \<longrightarrow> length hits < m"
    and r: "r = recent now window (counts_of hits key)" "length r < limit"
  shows "hits_ok m limit now (AList.delete key hits @ [(key, r @ [now])])"
proof -
  have d: "AList.delete key hits = filter (\<lambda>e. fst e \<noteq> key) hits" by (auto simp: AList.delete_eq intro: filter_cong)
  have "sorted r" using entries_sorted [OF ok] by (simp add: r(1) recent_def sorted_wrt_filter)
  moreover have "\<forall>t \<in> set (counts_of hits key). t \<le> now"
  proof
    fix t assume "t \<in> set (counts_of hits key)"
    then obtain ts where "(key, ts) \<in> set hits" "t \<in> set ts"
      by (cases "map_of hits key") (auto simp: counts_of_def dest: map_of_SomeD)
    then have "sorted ts" "last ts \<le> now" "t \<in> set ts" using ok by (auto simp: hits_ok_def entry_ok_def)
    then show "t \<le> now" using sorted_le_last order_trans by blast
  qed
  ultimately have "entry_ok limit now (key, r @ [now])" using r by (auto simp: entry_ok_def recent_def sorted_append)
  moreover have "sorted (map (\<lambda>e. last (snd e)) (filter (\<lambda>e. fst e \<noteq> key) hits))"
    using ok by (simp add: hits_ok_def sorted_map sorted_wrt_filter)
  moreover have "length (filter (\<lambda>e. fst e \<noteq> key) hits) < m"
  proof (cases "map_of hits key")
    case None
    then show ?thesis using room length_filter_le le_less_trans by blast
  next
    case (Some ts)
    then have "length (filter (\<lambda>e. fst e \<noteq> key) hits) < length hits" by (auto dest!: map_of_SomeD intro: length_filter_less)
    then show ?thesis using ok by (simp add: hits_ok_def)
  qed
  ultimately show ?thesis
    using ok unfolding d by (auto simp: hits_ok_def entry_ok_def distinct_map_filter sorted_append)
qed

section \<open>The limiter\<close>

lemma count_attempt_room:
  "0 < m \<Longrightarrow> count_attempt m key limit window now b
    = count_attempt m key limit window now
        (b\<lparr>bk_hits := if map_of (bk_hits b) key = None then make_room m (bk_hits b) else bk_hits b\<rparr>)"
proof -
  assume m: "0 < m"
  have "make_room m (make_room m hits) = make_room m hits" for hits :: address_counts
    using m by (auto simp: make_room_def)
  moreover have "map_of (make_room m (bk_hits b)) key = None" if "map_of (bk_hits b) key = None"
    using that by (auto simp: make_room_def map_of_eq_None_iff dest: in_set_dropD)
  ultimately show ?thesis by (cases "map_of (bk_hits b) key") (simp_all add: count_attempt_def Let_def)
qed

lemma count_attempt_ok:
  assumes ok: "hits_ok m limit now (bk_hits b)" and "0 < limit" "0 < m"
  shows "hits_ok m limit now (bk_hits (snd (count_attempt m key limit window now b)))
    \<and> bk_window (snd (count_attempt m key limit window now b)) = bk_window b"
proof -
  define b1 where "b1 = b\<lparr>bk_hits := if map_of (bk_hits b) key = None then make_room m (bk_hits b) else bk_hits b\<rparr>"
  have ok1: "hits_ok m limit now (bk_hits b1)" using ok hits_drop by (auto simp: b1_def make_room_def)
  have room: "map_of (bk_hits b1) key = None \<longrightarrow> length (bk_hits b1) < m"
    using assms(3) by (auto simp: b1_def make_room_def)
  define r where "r = recent now window (counts_of (bk_hits b1) key)"
  from ok1 assms(2,3) room r_def have "hits_ok m limit now (bk_hits (snd (count_attempt m key limit window now b1)))
    \<and> bk_window (snd (count_attempt m key limit window now b1)) = bk_window b1"
  proof (cases rule: count_attempt_cases)
    case allowed
    then show ?thesis using allowed_keeps [OF ok1 room r_def] by simp
  next
    case refused
    then obtain ts where ts: "map_of (bk_hits b1) key = Some ts" by blast
    show ?thesis using refused refused_keeps [OF ok1 ts] ts assms(2) by (simp add: counts_of_def r_def)
  qed
  then show ?thesis using count_attempt_room [OF assms(3), of key limit window now b] by (simp add: b1_def)
qed

definition limiter_ok :: "(ustr \<Rightarrow> nat \<times> rat) \<Rightarrow> rat \<Rightarrow> limiter \<Rightarrow> bool" where
  "limiter_ok lims now l \<longleftrightarrow> 0 < lm_max_keys l \<and>
     (\<forall>name b. map_of (lm_buckets l) name = Some b \<longrightarrow>
        bk_window b = snd (lims name) \<and> hits_ok (lm_max_keys l) (fst (lims name)) now (bk_hits b))"

text \<open>The bucket an attempt counts against, swept.\<close>

definition swept_bucket :: "ustr \<Rightarrow> rat \<Rightarrow> rat \<Rightarrow> limiter \<Rightarrow> bucket" where
  "swept_bucket name window now l =
     sweep now SWEEP_PER_HIT ((case map_of (lm_buckets l) name of None \<Rightarrow> \<lparr>bk_window = window, bk_hits = []\<rparr> | Some b \<Rightarrow> b)
       \<lparr>bk_window := window\<rparr>)"

lemma hit_effect:
  assumes "hit name key limit window now l = (w, l')"
  obtains b' where "count_attempt (lm_max_keys l) key limit window now (swept_bucket name window now l) = (w, b')"
    "lm_max_keys l' = lm_max_keys l"
    "map_of (lm_buckets l') = (\<lambda>n. if n = name then Some b' else map_option (sweep now SWEEP_PER_HIT) (map_of (lm_buckets l) n))"
proof -
  define b where "b = (case map_of (lm_buckets l) name of None \<Rightarrow> \<lparr>bk_window = window, bk_hits = []\<rparr> | Some b \<Rightarrow> b)"
  define swept where "swept = map (\<lambda>(n, b). (n, sweep now SWEEP_PER_HIT b)) (AList.update name (b\<lparr>bk_window := window\<rparr>) (lm_buckets l))"
  have sw: "map_of swept n = (if n = name then Some (swept_bucket name window now l)
      else map_option (sweep now SWEEP_PER_HIT) (map_of (lm_buckets l) n))" for n
    by (simp add: swept_def map_of_map update_conv' swept_bucket_def b_def)
  obtain b' where b': "count_attempt (lm_max_keys l) key limit window now (swept_bucket name window now l) = (w, b')"
    "l' = l\<lparr>lm_buckets := AList.update name b' swept\<rparr>"
    using assms sw [of name] by (auto simp: hit_def Let_def simp flip: b_def swept_def split: prod.splits)
  then show ?thesis by (intro that [of b']) (auto simp: update_conv' sw)
qed

lemma sweep_ok:
  "hits_ok m limit now (bk_hits b) \<Longrightarrow> now \<le> now' \<Longrightarrow> hits_ok m limit now' (bk_hits (sweep now' budget b))"
  using sweep_suffix [of "bk_window b" now' budget "bk_hits b"] hits_drop hits_later by (auto simp: sweep_def)

lemma swept_ok:
  assumes "limiter_ok lims now l" "now \<le> now'" "w = snd (lims name)"
  shows "hits_ok (lm_max_keys l) (fst (lims name)) now' (bk_hits (swept_bucket name w now' l))"
proof (cases "map_of (lm_buckets l) name")
  case None
  have "sweep_hits w now' SWEEP_PER_HIT [] = []" by (simp add: SWEEP_PER_HIT_def eval_nat_numeral)
  then show ?thesis using None by (simp add: swept_bucket_def sweep_def hits_ok_def)
next
  case (Some b)
  have "hits_ok (lm_max_keys l) (fst (lims name)) now (bk_hits (b\<lparr>bk_window := w\<rparr>))" using Some assms(1) by (simp add: limiter_ok_def)
  then show ?thesis using Some sweep_ok [OF _ assms(2)] by (simp add: swept_bucket_def)
qed

lemma hit_keeps:
  assumes "limiter_ok lims now l" "now \<le> now'" "\<forall>n. 0 < fst (lims n)"
    "hit name key (fst (lims name)) (snd (lims name)) now' l = (w, l')"
  shows "limiter_ok lims now' l'"
proof -
  obtain b' where b': "count_attempt (lm_max_keys l) key (fst (lims name)) (snd (lims name)) now' (swept_bucket name (snd (lims name)) now' l) = (w, b')"
    "lm_max_keys l' = lm_max_keys l"
    "map_of (lm_buckets l') = (\<lambda>n. if n = name then Some b' else map_option (sweep now' SWEEP_PER_HIT) (map_of (lm_buckets l) n))"
    using assms(4) by (rule hit_effect)
  have m: "0 < lm_max_keys l" and lim: "0 < fst (lims name)" using assms(1,3) by (simp_all add: limiter_ok_def)
  have "hits_ok (lm_max_keys l) (fst (lims name)) now' (bk_hits b') \<and> bk_window b' = snd (lims name)"
    using count_attempt_ok [OF swept_ok [OF assms(1,2) refl] lim m, of key "snd (lims name)"] b'(1)
    by (simp add: swept_bucket_def sweep_def)
  moreover have "hits_ok (lm_max_keys l) (fst (lims n)) now' (bk_hits (sweep now' SWEEP_PER_HIT b))
      \<and> bk_window (sweep now' SWEEP_PER_HIT b) = snd (lims n)"
    if "map_of (lm_buckets l) n = Some b" for n b
  proof -
    have "hits_ok (lm_max_keys l) (fst (lims n)) now (bk_hits b)" and w: "bk_window b = snd (lims n)"
      using that assms(1) by (simp_all add: limiter_ok_def)
    from sweep_ok [OF this(1) assms(2), of SWEEP_PER_HIT] w show ?thesis by (simp add: sweep_def)
  qed
  ultimately show ?thesis using m by (auto simp: limiter_ok_def b'(2,3) split: if_splits)
qed

section \<open>The limiter is the specification\<close>

definition stored :: "limiter \<Rightarrow> ustr \<Rightarrow> ustr \<Rightarrow> rat list" where
  "stored l name key = (case map_of (lm_buckets l) name of None \<Rightarrow> [] | Some b \<Rightarrow> counts_of (bk_hits b) key)"

definition same_recent :: "(ustr \<Rightarrow> nat \<times> rat) \<Rightarrow> rat \<Rightarrow> attempt list \<Rightarrow> limiter \<Rightarrow> bool" where
  "same_recent lims now past l \<longleftrightarrow>
     (\<forall>n k. recent now (snd (lims n)) (stored l n k) = recent now (snd (lims n)) (attempts_of n k past))"

text \<open>The addresses a bucket can have been asked about.\<close>

definition keys_of :: "attempt list \<Rightarrow> ustr \<Rightarrow> ustr set" where
  "keys_of rs name = {k. \<exists>t. (name, k, t) \<in> set rs}"

definition knows_only :: "(ustr \<Rightarrow> ustr set) \<Rightarrow> limiter \<Rightarrow> bool" where
  "knows_only K l \<longleftrightarrow>
     (\<forall>n. finite (K n) \<and> card (K n) \<le> lm_max_keys l)
     \<and> (\<forall>n b. map_of (lm_buckets l) n = Some b \<longrightarrow> fst ` set (bk_hits b) \<subseteq> K n)"

lemma finite_keys: "finite (keys_of rs name)"
proof -
  have "keys_of rs name \<subseteq> (\<lambda>(n, k, t). k) ` set rs" by (force simp: keys_of_def)
  then show ?thesis by (rule finite_subset) simp
qed

lemma swept_keys: "fst ` set (bk_hits (sweep now budget b)) \<subseteq> fst ` set (bk_hits b)"
proof -
  obtain n where "sweep_hits (bk_window b) now budget (bk_hits b) = drop n (bk_hits b)" using sweep_suffix by blast
  then show ?thesis by (simp add: sweep_def image_mono set_drop_subset)
qed

lemma knows_after:
  assumes "knows_only K l" "lm_max_keys l' = lm_max_keys l" "fst ` set (bk_hits b') \<subseteq> K name"
    "map_of (lm_buckets l') = (\<lambda>n. if n = name then Some b' else map_option (sweep now budget) (map_of (lm_buckets l) n))"
  shows "knows_only K l'"
proof -
  have "fst ` set (bk_hits b) \<subseteq> K n" if b: "map_of (lm_buckets l') n = Some b" for n b
  proof (cases "n = name")
    case True
    then show ?thesis using b assms(3,4) by simp
  next
    case False
    then obtain b0 where "map_of (lm_buckets l) n = Some b0" "b = sweep now budget b0" using b assms(4) by auto
    then show ?thesis using assms(1) swept_keys [of now budget b0] unfolding knows_only_def by blast
  qed
  then show ?thesis using assms(1,2) by (simp add: knows_only_def)
qed

lemma swept_stored:
  assumes "limiter_ok lims now l" "w = snd (lims name)"
  shows "recent now' w (counts_of (bk_hits (swept_bucket name w now' l)) key) = recent now' w (stored l name key)"
proof (cases "map_of (lm_buckets l) name")
  case None
  have "sweep_hits w now' SWEEP_PER_HIT [] = []" by (simp add: SWEEP_PER_HIT_def eval_nat_numeral)
  then show ?thesis using None by (simp add: swept_bucket_def sweep_def stored_def counts_of_def)
next
  case (Some b)
  then have "hits_ok (lm_max_keys l) (fst (lims name)) now (bk_hits b)" using assms(1) by (simp add: limiter_ok_def)
  then have "distinct (map fst (bk_hits b))" "\<forall>e \<in> set (bk_hits b). sorted (snd e)" by (simp_all add: hits_ok_def entry_ok_def)
  from sweep_keeps_recent [OF this] show ?thesis using Some by (simp add: swept_bucket_def sweep_def stored_def)
qed

lemma swept_bucket_keys: "knows_only K l \<Longrightarrow> fst ` set (bk_hits (swept_bucket name w now l)) \<subseteq> K name"
proof (cases "map_of (lm_buckets l) name")
  case None
  have "sweep_hits w now SWEEP_PER_HIT [] = []" by (simp add: SWEEP_PER_HIT_def eval_nat_numeral)
  then show ?thesis using None by (simp add: swept_bucket_def sweep_def)
next
  case (Some b)
  assume "knows_only K l"
  then have "fst ` set (bk_hits (b\<lparr>bk_window := w\<rparr>)) \<subseteq> K name" using Some by (simp add: knows_only_def)
  then show ?thesis using Some swept_keys [of now SWEEP_PER_HIT "b\<lparr>bk_window := w\<rparr>"] by (simp add: swept_bucket_def)
qed

lemma stored_sweep:
  assumes "limiter_ok lims now l" "map_of (lm_buckets l) n = Some b"
  shows "recent now' (snd (lims n)) (counts_of (bk_hits (sweep now' budget b)) k) = recent now' (snd (lims n)) (stored l n k)"
proof -
  have "hits_ok (lm_max_keys l) (fst (lims n)) now (bk_hits b)" "bk_window b = snd (lims n)"
    using assms by (simp_all add: limiter_ok_def)
  then have "distinct (map fst (bk_hits b))" "\<forall>e \<in> set (bk_hits b). sorted (snd e)" "bk_window b = snd (lims n)"
    by (simp_all add: hits_ok_def entry_ok_def)
  then show ?thesis using assms(2) sweep_keeps_recent by (simp add: sweep_def stored_def)
qed

lemma attempts_snoc:
  "attempts_of n k (past @ [(n', k', t)]) = attempts_of n k past @ (if n' = n \<and> k' = k then [t] else [])"
  by (simp add: attempts_of_def)

lemma recent_recent [simp]: "recent now w (recent now w ts) = recent now w ts"
  by (simp add: recent_def)

lemma same_recent_later: "same_recent lims now past l \<Longrightarrow> now \<le> now'
  \<Longrightarrow> recent now' (snd (lims n)) (stored l n k) = recent now' (snd (lims n)) (attempts_of n k past)"
  by (meson recent_later same_recent_def)

lemma hit_refines:
  assumes ok: "limiter_ok lims now l" "now \<le> now'" "\<forall>n. 0 < fst (lims n)"
    and known: "knows_only K l" "key \<in> K name" and same: "same_recent lims now past l"
    and hit: "hit name key (fst (lims name)) (snd (lims name)) now' l = (w, l')"
    and r: "r = recent now' (snd (lims name)) (attempts_of name key past)"
  shows "(w = 0 \<longleftrightarrow> length r < fst (lims name))
    \<and> same_recent lims now' (if w = 0 then past @ [(name, key, now')] else past) l' \<and> knows_only K l'"
proof -
  define b where "b = swept_bucket name (snd (lims name)) now' l"
  obtain b' where b': "count_attempt (lm_max_keys l) key (fst (lims name)) (snd (lims name)) now' b = (w, b')"
    and l': "lm_max_keys l' = lm_max_keys l"
      "map_of (lm_buckets l') = (\<lambda>n. if n = name then Some b' else map_option (sweep now' SWEEP_PER_HIT) (map_of (lm_buckets l) n))"
    using hit unfolding b_def by (rule hit_effect)
  have bok: "hits_ok (lm_max_keys l) (fst (lims name)) now' (bk_hits b)" unfolding b_def using ok by (intro swept_ok) simp_all
  have old: "recent now' (snd (lims name)) (counts_of (bk_hits b) k) = recent now' (snd (lims name)) (attempts_of name k past)" for k
    using swept_stored [OF ok(1) refl] same_recent_later [OF same ok(2)] by (simp add: b_def)
  have rest: "recent now' (snd (lims n)) (stored l' n k) = recent now' (snd (lims n)) (attempts_of n k past)" if "n \<noteq> name" for n k
    using that stored_sweep [OF ok(1), of n] same_recent_later [OF same ok(2), of n k]
    by (cases "map_of (lm_buckets l) n") (simp_all add: stored_def l'(2))
  have keys: "fst ` set (bk_hits b) \<subseteq> K name" unfolding b_def using known(1) by (rule swept_bucket_keys)
  have room: "map_of (bk_hits b) key = None \<longrightarrow> length (bk_hits b) < lm_max_keys l"
  proof
    assume "map_of (bk_hits b) key = None"
    then have "fst ` set (bk_hits b) \<subset> K name" using keys known(2) by (auto simp: map_of_eq_None_iff)
    then have "card (fst ` set (bk_hits b)) < card (K name)" using known(1) by (intro psubset_card_mono) (simp_all add: knows_only_def)
    moreover have "card (fst ` set (bk_hits b)) = length (bk_hits b)"
      using bok distinct_card [of "map fst (bk_hits b)"] by (simp add: hits_ok_def)
    ultimately show "length (bk_hits b) < lm_max_keys l" using known(1) unfolding knows_only_def by (metis less_le_trans)
  qed
  have m: "0 < lm_max_keys l" and lim: "0 < fst (lims name)" using ok(1,3) by (simp_all add: limiter_ok_def)
  have r': "r = recent now' (snd (lims name)) (counts_of (bk_hits b) key)" by (simp add: r old)
  from bok lim m room r' show ?thesis
  proof (cases rule: count_attempt_cases)
    case allowed
    then have e: "w = 0" "bk_hits b' = AList.delete key (bk_hits b) @ [(key, r @ [now'])]" using b' by auto
    have "recent now' (snd (lims name)) (stored l' name k) = recent now' (snd (lims name)) (attempts_of name k (past @ [(name, key, now')]))" for k
      using old [of k] by (simp add: stored_def l' e(2) attempts_snoc r)
    then have "recent now' (snd (lims n)) (stored l' n k) = recent now' (snd (lims n)) (attempts_of n k (past @ [(name, key, now')]))" for n k
      using rest [of n k] by (cases "n = name") (simp_all add: attempts_snoc)
    then have "same_recent lims now' (past @ [(name, key, now')]) l'" by (simp only: same_recent_def) simp
    moreover have "knows_only K l'"
      using keys known(2) AList.dom_delete_subset [of key "bk_hits b"]
      by (intro knows_after [OF known(1) l'(1) _ l'(2)]) (auto simp: e(2))
    ultimately show ?thesis using allowed e(1) by simp
  next
    case refused
    then have e: "1 \<le> w" "bk_hits b' = AList.update key r (bk_hits b)" using b' by auto
    have "recent now' (snd (lims name)) (stored l' name k) = recent now' (snd (lims name)) (attempts_of name k past)" for k
      using old [of k] by (simp add: stored_def l' e(2) r)
    then have "recent now' (snd (lims n)) (stored l' n k) = recent now' (snd (lims n)) (attempts_of n k past)" for n k
      using rest [of n k] by (cases "n = name") simp_all
    then have "same_recent lims now' past l'" by (simp only: same_recent_def) simp
    moreover have "knows_only K l'"
      using keys known(2) by (intro knows_after [OF known(1) l'(1) _ l'(2)]) (simp add: e(2) AList.dom_update)
    ultimately show ?thesis using refused e(1) by auto
  qed
qed

definition at_times :: "attempt list \<Rightarrow> rat list" where
  "at_times rs = map (\<lambda>(n, k, t). t) rs"

lemma serve_refines:
  assumes "limiter_ok lims now l" "\<forall>n. 0 < fst (lims n)" "knows_only K l" "same_recent lims now past l"
    "sorted (now # at_times rs)" "\<forall>n. keys_of rs n \<subseteq> K n"
  shows "map (\<lambda>w. w = 0) (fst (serve lims l rs)) = allowed lims past rs"
  using assms
proof (induction rs arbitrary: now l past)
  case (Cons a rs)
  obtain name key t where a: "a = (name, key, t)" by (cases a)
  obtain w l' where h: "hit name key (fst (lims name)) (snd (lims name)) t l = (w, l')" by fastforce
  have t: "now \<le> t" "sorted (t # at_times rs)" using Cons.prems(5) by (simp_all add: at_times_def a)
  have key: "key \<in> K name" "\<forall>n. keys_of rs n \<subseteq> K n" using Cons.prems(6) by (auto simp: keys_of_def a)
  let ?r = "recent t (snd (lims name)) (attempts_of name key past)"
  have step: "(w = 0 \<longleftrightarrow> length ?r < fst (lims name))
    \<and> same_recent lims t (if w = 0 then past @ [(name, key, t)] else past) l' \<and> knows_only K l'"
    using hit_refines [OF Cons.prems(1) t(1) Cons.prems(2,3) key(1) Cons.prems(4) h refl] .
  have "limiter_ok lims t l'" using Cons.prems(1) t(1) Cons.prems(2) h by (rule hit_keeps)
  from Cons.IH [OF this Cons.prems(2) _ _ t(2) key(2), of "if w = 0 then past @ [(name, key, t)] else past"] step
  have "map (\<lambda>w. w = 0) (fst (serve lims l' rs)) = allowed lims (if w = 0 then past @ [(name, key, t)] else past) rs" by blast
  then show ?case using step by (cases "w = 0") (simp_all add: a h Let_def case_prod_beta)
qed simp

lemma new_ok: "0 < m \<Longrightarrow> limiter_ok lims now (new_limiter m)"
  by (simp add: limiter_ok_def new_limiter_def)

text \<open>C36: The limiter is a sliding window.  Until a bucket has seen more addresses than it remembers, an
  attempt is let through exactly when fewer than the limit were let through to the same address in the
  window before it, however many other addresses and buckets are swept and counted meanwhile.\<close>

theorem limiter_refines:
  assumes "sorted (at_times rs)" "\<forall>n. 0 < fst (lims n)" "0 < max_keys" "\<forall>n. card (keys_of rs n) \<le> max_keys"
  shows "map (\<lambda>w. w = 0) (fst (serve lims (new_limiter max_keys) rs)) = allowed lims [] rs"
proof (cases rs)
  case (Cons a rs')
  have "knows_only (keys_of rs) (new_limiter max_keys)" using assms(4) by (simp add: knows_only_def new_limiter_def finite_keys)
  moreover have "same_recent lims (hd (at_times rs)) [] (new_limiter max_keys)"
    by (simp add: same_recent_def stored_def new_limiter_def attempts_of_def)
  moreover have "sorted (hd (at_times rs) # at_times rs)" using assms(1) Cons by (simp add: at_times_def)
  ultimately show ?thesis using serve_refines [OF new_ok [OF assms(3)] assms(2)] by blast
qed simp

lemma serve_keeps:
  assumes "limiter_ok lims now l" "\<forall>n. 0 < fst (lims n)" "sorted (now # at_times rs)"
  shows "limiter_ok lims (last (now # at_times rs)) (snd (serve lims l rs))"
  using assms
proof (induction rs arbitrary: now l)
  case (Cons a rs)
  obtain name key t where a: "a = (name, key, t)" by (cases a)
  obtain w l' where h: "hit name key (fst (lims name)) (snd (lims name)) t l = (w, l')" by fastforce
  have t: "now \<le> t" "sorted (t # at_times rs)" using Cons.prems(3) by (simp_all add: at_times_def a)
  have "limiter_ok lims t l'" using Cons.prems(1) t(1) Cons.prems(2) h by (rule hit_keeps)
  from Cons.IH [OF this Cons.prems(2) t(2)] show ?case by (simp add: a h Let_def case_prod_beta at_times_def)
qed (simp add: at_times_def)

lemma serve_max_keys: "lm_max_keys (snd (serve lims l rs)) = lm_max_keys l"
proof (induction lims l rs rule: serve.induct)
  case (2 lims l name key t rs)
  obtain w l' where h: "hit name key (fst (lims name)) (snd (lims name)) t l = (w, l')" by fastforce
  then have "lm_max_keys l' = lm_max_keys l" by (rule hit_effect)
  with 2 h show ?case by (simp add: case_prod_beta)
qed simp

text \<open>C37: The limiter's memory is bounded.  Whatever addresses attack it, a bucket never remembers more
  addresses than it may nor more times per address than its limit, and it keeps the addresses in the
  order of their newest counts, so what it drops to make room was counted before everything it
  keeps.\<close>

theorem limiter_bounded:
  assumes "sorted (at_times rs)" "\<forall>n. 0 < fst (lims n)" "0 < max_keys"
    and "map_of (lm_buckets (snd (serve lims (new_limiter max_keys) rs))) name = Some b"
  shows "distinct (map fst (bk_hits b)) \<and> length (bk_hits b) \<le> max_keys
    \<and> (\<forall>(key, ts) \<in> set (bk_hits b). ts \<noteq> [] \<and> length ts \<le> fst (lims name))
    \<and> sorted (map (\<lambda>e. last (snd e)) (bk_hits b))"
proof (cases rs)
  case (Cons a rs')
  have "sorted (hd (at_times rs) # at_times rs)" using assms(1) Cons by (simp add: at_times_def)
  from serve_keeps [OF new_ok [OF assms(3)] assms(2) this] assms(4)
  have "hits_ok max_keys (fst (lims name)) (last (hd (at_times rs) # at_times rs)) (bk_hits b)"
    using serve_max_keys [of lims "new_limiter max_keys" rs] by (auto simp: limiter_ok_def new_limiter_def)
  then show ?thesis by (auto simp: hits_ok_def entry_ok_def case_prod_beta)
qed (use assms(4) in \<open>simp add: new_limiter_def\<close>)

section \<open>A run\<close>

definition sign_in_limits :: "ustr \<Rightarrow> nat \<times> rat" where
  "sign_in_limits name = (2, 10)"

definition sign_in_run :: "attempt list" where
  "sign_in_run = [(''sign_in'', ''a'', 1), (''sign_in'', ''a'', 2), (''sign_in'', ''b'', 3), (''sign_in'', ''a'', 4), (''sign_in'', ''a'', 12)]"

lemma sign_in_keys: "keys_of sign_in_run name \<subseteq> {''a'', ''b''}"
  by (auto simp: keys_of_def sign_in_run_def)

lemma limiter_refines_witness:
  "map (\<lambda>w. w = 0) (fst (serve sign_in_limits (new_limiter 2) sign_in_run)) = [True, True, True, False, True]"
proof -
  have "card (keys_of sign_in_run n) \<le> 2" for n using card_mono [OF _ sign_in_keys [of n]] by simp
  then show ?thesis
    using limiter_refines [of sign_in_run sign_in_limits 2]
    by (simp add: at_times_def sign_in_run_def sign_in_limits_def attempts_of_def recent_def)
qed

lemma limiter_bounded_witness:
  "\<exists>b. map_of (lm_buckets (snd (serve sign_in_limits (new_limiter 1) sign_in_run))) ''sign_in'' = Some b
    \<and> length (bk_hits b) \<le> 1"
proof -
  have "map_of (lm_buckets (snd (serve sign_in_limits (new_limiter 1) sign_in_run))) ''sign_in'' \<noteq> None" by code_simp
  then obtain b where "map_of (lm_buckets (snd (serve sign_in_limits (new_limiter 1) sign_in_run))) ''sign_in'' = Some b" by blast
  then show ?thesis
    using limiter_bounded [of sign_in_run sign_in_limits 1] by (auto simp: at_times_def sign_in_run_def sign_in_limits_def)
qed

end
