(* ===== verification/Vault_Service.thy ===== *)
theory Vault_Service
  imports Eligibility Ledger
begin

text \<open>
  \<open>services/vault_service.py\<close> and the queries of \<open>services/workspace_service.py\<close> it rests on: who can be
  found and made an approver, creating a vault, its members, threshold and rule.

  The Unicode character database is an argument (lower case, and the characters of
  \<open>security/text.py\<close> that are not seen).  The sentences of the errors are constructors.  Every
  operation raises before it writes, and notifications are left out.
\<close>

record text_env = vault_env +
  te_lower :: "ustr \<Rightarrow> ustr"
  te_invisible :: "ustr \<Rightarrow> bool"

section \<open>Who can be found\<close>

definition current_workspace :: "db \<Rightarrow> int \<Rightarrow> workspace_row option" where
  "current_workspace d user_id =
     (case current_membership d user_id of
        None \<Rightarrow> None | Some m \<Rightarrow> find (\<lambda>w. w_id w = wm_workspace_id m) (db_workspaces d))"

definition workspace_of_vault :: "db \<Rightarrow> vault_row \<Rightarrow> workspace_row option" where
  "workspace_of_vault d v = current_workspace d (v_owner_id v)"

definition find_member_user :: "text_env \<Rightarrow> db \<Rightarrow> workspace_row option \<Rightarrow> ustr \<Rightarrow> user_row option" where
  "find_member_user env d workspace email =
     (case workspace of
        None \<Rightarrow> None
      | Some w \<Rightarrow>
          find (\<lambda>u. (\<exists>m \<in> set (db_workspace_members d). wm_user_id m = u_id u \<and> wm_workspace_id m = w_id w \<and> is_active m)
              \<and> u_email u = te_lower env (strip email)) (db_users d))"

definition enrolled_key :: "key_row \<Rightarrow> bool" where
  "enrolled_key k \<longleftrightarrow>
     k_role k = ''sig'' \<and> k_status k = ''active'' \<and> k_can_sign k \<and> k_wrap_domain k \<in> {''password'', ''device''}"

definition has_enrolled_key :: "db \<Rightarrow> int \<Rightarrow> bool" where
  "has_enrolled_key d user_id \<longleftrightarrow> (\<exists>k \<in> set (db_keys d). k_owner_id k = Some user_id \<and> enrolled_key k)"

definition enrolled_user_ids :: "db \<Rightarrow> int list \<Rightarrow> int list" where
  "enrolled_user_ids d user_ids = filter (has_enrolled_key d) (remdups user_ids)"

definition can_create_vaults :: "db \<Rightarrow> int \<Rightarrow> bool" where
  "can_create_vaults d user_id =
     (case current_membership d user_id of None \<Rightarrow> True | Some m \<Rightarrow> wm_role m \<noteq> ''auditor'')"

section \<open>Members of a vault\<close>

definition vault_members :: "db \<Rightarrow> int \<Rightarrow> vault_member list" where
  "vault_members d vault_id = filter (\<lambda>m. vm_vault_id m = vault_id) (db_vault_members d)"

definition signer_members :: "db \<Rightarrow> int \<Rightarrow> vault_member list" where
  "signer_members d vault_id = filter is_approver (vault_members d vault_id)"

definition is_member :: "db \<Rightarrow> int \<Rightarrow> int \<Rightarrow> bool" where
  "is_member d vault_id user_id \<longleftrightarrow> vault_member_of d vault_id user_id \<noteq> None"

datatype vault_error =
    Auditors_cannot_create | Threshold_below_one | Hidden_characters | Vault_crypto ledger_error
  | Bad_vault_role | Nobody_with_email | Already_in_vault | Not_active_here int | Auditor_cannot_approve int
  | No_signing_key int | Not_in_vault | Owner_role_fixed | Too_few_approvers int int | Threshold_above_approvers int int

definition vault_event :: "text_env \<Rightarrow> int \<Rightarrow> ustr \<Rightarrow> (ustr \<times> json) list \<Rightarrow> int \<Rightarrow> int \<Rightarrow> db \<Rightarrow> db" where
  "vault_event env now event payload actor_id vault_id d =
     snd (ledger_append (vault_env.truncate env) now
       \<lparr>ev_type = event, ev_payload = JObj ((''vault_id'', JInt vault_id) # payload), ev_actor = ''user:'' @ dec_int actor_id,
        ev_actor_id = Some actor_id, ev_vault_id = Some vault_id, ev_ref_type = Some ''vault'',
        ev_ref_id = Some (dec_int vault_id)\<rparr> d)"

definition require_enrolled_key :: "db \<Rightarrow> int \<Rightarrow> vault_error + unit" where
  "require_enrolled_key d user_id = requireE (has_enrolled_key d user_id) (No_signing_key user_id)"

definition require_can_approve :: "db \<Rightarrow> vault_row \<Rightarrow> int \<Rightarrow> vault_error + unit" where
  "require_can_approve d v user_id =
     (let member = (case workspace_of_vault d v of None \<Rightarrow> None | Some w \<Rightarrow> membership d (w_id w) user_id) in
      case member of
        None \<Rightarrow> Inl (Not_active_here user_id)
      | Some m \<Rightarrow>
          (if \<not> is_active m then Inl (Not_active_here user_id)
           else if wm_role m = ''auditor'' then Inl (Auditor_cannot_approve user_id)
           else require_enrolled_key d user_id))"

definition add_member :: "text_env \<Rightarrow> int \<Rightarrow> vault_row \<Rightarrow> ustr \<Rightarrow> ustr \<Rightarrow> int \<Rightarrow> int option \<Rightarrow> db
    \<Rightarrow> vault_error + vault_member \<times> db" where
  "add_member env now v email role actor_id invitation_id d =
     (if role \<notin> {''signer'', ''viewer''} then Inl Bad_vault_role
      else case find_member_user env d (workspace_of_vault d v) email of
        None \<Rightarrow> Inl Nobody_with_email
      | Some u \<Rightarrow>
          if is_member d (v_id v) (u_id u) then Inl Already_in_vault
          else bindE (if role = ''signer'' then require_can_approve d v (u_id u) else Inr ()) (\<lambda>_.
            let member = \<lparr>vm_vault_id = v_id v, vm_user_id = u_id u, vm_member_role = role\<rparr>;
                payload = [(''user_id'', JInt (u_id u)), (''email'', JStr (u_email u)), (''role'', JStr role)]
                  @ (case invitation_id of None \<Rightarrow> [] | Some i \<Rightarrow> [(''invitation_id'', JInt i)])
            in Inr (member, vault_event env now ''member_added'' payload actor_id (v_id v)
                 (d\<lparr>db_vault_members := db_vault_members d @ [member]\<rparr>))))"

definition guard_signer_count :: "db \<Rightarrow> vault_row \<Rightarrow> int \<Rightarrow> vault_error + unit" where
  "guard_signer_count d v losing_user_id =
     (let remaining = filter (\<lambda>m. vm_user_id m \<noteq> losing_user_id) (signer_members d (v_id v))
      in requireE (v_threshold_m v \<le> int (length remaining)) (Too_few_approvers (v_threshold_m v) (int (length remaining))))"

text \<open>A change of one member's row, found by its vault and its user.\<close>

definition update_member :: "int \<Rightarrow> int \<Rightarrow> (vault_member \<Rightarrow> vault_member) \<Rightarrow> db \<Rightarrow> db" where
  "update_member vault_id user_id f d =
     d\<lparr>db_vault_members :=
       map (\<lambda>m. if vm_vault_id m = vault_id \<and> vm_user_id m = user_id then f m else m) (db_vault_members d)\<rparr>"

definition change_member_role :: "text_env \<Rightarrow> int \<Rightarrow> vault_row \<Rightarrow> int \<Rightarrow> ustr \<Rightarrow> int \<Rightarrow> db \<Rightarrow> vault_error + vault_member \<times> db" where
  "change_member_role env now v user_id role actor_id d =
     (if role \<notin> {''signer'', ''viewer''} then Inl Bad_vault_role
      else case vault_member_of d (v_id v) user_id of
        None \<Rightarrow> Inl Not_in_vault
      | Some member \<Rightarrow>
          if vm_member_role member = ''owner'' then Inl Owner_role_fixed
          else if vm_member_role member = role then Inr (member, d)
          else bindE (if role = ''viewer'' then guard_signer_count d v user_id else require_can_approve d v user_id) (\<lambda>_.
            Inr (member\<lparr>vm_member_role := role\<rparr>,
              vault_event env now ''member_role_changed''
                [(''user_id'', JInt user_id), (''from'', JStr (vm_member_role member)), (''to'', JStr role)] actor_id (v_id v)
                (update_member (v_id v) user_id (vm_member_role_update (\<lambda>_. role)) d))))"

definition remove_member :: "text_env \<Rightarrow> int \<Rightarrow> vault_row \<Rightarrow> int \<Rightarrow> int \<Rightarrow> db \<Rightarrow> vault_error + db" where
  "remove_member env now v user_id actor_id d =
     (case vault_member_of d (v_id v) user_id of
        None \<Rightarrow> Inl Not_in_vault
      | Some member \<Rightarrow>
          if vm_member_role member = ''owner'' then Inl Owner_role_fixed
          else bindE (if is_approver member then guard_signer_count d v user_id else Inr ()) (\<lambda>_.
            Inr (vault_event env now ''member_removed''
              [(''user_id'', JInt user_id), (''role'', JStr (vm_member_role member))] actor_id (v_id v)
              (d\<lparr>db_vault_members :=
                filter (\<lambda>m. \<not> (vm_vault_id m = v_id v \<and> vm_user_id m = user_id)) (db_vault_members d)\<rparr>))))"

section \<open>A vault's policy\<close>

definition update_vault :: "int \<Rightarrow> (vault_row \<Rightarrow> vault_row) \<Rightarrow> db \<Rightarrow> db" where
  "update_vault i f d = d\<lparr>db_vaults := map (\<lambda>v. if v_id v = i then f v else v) (db_vaults d)\<rparr>"

definition set_threshold :: "text_env \<Rightarrow> int \<Rightarrow> vault_row \<Rightarrow> int \<Rightarrow> int \<Rightarrow> db \<Rightarrow> vault_error + db" where
  "set_threshold env now v threshold_m actor_id d =
     (let signers = int (length (signer_members d (v_id v))) in
      if threshold_m < 1 then Inl Threshold_below_one
      else if threshold_m > signers then Inl (Threshold_above_approvers threshold_m signers)
      else if v_threshold_m v = threshold_m then Inr d
      else Inr (vault_event env now ''vault_threshold_changed''
             [(''from'', JInt (v_threshold_m v)), (''to'', JInt threshold_m)] actor_id (v_id v)
             (update_vault (v_id v) (v_threshold_m_update (\<lambda>_. threshold_m)) d)))"

definition set_requester_can_approve :: "text_env \<Rightarrow> int \<Rightarrow> vault_row \<Rightarrow> bool \<Rightarrow> int \<Rightarrow> db \<Rightarrow> bool \<times> db" where
  "set_requester_can_approve env now v permitted actor_id d =
     (let previous = vault_allows_requester d (v_id v);
          has_rule = (find (\<lambda>r. vr_vault_id r = v_id v) (db_vault_rules d) \<noteq> None);
          rules = (if has_rule
                   then map (\<lambda>r. if vr_vault_id r = v_id v then r\<lparr>vr_requester_can_approve := permitted\<rparr> else r) (db_vault_rules d)
                   else db_vault_rules d @ [\<lparr>vr_vault_id = v_id v, vr_requester_can_approve = permitted\<rparr>])
      in if previous = permitted then (False, d)
         else (True, vault_event env now ''vault_rule_changed''
                [(''rule'', JStr ''requester_can_approve''), (''from'', JBool previous), (''to'', JBool permitted)] actor_id (v_id v)
                (d\<lparr>db_vault_rules := rules\<rparr>)))"

section \<open>A new vault\<close>

definition new_vault_separates :: "db \<Rightarrow> int \<Rightarrow> bool" where
  "new_vault_separates d owner_id = (case current_workspace d owner_id of None \<Rightarrow> True | Some w \<Rightarrow> w_sod_default w)"

definition of_ledger :: "ledger_error + 'a \<Rightarrow> vault_error + 'a" where
  "of_ledger r = (case r of Inl e \<Rightarrow> Inl (Vault_crypto e) | Inr x \<Rightarrow> Inr x)"

text \<open>\<open>kem_seed\<close> and \<open>nonce\<close> are what key generation and the wrap draw.\<close>

definition create_vault :: "text_env \<Rightarrow> int \<Rightarrow> bytes \<Rightarrow> bytes \<Rightarrow> int \<Rightarrow> ustr \<Rightarrow> ustr option \<Rightarrow> int \<Rightarrow> db
    \<Rightarrow> vault_error + vault_row \<times> db" where
  "create_vault env now kem_seed nonce owner_id name description threshold_m d =
     (if \<not> can_create_vaults d owner_id then Inl Auditors_cannot_create
      else if threshold_m < 1 then Inl Threshold_below_one
      else if te_invisible env name then Inl Hidden_characters
      else case db_config d of
        None \<Rightarrow> Inl (Vault_crypto Ledger_no_config)
      | Some config \<Rightarrow>
          bindE (of_ledger (of_crypto (kem (ce_registry env) (ac_active_kem_alg config)))) (\<lambda>provider.
          let pair = kem_keygen provider kem_seed in
          bindE (of_ledger (wrap_secret (vault_env.truncate env) nonce (kp_secret_key pair))) (\<lambda>(nonce', wrapped).
          let k = \<lparr>k_id = next_id (map k_id (db_keys d)), k_owner_id = Some owner_id, k_role = ''kem'',
                   k_alg_id = ac_active_kem_alg config, k_backend = am_backend (kem_meta provider),
                   k_public_key = kp_public_key pair, k_public_key_mac = None, k_secret_key_wrapped = Some wrapped,
                   k_secret_key_nonce = Some nonce', k_wrap_domain = ''master'', k_status = ''active'', k_can_sign = False,
                   k_can_verify = False, k_version = 1, k_rotate_after = Some (rotation_deadline (vault_env.truncate env) now),
                   k_created_at = now, k_retired_at = None\<rparr>;
              about = (case description of None \<Rightarrow> [] | Some s \<Rightarrow> strip s);
              v = \<lparr>v_id = next_id (map v_id (db_vaults d)), v_name = strip name, v_owner_id = owner_id, v_threshold_m = threshold_m,
                   v_description = (if about = [] then None else Some about), v_kem_alg_id = ac_active_kem_alg config,
                   v_kem_public_key = kp_public_key pair, v_kem_key_id = k_id k\<rparr>;
              d' = d\<lparr>db_keys := db_keys d @ [k], db_vaults := db_vaults d @ [v],
                     db_vault_members := db_vault_members d @ [\<lparr>vm_vault_id = v_id v, vm_user_id = owner_id, vm_member_role = ''owner''\<rparr>],
                     db_vault_rules := db_vault_rules d @ [\<lparr>vr_vault_id = v_id v, vr_requester_can_approve = \<not> new_vault_separates d owner_id\<rparr>]\<rparr>
          in Inr (v, vault_event env now ''vault_created''
               [(''name'', JStr (v_name v)), (''kem_alg'', JStr (ac_active_kem_alg config)), (''threshold_m'', JInt threshold_m)]
               owner_id (v_id v) d'))))"

end
