(* ===== verification/Workspace_Service.thy ===== *)
theory Workspace_Service
  imports Vault_Service Base64 "HOL-Library.AList"
begin

text \<open>
  \<open>services/workspace_service.py\<close>: workspaces, roles, invitations by link, suspending, leaving.

  A person and a workspace are passed by id, an invitation by its row.  An operation that raises
  writes nothing: the callers roll back.  The refusal of the mail outbox's daily limits is an
  argument of the two operations that send a link; the races that the database's unique constraints
  catch are left out, as is the email itself.
\<close>

section \<open>Constants\<close>

definition WORKSPACE_ROLES :: "ustr list" where "WORKSPACE_ROLES = [''owner'', ''admin'', ''member'', ''auditor'']"
definition MANAGER_ROLES :: "ustr list" where "MANAGER_ROLES = [''owner'', ''admin'']"
definition MEMBER_STATUSES :: "ustr list" where "MEMBER_STATUSES = [''active'', ''suspended'']"
definition INVITABLE_VAULT_ROLES :: "ustr list" where "INVITABLE_VAULT_ROLES = [''signer'', ''viewer'']"
definition DEFAULT_WORKSPACE_NAME :: ustr where "DEFAULT_WORKSPACE_NAME = ''Q-Vault''"
definition DEFAULT_WORKSPACE_SLUG :: ustr where "DEFAULT_WORKSPACE_SLUG = ''q-vault''"
definition INVITATION_TTL :: int where "INVITATION_TTL = 7 * day_microseconds"
definition TOKEN_BYTES :: nat where "TOKEN_BYTES = 32"
definition TOKEN_DS :: bytes where "TOKEN_DS = ''QVAULT-INVITATION-TOKEN-v1|''"

definition role_rank :: "ustr \<rightharpoonup> int" where
  "role_rank = map_of [(''owner'', 3), (''admin'', 2), (''member'', 1), (''auditor'', 1)]"

datatype workspace_error =
    Name_required | Name_invisible | Name_too_long | Not_allowed | Bad_role | Last_owner | Not_a_member | Not_yourself
  | Already_suspended | Not_suspended | Owner_cannot_leave | Still_in_vaults "ustr list" | Has_workspace int
  | Bad_vault | Bad_grant_role | Auditor_approver | Not_vault_owner | Other_workspace int
  | Bad_email | Already_member | Already_invited | Email_limit ustr | Unknown_invitation | Already_accepted | Revoked
  | Expired int | Inviter_lost_access | Wrong_account | Vault_refused int vault_error | No_slug

section \<open>Reading\<close>

definition shared_workspace :: "db \<Rightarrow> workspace_row option" where
  "shared_workspace d = find (\<lambda>w. w_slug w = DEFAULT_WORKSPACE_SLUG) (db_workspaces d)"

definition join_order :: "workspace_member list \<Rightarrow> workspace_member list" where
  "join_order = sort_key (\<lambda>m. (wm_joined_at m, wm_id m))"

definition members :: "db \<Rightarrow> int \<Rightarrow> ustr option \<Rightarrow> workspace_member list" where
  "members d workspace_id status =
     join_order (filter (\<lambda>m. wm_workspace_id m = workspace_id \<and> (case status of None \<Rightarrow> True | Some s \<Rightarrow> wm_status m = s))
       (db_workspace_members d))"

definition memberships_of :: "db \<Rightarrow> int \<Rightarrow> workspace_member list" where
  "memberships_of d user_id = join_order (filter (\<lambda>m. wm_user_id m = user_id) (db_workspace_members d))"

definition colleagues :: "db \<Rightarrow> int \<Rightarrow> nat \<Rightarrow> user_row list" where
  "colleagues d user_id limit =
     (case current_workspace d user_id of
        None \<Rightarrow> []
      | Some w \<Rightarrow> take limit (sort_key (\<lambda>u. (u_display_name u, u_id u))
          (filter (\<lambda>u. u_id u \<noteq> user_id
             \<and> (\<exists>m \<in> set (db_workspace_members d). wm_user_id m = u_id u \<and> wm_workspace_id m = w_id w \<and> is_active m))
            (db_users d))))"

definition stage :: "db \<Rightarrow> workspace_member \<Rightarrow> ustr" where
  "stage d m = (if has_enrolled_key d (wm_user_id m) then ''key_enrolled'' else ''joined'')"

definition can_manage :: "workspace_member option \<Rightarrow> bool" where
  "can_manage m \<longleftrightarrow> (case m of None \<Rightarrow> False | Some m \<Rightarrow> is_active m \<and> wm_role m \<in> set MANAGER_ROLES)"

definition invitation_state :: "int \<Rightarrow> invitation_row \<Rightarrow> ustr" where
  "invitation_state now i =
     (if i_accepted_at i \<noteq> None then ''accepted''
      else if i_revoked_at i \<noteq> None then ''revoked''
      else if i_expires_at i \<le> now then ''expired''
      else ''pending'')"

definition newest_first :: "invitation_row list \<Rightarrow> invitation_row list" where
  "newest_first rows = rev (sort_key (\<lambda>i. (i_created_at i, i_id i)) rows)"

definition invitations :: "db \<Rightarrow> int \<Rightarrow> int \<Rightarrow> ustr option \<Rightarrow> invitation_row list" where
  "invitations d now workspace_id state =
     filter (\<lambda>i. case state of None \<Rightarrow> True | Some s \<Rightarrow> invitation_state now i = s)
       (newest_first (filter (\<lambda>i. i_workspace_id i = workspace_id) (db_invitations d)))"

definition open_invitations :: "db \<Rightarrow> int \<Rightarrow> invitation_row list" where
  "open_invitations d workspace_id =
     newest_first (filter (\<lambda>i. i_workspace_id i = workspace_id \<and> i_accepted_at i = None \<and> i_revoked_at i = None)
       (db_invitations d))"

definition vault_ids_of :: "db \<Rightarrow> int \<Rightarrow> int list" where
  "vault_ids_of d workspace_id =
     (let owner_ids = map wm_user_id (members d workspace_id None)
      in map v_id (filter (\<lambda>v. case current_workspace d (v_owner_id v) of None \<Rightarrow> False | Some home \<Rightarrow> w_id home = workspace_id)
           (sort_key v_id (filter (\<lambda>v. v_owner_id v \<in> set owner_ids) (db_vaults d)))))"

definition vaults_of :: "db \<Rightarrow> int \<Rightarrow> int option \<Rightarrow> vault_row list" where
  "vaults_of d user_id workspace_id =
     sort_key v_name
       (filter (\<lambda>v. is_member d (v_id v) user_id \<and> (case workspace_id of None \<Rightarrow> True | Some w \<Rightarrow> v_id v \<in> set (vault_ids_of d w)))
         (db_vaults d))"

section \<open>Writing, and its record\<close>

definition workspace_event :: "text_env \<Rightarrow> int \<Rightarrow> ustr \<Rightarrow> int \<Rightarrow> int \<Rightarrow> (ustr \<times> json) list \<Rightarrow> db \<Rightarrow> db" where
  "workspace_event env now event workspace_id actor_id payload d =
     snd (ledger_append (vault_env.truncate env) now
       \<lparr>ev_type = event, ev_payload = JObj ((''workspace_id'', JInt workspace_id) # payload),
        ev_actor = ''user:'' @ dec_int actor_id, ev_actor_id = Some actor_id, ev_vault_id = None,
        ev_ref_type = Some ''workspace'', ev_ref_id = Some (dec_int workspace_id)\<rparr> d)"

definition insert_member :: "int \<Rightarrow> int \<Rightarrow> ustr \<Rightarrow> int \<Rightarrow> db \<Rightarrow> db" where
  "insert_member workspace_id user_id role joined_at d =
     d\<lparr>db_workspace_members := db_workspace_members d @
       [\<lparr>wm_id = next_id (map wm_id (db_workspace_members d)), wm_workspace_id = workspace_id, wm_user_id = user_id,
         wm_role = role, wm_status = ''active'', wm_joined_at = joined_at\<rparr>]\<rparr>"

definition delete_membership :: "int \<Rightarrow> int \<Rightarrow> db \<Rightarrow> db" where
  "delete_membership workspace_id user_id d =
     d\<lparr>db_workspace_members :=
       filter (\<lambda>m. \<not> (wm_workspace_id m = workspace_id \<and> wm_user_id m = user_id)) (db_workspace_members d)\<rparr>"

definition update_membership :: "int \<Rightarrow> int \<Rightarrow> (workspace_member \<Rightarrow> workspace_member) \<Rightarrow> db \<Rightarrow> db" where
  "update_membership workspace_id user_id f d =
     d\<lparr>db_workspace_members :=
       map (\<lambda>m. if wm_workspace_id m = workspace_id \<and> wm_user_id m = user_id then f m else m) (db_workspace_members d)\<rparr>"

definition insert_workspace :: "ustr \<Rightarrow> ustr \<Rightarrow> int \<Rightarrow> db \<Rightarrow> workspace_row \<times> db" where
  "insert_workspace name slug created_at d =
     (let w = \<lparr>w_id = next_id (map w_id (db_workspaces d)), w_name = name, w_slug = slug, w_created_at = created_at,
               w_sod_default = True, w_checklist_dismissed_at = None\<rparr>
      in (w, d\<lparr>db_workspaces := db_workspaces d @ [w]\<rparr>))"

definition update_workspace :: "int \<Rightarrow> (workspace_row \<Rightarrow> workspace_row) \<Rightarrow> db \<Rightarrow> db" where
  "update_workspace i f d = d\<lparr>db_workspaces := map (\<lambda>w. if w_id w = i then f w else w) (db_workspaces d)\<rparr>"

definition update_invitation :: "int \<Rightarrow> (invitation_row \<Rightarrow> invitation_row) \<Rightarrow> db \<Rightarrow> db" where
  "update_invitation n f d = d\<lparr>db_invitations := map (\<lambda>i. if i_id i = n then f i else i) (db_invitations d)\<rparr>"

section \<open>Everyone belongs to a workspace\<close>

definition first_owner :: "user_row list \<Rightarrow> user_row" where
  "first_owner users = (let admins = filter (\<lambda>u. u_role u = ''admin'') users in hd (if admins = [] then users else admins))"

definition ensure_default_workspace :: "db \<Rightarrow> workspace_row option \<times> db" where
  "ensure_default_workspace d =
     (if db_workspaces d \<noteq> [] then (None, d)
      else case sort_key (\<lambda>u. (u_created_at u, u_id u)) (db_users d) of
        [] \<Rightarrow> (None, d)
      | first # rest \<Rightarrow>
          let users = first # rest;
              owner = first_owner users;
              (w, d') = insert_workspace DEFAULT_WORKSPACE_NAME DEFAULT_WORKSPACE_SLUG (u_created_at first) d
          in (Some w, fold (\<lambda>u. insert_member (w_id w) (u_id u) (if u_id u = u_id owner then ''owner'' else ''member'') (u_created_at u))
                users d'))"

definition join_shared_workspace :: "int \<Rightarrow> int \<Rightarrow> db \<Rightarrow> db" where
  "join_shared_workspace now user_id d =
     (case shared_workspace d of
        Some w \<Rightarrow> insert_member (w_id w) user_id ''member'' now d
      | None \<Rightarrow>
          let (w, d') = insert_workspace DEFAULT_WORKSPACE_NAME DEFAULT_WORKSPACE_SLUG now d
          in insert_member (w_id w) user_id ''owner'' now d')"

text \<open>The slug of a new workspace: the loop tries one number after another; the fuel, one more than the
  workspaces there are, is enough.\<close>

definition slug_chars :: "char \<Rightarrow> bool" where
  "slug_chars c \<longleftrightarrow> (c \<ge> CHR ''a'' \<and> c \<le> CHR ''z'') \<or> (c \<ge> CHR ''0'' \<and> c \<le> CHR ''9'')"

fun hyphenate :: "ustr \<Rightarrow> ustr" where
  "hyphenate [] = []"
| "hyphenate (c # cs) =
     (if slug_chars c then c # hyphenate cs
      else case hyphenate cs of CHR ''-'' # r \<Rightarrow> CHR ''-'' # r | r \<Rightarrow> CHR ''-'' # r)"

definition strip_hyphens :: "ustr \<Rightarrow> ustr" where
  "strip_hyphens s = rev (dropWhile (\<lambda>c. c = CHR ''-'') (rev (dropWhile (\<lambda>c. c = CHR ''-'') s)))"

definition slug_base :: "text_env \<Rightarrow> ustr \<Rightarrow> ustr" where
  "slug_base env name =
     (let s = take 56 (strip_hyphens (hyphenate (te_lower env name))) in if s = [] then ''workspace'' else s)"

definition slug_taken :: "db \<Rightarrow> ustr \<Rightarrow> bool" where
  "slug_taken d slug \<longleftrightarrow> slug = DEFAULT_WORKSPACE_SLUG \<or> (\<exists>w \<in> set (db_workspaces d). w_slug w = slug)"

fun slug_loop :: "nat \<Rightarrow> db \<Rightarrow> ustr \<Rightarrow> nat \<Rightarrow> ustr \<Rightarrow> ustr option" where
  "slug_loop 0 d base n slug = None"
| "slug_loop (Suc fuel) d base n slug =
     (if slug_taken d slug then slug_loop fuel d base (n + 1) (base @ ''-'' @ dec_nat (n + 1)) else Some slug)"

definition slug_for :: "text_env \<Rightarrow> db \<Rightarrow> ustr \<Rightarrow> ustr option" where
  "slug_for env d name =
     (let base = slug_base env name in slug_loop (length (db_workspaces d) + 2) d base 1 base)"

definition clean_workspace_name :: "text_env \<Rightarrow> ustr option \<Rightarrow> workspace_error + ustr" where
  "clean_workspace_name env name =
     (let s = strip (case name of None \<Rightarrow> [] | Some n \<Rightarrow> n) in
      if s = [] then Inl Name_required
      else if te_invisible env s then Inl Name_invisible
      else if str_len s > 120 then Inl Name_too_long
      else Inr s)"

definition create_workspace :: "text_env \<Rightarrow> int \<Rightarrow> ustr \<Rightarrow> int \<Rightarrow> db \<Rightarrow> workspace_error + workspace_row \<times> db" where
  "create_workspace env now name owner_id d =
     bindE (clean_workspace_name env (Some name)) (\<lambda>name'.
       case slug_for env d name' of
         None \<Rightarrow> Inl No_slug
       | Some slug \<Rightarrow>
           let (w, d') = insert_workspace name' slug now d
           in Inr (w, workspace_event env now ''workspace_created'' (w_id w) owner_id [(''name'', JStr name')]
                (insert_member (w_id w) owner_id ''owner'' now d')))"

section \<open>Roles and removal\<close>

definition require_manager :: "db \<Rightarrow> int \<Rightarrow> int \<Rightarrow> workspace_error + workspace_member" where
  "require_manager d workspace_id actor_id =
     (case membership d workspace_id actor_id of
        None \<Rightarrow> Inl Not_allowed
      | Some m \<Rightarrow> if can_manage (Some m) then Inr m else Inl Not_allowed)"

definition require_rank :: "workspace_member \<Rightarrow> ustr \<Rightarrow> workspace_error + unit" where
  "require_rank actor role = requireE (the (role_rank role) \<le> the (role_rank (wm_role actor))) Not_allowed"

definition require_member :: "db \<Rightarrow> int \<Rightarrow> int \<Rightarrow> workspace_error + workspace_member" where
  "require_member d workspace_id user_id =
     (case membership d workspace_id user_id of None \<Rightarrow> Inl Not_a_member | Some m \<Rightarrow> Inr m)"

definition active_owners :: "db \<Rightarrow> int \<Rightarrow> workspace_member list" where
  "active_owners d workspace_id =
     filter (\<lambda>m. wm_workspace_id m = workspace_id \<and> wm_role m = ''owner'' \<and> is_active m) (db_workspace_members d)"

definition guard_last_owner :: "db \<Rightarrow> int \<Rightarrow> workspace_member \<Rightarrow> workspace_error + unit" where
  "guard_last_owner d workspace_id m =
     (if wm_role m \<noteq> ''owner'' \<or> \<not> is_active m then Inr ()
      else requireE (1 < length (active_owners d workspace_id)) Last_owner)"

definition change_role :: "text_env \<Rightarrow> int \<Rightarrow> int \<Rightarrow> int \<Rightarrow> ustr \<Rightarrow> int \<Rightarrow> db \<Rightarrow> workspace_error + db" where
  "change_role env now workspace_id user_id role actor_id d =
     (if role \<notin> set WORKSPACE_ROLES then Inl Bad_role
      else bindE (require_manager d workspace_id actor_id) (\<lambda>actor.
        bindE (require_member d workspace_id user_id) (\<lambda>m.
        if wm_role m = role then Inr d
        else bindE (require_rank actor (wm_role m)) (\<lambda>_.
          bindE (require_rank actor role) (\<lambda>_.
          bindE (guard_last_owner d workspace_id m) (\<lambda>_.
            Inr (workspace_event env now ''workspace_role_changed'' workspace_id actor_id
              [(''user_id'', JInt user_id), (''from'', JStr (wm_role m)), (''to'', JStr role)]
              (update_membership workspace_id user_id (wm_role_update (\<lambda>_. role)) d))))))))"

definition remove_from_workspace :: "text_env \<Rightarrow> int \<Rightarrow> int \<Rightarrow> int \<Rightarrow> int \<Rightarrow> db \<Rightarrow> workspace_error + db" where
  "remove_from_workspace env now workspace_id user_id actor_id d =
     bindE (require_manager d workspace_id actor_id) (\<lambda>actor.
     bindE (require_member d workspace_id user_id) (\<lambda>m.
     bindE (require_rank actor (wm_role m)) (\<lambda>_.
     bindE (guard_last_owner d workspace_id m) (\<lambda>_.
       let vaults = vaults_of d user_id (Some workspace_id) in
       if vaults \<noteq> [] then Inl (Still_in_vaults (map v_name vaults))
       else Inr (workspace_event env now ''workspace_member_removed'' workspace_id actor_id
              [(''user_id'', JInt user_id), (''role'', JStr (wm_role m))] (delete_membership workspace_id user_id d))))))"

section \<open>Suspending, leaving and settings\<close>

definition suspend_member :: "text_env \<Rightarrow> int \<Rightarrow> int \<Rightarrow> int \<Rightarrow> int \<Rightarrow> db \<Rightarrow> workspace_error + db" where
  "suspend_member env now workspace_id user_id actor_id d =
     bindE (require_manager d workspace_id actor_id) (\<lambda>actor.
     bindE (require_member d workspace_id user_id) (\<lambda>m.
     bindE (requireE (wm_user_id m \<noteq> actor_id) Not_yourself) (\<lambda>_.
     bindE (requireE (is_active m) Already_suspended) (\<lambda>_.
     bindE (require_rank actor (wm_role m)) (\<lambda>_.
     bindE (guard_last_owner d workspace_id m) (\<lambda>_.
       Inr (workspace_event env now ''workspace_member_suspended'' workspace_id actor_id
              [(''user_id'', JInt user_id), (''role'', JStr (wm_role m))]
              (update_membership workspace_id user_id (wm_status_update (\<lambda>_. ''suspended'')) d))))))))"

definition reinstate_member :: "text_env \<Rightarrow> int \<Rightarrow> int \<Rightarrow> int \<Rightarrow> int \<Rightarrow> db \<Rightarrow> workspace_error + db" where
  "reinstate_member env now workspace_id user_id actor_id d =
     bindE (require_manager d workspace_id actor_id) (\<lambda>actor.
     bindE (require_member d workspace_id user_id) (\<lambda>m.
     bindE (requireE (\<not> is_active m) Not_suspended) (\<lambda>_.
     bindE (require_rank actor (wm_role m)) (\<lambda>_.
       Inr (workspace_event env now ''workspace_member_reinstated'' workspace_id actor_id
              [(''user_id'', JInt user_id), (''role'', JStr (wm_role m))]
              (update_membership workspace_id user_id (wm_status_update (\<lambda>_. ''active'')) d))))))"

definition leave_workspace :: "text_env \<Rightarrow> int \<Rightarrow> int \<Rightarrow> int \<Rightarrow> db \<Rightarrow> workspace_error + db" where
  "leave_workspace env now workspace_id user_id d =
     bindE (require_member d workspace_id user_id) (\<lambda>m.
       if wm_role m = ''owner'' then Inl Owner_cannot_leave
       else let vaults = vaults_of d user_id (Some workspace_id) in
         if vaults \<noteq> [] then Inl (Still_in_vaults (map v_name vaults))
         else Inr (workspace_event env now ''workspace_member_left'' workspace_id user_id
                [(''user_id'', JInt user_id), (''role'', JStr (wm_role m))] (delete_membership workspace_id user_id d)))"

definition rename_workspace :: "text_env \<Rightarrow> int \<Rightarrow> workspace_row \<Rightarrow> ustr \<Rightarrow> int \<Rightarrow> db \<Rightarrow> workspace_error + db" where
  "rename_workspace env now w name actor_id d =
     bindE (require_manager d (w_id w) actor_id) (\<lambda>_.
     bindE (clean_workspace_name env (Some name)) (\<lambda>name'.
       if name' = w_name w then Inr d
       else Inr (workspace_event env now ''workspace_renamed'' (w_id w) actor_id
              [(''from'', JStr (w_name w)), (''to'', JStr name')] (update_workspace (w_id w) (w_name_update (\<lambda>_. name')) d))))"

definition set_vault_defaults :: "text_env \<Rightarrow> int \<Rightarrow> workspace_row \<Rightarrow> bool \<Rightarrow> int \<Rightarrow> db \<Rightarrow> workspace_error + db" where
  "set_vault_defaults env now w sod_default actor_id d =
     bindE (require_manager d (w_id w) actor_id) (\<lambda>_.
       if w_sod_default w = sod_default then Inr d
       else Inr (workspace_event env now ''workspace_settings_changed'' (w_id w) actor_id
              [(''separation_of_duties_default'', JBool sod_default)]
              (update_workspace (w_id w) (w_sod_default_update (\<lambda>_. sod_default)) d)))"

definition dismiss_checklist :: "int \<Rightarrow> int \<Rightarrow> int \<Rightarrow> db \<Rightarrow> workspace_error + db" where
  "dismiss_checklist now workspace_id actor_id d =
     bindE (require_manager d workspace_id actor_id) (\<lambda>_.
       Inr (update_workspace workspace_id (w_checklist_dismissed_at_update (\<lambda>_. Some now)) d))"

section \<open>Invitations\<close>

definition token_digest_of :: "(bytes \<Rightarrow> bytes) \<Rightarrow> bytes \<Rightarrow> bytes" where
  "token_digest_of H raw = H (TOKEN_DS @ raw)"

definition url_safe :: "ustr \<Rightarrow> ustr" where
  "url_safe s = map (\<lambda>c. if c = CHR ''+'' then CHR ''-'' else if c = CHR ''/'' then CHR ''_'' else c) s"

definition url_plain :: "ustr \<Rightarrow> ustr" where
  "url_plain s = map (\<lambda>c. if c = CHR ''-'' then CHR ''+'' else if c = CHR ''_'' then CHR ''/'' else c) s"

text \<open>\<open>raw\<close> is what \<open>secrets.token_bytes\<close> draws.\<close>

definition new_token :: "(bytes \<Rightarrow> bytes) \<Rightarrow> bytes \<Rightarrow> ustr \<times> bytes" where
  "new_token H raw = (rev (dropWhile (\<lambda>c. c = CHR ''='') (rev (url_safe (b64encode raw)))), token_digest_of H raw)"

definition token_digest :: "(bytes \<Rightarrow> bytes) \<Rightarrow> ustr \<Rightarrow> bytes option" where
  "token_digest H token =
     (if str_len token \<noteq> 43 then None
      else case b64decode (url_plain (token @ ''='')) of
        None \<Rightarrow> None
      | Some raw \<Rightarrow> if length raw = TOKEN_BYTES then Some (token_digest_of H raw) else None)"

text \<open>A grant as it is asked for: \<open>None\<close> where the vault's id is not a number.\<close>

definition normalise_grants :: "(int option \<times> ustr) list \<Rightarrow> workspace_error + (int \<times> ustr) list" where
  "normalise_grants asked =
     bindE (fold (\<lambda>(vault, role) acc. bindE acc (\<lambda>grants.
         case vault of
           None \<Rightarrow> Inl Bad_vault
         | Some i \<Rightarrow> if role \<notin> set INVITABLE_VAULT_ROLES then Inl Bad_grant_role else Inr (AList.update i role grants)))
       asked (Inr []))
       (\<lambda>grants. Inr (sort_key fst grants))"

fun check_each_grant :: "db \<Rightarrow> int \<Rightarrow> int \<Rightarrow> (int \<times> ustr) list \<Rightarrow> workspace_error + vault_row list" where
  "check_each_grant d workspace_id inviter_id [] = Inr []"
| "check_each_grant d workspace_id inviter_id ((vault, role) # grants) =
     (case get_vault d vault of
        None \<Rightarrow> Inl Not_vault_owner
      | Some v \<Rightarrow>
          if v_owner_id v \<noteq> inviter_id then Inl Not_vault_owner
          else case workspace_of_vault d v of
            None \<Rightarrow> Inl (Other_workspace vault)
          | Some home \<Rightarrow>
              if w_id home \<noteq> workspace_id then Inl (Other_workspace vault)
              else bindE (check_each_grant d workspace_id inviter_id grants) (\<lambda>vs. Inr (v # vs)))"

definition check_grants :: "db \<Rightarrow> int \<Rightarrow> int \<Rightarrow> (int \<times> ustr) list \<Rightarrow> ustr \<Rightarrow> workspace_error + vault_row list" where
  "check_grants d workspace_id inviter_id grants role =
     (if role = ''auditor'' \<and> list_ex (\<lambda>g. snd g = ''signer'') grants then Inl Auditor_approver
      else check_each_grant d workspace_id inviter_id grants)"

text \<open>\<open>_EMAIL\<close> and \<open>mail.valid_address\<close>, both of which an address must match.\<close>

definition local_char :: "char \<Rightarrow> bool" where
  "local_char c \<longleftrightarrow> slug_chars c \<or> (c \<ge> CHR ''A'' \<and> c \<le> CHR ''Z'') \<or> c \<in> set ''.!#$%&*+/=?^_`{|}~-'' \<or> c = CHR 0x27"

definition domain_end :: "char \<Rightarrow> bool" where
  "domain_end c \<longleftrightarrow> slug_chars c \<or> (c \<ge> CHR ''A'' \<and> c \<le> CHR ''Z'')"

definition valid_address :: "ustr \<Rightarrow> bool" where
  "valid_address s \<longleftrightarrow>
     (let here = takeWhile (\<lambda>c. c \<noteq> CHR ''@'') s; domain = drop (Suc (length here)) s in
      length s \<le> 254 \<and> length here < length s \<and> here \<noteq> [] \<and> length here \<le> 64 \<and> list_all local_char here
      \<and> domain \<noteq> [] \<and> length domain \<le> 253 \<and> domain_end (hd domain) \<and> domain_end (last domain)
      \<and> list_all (\<lambda>c. domain_end c \<or> c = CHR ''.'' \<or> c = CHR ''-'') domain)"

definition dotted_domain :: "ustr \<Rightarrow> bool" where
  "dotted_domain s \<longleftrightarrow>
     (let domain = drop (Suc (length (takeWhile (\<lambda>c. c \<noteq> CHR ''@'') s))) s
      in \<exists>n \<in> {1..<length domain - 1}. domain ! n = CHR ''.'')"

definition email_ok :: "ustr \<Rightarrow> bool" where
  "email_ok s \<longleftrightarrow> valid_address s \<and> dotted_domain s"

definition grant_json :: "int \<times> ustr \<Rightarrow> json" where
  "grant_json g = JObj [(''vault_id'', JInt (fst g)), (''role'', JStr (snd g))]"

text \<open>\<open>refusal\<close> is what the mail outbox answers to another invitation email.\<close>

definition create_invitation :: "text_env \<Rightarrow> int \<Rightarrow> bytes \<Rightarrow> ustr option \<Rightarrow> int \<Rightarrow> int \<Rightarrow> ustr \<Rightarrow> ustr
    \<Rightarrow> (int option \<times> ustr) list \<Rightarrow> db \<Rightarrow> workspace_error + (invitation_row \<times> ustr) \<times> db" where
  "create_invitation env now raw refusal workspace_id inviter_id email role vault_grants d =
     bindE (require_manager d workspace_id inviter_id) (\<lambda>actor.
     bindE (requireE (role \<in> set WORKSPACE_ROLES) Bad_role) (\<lambda>_.
     bindE (require_rank actor role) (\<lambda>_.
     let email' = te_lower env (strip email) in
     bindE (requireE (email_ok email') Bad_email) (\<lambda>_.
     bindE (requireE (\<not> (\<exists>u \<in> set (db_users d). u_email u = email' \<and> membership d workspace_id (u_id u) \<noteq> None)) Already_member) (\<lambda>_.
     bindE (requireE (\<not> (\<exists>i \<in> set (db_invitations d). i_workspace_id i = workspace_id \<and> i_email i = email'
         \<and> invitation_state now i = ''pending'')) Already_invited) (\<lambda>_.
     bindE (normalise_grants vault_grants) (\<lambda>grants.
     bindE (check_grants d workspace_id inviter_id grants role) (\<lambda>_.
     case refusal of
       Some sentence \<Rightarrow> Inl (Email_limit sentence)
     | None \<Rightarrow>
         let (token, digest) = new_token (ce_hash env) raw;
             i = \<lparr>i_id = next_id (map i_id (db_invitations d)), i_workspace_id = workspace_id, i_email = email', i_role = role,
                  i_vault_grants = grants, i_inviter_id = inviter_id, i_token_hash = digest, i_created_at = now,
                  i_expires_at = now + INVITATION_TTL, i_accepted_at = None, i_accepted_by_id = None, i_revoked_at = None\<rparr>
         in Inr ((i, token), workspace_event env now ''invitation_created'' workspace_id inviter_id
              [(''invitation_id'', JInt (i_id i)), (''email'', JStr email'), (''role'', JStr role),
               (''vaults'', JList (map grant_json grants)), (''expires_at'', JStr (isoformat (i_expires_at i)))]
              (d\<lparr>db_invitations := db_invitations d @ [i]\<rparr>))))))))))"

definition invitation_for_token :: "text_env \<Rightarrow> db \<Rightarrow> ustr \<Rightarrow> invitation_row option" where
  "invitation_for_token env d token =
     (case token_digest (ce_hash env) token of
        None \<Rightarrow> None | Some digest \<Rightarrow> find (\<lambda>i. i_token_hash i = digest) (db_invitations d))"

definition inviter_still_entitled :: "invitation_row \<Rightarrow> workspace_member option \<Rightarrow> bool" where
  "inviter_still_entitled i inviter \<longleftrightarrow>
     (case inviter of
        None \<Rightarrow> False
      | Some m \<Rightarrow> can_manage (Some m) \<and> the (role_rank (i_role i)) \<le> the (role_rank (wm_role m)))"

definition check_usable :: "int \<Rightarrow> db \<Rightarrow> invitation_row \<Rightarrow> workspace_error + unit" where
  "check_usable now d i =
     (if invitation_state now i = ''accepted'' then Inl Already_accepted
      else if invitation_state now i = ''revoked'' then Inl Revoked
      else if invitation_state now i = ''expired'' then Inl (Expired (i_expires_at i))
      else if inviter_still_entitled i (membership d (i_workspace_id i) (i_inviter_id i)) then Inr ()
      else Inl Inviter_lost_access)"

definition usable :: "text_env \<Rightarrow> int \<Rightarrow> db \<Rightarrow> ustr \<Rightarrow> workspace_error + invitation_row" where
  "usable env now d token =
     (case invitation_for_token env d token of
        None \<Rightarrow> Inl Unknown_invitation | Some i \<Rightarrow> bindE (check_usable now d i) (\<lambda>_. Inr i))"

definition is_vacant_for :: "int \<Rightarrow> db \<Rightarrow> int \<Rightarrow> int \<Rightarrow> bool" where
  "is_vacant_for now d workspace_id user_id \<longleftrightarrow>
     \<not> (\<exists>m \<in> set (db_workspace_members d). wm_workspace_id m = workspace_id \<and> wm_user_id m \<noteq> user_id)
     \<and> \<not> ((\<exists>m \<in> set (db_vault_members d). vm_user_id m = user_id) \<or> (\<exists>v \<in> set (db_vaults d). v_owner_id v = user_id))
     \<and> \<not> (\<exists>i \<in> set (open_invitations d workspace_id). invitation_state now i = ''pending'')"

definition workspace_to_leave :: "int \<Rightarrow> db \<Rightarrow> int \<Rightarrow> int \<Rightarrow> (workspace_member \<times> bool) option" where
  "workspace_to_leave now d user_id joining =
     (case filter (\<lambda>m. wm_workspace_id m \<noteq> joining) (memberships_of d user_id) of
        [] \<Rightarrow> None
      | m # others \<Rightarrow> Some (m, others = [] \<and> is_vacant_for now d (wm_workspace_id m) user_id))"

definition make_room_to_join :: "text_env \<Rightarrow> int \<Rightarrow> int \<Rightarrow> int \<Rightarrow> db \<Rightarrow> workspace_error + int option \<times> db" where
  "make_room_to_join env now user_id joining d =
     (case workspace_to_leave now d user_id joining of
        None \<Rightarrow> Inr (None, d)
      | Some (m, vacant) \<Rightarrow>
          if \<not> vacant then Inl (Has_workspace (wm_workspace_id m))
          else Inr (Some (wm_workspace_id m),
            workspace_event env now ''workspace_member_left'' (wm_workspace_id m) user_id
              [(''user_id'', JInt user_id), (''role'', JStr (wm_role m)), (''moved_to'', JInt joining)]
              (delete_membership (wm_workspace_id m) user_id d)))"

definition join_shared_workspace_from :: "text_env \<Rightarrow> int \<Rightarrow> int \<Rightarrow> db \<Rightarrow> workspace_error + int option \<times> db" where
  "join_shared_workspace_from env now user_id d =
     (let (w, d') = (case shared_workspace d of
            Some w \<Rightarrow> (w, d) | None \<Rightarrow> insert_workspace DEFAULT_WORKSPACE_NAME DEFAULT_WORKSPACE_SLUG now d) in
      if shared_workspace d \<noteq> None \<and> membership d (w_id w) user_id \<noteq> None then Inr (None, d)
      else bindE (make_room_to_join env now user_id (w_id w) d') (\<lambda>(left, d1).
        let owned = (\<exists>m \<in> set (db_workspace_members d1). wm_workspace_id m = w_id w \<and> wm_role m = ''owner'')
        in Inr (left, insert_member (w_id w) user_id (if owned then ''member'' else ''owner'') now d1)))"

text \<open>Each vault the invitation grants, joined with the inviter acting as its owner.\<close>

fun join_vaults :: "text_env \<Rightarrow> int \<Rightarrow> invitation_row \<Rightarrow> user_row \<Rightarrow> vault_row list \<Rightarrow> db \<Rightarrow> workspace_error + db" where
  "join_vaults env now i u [] d = Inr d"
| "join_vaults env now i u (v # vs) d =
     (if is_member d (v_id v) (u_id u) then join_vaults env now i u vs d
      else case add_member env now v (u_email u) (the (map_of (i_vault_grants i) (v_id v))) (i_inviter_id i) (Some (i_id i)) d of
        Inl e \<Rightarrow> Inl (Vault_refused (v_id v) e)
      | Inr (m, d') \<Rightarrow> join_vaults env now i u vs d')"

definition accept :: "text_env \<Rightarrow> int \<Rightarrow> invitation_row \<Rightarrow> user_row \<Rightarrow> db \<Rightarrow> workspace_error + db" where
  "accept env now i u d =
     (if u_email u \<noteq> i_email i then Inl Wrong_account
      else if membership d (i_workspace_id i) (u_id u) \<noteq> None then Inl Already_member
      else bindE (make_room_to_join env now (u_id u) (i_workspace_id i) d) (\<lambda>(left, d1).
        let d2 = update_invitation (i_id i) (\<lambda>i. i\<lparr>i_accepted_at := Some now, i_accepted_by_id := Some (u_id u)\<rparr>)
                   (insert_member (i_workspace_id i) (u_id u) (i_role i) now d1);
            d3 = workspace_event env now ''invitation_accepted'' (i_workspace_id i) (u_id u)
                   [(''invitation_id'', JInt (i_id i)), (''user_id'', JInt (u_id u)), (''email'', JStr (u_email u)),
                    (''role'', JStr (i_role i))] d2
        in bindE (check_grants d3 (i_workspace_id i) (i_inviter_id i) (i_vault_grants i) (i_role i)) (\<lambda>vs.
             join_vaults env now i u vs d3)))"

definition accept_invitation :: "text_env \<Rightarrow> int \<Rightarrow> ustr \<Rightarrow> user_row \<Rightarrow> db \<Rightarrow> workspace_error + db" where
  "accept_invitation env now token u d = bindE (usable env now d token) (\<lambda>i. accept env now i u d)"

definition require_open :: "int \<Rightarrow> db \<Rightarrow> invitation_row \<Rightarrow> int \<Rightarrow> workspace_error + unit" where
  "require_open now d i actor_id =
     bindE (require_manager d (i_workspace_id i) actor_id) (\<lambda>actor.
     bindE (require_rank actor (i_role i)) (\<lambda>_.
       if invitation_state now i = ''accepted'' then Inl Already_accepted
       else if invitation_state now i = ''revoked'' then Inl Revoked
       else Inr ()))"

definition revoke_invitation :: "text_env \<Rightarrow> int \<Rightarrow> invitation_row \<Rightarrow> int \<Rightarrow> db \<Rightarrow> workspace_error + db" where
  "revoke_invitation env now i actor_id d =
     bindE (require_open now d i actor_id) (\<lambda>_.
       Inr (workspace_event env now ''invitation_revoked'' (i_workspace_id i) actor_id
              [(''invitation_id'', JInt (i_id i)), (''email'', JStr (i_email i))]
              (update_invitation (i_id i) (\<lambda>i. i\<lparr>i_revoked_at := Some now\<rparr>) d)))"

definition resend_invitation :: "text_env \<Rightarrow> int \<Rightarrow> bytes \<Rightarrow> ustr option \<Rightarrow> invitation_row \<Rightarrow> int \<Rightarrow> db
    \<Rightarrow> workspace_error + ustr \<times> db" where
  "resend_invitation env now raw refusal i actor_id d =
     bindE (require_open now d i actor_id) (\<lambda>_.
     bindE (check_grants d (i_workspace_id i) actor_id (i_vault_grants i) (i_role i)) (\<lambda>_.
     case refusal of
       Some sentence \<Rightarrow> Inl (Email_limit sentence)
     | None \<Rightarrow>
         let (token, digest) = new_token (ce_hash env) raw; expires = now + INVITATION_TTL
         in Inr (token, workspace_event env now ''invitation_resent'' (i_workspace_id i) actor_id
              [(''invitation_id'', JInt (i_id i)), (''email'', JStr (i_email i)), (''expires_at'', JStr (isoformat expires))]
              (update_invitation (i_id i)
                (\<lambda>i. i\<lparr>i_inviter_id := actor_id, i_token_hash := digest, i_expires_at := expires\<rparr>) d))))"

section \<open>Getting started\<close>

definition getting_started :: "db \<Rightarrow> int \<Rightarrow> (ustr \<times> bool) list" where
  "getting_started d workspace_id =
     (let vault_ids = vault_ids_of d workspace_id;
          everyone = members d workspace_id None;
          enrolled = length (enrolled_user_ids d (map wm_user_id (filter is_active everyone)));
          invited = (1 < length everyone \<or> list_ex (\<lambda>i. i_workspace_id i = workspace_id) (db_invitations d));
          here = filter (\<lambda>p. p_vault_id p \<in> set vault_ids) (db_proposals d);
          approved = list_ex (\<lambda>s. s_decision s = ''approve'' \<and> s_proposal_id s \<in> set (map p_id here)) (db_signatures d)
      in [(''vault'', vault_ids \<noteq> []), (''invite'', invited), (''key'', 2 \<le> enrolled), (''decision'', here \<noteq> []),
          (''approve'', approved)])"

definition checklist_for :: "db \<Rightarrow> int \<Rightarrow> (workspace_row \<times> (ustr \<times> bool) list) option" where
  "checklist_for d user_id =
     (if \<not> can_manage (current_membership d user_id) then None
      else case current_workspace d user_id of
        None \<Rightarrow> None
      | Some w \<Rightarrow>
          if w_checklist_dismissed_at w \<noteq> None then None
          else let items = getting_started d (w_id w) in if list_all snd items then None else Some (w, items))"

end
