(* ===== verification/Workspace_Proofs.thy ===== *)
theory Workspace_Proofs
  imports Workspace_Service Approval_Machine
begin

text \<open>
  What each operation on workspaces and vaults changes: the frame it leaves alone, its effect on the
  membership table, and the invariant of that table: the roles and statuses are those the code names,
  there is one row per workspace and person, and a workspace with members has an active owner, or is the
  shared one with plain members only.
\<close>

section \<open>Events change the ledger only\<close>

lemma event_tables [simp]:
  "db_users (workspace_event env now event w a payload d) = db_users d"
  "db_vaults (workspace_event env now event w a payload d) = db_vaults d"
  "db_vault_members (workspace_event env now event w a payload d) = db_vault_members d"
  "db_workspaces (workspace_event env now event w a payload d) = db_workspaces d"
  "db_workspace_members (workspace_event env now event w a payload d) = db_workspace_members d"
  "db_invitations (workspace_event env now event w a payload d) = db_invitations d"
  "db_keys (workspace_event env now event w a payload d) = db_keys d"
  "db_users (vault_event env now event payload a v d) = db_users d"
  "db_vaults (vault_event env now event payload a v d) = db_vaults d"
  "db_vault_members (vault_event env now event payload a v d) = db_vault_members d"
  "db_workspaces (vault_event env now event payload a v d) = db_workspaces d"
  "db_workspace_members (vault_event env now event payload a v d) = db_workspace_members d"
  "db_invitations (vault_event env now event payload a v d) = db_invitations d"
  "db_keys (vault_event env now event payload a v d) = db_keys d"
  unfolding workspace_event_def vault_event_def by (simp_all add: ledger_append_tables)

lemma membership_event [simp]:
  "membership (workspace_event env now event w a payload d) = membership d"
  "membership (vault_event env now event payload a v d) = membership d"
  by (intro ext, simp add: membership_def)+

section \<open>The rest of the database\<close>

text \<open>Decisions, votes, files, payments and treasuries are not touched; keys are only added; the ledger
  only grows, and by no creation of a decision.\<close>

definition quiet :: "db \<Rightarrow> db \<Rightarrow> bool" where
  "quiet d d' \<longleftrightarrow>
     db_proposals d' = db_proposals d \<and> db_signatures d' = db_signatures d \<and> db_files d' = db_files d
     \<and> db_actions d' = db_actions d \<and> db_treasuries d' = db_treasuries d \<and> db_lifecycles d' = db_lifecycles d
     \<and> (\<exists>ks. db_keys d' = db_keys d @ ks)
     \<and> (\<exists>es. db_entries d' = db_entries d @ es \<and> (\<forall>e \<in> set es. le_event_type e \<noteq> ''proposal_created''))"

lemma quiet_refl [simp]: "quiet d d"
  by (simp add: quiet_def)

lemma quiet_trans: "quiet d d' \<Longrightarrow> quiet d' d'' \<Longrightarrow> quiet d d''"
  unfolding quiet_def by (elim conjE exE) (simp, blast)

lemma quiet_append:
  assumes "ev_type ev \<noteq> ''proposal_created''"
  shows "quiet d (snd (ledger_append env now ev d))"
proof -
  obtain es where es: "snd (ledger_append env now ev d) = d\<lparr>db_entries := db_entries d @ es\<rparr>"
    "\<forall>e \<in> set es. le_event_type e \<in> {''genesis'', ev_type ev}" by (rule ledger_append_entries)
  have "\<forall>e \<in> set es. le_event_type e \<noteq> ''proposal_created''"
  proof
    fix e assume "e \<in> set es"
    then have "le_event_type e = ''genesis'' \<or> le_event_type e = ev_type ev" using es(2) by blast
    then show "le_event_type e \<noteq> ''proposal_created''" using assms by auto
  qed
  then show ?thesis unfolding quiet_def es(1) by simp
qed

lemma quiet_workspace_event: "event \<noteq> ''proposal_created'' \<Longrightarrow> quiet d0 d \<Longrightarrow> quiet d0 (workspace_event env now event w a payload d)"
  unfolding workspace_event_def by (erule quiet_trans, rule quiet_append, simp)

lemma quiet_vault_event: "event \<noteq> ''proposal_created'' \<Longrightarrow> quiet d0 d \<Longrightarrow> quiet d0 (vault_event env now event payload a v d)"
  unfolding vault_event_def by (erule quiet_trans, rule quiet_append, simp)

lemma quiet_tables [simp]:
  "quiet d (insert_member w u role t d)" "quiet d (delete_membership w u d)" "quiet d (update_membership w u f d)"
  "quiet d (update_workspace w g d)" "quiet d (update_invitation i h d)" "quiet d (update_vault v k d)" "quiet d (update_member v u m d)"
  "quiet d (snd (insert_workspace name slug t d))" "quiet d (d\<lparr>db_invitations := is\<rparr>)" "quiet d (d\<lparr>db_vault_members := ms\<rparr>)"
  "quiet d (d\<lparr>db_vault_rules := rs\<rparr>)"
  by (simp_all add: quiet_def insert_member_def delete_membership_def update_membership_def update_workspace_def
      update_invitation_def update_vault_def update_member_def insert_workspace_def Let_def)

lemma quiet_elsewhere:
  assumes "quiet d d'"
  shows "elsewhere pid d d'"
proof -
  obtain ks es where q: "db_keys d' = db_keys d @ ks" "db_entries d' = db_entries d @ es"
    "\<forall>e \<in> set es. le_event_type e \<noteq> ''proposal_created''" using assms by (auto simp: quiet_def)
  have keys: "key_material d' i = Some x" if "key_material d i = Some x" for i x
    using that by (auto simp: key_material_def get_key_def q(1) find_append split: option.split)
  have created: "creation_entry d' p = creation_entry d p" for p
    unfolding creation_entry_def q(2) using q(3) by (auto simp: filter_empty_conv)
  show ?thesis
    unfolding elsewhere_def evidence_kept_def
    using assms keys created by (auto simp: quiet_def get_proposal_def signatures_of_def file_of_def action_of_def
        treasury_place_def get_treasury_def)
qed

section \<open>The membership table\<close>

definition wm_key :: "workspace_member \<Rightarrow> int \<times> int" where
  "wm_key m = (wm_workspace_id m, wm_user_id m)"

definition member_typed :: "workspace_row list \<Rightarrow> workspace_member \<Rightarrow> bool" where
  "member_typed ws m \<longleftrightarrow>
     wm_role m \<in> set WORKSPACE_ROLES \<and> wm_status m \<in> set MEMBER_STATUSES \<and> wm_workspace_id m \<in> w_id ` set ws"

definition members_typed :: "db \<Rightarrow> bool" where
  "members_typed d \<longleftrightarrow>
     distinct (map wm_key (db_workspace_members d)) \<and> (\<forall>m \<in> set (db_workspace_members d). member_typed (db_workspaces d) m)"

definition active_owner :: "db \<Rightarrow> int \<Rightarrow> workspace_member \<Rightarrow> bool" where
  "active_owner d w m \<longleftrightarrow> m \<in> set (db_workspace_members d) \<and> wm_workspace_id m = w \<and> wm_role m = ''owner'' \<and> is_active m"

definition populated :: "db \<Rightarrow> int \<Rightarrow> bool" where
  "populated d w \<longleftrightarrow> (\<exists>m \<in> set (db_workspace_members d). wm_workspace_id m = w)"

text \<open>Only the operator's path lets a person into a workspace nobody is left in, and only into the shared one.
  A workspace with members is \<^emph>\<open>led\<close>: it has an active owner, or it is the shared workspace and everyone in it
  is a plain member.\<close>

definition places :: "db \<Rightarrow> (int \<times> ustr) set" where
  "places d = (\<lambda>w. (w_id w, w_slug w)) ` set (db_workspaces d)"

definition plain_shared :: "db \<Rightarrow> int \<Rightarrow> bool" where
  "plain_shared d w \<longleftrightarrow> (w, DEFAULT_WORKSPACE_SLUG) \<in> places d
     \<and> (\<forall>m \<in> set (db_workspace_members d). wm_workspace_id m = w \<longrightarrow> wm_role m = ''member'')"

definition led :: "db \<Rightarrow> bool" where
  "led d \<longleftrightarrow> (\<forall>w. populated d w \<longrightarrow> (\<exists>m. active_owner d w m) \<or> plain_shared d w)"

lemma ledD: "led d \<Longrightarrow> populated d w \<Longrightarrow> (\<exists>m. active_owner d w m) \<or> plain_shared d w"
  by (simp add: led_def)

lemma shared_place: "shared_workspace d = Some w \<Longrightarrow> (w_id w, DEFAULT_WORKSPACE_SLUG) \<in> places d"
  unfolding shared_workspace_def places_def by (drule find_Some_in) force

lemma membership_in: "membership d w u = Some m \<Longrightarrow> m \<in> set (db_workspace_members d) \<and> wm_key m = (w, u)"
  unfolding membership_def by (drule find_Some_in) (simp add: wm_key_def)

lemma membership_None: "membership d w u = None \<longleftrightarrow> (\<forall>m \<in> set (db_workspace_members d). wm_key m \<noteq> (w, u))"
  by (auto simp: membership_def find_None_iff wm_key_def)

lemma membership_iff:
  assumes "members_typed d"
  shows "membership d w u = Some m \<longleftrightarrow> m \<in> set (db_workspace_members d) \<and> wm_key m = (w, u)"
proof
  assume m: "m \<in> set (db_workspace_members d) \<and> wm_key m = (w, u)"
  then have "find (\<lambda>y. wm_key y = wm_key m) (db_workspace_members d) = Some m"
    using assms by (intro find_distinct) (simp_all add: members_typed_def)
  then show "membership d w u = Some m" using m by (simp add: membership_def wm_key_def)
qed (rule membership_in)

lemma same_key: "members_typed d \<Longrightarrow> m \<in> set (db_workspace_members d) \<Longrightarrow> m' \<in> set (db_workspace_members d)
    \<Longrightarrow> wm_key m = wm_key m' \<Longrightarrow> m = m'"
  by (auto simp: members_typed_def distinct_map inj_on_def)

text \<open>The guard lets a member change only when another active owner stays.\<close>

lemma guard_other:
  assumes "members_typed d" "active_owner d w m0" "membership d w u = Some m" "guard_last_owner d w m = Inr ()"
  obtains m' where "active_owner d w m'" "wm_user_id m' \<noteq> u"
proof -
  have m: "m \<in> set (db_workspace_members d)" "wm_key m = (w, u)" using assms(3) membership_in by blast+
  have same: "m = m'" if "active_owner d w m'" "wm_user_id m' = u" for m'
    using that m by (intro same_key [OF assms(1)]) (simp_all add: active_owner_def wm_key_def)
  show thesis
  proof (cases "wm_role m = ''owner'' \<and> is_active m")
    case True
    then have two: "1 < length (active_owners d w)" using assms(4) by (simp add: guard_last_owner_def)
    have "\<exists>m' \<in> set (active_owners d w). m' \<noteq> m"
    proof (rule ccontr)
      assume "\<not> (\<exists>m' \<in> set (active_owners d w). m' \<noteq> m)"
      then have "set (active_owners d w) \<subseteq> {m}" by blast
      moreover have "distinct (active_owners d w)"
        using assms(1) by (simp add: active_owners_def members_typed_def distinct_map)
      ultimately have "length (active_owners d w) \<le> 1" using card_mono [of "{m}" "set (active_owners d w)"] by (simp add: distinct_card)
      then show False using two by simp
    qed
    then obtain m' where m': "m' \<in> set (active_owners d w)" "m' \<noteq> m" by blast
    then have "active_owner d w m'" by (simp add: active_owners_def active_owner_def)
    then show thesis using same m'(2) that by blast
  next
    case False
    then have "wm_user_id m0 \<noteq> u" using same [OF assms(2)] assms(2) by (auto simp: active_owner_def)
    then show thesis by (rule that [OF assms(2)])
  qed
qed

text \<open>The three changes of the table.\<close>

lemma insert_members [simp]:
  "db_workspace_members (insert_member w u role t d) = db_workspace_members d @
     [\<lparr>wm_id = next_id (map wm_id (db_workspace_members d)), wm_workspace_id = w, wm_user_id = u, wm_role = role,
       wm_status = ''active'', wm_joined_at = t\<rparr>]"
  "db_workspaces (insert_member w u role t d) = db_workspaces d"
  by (simp_all add: insert_member_def)

lemma insert_typed:
  assumes "members_typed d" "membership d w u = None" "role \<in> set WORKSPACE_ROLES" "w \<in> w_id ` set (db_workspaces d)"
  shows "members_typed (insert_member w u role t d)"
  using assms by (auto simp: members_typed_def membership_None member_typed_def wm_key_def MEMBER_STATUSES_def)

lemma delete_typed: "members_typed d \<Longrightarrow> members_typed (delete_membership w u d)"
  by (auto simp: members_typed_def delete_membership_def distinct_map_filter)

lemma update_typed:
  assumes "members_typed d" "\<forall>m. wm_key (f m) = wm_key m"
    "\<forall>m. member_typed (db_workspaces d) m \<longrightarrow> member_typed (db_workspaces d) (f m)"
  shows "members_typed (update_membership w u f d)"
proof -
  have "map wm_key (db_workspace_members (update_membership w u f d)) = map wm_key (db_workspace_members d)"
    using assms(2) by (simp add: update_membership_def)
  then show ?thesis using assms(1,3) by (auto simp: members_typed_def update_membership_def simp del: map_map)
qed

end
