(* ===== verification/Membership.thy ===== *)
theory Membership
  imports Workspace_Proofs
begin

text \<open>
  Every operation on workspaces and vaults as one state machine.  A step carries the person on whose
  authority it happens: who called it, or for an accepted invitation the person who sent it.  What a
  step can do to the membership table is one of a few effects; the invariants are proved of those.
\<close>

section \<open>The effects on the membership table\<close>

definition wids :: "db \<Rightarrow> int set" where
  "wids d = w_id ` set (db_workspaces d)"

definition rank_of :: "ustr \<Rightarrow> int" where
  "rank_of role = the (role_rank role)"

definition managed_by :: "db \<Rightarrow> int \<Rightarrow> int option \<Rightarrow> workspace_member \<Rightarrow> bool" where
  "managed_by d w who am \<longleftrightarrow> (\<exists>a. who = Some a \<and> membership d w a = Some am \<and> can_manage (Some am))"

definition keeps_rows_typed :: "(workspace_member \<Rightarrow> workspace_member) \<Rightarrow> bool" where
  "keeps_rows_typed f \<longleftrightarrow> (\<forall>m. wm_key (f m) = wm_key m) \<and> (\<forall>ws m. member_typed ws m \<longrightarrow> member_typed ws (f m))"

definition only_member :: "db \<Rightarrow> int \<Rightarrow> int \<Rightarrow> bool" where
  "only_member d w u \<longleftrightarrow> (\<forall>m \<in> set (db_workspace_members d). wm_workspace_id m = w \<longrightarrow> wm_user_id m = u)"

text \<open>Joining on someone's authority, at one's own new workspace, or as the operator puts people into the
  shared one: as a member, and where it has no owner also as its owner.\<close>

definition may_join :: "db \<Rightarrow> int option \<Rightarrow> int \<Rightarrow> ustr \<Rightarrow> bool" where
  "may_join d who w role \<longleftrightarrow>
     (\<exists>am. managed_by d w who am \<and> rank_of role \<le> rank_of (wm_role am))
     \<or> (who = None \<and> role = ''member'' \<and> ((\<exists>m. active_owner d w m) \<or> plain_shared d w))
     \<or> (who = None \<and> role = ''owner'' \<and> plain_shared d w)
     \<or> (\<not> populated d w \<and> role = ''owner'')"

definition after_leaving :: "int option \<Rightarrow> int \<Rightarrow> db \<Rightarrow> db" where
  "after_leaving left u d = (case left of None \<Rightarrow> d | Some w0 \<Rightarrow> delete_membership w0 u d)"

inductive effect :: "int option \<Rightarrow> db \<Rightarrow> db \<Rightarrow> bool" for who d d' where
  same: "db_workspace_members d' = db_workspace_members d \<Longrightarrow> effect who d d'"
| changed: "managed_by d w who am \<Longrightarrow> membership d w u = Some m \<Longrightarrow> guard_last_owner d w m = Inr ()
     \<Longrightarrow> rank_of (wm_role m) \<le> rank_of (wm_role am) \<Longrightarrow> rank_of (wm_role (f m)) \<le> rank_of (wm_role am)
     \<Longrightarrow> keeps_rows_typed f \<Longrightarrow> db_workspace_members d' = db_workspace_members (update_membership w u f d) \<Longrightarrow> effect who d d'"
| removed: "managed_by d w who am \<Longrightarrow> membership d w u = Some m \<Longrightarrow> guard_last_owner d w m = Inr ()
     \<Longrightarrow> rank_of (wm_role m) \<le> rank_of (wm_role am)
     \<Longrightarrow> db_workspace_members d' = db_workspace_members (delete_membership w u d) \<Longrightarrow> effect who d d'"
| left: "who = Some u \<Longrightarrow> membership d w u = Some m \<Longrightarrow> wm_role m \<noteq> ''owner''
     \<Longrightarrow> db_workspace_members d' = db_workspace_members (delete_membership w u d) \<Longrightarrow> effect who d d'"
| joined: "membership d w u = None \<Longrightarrow> may_join d who w role \<Longrightarrow> role \<in> set WORKSPACE_ROLES \<Longrightarrow> w \<in> wids d'
     \<Longrightarrow> \<forall>w0. left = Some w0 \<longrightarrow> w0 \<noteq> w \<and> only_member d w0 u
     \<Longrightarrow> db_workspace_members d' = db_workspace_members (insert_member w u role t (after_leaving left u d)) \<Longrightarrow> effect who d d'"
| seeded: "db_workspace_members d = [] \<Longrightarrow> members_typed d' \<Longrightarrow> led d' \<Longrightarrow> effect who d d'"

lemma effect_typed:
  assumes "effect who d d'" "members_typed d" "wids d \<subseteq> wids d'"
  shows "members_typed d'"
proof -
  have widen: "members_typed d'" if "members_typed e" "db_workspace_members d' = db_workspace_members e" "wids e \<subseteq> wids d'" for e
    using that by (auto simp: members_typed_def member_typed_def wids_def)
  from assms(1) show ?thesis
  proof cases
    case same
    then show ?thesis using widen [OF assms(2)] assms(3) by simp
  next
    case (changed w am u m f)
    then have "members_typed (update_membership w u f d)" using assms(2) by (intro update_typed) (auto simp: keeps_rows_typed_def)
    then show ?thesis using changed assms(3) by (intro widen [of "update_membership w u f d"]) (auto simp: wids_def update_membership_def)
  next
    case (removed w am u m)
    then show ?thesis using delete_typed [OF assms(2)] assms(3) by (intro widen [of "delete_membership w u d"]) (auto simp: wids_def delete_membership_def)
  next
    case (left u w m)
    then show ?thesis using delete_typed [OF assms(2)] assms(3) by (intro widen [of "delete_membership w u d"]) (auto simp: wids_def delete_membership_def)
  next
    case (joined w u role left t)
    let ?d1 = "(after_leaving left u d)\<lparr>db_workspaces := db_workspaces d'\<rparr>"
    have "members_typed (after_leaving left u d)" using delete_typed assms(2) by (simp add: after_leaving_def split: option.split)
    moreover have "wids (after_leaving left u d) = wids d" by (simp add: after_leaving_def wids_def delete_membership_def split: option.split)
    ultimately have d1: "members_typed ?d1" using assms(3) by (auto simp: members_typed_def member_typed_def wids_def)
    have "membership ?d1 w u = None"
      using joined(1) by (auto simp: membership_None after_leaving_def delete_membership_def split: option.splits)
    then have "members_typed (insert_member w u role t ?d1)" using d1 joined by (intro insert_typed) (simp_all add: wids_def)
    then show ?thesis using joined by (intro widen [of "insert_member w u role t ?d1"]) (simp_all add: wids_def)
  next
    case seeded
    then show ?thesis by simp
  qed
qed

text \<open>An active owner: no effect takes the last one away from people who stay.\<close>

lemma after_leaving_members:
  "set (db_workspace_members (after_leaving left u d))
     = {m \<in> set (db_workspace_members d). \<forall>w0. left = Some w0 \<longrightarrow> wm_key m \<noteq> (w0, u)}"
  by (auto simp: after_leaving_def delete_membership_def wm_key_def split: option.splits)

lemma effect_keeps_owner:
  assumes "effect who d d'" "members_typed d" "active_owner d w m" "populated d' w"
  shows "\<exists>m'. active_owner d' w m'"
  using assms(1)
proof cases
  case same
  then show ?thesis using assms(3) by (auto simp: active_owner_def)
next
  case (changed w1 am u m1 f)
  have keep: "active_owner d' w m'" if "active_owner d w m'" "wm_key m' \<noteq> (w1, u)" for m'
    using that changed(7) by (force simp: active_owner_def update_membership_def wm_key_def)
  show ?thesis
  proof (cases "w1 = w")
    case True
    from assms(2,3) changed(2,3) obtain m' where "active_owner d w m'" "wm_user_id m' \<noteq> u"
      unfolding True by (rule guard_other)
    then show ?thesis using keep by (auto simp: wm_key_def)
  qed (use keep assms(3) in \<open>auto simp: active_owner_def wm_key_def\<close>)
next
  case (removed w1 am u m1)
  have keep: "active_owner d' w m'" if "active_owner d w m'" "wm_key m' \<noteq> (w1, u)" for m'
    using that removed(5) by (auto simp: active_owner_def delete_membership_def wm_key_def)
  show ?thesis
  proof (cases "w1 = w")
    case True
    from assms(2,3) removed(2,3) obtain m' where "active_owner d w m'" "wm_user_id m' \<noteq> u"
      unfolding True by (rule guard_other)
    then show ?thesis using keep by (auto simp: wm_key_def)
  qed (use keep assms(3) in \<open>auto simp: active_owner_def wm_key_def\<close>)
next
  case (left u w1 m1)
  have "m = m1" if "wm_key m = (w1, u)"
    using that assms(3) membership_in [OF left(2)] by (intro same_key [OF assms(2)]) (simp_all add: active_owner_def)
  then have "wm_key m \<noteq> (w1, u)" using assms(3) left(3) by (auto simp: active_owner_def)
  then show ?thesis using assms(3) left(4) by (auto simp: active_owner_def delete_membership_def wm_key_def)
next
  case (joined w1 u role left t)
  have "\<not> (left = Some w \<and> wm_user_id m = u)"
    using joined(5,6) assms(4) by (auto simp: populated_def only_member_def after_leaving_members wm_key_def)
  then show ?thesis using assms(3) joined(6) by (auto simp: active_owner_def after_leaving_members wm_key_def)
next
  case seeded
  then show ?thesis using assms(3) by (simp add: active_owner_def)
qed

lemma managed_not_plain: "managed_by d w who am \<Longrightarrow> \<not> plain_shared d w"
  using membership_in by (fastforce simp: managed_by_def plain_shared_def can_manage_def MANAGER_ROLES_def wm_key_def)

lemma managed_populated: "managed_by d w who am \<Longrightarrow> populated d w"
  using membership_in by (fastforce simp: managed_by_def populated_def wm_key_def)

text \<open>Where there is no active owner, what comes next has one, or is the shared workspace with plain members.\<close>

lemma effect_without_owner:
  assumes "effect who d d'" "led d" "places d \<subseteq> places d'" "\<nexists>m. active_owner d w m" "populated d' w"
  shows "(\<exists>m. active_owner d' w m) \<or> plain_shared d' w"
proof -
  have plain: "plain_shared d w" if "populated d w" using ledD [OF assms(2) that] assms(4) by blast
  have unmanaged: "\<not> managed_by d w who am" for am using plain managed_populated managed_not_plain by blast
  have still: "plain_shared d' w" if "plain_shared d w" "\<forall>m \<in> set (db_workspace_members d'). wm_workspace_id m = w \<longrightarrow>
      m \<in> set (db_workspace_members d) \<or> wm_role m = ''member''" 
    using that assms(3) by (auto simp: plain_shared_def)
  have sub: ?thesis if "\<forall>m \<in> set (db_workspace_members d'). wm_workspace_id m = w \<longrightarrow> m \<in> set (db_workspace_members d)"
    using that still plain assms(5) by (auto simp: populated_def)
  from assms(1) show ?thesis
  proof cases
    case same
    then show ?thesis by (intro sub) simp
  next
    case (changed w1 am u m f)
    then have "w1 \<noteq> w" using unmanaged by blast
    then show ?thesis using changed(6,7) by (intro sub) (auto simp: update_membership_def keeps_rows_typed_def wm_key_def)
  next
    case (removed w1 am u m)
    then show ?thesis by (intro sub) (auto simp: delete_membership_def)
  next
    case (left u w1 m)
    then show ?thesis by (intro sub) (auto simp: delete_membership_def)
  next
    case (joined w1 u role left t)
    show ?thesis
    proof (cases "w1 = w")
      case True
      then consider (member) "role = ''member''" "plain_shared d w" | (owner) "role = ''owner''"
        using joined(2) unmanaged assms(4) by (auto simp: may_join_def)
      then show ?thesis
      proof cases
        case member
        then show ?thesis using joined(6) still by (auto simp: after_leaving_members)
      next
        case owner
        then have "active_owner d' w (last (db_workspace_members d'))"
          using joined(6) True by (simp add: active_owner_def is_active_def)
        then show ?thesis by blast
      qed
    qed (use joined(6) in \<open>intro sub, auto simp: after_leaving_members\<close>)
  next
    case seeded
    then show ?thesis using ledD assms(5) by blast
  qed
qed

lemma effect_led:
  assumes "effect who d d'" "members_typed d" "led d" "places d \<subseteq> places d'"
  shows "led d'"
  using effect_keeps_owner [OF assms(1,2)] effect_without_owner [OF assms(1,3,4)] unfolding led_def by blast

text \<open>Who becomes an owner is made one by an active owner.\<close>

definition owner_in :: "db \<Rightarrow> int \<Rightarrow> int \<Rightarrow> bool" where
  "owner_in d w u \<longleftrightarrow> (\<exists>m \<in> set (db_workspace_members d). wm_key m = (w, u) \<and> wm_role m = ''owner'')"

lemma rank_owner: "3 \<le> rank_of role \<Longrightarrow> role \<in> set WORKSPACE_ROLES \<Longrightarrow> role = ''owner''"
  by (auto simp: rank_of_def role_rank_def WORKSPACE_ROLES_def)

lemma rank_of_owner [simp]: "rank_of ''owner'' = 3"
  by (simp add: rank_of_def role_rank_def)

lemma managed_role: "members_typed d \<Longrightarrow> managed_by d w who am \<Longrightarrow> wm_role am \<in> set WORKSPACE_ROLES"
  using membership_in by (fastforce simp: managed_by_def members_typed_def member_typed_def)

lemma owner_in_sub: "set (db_workspace_members d') \<subseteq> set (db_workspace_members d) \<Longrightarrow> owner_in d' w u \<Longrightarrow> owner_in d w u"
  by (auto simp: owner_in_def)

lemma effect_new_owner:
  assumes "effect who d d'" "members_typed d" "populated d w" "owner_in d' w u" "\<not> owner_in d w u"
  shows "(\<exists>am. managed_by d w who am \<and> wm_role am = ''owner'') \<or> (who = None \<and> plain_shared d w \<and> membership d w u = None)"
  using assms(1)
proof cases
  case same
  then show ?thesis using assms(4,5) by (simp add: owner_in_def)
next
  case (changed w1 am u1 m f)
  obtain m' where m': "m' \<in> set (db_workspace_members d')" "wm_key m' = (w, u)" "wm_role m' = ''owner''"
    using assms(4) by (auto simp: owner_in_def)
  then obtain m0 where m0: "m0 \<in> set (db_workspace_members d)" "m' = (if wm_key m0 = (w1, u1) then f m0 else m0)"
    using changed(7) by (auto simp: update_membership_def wm_key_def)
  have key: "wm_key m0 = (w1, u1)" using m0 m' assms(5) by (auto simp: owner_in_def split: if_splits)
  then have "m0 = m" using membership_in [OF changed(2)] m0(1) by (intro same_key [OF assms(2)]) simp_all
  then have "w = w1" "wm_role (f m) = ''owner''" using key m0 m' changed(6) by (auto simp: keeps_rows_typed_def)
  then show ?thesis using changed(1,5) managed_role [OF assms(2) changed(1)] rank_owner by auto
next
  case (removed w1 am u1 m)
  have "owner_in d w u" by (rule owner_in_sub [OF _ assms(4)]) (auto simp: removed(5) delete_membership_def)
  then show ?thesis using assms(5) by simp
next
  case (left u1 w1 m)
  have "owner_in d w u" by (rule owner_in_sub [OF _ assms(4)]) (auto simp: left(4) delete_membership_def)
  then show ?thesis using assms(5) by simp
next
  case (joined w1 u1 role left t)
  have new: "w = w1" "u = u1" "role = ''owner''"
    using assms(4,5) joined(6) by (auto simp: owner_in_def wm_key_def after_leaving_members)
  then consider (managed) am where "managed_by d w who am" "rank_of role \<le> rank_of (wm_role am)" | (operator) "who = None" "plain_shared d w"
    using joined(2) assms(3) by (auto simp: may_join_def)
  then show ?thesis
  proof cases
    case managed
    then show ?thesis using new rank_owner managed_role [OF assms(2) managed(1)] by auto
  next
    case operator
    then show ?thesis using new joined(1) by simp
  qed
next
  case seeded
  then show ?thesis using assms(3) by (simp add: populated_def)
qed

section \<open>What each operation does\<close>

text \<open>The parts a step has: it leaves the rest of the database alone, it keeps the workspaces, and its
  effect on the members is one of those above.\<close>

definition sound_step :: "int option \<Rightarrow> db \<Rightarrow> db \<Rightarrow> bool" where
  "sound_step who d d' \<longleftrightarrow> quiet d d' \<and> places d \<subseteq> places d' \<and> effect who d d'"

lemma wids_places: "wids d = fst ` places d"
  by (force simp: wids_def places_def)

lemma places_wids: "places d \<subseteq> places d' \<Longrightarrow> wids d \<subseteq> wids d'"
  unfolding wids_places by blast

lemma places_tables [simp]:
  "places (workspace_event env now event w a payload d) = places d" "places (vault_event env now event payload a v d) = places d"
  "places (insert_member w u role t d) = places d" "places (delete_membership w u d) = places d"
  "places (update_membership w u f d) = places d" "places (update_invitation i h d) = places d"
  by (simp_all add: places_def insert_member_def delete_membership_def update_membership_def update_invitation_def)

lemma wids_tables [simp]:
  "wids (workspace_event env now event w a payload d) = wids d" "wids (vault_event env now event payload a v d) = wids d"
  "wids (insert_member w u role t d) = wids d" "wids (delete_membership w u d) = wids d"
  "wids (update_membership w u f d) = wids d" "wids (update_invitation i h d) = wids d"
  by (simp_all add: wids_places)

lemma update_workspace_places:
  "(\<And>w. w_id (f w) = w_id w \<and> w_slug (f w) = w_slug w) \<Longrightarrow> places (update_workspace i f d) = places d"
proof -
  assume "\<And>w. w_id (f w) = w_id w \<and> w_slug (f w) = w_slug w"
  then have "map (\<lambda>w. (w_id w, w_slug w)) (db_workspaces (update_workspace i f d)) = map (\<lambda>w. (w_id w, w_slug w)) (db_workspaces d)"
    by (simp add: update_workspace_def)
  then show ?thesis unfolding places_def by (metis list.set_map)
qed

lemma require_manager_Inr: "require_manager d w a = Inr am \<Longrightarrow> managed_by d w (Some a) am"
  by (auto simp: require_manager_def managed_by_def split: option.splits if_splits)

lemma require_member_Inr: "require_member d w u = Inr m \<longleftrightarrow> membership d w u = Some m"
  by (auto simp: require_member_def split: option.splits)

lemma require_rank_Inr: "require_rank am role = Inr x \<longleftrightarrow> rank_of role \<le> rank_of (wm_role am)"
  by (simp add: require_rank_def rank_of_def)

lemmas workspace_guards = bindE_Inr require_member_Inr require_rank_Inr

lemma status_typed: "s \<in> set MEMBER_STATUSES \<Longrightarrow> keeps_rows_typed (wm_status_update (\<lambda>_. s))"
  by (simp add: keeps_rows_typed_def wm_key_def member_typed_def)

lemma role_typed: "r \<in> set WORKSPACE_ROLES \<Longrightarrow> keeps_rows_typed (wm_role_update (\<lambda>_. r))"
  by (simp add: keeps_rows_typed_def wm_key_def member_typed_def)

lemma sound_same: "quiet d d' \<Longrightarrow> places d \<subseteq> places d' \<Longrightarrow> db_workspace_members d' = db_workspace_members d \<Longrightarrow> sound_step who d d'"
  by (simp add: sound_step_def effect.same)

lemma change_role_step:
  assumes "change_role env now w u role a d = Inr d'"
  shows "sound_step (Some a) d d'"
proof -
  obtain am m where c: "role \<in> set WORKSPACE_ROLES" "require_manager d w a = Inr am" "membership d w u = Some m"
    "d' = d \<or> rank_of (wm_role m) \<le> rank_of (wm_role am) \<and> rank_of role \<le> rank_of (wm_role am)
       \<and> guard_last_owner d w m = Inr () \<and> (\<exists>p. d' = workspace_event env now ''workspace_role_changed'' w a p
            (update_membership w u (wm_role_update (\<lambda>_. role)) d))"
    using assms by (auto simp: change_role_def workspace_guards split: if_splits)
  from c(4) show ?thesis
  proof (elim disjE conjE exE)
    fix p assume g: "rank_of (wm_role m) \<le> rank_of (wm_role am)" "rank_of role \<le> rank_of (wm_role am)"
      "guard_last_owner d w m = Inr ()" "d' = workspace_event env now ''workspace_role_changed'' w a p
            (update_membership w u (wm_role_update (\<lambda>_. role)) d)"
    have "effect (Some a) d d'"
      by (rule effect.changed [OF require_manager_Inr [OF c(2)] c(3) g(3,1) _ role_typed [OF c(1)]]) (simp_all add: g)
    then show ?thesis by (simp add: sound_step_def g(4) quiet_workspace_event)
  qed (simp add: sound_same)
qed

lemma remove_step:
  assumes "remove_from_workspace env now w u a d = Inr d'"
  shows "sound_step (Some a) d d'"
proof -
  obtain am m p where c: "require_manager d w a = Inr am" "membership d w u = Some m"
    "rank_of (wm_role m) \<le> rank_of (wm_role am)" "guard_last_owner d w m = Inr ()"
    "d' = workspace_event env now ''workspace_member_removed'' w a p (delete_membership w u d)"
    using assms by (auto simp: remove_from_workspace_def workspace_guards Let_def split: if_splits)
  have "effect (Some a) d d'"
    by (rule effect.removed [OF require_manager_Inr [OF c(1)] c(2,4,3)]) (simp add: c)
  then show ?thesis by (simp add: sound_step_def c(5) quiet_workspace_event)
qed

lemma suspend_step:
  assumes "suspend_member env now w u a d = Inr d'"
  shows "sound_step (Some a) d d'"
proof -
  obtain am m p where c: "require_manager d w a = Inr am" "membership d w u = Some m"
    "rank_of (wm_role m) \<le> rank_of (wm_role am)" "guard_last_owner d w m = Inr ()"
    "d' = workspace_event env now ''workspace_member_suspended'' w a p (update_membership w u (wm_status_update (\<lambda>_. ''suspended'')) d)"
    using assms by (auto simp: suspend_member_def workspace_guards)
  have "effect (Some a) d d'"
    by (rule effect.changed [OF require_manager_Inr [OF c(1)] c(2,4,3) _ status_typed [of "''suspended''"]])
      (simp_all add: c MEMBER_STATUSES_def)
  then show ?thesis by (simp add: sound_step_def c(5) quiet_workspace_event)
qed

lemma reinstate_step:
  assumes "reinstate_member env now w u a d = Inr d'"
  shows "sound_step (Some a) d d'"
proof -
  obtain am m p where c: "require_manager d w a = Inr am" "membership d w u = Some m"
    "rank_of (wm_role m) \<le> rank_of (wm_role am)" "\<not> is_active m"
    "d' = workspace_event env now ''workspace_member_reinstated'' w a p (update_membership w u (wm_status_update (\<lambda>_. ''active'')) d)"
    using assms by (auto simp: reinstate_member_def workspace_guards)
  have g: "guard_last_owner d w m = Inr ()" using c(4) by (simp add: guard_last_owner_def)
  have "effect (Some a) d d'"
    by (rule effect.changed [OF require_manager_Inr [OF c(1)] c(2) g c(3) _ status_typed [of "''active''"]])
      (simp_all add: c MEMBER_STATUSES_def)
  then show ?thesis by (simp add: sound_step_def c(5) quiet_workspace_event)
qed

lemma leave_step:
  assumes "leave_workspace env now w u d = Inr d'"
  shows "sound_step (Some u) d d'"
proof -
  obtain m p where c: "membership d w u = Some m" "wm_role m \<noteq> ''owner''"
    "d' = workspace_event env now ''workspace_member_left'' w u p (delete_membership w u d)"
    using assms by (auto simp: leave_workspace_def workspace_guards Let_def split: if_splits)
  have "effect (Some u) d d'" by (rule effect.left [OF refl c(1,2)]) (simp add: c)
  then show ?thesis by (simp add: sound_step_def c(3) quiet_workspace_event)
qed

text \<open>Settings, and new workspaces.\<close>

lemma workspace_row_step:
  assumes "\<And>w. w_id (f w) = w_id w \<and> w_slug (f w) = w_slug w"
  shows "sound_step who d (update_workspace i f d)"
    "event \<noteq> ''proposal_created'' \<Longrightarrow> sound_step who d (workspace_event env now event i a p (update_workspace i f d))"
proof -
  have "db_workspace_members (update_workspace i f d) = db_workspace_members d" by (simp add: update_workspace_def)
  then show "sound_step who d (update_workspace i f d)"
    "event \<noteq> ''proposal_created'' \<Longrightarrow> sound_step who d (workspace_event env now event i a p (update_workspace i f d))"
    using update_workspace_places [OF assms, of i d] by (simp_all add: sound_same quiet_workspace_event)
qed

lemma rename_step: "rename_workspace env now w name a d = Inr d' \<Longrightarrow> sound_step (Some a) d d'"
  by (auto simp: rename_workspace_def bindE_Inr sound_same intro!: workspace_row_step split: if_splits)

lemma defaults_step: "set_vault_defaults env now w sod a d = Inr d' \<Longrightarrow> sound_step (Some a) d d'"
  by (auto simp: set_vault_defaults_def bindE_Inr sound_same intro!: workspace_row_step split: if_splits)

lemma dismiss_step: "dismiss_checklist now w a d = Inr d' \<Longrightarrow> sound_step (Some a) d d'"
  by (auto simp: dismiss_checklist_def bindE_Inr intro!: workspace_row_step)

lemma insert_workspace_fields:
  assumes "insert_workspace name slug t d = (w, d')"
  shows "w_id w \<notin> wids d" "places d' = insert (w_id w, slug) (places d)" "db_workspace_members d' = db_workspace_members d"
    "quiet d d'" "w_slug w = slug" "db_workspaces d' = db_workspaces d @ [w]"
  using assms next_id_fresh [of "map w_id (db_workspaces d)"] quiet_tables(8) [where name=name and slug=slug and t=t and d=d]
  by (auto simp: insert_workspace_def wids_def places_def Let_def)

lemma fresh_unpopulated: "members_typed d \<Longrightarrow> w \<notin> wids d \<Longrightarrow> \<not> populated d w \<and> membership d w u = None"
  by (auto simp: members_typed_def member_typed_def wids_def populated_def membership_None wm_key_def)

lemma membership_cong: "db_workspace_members d' = db_workspace_members d \<Longrightarrow> membership d' = membership d"
  by (intro ext) (simp add: membership_def)

lemma founded_step:
  assumes "members_typed d" "insert_workspace name slug t d = (w, d1)" "quiet d1 d'" "places d' = places d1"
    "db_workspace_members d' = db_workspace_members (insert_member (w_id w) u ''owner'' now d1)"
  shows "sound_step who d d'"
proof -
  note f = insert_workspace_fields [OF assms(2)]
  have free: "\<not> populated d (w_id w)" "membership d (w_id w) u = None" using fresh_unpopulated [OF assms(1) f(1)] by auto
  have "effect who d d'"
    by (rule effect.joined [where left = None, OF free(2)])
      (simp_all add: may_join_def free WORKSPACE_ROLES_def assms(4,5) f after_leaving_def wids_places)
  then show ?thesis using f assms quiet_trans by (auto simp: sound_step_def)
qed

lemma create_workspace_step:
  assumes "create_workspace env now name u d = Inr (w, d')" "members_typed d"
  shows "sound_step who d d'"
proof -
  obtain name' slug where n: "clean_workspace_name env (Some name) = Inr name'" "slug_for env d name' = Some slug"
    using assms(1) by (auto simp: create_workspace_def bindE_Inr split: option.splits)
  obtain w1 d1 where i: "insert_workspace name' slug now d = (w1, d1)" by fastforce
  have c: "insert_workspace name' slug now d = (w, d1)"
    "d' = workspace_event env now ''workspace_created'' (w_id w) u [(''name'', JStr name')] (insert_member (w_id w) u ''owner'' now d1)"
    using assms(1) n i by (auto simp: create_workspace_def)
  show ?thesis
    by (rule founded_step [OF assms(2) c(1)]) (simp_all add: c(2) quiet_workspace_event)
qed

lemma shared_led: "shared_workspace d = Some w \<Longrightarrow> led d \<Longrightarrow> (\<exists>m. active_owner d (w_id w) m) \<or> plain_shared d (w_id w)"
  using ledD shared_place by (fastforce simp: plain_shared_def populated_def)

lemma shared_wid: "shared_workspace d = Some w \<Longrightarrow> w_id w \<in> wids d"
  unfolding wids_places by (drule shared_place) force

lemma placed_step:
  assumes "members_typed d" "led d" "\<forall>w. shared_workspace d = Some w \<longrightarrow> membership d (w_id w) u = None"
  shows "sound_step None d (join_shared_workspace now u d)"
proof (cases "shared_workspace d")
  case None
  obtain w d1 where i: "insert_workspace DEFAULT_WORKSPACE_NAME DEFAULT_WORKSPACE_SLUG now d = (w, d1)" by fastforce
  show ?thesis
    by (rule founded_step [OF assms(1) i]) (simp_all add: join_shared_workspace_def None i)
next
  case (Some w)
  have "effect None d (join_shared_workspace now u d)"
    using assms(3) Some shared_led [OF Some assms(2)] shared_wid [OF Some]
    by (intro effect.joined [where left = None and w = "w_id w" and u = u and role = "''member''"])
      (auto simp: join_shared_workspace_def may_join_def after_leaving_def WORKSPACE_ROLES_def)
  then show ?thesis using Some by (simp add: sound_step_def join_shared_workspace_def)
qed

text \<open>Leaving a vacant workspace to join another.\<close>

lemma make_room_cases:
  assumes "make_room_to_join env now u w d = Inr (left, d1)" "members_typed d" "membership d w u = None"
  obtains (stays) "left = None" "d1 = d"
    | (moves) w0 p where "left = Some w0" "w0 \<noteq> w" "only_member d w0 u"
        "d1 = workspace_event env now ''workspace_member_left'' w0 u p (delete_membership w0 u d)"
proof (cases "workspace_to_leave now d u w")
  case None
  then show thesis using assms(1) stays by (simp add: make_room_to_join_def)
next
  case (Some r)
  obtain m vacant where r: "r = (m, vacant)" by (cases r)
  have vacant: vacant using assms(1) by (simp add: make_room_to_join_def Some r split: if_split_asm)
  have w: "wm_workspace_id m \<noteq> w" using Some r by (auto simp: workspace_to_leave_def filter_eq_Cons_iff split: list.splits)
  have "is_vacant_for now d (wm_workspace_id m) u" using Some r vacant by (simp add: workspace_to_leave_def split: list.splits)
  then have only: "only_member d (wm_workspace_id m) u" by (auto simp: is_vacant_for_def only_member_def)
  show thesis
    using assms(1) vacant w only
    by (intro moves [of "wm_workspace_id m" "[(''user_id'', JInt u), (''role'', JStr (wm_role m)), (''moved_to'', JInt w)]"])
      (simp_all add: make_room_to_join_def Some r)
qed

lemma joined_step:
  assumes "make_room_to_join env now u w d = Inr (left, d1)" "members_typed d" "membership d w u = None"
    "may_join d who w role" "role \<in> set WORKSPACE_ROLES" "w \<in> wids d"
    "quiet d1 d'" "places d' = places d1" "db_workspace_members d' = db_workspace_members (insert_member w u role t d1)"
  shows "sound_step who d d'"
  using assms(1-3)
proof (cases rule: make_room_cases)
  case stays
  have "effect who d d'"
    by (rule effect.joined [OF assms(3-5), where left = None]) (use assms stays in \<open>simp_all add: after_leaving_def wids_places\<close>)
  then show ?thesis using stays assms(7,8) by (simp add: sound_step_def)
next
  case (moves w0 p)
  have "effect who d d'"
    by (rule effect.joined [OF assms(3-5), where left = "Some w0"])
      (use assms moves in \<open>simp_all add: after_leaving_def insert_member_def wids_places\<close>)
  moreover have "quiet d d1" by (simp add: moves quiet_workspace_event)
  ultimately show ?thesis using moves assms(7,8) quiet_trans by (auto simp: sound_step_def)
qed

lemma adopted_step:
  assumes "join_shared_workspace_from env now u d = Inr (left, d')" "members_typed d" "led d"
  shows "sound_step None d d'"
proof (cases "shared_workspace d")
  case None
  obtain w d0 where i: "insert_workspace DEFAULT_WORKSPACE_NAME DEFAULT_WORKSPACE_SLUG now d = (w, d0)" by fastforce
  note f = insert_workspace_fields [OF i]
  have typed: "members_typed d0" using assms(2) f by (fastforce simp: members_typed_def member_typed_def simp flip: wids_def simp: wids_places)
  have free: "\<not> populated d0 (w_id w)" "membership d0 (w_id w) u = None"
    using fresh_unpopulated [OF assms(2) f(1)] f(3) by (auto simp: populated_def membership_None)
  obtain d1 where d1: "make_room_to_join env now u (w_id w) d0 = Inr (left, d1)"
    "d' = insert_member (w_id w) u (if \<exists>m \<in> set (db_workspace_members d1). wm_workspace_id m = w_id w \<and> wm_role m = ''owner''
       then ''member'' else ''owner'') now d1"
    using assms(1) by (auto simp: join_shared_workspace_from_def None i bindE_Inr Let_def)
  have "set (db_workspace_members d1) \<subseteq> set (db_workspace_members d0)"
    using d1(1) typed free(2) by (cases rule: make_room_cases) (auto simp: delete_membership_def)
  then have d': "d' = insert_member (w_id w) u ''owner'' now d1" using d1(2) free(1) by (auto simp: populated_def)
  have here: "membership d (w_id w) u = None" "may_join d None (w_id w) ''owner''"
    using free(1) f(3) free(2) membership_cong [OF f(3)] by (auto simp: may_join_def populated_def)
  have rows: "db_workspace_members d' = db_workspace_members (insert_member (w_id w) u ''owner'' now (after_leaving left u d))
      \<and> (\<forall>w0. left = Some w0 \<longrightarrow> w0 \<noteq> w_id w \<and> only_member d w0 u) \<and> quiet d0 d' \<and> places d' = places d0"
    using d1(1) typed free(2)
  proof (cases rule: make_room_cases)
    case (moves w0 p)
    have "quiet d0 d'" unfolding d' moves(4) by (rule quiet_trans [OF quiet_workspace_event [OF _ quiet_tables(2)] quiet_tables(1)]) simp
    moreover have "places d' = places d0" by (simp add: d' moves(4))
    ultimately show ?thesis
      using moves f(3) by (simp add: d' after_leaving_def insert_member_def delete_membership_def only_member_def)
  next
    case stays
    then have "quiet d0 d'" "places d' = places d0" by (simp_all add: d')
    then show ?thesis using stays f(3) by (simp add: d' after_leaving_def)
  qed
  have "effect None d d'"
    by (rule effect.joined [OF here]) (use rows f(2) in \<open>simp_all add: WORKSPACE_ROLES_def wids_places\<close>)
  then show ?thesis using rows f(2,4) quiet_trans by (auto simp: sound_step_def)
next
  case (Some w)
  show ?thesis
  proof (cases "membership d (w_id w) u")
    case None
    obtain d1 where d1: "make_room_to_join env now u (w_id w) d = Inr (left, d1)"
      "d' = insert_member (w_id w) u (if \<exists>m \<in> set (db_workspace_members d1). wm_workspace_id m = w_id w \<and> wm_role m = ''owner''
         then ''member'' else ''owner'') now d1"
      using assms(1) by (auto simp: join_shared_workspace_from_def Some None bindE_Inr Let_def)
    have same: "{m \<in> set (db_workspace_members d1). wm_workspace_id m = w_id w} = {m \<in> set (db_workspace_members d). wm_workspace_id m = w_id w}"
      using d1(1) assms(2) None by (cases rule: make_room_cases) (auto simp: delete_membership_def)
    have rows: "(\<exists>m \<in> set (db_workspace_members d1). wm_workspace_id m = w_id w \<and> wm_role m = ''owner'')
        \<longleftrightarrow> (\<exists>m \<in> set (db_workspace_members d). wm_workspace_id m = w_id w \<and> wm_role m = ''owner'')"
      using same by blast
    have "may_join d None (w_id w) (if \<exists>m \<in> set (db_workspace_members d1). wm_workspace_id m = w_id w \<and> wm_role m = ''owner''
         then ''member'' else ''owner'')"
      unfolding rows using shared_led [OF Some assms(3)] by (auto simp: may_join_def plain_shared_def active_owner_def)
    then show ?thesis
      by (intro joined_step [OF d1(1) assms(2) None]) (simp_all add: d1(2) WORKSPACE_ROLES_def shared_wid [OF Some])
  next
    case (Some m)
    then show ?thesis using assms(1) \<open>shared_workspace d = Some w\<close> by (simp add: join_shared_workspace_from_def sound_same)
  qed
qed

text \<open>The first workspace of a database that had none.\<close>

lemma fold_insert_members:
  fixes role :: "user_row \<Rightarrow> ustr" and us :: "user_row list" and w :: int
  defines "put \<equiv> \<lambda>u. insert_member w (u_id u) (role u) (u_created_at u)"
  assumes "members_typed d" "distinct (map u_id us)" "\<forall>u \<in> set us. membership d w (u_id u) = None \<and> role u \<in> set WORKSPACE_ROLES"
    "w \<in> w_id ` set (db_workspaces d)"
  shows "members_typed (fold put us d) \<and> db_workspaces (fold put us d) = db_workspaces d \<and> quiet d (fold put us d)
    \<and> set (db_workspace_members d) \<subseteq> set (db_workspace_members (fold put us d))
    \<and> (\<forall>m \<in> set (db_workspace_members (fold put us d)). m \<in> set (db_workspace_members d) \<or> wm_workspace_id m = w)
    \<and> (\<forall>u \<in> set us. \<exists>m \<in> set (db_workspace_members (fold put us d)). wm_key m = (w, u_id u) \<and> wm_role m = role u \<and> is_active m)"
  using assms(2-)
proof (induction us arbitrary: d)
  case (Cons u us)
  have d1: "members_typed (put u d)" unfolding put_def using Cons.prems by (intro insert_typed) simp_all
  have "\<forall>u' \<in> set us. membership (put u d) w (u_id u') = None \<and> role u' \<in> set WORKSPACE_ROLES"
    using Cons.prems by (auto simp: put_def membership_None wm_key_def)
  note keys = this
  have ws: "db_workspaces (put u d) = db_workspaces d" by (simp add: put_def)
  have dist: "distinct (map u_id us)" and w: "w \<in> w_id ` set (db_workspaces (put u d))" using Cons.prems(2,4) ws by simp_all
  note all = Cons.IH [OF d1 dist keys w, unfolded ws]
  note IH = all [THEN conjunct1]
    all [THEN conjunct2, THEN conjunct1]
    all [THEN conjunct2, THEN conjunct2, THEN conjunct1]
    all [THEN conjunct2, THEN conjunct2, THEN conjunct2, THEN conjunct1]
    all [THEN conjunct2, THEN conjunct2, THEN conjunct2, THEN conjunct2, THEN conjunct1]
    all [THEN conjunct2, THEN conjunct2, THEN conjunct2, THEN conjunct2, THEN conjunct2]
  have q: "quiet d (put u d)" by (simp add: put_def)
  have rows: "set (db_workspace_members d) \<subseteq> set (db_workspace_members (put u d))"
    "\<forall>m \<in> set (db_workspace_members (put u d)). m \<in> set (db_workspace_members d) \<or> wm_workspace_id m = w"
    by (auto simp: put_def)
  have new: "\<exists>m \<in> set (db_workspace_members (put u d)). wm_key m = (w, u_id u) \<and> wm_role m = role u \<and> is_active m"
    by (simp add: put_def wm_key_def is_active_def)
  then have new': "\<exists>m \<in> set (db_workspace_members (fold put us (put u d))). wm_key m = (w, u_id u) \<and> wm_role m = role u \<and> is_active m"
    using IH(4) by blast
  show ?case
    unfolding fold_simps(2)
    using IH(1,2) quiet_trans [OF q IH(3)] subset_trans [OF rows(1) IH(4)] IH(5) rows(2) IH(6) new' by auto
qed simp

lemma default_step:
  assumes "ensure_default_workspace d = (r, d')" "members_typed d" "distinct (map u_id (db_users d))"
  shows "sound_step who d d'"
proof (cases "db_workspaces d \<noteq> [] \<or> db_users d = []")
  case True
  then show ?thesis using assms(1) by (auto simp: ensure_default_workspace_def sound_same split: list.splits if_splits)
next
  case False
  then have "db_workspaces d = []" by simp
  then have none: "db_workspace_members d = []" using assms(2) by (cases "db_workspace_members d") (auto simp: members_typed_def member_typed_def)
  define users where "users = sort_key (\<lambda>u. (u_created_at u, u_id u)) (db_users d)"
  have users: "users \<noteq> []" "distinct (map u_id users)" using False assms(3) by (auto simp: users_def distinct_map simp flip: set_empty)
  then obtain first rest where u: "users = first # rest" by (cases users) auto
  define owner where "owner = first_owner users"
  have "owner \<in> set users"
    using users(1) hd_in_set [of "filter (\<lambda>u. u_role u = ''admin'') users"] by (auto simp: owner_def first_owner_def Let_def)
  obtain w d1 where i: "insert_workspace DEFAULT_WORKSPACE_NAME DEFAULT_WORKSPACE_SLUG (u_created_at first) d = (w, d1)" by fastforce
  note f = insert_workspace_fields [OF i]
  let ?role = "\<lambda>u. if u_id u = u_id owner then ''owner'' else ''member''"
  have d': "d' = fold (\<lambda>u. insert_member (w_id w) (u_id u) (?role u) (u_created_at u)) users d1"
    using assms(1) False i u by (simp add: ensure_default_workspace_def owner_def Let_def flip: users_def split del: if_split)
  have all: "members_typed d1" "\<forall>u \<in> set users. membership d1 (w_id w) (u_id u) = None \<and> ?role u \<in> set WORKSPACE_ROLES"
    "w_id w \<in> w_id ` set (db_workspaces d1)"
    using none f by (simp_all add: members_typed_def membership_None WORKSPACE_ROLES_def)
  note put = fold_insert_members [OF all(1) users(2) all(2,3), folded d']
  have "led d'"
  proof -
    have "\<exists>m. active_owner d' w' m" if "populated d' w'" for w'
    proof -
      have "w' = w_id w" using that put none f(3) by (auto simp: populated_def)
      moreover obtain m where "m \<in> set (db_workspace_members d')" "wm_key m = (w_id w, u_id owner)" "wm_role m = ?role owner" "is_active m"
        using put \<open>owner \<in> set users\<close> by blast
      ultimately show ?thesis by (auto simp: active_owner_def wm_key_def)
    qed
    then show ?thesis by (auto simp: led_def)
  qed
  then have "effect who d d'" using none put by (intro effect.seeded) simp_all
  moreover have "quiet d d'" using quiet_trans f(4) put by blast
  moreover have "places d \<subseteq> places d'" using put f by (auto simp: places_def)
  ultimately show ?thesis by (simp add: sound_step_def)
qed

end
