(* ===== verification/Vault_Proofs.thy ===== *)
theory Vault_Proofs
  imports Workspace_Proofs
begin

text \<open>
  What the operations on a vault can do to its members and its threshold, and what that keeps: one row
  per vault and person, one owner per vault who stays, a threshold of at least one, and a quorum that
  can be reached once it could be.
\<close>

section \<open>The shape of the tables\<close>

definition VAULT_ROLES :: "ustr list" where "VAULT_ROLES = [''owner'', ''signer'', ''viewer'']"

definition vm_key :: "vault_member \<Rightarrow> int \<times> int" where
  "vm_key m = (vm_vault_id m, vm_user_id m)"

definition owner_row :: "vault_row \<Rightarrow> vault_member \<Rightarrow> bool" where
  "owner_row v m \<longleftrightarrow> vm_key m = (v_id v, v_owner_id v) \<and> vm_member_role m = ''owner''"

definition vaults_typed :: "db \<Rightarrow> bool" where
  "vaults_typed d \<longleftrightarrow>
     distinct (map vm_key (db_vault_members d)) \<and> distinct (map v_id (db_vaults d))
     \<and> (\<forall>m \<in> set (db_vault_members d). vm_member_role m \<in> set VAULT_ROLES \<and> vm_vault_id m \<in> v_id ` set (db_vaults d))
     \<and> (\<forall>v \<in> set (db_vaults d). 1 \<le> v_threshold_m v \<and> (\<exists>m \<in> set (db_vault_members d). owner_row v m))
     \<and> (\<forall>v \<in> set (db_vaults d). \<forall>m \<in> set (db_vault_members d).
          vm_vault_id m = v_id v \<and> vm_member_role m = ''owner'' \<longrightarrow> vm_user_id m = v_owner_id v)"

definition approvers :: "db \<Rightarrow> int \<Rightarrow> int" where
  "approvers d i = int (length (signer_members d i))"

definition quorum_reachable :: "db \<Rightarrow> int \<Rightarrow> bool" where
  "quorum_reachable d i \<longleftrightarrow> (\<exists>v \<in> set (db_vaults d). v_id v = i \<and> v_threshold_m v \<le> approvers d i)"

lemma approvers_count:
  "approvers d i = int (length (filter (\<lambda>m. vm_vault_id m = i \<and> is_approver m) (db_vault_members d)))"
  by (simp add: approvers_def signer_members_def vault_members_def conj_commute)

lemma vault_member_of_Some: "vault_member_of d i u = Some m \<Longrightarrow> m \<in> set (db_vault_members d) \<and> vm_key m = (i, u)"
  unfolding vault_member_of_def by (drule find_Some_in) (simp add: vm_key_def)

lemma not_member: "\<not> is_member d i u \<longleftrightarrow> (\<forall>m \<in> set (db_vault_members d). vm_key m \<noteq> (i, u))"
  by (auto simp: is_member_def vault_member_of_def find_None_iff vm_key_def)

lemma same_vm_key: "vaults_typed d \<Longrightarrow> m \<in> set (db_vault_members d) \<Longrightarrow> m' \<in> set (db_vault_members d)
    \<Longrightarrow> vm_key m = vm_key m' \<Longrightarrow> m = m'"
  by (auto simp: vaults_typed_def distinct_map inj_on_def)

lemma owner_exists: "vaults_typed d \<Longrightarrow> v \<in> set (db_vaults d) \<Longrightarrow> \<exists>m \<in> set (db_vault_members d). owner_row v m"
  by (simp add: vaults_typed_def)

section \<open>The effects\<close>

definition member_roles :: "ustr set" where
  "member_roles = {''signer'', ''viewer''}"

inductive vault_effect :: "db \<Rightarrow> db \<Rightarrow> bool" for d d' where
  same: "db_vaults d' = db_vaults d \<Longrightarrow> db_vault_members d' = db_vault_members d \<Longrightarrow> vault_effect d d'"
| added: "v \<in> set (db_vaults d) \<Longrightarrow> \<not> is_member d (v_id v) u \<Longrightarrow> role \<in> member_roles \<Longrightarrow> db_vaults d' = db_vaults d
    \<Longrightarrow> db_vault_members d' = db_vault_members d @ [\<lparr>vm_vault_id = v_id v, vm_user_id = u, vm_member_role = role\<rparr>] \<Longrightarrow> vault_effect d d'"
| changed: "v \<in> set (db_vaults d) \<Longrightarrow> vault_member_of d (v_id v) u = Some m \<Longrightarrow> vm_member_role m \<noteq> ''owner'' \<Longrightarrow> role \<in> member_roles
    \<Longrightarrow> role = ''viewer'' \<longrightarrow> guard_signer_count d v u = Inr () \<Longrightarrow> db_vaults d' = db_vaults d
    \<Longrightarrow> db_vault_members d' = db_vault_members (update_member (v_id v) u (vm_member_role_update (\<lambda>_. role)) d) \<Longrightarrow> vault_effect d d'"
| removed: "v \<in> set (db_vaults d) \<Longrightarrow> vault_member_of d (v_id v) u = Some m \<Longrightarrow> vm_member_role m \<noteq> ''owner''
    \<Longrightarrow> is_approver m \<longrightarrow> guard_signer_count d v u = Inr () \<Longrightarrow> db_vaults d' = db_vaults d
    \<Longrightarrow> db_vault_members d' = filter (\<lambda>m. \<not> (vm_vault_id m = v_id v \<and> vm_user_id m = u)) (db_vault_members d) \<Longrightarrow> vault_effect d d'"
| threshold: "v \<in> set (db_vaults d) \<Longrightarrow> 1 \<le> t \<Longrightarrow> t \<le> approvers d (v_id v) \<Longrightarrow> db_vault_members d' = db_vault_members d
    \<Longrightarrow> db_vaults d' = db_vaults (update_vault (v_id v) (v_threshold_m_update (\<lambda>_. t)) d) \<Longrightarrow> vault_effect d d'"
| created: "v_id v \<notin> v_id ` set (db_vaults d) \<Longrightarrow> 1 \<le> v_threshold_m v \<Longrightarrow> db_vaults d' = db_vaults d @ [v]
    \<Longrightarrow> db_vault_members d' = db_vault_members d @ [\<lparr>vm_vault_id = v_id v, vm_user_id = v_owner_id v, vm_member_role = ''owner''\<rparr>]
    \<Longrightarrow> vault_effect d d'"

lemma guard_signer_count_Inr: "guard_signer_count d v u = Inr () \<longleftrightarrow>
    v_threshold_m v \<le> int (length (filter (\<lambda>m. vm_vault_id m = v_id v \<and> is_approver m \<and> vm_user_id m \<noteq> u) (db_vault_members d)))"
  by (simp add: guard_signer_count_def Let_def signer_members_def vault_members_def conj_ac)

lemma vault_effect_typed:
  assumes "vault_effect d d'" "vaults_typed d"
  shows "vaults_typed d'"
  using assms(1)
proof cases
  case same
  then show ?thesis using assms(2) by (simp add: vaults_typed_def)
next
  case (added v u role)
  then show ?thesis
    using assms(2) by (auto simp: vaults_typed_def not_member member_roles_def VAULT_ROLES_def vm_key_def owner_row_def)
next
  case (changed v u m role)
  have m: "m \<in> set (db_vault_members d)" "vm_key m = (v_id v, u)" using vault_member_of_Some [OF changed(2)] by simp_all
  let ?g = "\<lambda>m. if vm_vault_id m = v_id v \<and> vm_user_id m = u then m\<lparr>vm_member_role := role\<rparr> else m"
  have rows: "db_vault_members d' = map ?g (db_vault_members d)" using changed(7) by (simp add: update_member_def)
  have keys: "map vm_key (db_vault_members d') = map vm_key (db_vault_members d)" unfolding rows by (simp add: vm_key_def)
  have stays: "?g x = x" if "x \<in> set (db_vault_members d)" "vm_member_role x = ''owner''" for x
  proof -
    have "vm_key x \<noteq> vm_key m" using same_vm_key [OF assms(2) that(1) m(1)] that(2) changed(3) by blast
    then show ?thesis using m(2) by (auto simp: vm_key_def)
  qed
  have owners: "m' \<in> set (db_vault_members d)" if "m' \<in> set (db_vault_members d')" "vm_member_role m' = ''owner''" for m'
    using that changed(4) by (auto simp: rows member_roles_def split: if_splits)
  have kept: "x \<in> set (db_vault_members d')" if "x \<in> set (db_vault_members d)" "vm_member_role x = ''owner''" for x
    using stays [OF that] that(1) unfolding rows by (force simp: image_iff)
  show ?thesis
    unfolding vaults_typed_def keys changed(6)
  proof (intro conjI ballI impI)
    fix m' assume "m' \<in> set (db_vault_members d')"
    then show "vm_member_role m' \<in> set VAULT_ROLES" "vm_vault_id m' \<in> v_id ` set (db_vaults d)"
      using assms(2) changed(4) imageI [OF changed(1), of v_id] by (auto simp: rows vaults_typed_def member_roles_def VAULT_ROLES_def)
  next
    fix v' assume v': "v' \<in> set (db_vaults d)"
    then obtain x where "x \<in> set (db_vault_members d)" "owner_row v' x" using owner_exists [OF assms(2)] by blast
    then show "\<exists>m \<in> set (db_vault_members d'). owner_row v' m" using kept by (auto simp: owner_row_def)
    show "1 \<le> v_threshold_m v'" using assms(2) v' by (auto simp: vaults_typed_def)
  next
    fix v' m' assume "v' \<in> set (db_vaults d)" "m' \<in> set (db_vault_members d')" "vm_vault_id m' = v_id v' \<and> vm_member_role m' = ''owner''"
    then show "vm_user_id m' = v_owner_id v'" using owners assms(2) by (auto simp: vaults_typed_def)
  qed (use assms(2) in \<open>simp_all add: vaults_typed_def\<close>)
next
  case (removed v u m)
  have m: "m \<in> set (db_vault_members d)" "vm_key m = (v_id v, u)" using vault_member_of_Some [OF removed(2)] by simp_all
  have kept: "x \<in> set (db_vault_members d')" if "x \<in> set (db_vault_members d)" "vm_member_role x = ''owner''" for x
  proof -
    have "vm_key x \<noteq> vm_key m" using same_vm_key [OF assms(2) that(1) m(1)] that(2) removed(3) by blast
    then show ?thesis using m(2) that(1) removed(6) by (simp add: vm_key_def)
  qed
  have "\<exists>m \<in> set (db_vault_members d'). owner_row v' m" if v': "v' \<in> set (db_vaults d)" for v'
  proof -
    obtain x where "x \<in> set (db_vault_members d)" "owner_row v' x" using owner_exists [OF assms(2) v'] by blast
    then show ?thesis using kept by (auto simp: owner_row_def)
  qed
  then show ?thesis using assms(2) removed(5,6) by (simp add: vaults_typed_def distinct_map_filter)
next
  case (threshold v t)
  have ids: "map v_id (db_vaults d') = map v_id (db_vaults d)" using threshold(5) by (simp add: update_vault_def)
  then have set_ids: "v_id ` set (db_vaults d') = v_id ` set (db_vaults d)" by (metis list.set_map)
  have old: "\<exists>v0 \<in> set (db_vaults d). v_id v' = v_id v0 \<and> v_owner_id v' = v_owner_id v0 \<and> 1 \<le> v_threshold_m v'"
    if v': "v' \<in> set (db_vaults d')" for v'
  proof -
    obtain v0 where v0: "v0 \<in> set (db_vaults d)" "v' = (if v_id v0 = v_id v then v0\<lparr>v_threshold_m := t\<rparr> else v0)"
      using v' threshold(5) by (auto simp: update_vault_def)
    then have "1 \<le> v_threshold_m v0" using assms(2) by (simp add: vaults_typed_def)
    then show ?thesis using v0 threshold(2) by (intro bexI [of _ v0]) auto
  qed
  show ?thesis
    unfolding vaults_typed_def ids set_ids threshold(4)
  proof (intro conjI ballI impI)
    fix v' assume "v' \<in> set (db_vaults d')"
    then obtain v0 where v0: "v0 \<in> set (db_vaults d)" "v_id v' = v_id v0" "v_owner_id v' = v_owner_id v0" "1 \<le> v_threshold_m v'"
      using old by blast
    then show "1 \<le> v_threshold_m v'" by simp
    show "\<exists>m \<in> set (db_vault_members d). owner_row v' m"
      using owner_exists [OF assms(2) v0(1)] v0(2,3) by (simp add: owner_row_def)
    fix m assume "m \<in> set (db_vault_members d)" "vm_vault_id m = v_id v' \<and> vm_member_role m = ''owner''"
    then show "vm_user_id m = v_owner_id v'" using v0 assms(2) by (simp add: vaults_typed_def)
  qed (use assms(2) in \<open>simp_all add: vaults_typed_def\<close>)
next
  case (created v)
  have in_ids: "vm_vault_id m \<in> v_id ` set (db_vaults d)" if "m \<in> set (db_vault_members d)" for m
    using assms(2) that by (simp add: vaults_typed_def)
  then have "\<forall>m \<in> set (db_vault_members d). vm_vault_id m \<noteq> v_id v" using created(1) by metis
  then show ?thesis using assms(2) created by (auto simp: vaults_typed_def owner_row_def vm_key_def VAULT_ROLES_def)
qed

section \<open>A quorum that can be reached stays one\<close>

lemma approver_roles: "is_approver m \<longleftrightarrow> vm_member_role m = ''owner'' \<or> vm_member_role m = ''signer''"
  by (simp add: is_approver_def SIGNER_ROLES_def)

lemma vault_effect_quorum:
  assumes "vault_effect d d'" "vaults_typed d" "quorum_reachable d i"
  shows "quorum_reachable d' i"
proof -
  obtain v0 where v0: "v0 \<in> set (db_vaults d)" "v_id v0 = i" "v_threshold_m v0 \<le> approvers d i"
    using assms(3) by (auto simp: quorum_reachable_def)
  have unique: "v = v0" if "v \<in> set (db_vaults d)" "v_id v = i" for v
    using that v0 assms(2) by (auto simp: vaults_typed_def distinct_map inj_on_def)
  let ?in = "\<lambda>m. vm_vault_id m = i \<and> is_approver m"
  from assms(1) show ?thesis
  proof cases
    case same
    then show ?thesis using assms(3) by (simp add: quorum_reachable_def approvers_count)
  next
    case (added v u role)
    then have "approvers d i \<le> approvers d' i" by (simp add: approvers_count)
    then show ?thesis using v0 added(4) by (auto simp: quorum_reachable_def)
  next
    case (changed v u m role)
    let ?g = "\<lambda>m. if vm_vault_id m = v_id v \<and> vm_user_id m = u then m\<lparr>vm_member_role := role\<rparr> else m"
    have len: "approvers d' i = int (length (filter (\<lambda>m. ?in (?g m)) (db_vault_members d)))"
      using changed(7) by (simp add: approvers_count update_member_def filter_map comp_def)
    show ?thesis
    proof (cases "v_id v = i \<and> role = ''viewer''")
      case True
      then have "v = v0" "guard_signer_count d v u = Inr ()" using unique changed(1,5) by auto
      then have "v_threshold_m v0 \<le> int (length (filter (\<lambda>m. ?in m \<and> vm_user_id m \<noteq> u) (db_vault_members d)))"
        using v0(2) by (simp add: guard_signer_count_Inr)
      also have "filter (\<lambda>m. ?in m \<and> vm_user_id m \<noteq> u) (db_vault_members d) = filter (\<lambda>m. ?in (?g m)) (db_vault_members d)"
        using True by (intro filter_cong) (auto simp: approver_roles)
      finally have "v_threshold_m v0 \<le> approvers d' i" unfolding len .
      then show ?thesis using v0 changed(6) by (auto simp: quorum_reachable_def)
    next
      case False
      have more: "?in m \<longrightarrow> ?in (?g m)" for m using False changed(4) by (auto simp: approver_roles member_roles_def)
      have "length (filter ?in ms) \<le> length (filter (\<lambda>m. ?in (?g m)) ms)" for ms
        using more by (induction ms) (auto simp del: if_split_asm)
      then have "approvers d i \<le> approvers d' i" unfolding len approvers_count [of d] by simp
      then show ?thesis using v0 changed(6) by (auto simp: quorum_reachable_def)
    qed
  next
    case (removed v u m)
    have len: "approvers d' i = int (length (filter (\<lambda>m. ?in m \<and> \<not> (vm_vault_id m = v_id v \<and> vm_user_id m = u)) (db_vault_members d)))"
      using removed(6) by (simp add: approvers_count conj_commute)
    show ?thesis
    proof (cases "v_id v = i \<and> is_approver m")
      case True
      then have "v = v0" "guard_signer_count d v u = Inr ()" using unique removed(1,4) by auto
      then have "v_threshold_m v0 \<le> int (length (filter (\<lambda>m. ?in m \<and> vm_user_id m \<noteq> u) (db_vault_members d)))"
        using v0(2) by (simp add: guard_signer_count_Inr)
      also have "filter (\<lambda>m. ?in m \<and> vm_user_id m \<noteq> u) (db_vault_members d)
          = filter (\<lambda>m. ?in m \<and> \<not> (vm_vault_id m = v_id v \<and> vm_user_id m = u)) (db_vault_members d)"
        using True by (intro filter_cong) auto
      finally have "v_threshold_m v0 \<le> approvers d' i" unfolding len .
      then show ?thesis using v0 removed(5) by (auto simp: quorum_reachable_def)
    next
      case False
      have m: "m \<in> set (db_vault_members d)" "vm_key m = (v_id v, u)" using vault_member_of_Some [OF removed(2)] by simp_all
      have same: "(?in x \<and> \<not> (vm_vault_id x = v_id v \<and> vm_user_id x = u)) = ?in x" if x: "x \<in> set (db_vault_members d)" for x
      proof (cases "vm_key x = (v_id v, u)")
        case True
        then have "x = m" using same_vm_key [OF assms(2) x m(1)] m(2) by simp
        then show ?thesis using False m(2) by (simp add: vm_key_def)
      next
        case False
        then show ?thesis by (simp add: vm_key_def)
      qed
      have "filter (\<lambda>m. ?in m \<and> \<not> (vm_vault_id m = v_id v \<and> vm_user_id m = u)) (db_vault_members d) = filter ?in (db_vault_members d)"
        using same by (rule filter_cong [OF refl])
      then have "approvers d' i = approvers d i" unfolding len approvers_count [of d] by simp
      then show ?thesis using v0 removed(5) by (auto simp: quorum_reachable_def)
    qed
  next
    case (threshold v t)
    have a: "approvers d' i = approvers d i" using threshold(4) by (simp add: approvers_count)
    show ?thesis
    proof (cases "v_id v = i")
      case True
      then have "v0\<lparr>v_threshold_m := t\<rparr> \<in> set (db_vaults d')" using v0 threshold(5) by (force simp: update_vault_def)
      then show ?thesis using a True threshold(3) v0 unfolding quorum_reachable_def by (intro bexI [of _ "v0\<lparr>v_threshold_m := t\<rparr>"]) simp_all
    next
      case False
      then have "v0 \<in> set (db_vaults d')" using v0 threshold(5) by (force simp: update_vault_def)
      then show ?thesis using a v0 by (auto simp: quorum_reachable_def)
    qed
  next
    case (created v)
    then have "approvers d i \<le> approvers d' i" by (simp add: approvers_count)
    then show ?thesis using v0 created(3) by (auto simp: quorum_reachable_def)
  qed
qed

end
