(* ===== verification/Vault_Steps.thy ===== *)
theory Vault_Steps
  imports Vault_Proofs
begin

text \<open>
  Each operation of the vault service is a step on the vault tables that leaves workspaces, invitations
  and decisions alone, has one of the effects of \<open>Vault_Proofs\<close>, and makes an approver only of someone
  who may be one.
\<close>

section \<open>Who may be made an approver\<close>

definition signer_entitled :: "db \<Rightarrow> vault_member \<Rightarrow> bool" where
  "signer_entitled d m \<longleftrightarrow> (\<exists>v \<in> set (db_vaults d). v_id v = vm_vault_id m \<and> require_can_approve d v (vm_user_id m) = Inr ())"

definition new_signers :: "db \<Rightarrow> db \<Rightarrow> bool" where
  "new_signers d d' \<longleftrightarrow>
     (\<forall>m \<in> set (db_vault_members d'). vm_member_role m = ''signer'' \<longrightarrow> m \<in> set (db_vault_members d) \<or> signer_entitled d' m)"

definition same_standing :: "db \<Rightarrow> db \<Rightarrow> bool" where
  "same_standing d d' \<longleftrightarrow> db_workspaces d' = db_workspaces d \<and> db_workspace_members d' = db_workspace_members d \<and> db_keys d' = db_keys d"

lemma can_approve_cong:
  assumes "same_standing d d'"
  shows "require_can_approve d' v u = require_can_approve d v u"
proof -
  have "current_workspace d' = current_workspace d" "membership d' = membership d" "has_enrolled_key d' = has_enrolled_key d"
    using assms by (auto simp: same_standing_def current_workspace_def current_membership_def membership_def has_enrolled_key_def
        split: option.split intro!: ext)
  then show ?thesis by (auto simp: require_can_approve_def workspace_of_vault_def require_enrolled_key_def split: option.split)
qed

lemma entitled_cong: "same_standing d d' \<Longrightarrow> db_vaults d' = db_vaults d \<Longrightarrow> signer_entitled d' m = signer_entitled d m"
  by (simp add: signer_entitled_def can_approve_cong)

lemma new_signers_same: "set (db_vault_members d') \<subseteq> set (db_vault_members d) \<Longrightarrow> new_signers d d'"
  by (auto simp: new_signers_def)

lemma can_approve_Inr:
  "require_can_approve d v u = Inr () \<longleftrightarrow>
     (\<exists>w m. workspace_of_vault d v = Some w \<and> membership d (w_id w) u = Some m \<and> is_active m
        \<and> wm_role m \<noteq> ''auditor'' \<and> has_enrolled_key d u)"
  by (auto simp: require_can_approve_def require_enrolled_key_def requireE_def Let_def split: option.splits)

section \<open>The steps\<close>

definition vault_step :: "db \<Rightarrow> db \<Rightarrow> bool" where
  "vault_step d d' \<longleftrightarrow> quiet d d' \<and> db_workspaces d' = db_workspaces d \<and> db_workspace_members d' = db_workspace_members d
     \<and> db_invitations d' = db_invitations d \<and> vault_effect d d' \<and> new_signers d d'"

lemma vault_step_same:
  "quiet d d' \<Longrightarrow> db_workspaces d' = db_workspaces d \<Longrightarrow> db_workspace_members d' = db_workspace_members d
     \<Longrightarrow> db_invitations d' = db_invitations d \<Longrightarrow> db_vaults d' = db_vaults d \<Longrightarrow> db_vault_members d' = db_vault_members d
     \<Longrightarrow> vault_step d d'"
  by (simp add: vault_step_def vault_effect.same new_signers_same)

lemma add_member_step:
  assumes "add_member env now v email role a inid d = Inr (m, d')" "v \<in> set (db_vaults d)"
  shows "vault_step d d'" "db_vaults d' = db_vaults d" "db_keys d' = db_keys d" "db_users d' = db_users d"
proof -
  obtain i p where c: "role \<in> member_roles" "\<not> is_member d (v_id v) i"
    "role = ''signer'' \<longrightarrow> require_can_approve d v i = Inr ()"
    "m = \<lparr>vm_vault_id = v_id v, vm_user_id = i, vm_member_role = role\<rparr>"
    "d' = vault_event env now ''member_added'' p a (v_id v) (d\<lparr>db_vault_members := db_vault_members d @ [m]\<rparr>)"
    using assms(1) by (auto simp: add_member_def member_roles_def bindE_Inr Let_def split: option.splits if_splits)
  have "vault_effect d d'" by (rule vault_effect.added [OF assms(2) c(2,1)]) (simp_all add: c(4,5))
  moreover have "quiet d d'" by (simp add: c(5) quiet_vault_event)
  moreover have s: "same_standing d d'" "db_vaults d' = db_vaults d" by (simp_all add: c(5) same_standing_def)
  moreover have "new_signers d d'"
    unfolding new_signers_def entitled_cong [OF s]
    using c(3) assms(2) by (auto simp: c(4,5) signer_entitled_def)
  ultimately show "vault_step d d'" "db_vaults d' = db_vaults d" "db_keys d' = db_keys d" "db_users d' = db_users d"
    by (simp_all add: vault_step_def c(5))
qed

lemma change_member_role_step:
  assumes "change_member_role env now v u role a d = Inr (m', d')" "v \<in> set (db_vaults d)"
  shows "vault_step d d'"
proof -
  obtain m where c: "role \<in> member_roles" "vault_member_of d (v_id v) u = Some m" "vm_member_role m \<noteq> ''owner''"
    "d' = d \<or> (role = ''viewer'' \<longrightarrow> guard_signer_count d v u = Inr ()) \<and> (role = ''signer'' \<longrightarrow> require_can_approve d v u = Inr ())
       \<and> (\<exists>p. d' = vault_event env now ''member_role_changed'' p a (v_id v) (update_member (v_id v) u (vm_member_role_update (\<lambda>_. role)) d))"
    using assms(1) by (auto simp: change_member_role_def member_roles_def bindE_Inr split: option.splits if_splits)
  from c(4) show ?thesis
  proof (elim disjE conjE exE)
    fix p assume g: "role = ''viewer'' \<longrightarrow> guard_signer_count d v u = Inr ()" "role = ''signer'' \<longrightarrow> require_can_approve d v u = Inr ()"
      "d' = vault_event env now ''member_role_changed'' p a (v_id v) (update_member (v_id v) u (vm_member_role_update (\<lambda>_. role)) d)"
    let ?d = "update_member (v_id v) u (vm_member_role_update (\<lambda>_. role)) d"
    have t: "db_vaults ?d = db_vaults d" "db_workspaces ?d = db_workspaces d" "db_workspace_members ?d = db_workspace_members d"
      "db_keys ?d = db_keys d" "db_invitations ?d = db_invitations d" by (simp_all add: update_member_def)
    have "vault_effect d d'" by (rule vault_effect.changed [OF assms(2) c(2,3,1) g(1)]) (simp_all add: g(3) t)
    moreover have "quiet d d'" by (simp add: g(3) quiet_vault_event)
    moreover have s: "same_standing d d'" "db_vaults d' = db_vaults d" using t by (simp_all add: g(3) same_standing_def)
    moreover have "new_signers d d'"
      unfolding new_signers_def entitled_cong [OF s]
      using g(2) assms(2) by (auto simp: g(3) update_member_def signer_entitled_def)
    ultimately show "vault_step d d'" by (simp add: vault_step_def g(3) t)
  qed (simp add: vault_step_same)
qed

lemma remove_member_step:
  assumes "remove_member env now v u a d = Inr d'" "v \<in> set (db_vaults d)"
  shows "vault_step d d'"
proof -
  obtain m p where c: "vault_member_of d (v_id v) u = Some m" "vm_member_role m \<noteq> ''owner''"
    "is_approver m \<longrightarrow> guard_signer_count d v u = Inr ()"
    "d' = vault_event env now ''member_removed'' p a (v_id v)
       (d\<lparr>db_vault_members := filter (\<lambda>m. \<not> (vm_vault_id m = v_id v \<and> vm_user_id m = u)) (db_vault_members d)\<rparr>)"
    using assms(1) by (auto simp: remove_member_def bindE_Inr split: option.splits if_splits)
  have "vault_effect d d'" by (rule vault_effect.removed [OF assms(2) c(1-3)]) (simp_all add: c(4))
  moreover have "quiet d d'" by (simp add: c(4) quiet_vault_event)
  moreover have "new_signers d d'" by (rule new_signers_same) (auto simp: c(4))
  ultimately show ?thesis by (simp add: vault_step_def c(4))
qed

lemma set_threshold_step:
  assumes "set_threshold env now v t a d = Inr d'" "v \<in> set (db_vaults d)"
  shows "vault_step d d'"
proof -
  let ?d = "update_vault (v_id v) (v_threshold_m_update (\<lambda>_. t)) d"
  have c: "1 \<le> t" "t \<le> approvers d (v_id v)" "d' = d \<or> (\<exists>p. d' = vault_event env now ''vault_threshold_changed'' p a (v_id v) ?d)"
    using assms(1) by (auto simp: set_threshold_def approvers_def Let_def split: if_splits)
  from c(3) show ?thesis
  proof (elim disjE exE)
    fix p assume d': "d' = vault_event env now ''vault_threshold_changed'' p a (v_id v) ?d"
    have t: "db_vault_members ?d = db_vault_members d" "db_workspaces ?d = db_workspaces d"
      "db_workspace_members ?d = db_workspace_members d" "db_invitations ?d = db_invitations d" by (simp_all add: update_vault_def)
    have "vault_effect d d'" by (rule vault_effect.threshold [OF assms(2) c(1,2)]) (simp_all add: d' t)
    moreover have "quiet d d'" by (simp add: d' quiet_vault_event)
    moreover have "new_signers d d'" by (rule new_signers_same) (simp add: d' t)
    ultimately show "vault_step d d'" by (simp add: vault_step_def d' t)
  qed (simp add: vault_step_same)
qed

lemma set_requester_step: "set_requester_can_approve env now v permitted a d = (b, d') \<Longrightarrow> vault_step d d'"
  by (auto simp: set_requester_can_approve_def Let_def quiet_vault_event intro!: vault_step_same split: if_splits)

lemma create_vault_step:
  assumes "create_vault env now seed nonce owner name description t d = Inr (v, d')"
  shows "vault_step d d'"
proof -
  obtain k rs p where c: "1 \<le> t" "v_id v = next_id (map v_id (db_vaults d))" "v_owner_id v = owner" "v_threshold_m v = t"
    "d' = vault_event env now ''vault_created'' p owner (v_id v)
      (d\<lparr>db_keys := db_keys d @ [k], db_vaults := db_vaults d @ [v],
         db_vault_members := db_vault_members d @ [\<lparr>vm_vault_id = v_id v, vm_user_id = owner, vm_member_role = ''owner''\<rparr>],
         db_vault_rules := rs\<rparr>)"
    using assms by (auto simp: create_vault_def bindE_Inr Let_def split: option.splits if_splits prod.splits)
  have "v_id v \<notin> v_id ` set (db_vaults d)" using next_id_fresh [of "map v_id (db_vaults d)"] c(2) by simp
  then have "vault_effect d d'" by (rule vault_effect.created) (simp_all add: c)
  moreover have "quiet d d'" unfolding c(5) by (rule quiet_vault_event) (simp_all add: quiet_def)
  moreover have "new_signers d d'" by (auto simp: new_signers_def c(5))
  ultimately show ?thesis by (simp add: vault_step_def c(5))
qed

end
