(* ===== verification/Membership_Machine.thy ===== *)
theory Membership_Machine
  imports Membership Vault_Steps Transitions
begin

text \<open>
  The operations of the workspace and vault services in any order, as one step relation, and what holds
  in every state they can reach.
\<close>

section \<open>Invitations\<close>

definition invitation_typed :: "db \<Rightarrow> invitation_row \<Rightarrow> bool" where
  "invitation_typed d i \<longleftrightarrow>
     i_role i \<in> set WORKSPACE_ROLES \<and> i_workspace_id i \<in> wids d \<and> snd ` set (i_vault_grants i) \<subseteq> set INVITABLE_VAULT_ROLES"

definition invitations_typed :: "db \<Rightarrow> bool" where
  "invitations_typed d \<longleftrightarrow> distinct (map i_id (db_invitations d)) \<and> (\<forall>i \<in> set (db_invitations d). invitation_typed d i)"

lemma invitations_typed_mono:
  "invitations_typed d \<Longrightarrow> db_invitations d' = db_invitations d \<Longrightarrow> wids d \<subseteq> wids d' \<Longrightarrow> invitations_typed d'"
  by (auto simp: invitations_typed_def invitation_typed_def)

lemma invitation_updated_typed:
  assumes "invitations_typed d" "\<And>i. i_id (f i) = i_id i" "\<And>i. invitation_typed d i \<Longrightarrow> invitation_typed d (f i)"
    "db_invitations d' = db_invitations (update_invitation n f d)" "wids d' = wids d"
  shows "invitations_typed d'"
proof -
  have ids: "map i_id (db_invitations d') = map i_id (db_invitations d)"
    unfolding assms(4) update_invitation_def using assms(2) by simp
  have typed: "invitation_typed d i" if "i \<in> set (db_invitations d')" for i
    using that assms(1,3) unfolding assms(4) update_invitation_def by (auto simp: invitations_typed_def)
  show ?thesis
    unfolding invitations_typed_def ids using assms(1,5) typed by (simp add: invitations_typed_def invitation_typed_def)
qed

text \<open>What the operations have in common.\<close>

definition governed :: "int option \<Rightarrow> db \<Rightarrow> db \<Rightarrow> bool" where
  "governed who d d' \<longleftrightarrow> sound_step who d d' \<and> vault_effect\<^sup>*\<^sup>* d d' \<and> new_signers d d' \<and> invitations_typed d'"

lemma workspace_governed:
  assumes "sound_step who d d'" "invitations_typed d" "db_invitations d' = db_invitations d"
    "db_vaults d' = db_vaults d" "db_vault_members d' = db_vault_members d"
  shows "governed who d d'"
proof -
  have "vault_effect d d'" using assms(4,5) by (rule vault_effect.same)
  then have "vault_effect\<^sup>*\<^sup>* d d'" by (rule r_into_rtranclp)
  moreover have "new_signers d d'" by (rule new_signers_same) (simp add: assms(5))
  ultimately show ?thesis
    using assms(1) invitations_typed_mono [OF assms(2,3)] places_wids by (simp add: governed_def sound_step_def)
qed

lemma vault_governed:
  assumes "vault_step d d'" "invitations_typed d"
  shows "governed who d d'"
proof -
  have w: "places d' = places d" using assms(1) by (simp add: vault_step_def places_def)
  then have "sound_step who d d'" using assms(1) by (intro sound_same) (simp_all add: vault_step_def)
  moreover have "invitations_typed d'" using assms invitations_typed_mono w by (auto simp: vault_step_def wids_places)
  moreover have "vault_effect\<^sup>*\<^sup>* d d'" using assms(1) by (auto simp: vault_step_def)
  ultimately show ?thesis using assms(1) by (simp add: governed_def vault_step_def)
qed

section \<open>Which tables an operation of the workspace service leaves alone\<close>

lemma workspace_tables [simp]:
  "db_vaults (insert_member w u role t d) = db_vaults d" "db_vault_members (insert_member w u role t d) = db_vault_members d"
  "db_invitations (insert_member w u role t d) = db_invitations d"
  "db_vaults (delete_membership w u d) = db_vaults d" "db_vault_members (delete_membership w u d) = db_vault_members d"
  "db_invitations (delete_membership w u d) = db_invitations d"
  "db_vaults (update_membership w u f d) = db_vaults d" "db_vault_members (update_membership w u f d) = db_vault_members d"
  "db_invitations (update_membership w u f d) = db_invitations d"
  "db_vaults (update_workspace w g d) = db_vaults d" "db_vault_members (update_workspace w g d) = db_vault_members d"
  "db_invitations (update_workspace w g d) = db_invitations d"
  "db_vaults (update_invitation n h d) = db_vaults d" "db_vault_members (update_invitation n h d) = db_vault_members d"
  "db_workspaces (update_invitation n h d) = db_workspaces d" "db_workspace_members (update_invitation n h d) = db_workspace_members d"
  "db_users (insert_member w u role t d) = db_users d" "db_users (delete_membership w u d) = db_users d"
  "db_users (update_invitation n h d) = db_users d"
  "db_keys (insert_member w u role t d) = db_keys d" "db_keys (delete_membership w u d) = db_keys d"
  "db_keys (update_invitation n h d) = db_keys d"
  by (simp_all add: insert_member_def delete_membership_def update_membership_def update_workspace_def update_invitation_def)

lemma insert_workspace_tables:
  "insert_workspace name slug t d = (w, d') \<Longrightarrow>
     db_vaults d' = db_vaults d \<and> db_vault_members d' = db_vault_members d \<and> db_invitations d' = db_invitations d"
  by (auto simp: insert_workspace_def Let_def)

definition same_vaults :: "db \<Rightarrow> db \<Rightarrow> bool" where
  "same_vaults d d' \<longleftrightarrow> db_vaults d' = db_vaults d \<and> db_vault_members d' = db_vault_members d \<and> db_invitations d' = db_invitations d"

lemma same_vaults_governed: "sound_step who d d' \<Longrightarrow> invitations_typed d \<Longrightarrow> same_vaults d d' \<Longrightarrow> governed who d d'"
  by (simp add: same_vaults_def workspace_governed)

lemma workspace_same_vaults:
  "change_role env now w u role a d = Inr d' \<Longrightarrow> same_vaults d d'"
  "remove_from_workspace env now w u a d = Inr d' \<Longrightarrow> same_vaults d d'"
  "suspend_member env now w u a d = Inr d' \<Longrightarrow> same_vaults d d'"
  "reinstate_member env now w u a d = Inr d' \<Longrightarrow> same_vaults d d'"
  "leave_workspace env now w u d = Inr d' \<Longrightarrow> same_vaults d d'"
  "rename_workspace env now wr name a d = Inr d' \<Longrightarrow> same_vaults d d'"
  "set_vault_defaults env now wr sod a d = Inr d' \<Longrightarrow> same_vaults d d'"
  "dismiss_checklist now w a d = Inr d' \<Longrightarrow> same_vaults d d'"
  by (auto simp: same_vaults_def change_role_def remove_from_workspace_def suspend_member_def reinstate_member_def leave_workspace_def
      rename_workspace_def set_vault_defaults_def dismiss_checklist_def bindE_Inr Let_def split: if_splits)

lemma create_workspace_same: "create_workspace env now name u d = Inr (wr, d') \<Longrightarrow> same_vaults d d'"
  by (auto simp: same_vaults_def create_workspace_def bindE_Inr insert_workspace_def Let_def split: option.splits)

lemma joined_same: "same_vaults d (join_shared_workspace now u d)"
  by (simp add: same_vaults_def join_shared_workspace_def insert_workspace_def Let_def split: option.split)

lemma make_room_same: "make_room_to_join env now u w d = Inr (left, d') \<Longrightarrow> same_vaults d d'"
  by (auto simp: same_vaults_def make_room_to_join_def split: option.splits if_splits)

lemma adopted_same: "join_shared_workspace_from env now u d = Inr (left, d') \<Longrightarrow> same_vaults d d'"
  by (auto simp: join_shared_workspace_from_def bindE_Inr insert_workspace_def same_vaults_def Let_def
      dest!: make_room_same split: option.splits if_splits)

lemma placed_tables [simp]:
  "db_vaults (fold (\<lambda>u. insert_member w (u_id u) (role u) (u_created_at u)) us d) = db_vaults d"
  "db_vault_members (fold (\<lambda>u. insert_member w (u_id u) (role u) (u_created_at u)) us d) = db_vault_members d"
  "db_invitations (fold (\<lambda>u. insert_member w (u_id u) (role u) (u_created_at u)) us d) = db_invitations d"
  by (induction us arbitrary: d) simp_all

lemma default_same: "ensure_default_workspace d = (r, d') \<Longrightarrow> same_vaults d d'"
  by (auto simp: ensure_default_workspace_def insert_workspace_def Let_def same_vaults_def simp del: fold_simps
      split: list.splits if_splits)

section \<open>Invitations: sending, revoking, accepting\<close>

lemma invitation_governed:
  assumes "quiet d d'" "db_workspaces d' = db_workspaces d" "db_workspace_members d' = db_workspace_members d"
    "db_vaults d' = db_vaults d" "db_vault_members d' = db_vault_members d" "invitations_typed d'"
  shows "governed who d d'"
proof -
  have "sound_step who d d'" using assms(1-3) by (intro sound_same) (simp_all add: places_def)
  moreover have "vault_effect d d'" using assms(4,5) by (rule vault_effect.same)
  moreover have "new_signers d d'" by (rule new_signers_same) (simp add: assms(5))
  ultimately show ?thesis using assms(6) by (auto simp: governed_def)
qed

lemma grants_updated:
  "role \<in> set rs \<Longrightarrow> snd ` set grants \<subseteq> set rs \<Longrightarrow> snd ` set (AList.update (i :: int) role grants) \<subseteq> set rs"
  by (induction grants) auto

definition put_grant :: "int option \<times> ustr \<Rightarrow> workspace_error + (int \<times> ustr) list \<Rightarrow> workspace_error + (int \<times> ustr) list" where
  "put_grant = (\<lambda>(vault, role) acc. bindE acc (\<lambda>grants. case vault of None \<Rightarrow> Inl Bad_vault
      | Some i \<Rightarrow> if role \<notin> set INVITABLE_VAULT_ROLES then Inl Bad_grant_role else Inr (AList.update i role grants)))"

lemma put_grant_cases:
  assumes "put_grant (vault, role) acc = Inr g"
  obtains i g0 where "acc = Inr g0" "vault = Some i" "role \<in> set INVITABLE_VAULT_ROLES" "g = AList.update i role g0"
  using assms that by (auto simp: put_grant_def bindE_Inr split: option.splits if_splits)

lemma fold_put_grant:
  "fold put_grant asked acc = Inr g \<Longrightarrow> (\<And>g0. acc = Inr g0 \<Longrightarrow> snd ` set g0 \<subseteq> set INVITABLE_VAULT_ROLES)
     \<Longrightarrow> snd ` set g \<subseteq> set INVITABLE_VAULT_ROLES"
proof (induction asked arbitrary: acc)
  case (Cons a asked)
  obtain vault role where a: "a = (vault, role)" by (cases a)
  show ?case
  proof (rule Cons.IH)
    show "fold put_grant asked (put_grant a acc) = Inr g" using Cons.prems(1) by simp
    fix g1 assume "put_grant a acc = Inr g1"
    then obtain i g0 where g: "acc = Inr g0" "role \<in> set INVITABLE_VAULT_ROLES" "g1 = AList.update i role g0"
      unfolding a by (rule put_grant_cases)
    show "snd ` set g1 \<subseteq> set INVITABLE_VAULT_ROLES"
      unfolding g(3) using g(2) Cons.prems(2) [OF g(1)] by (rule grants_updated)
  qed
qed simp

lemma normalised_grants:
  assumes "normalise_grants asked = Inr grants"
  shows "snd ` set grants \<subseteq> set INVITABLE_VAULT_ROLES"
proof -
  obtain g where g: "fold put_grant asked (Inr []) = Inr g" "grants = sort_key fst g"
    using assms unfolding normalise_grants_def put_grant_def [symmetric] by (auto simp: bindE_Inr)
  then show ?thesis using fold_put_grant [OF g(1)] by simp
qed

lemma member_workspace: "members_typed d \<Longrightarrow> membership d w u = Some m \<Longrightarrow> w \<in> wids d"
  using membership_in by (fastforce simp: members_typed_def member_typed_def wids_def wm_key_def)

lemma create_invitation_governed:
  assumes "create_invitation env now raw refusal w a email role asked d = Inr ((i, token), d')" "members_typed d" "invitations_typed d"
  shows "governed (Some a) d d'"
proof -
  obtain am grants p where c: "require_manager d w a = Inr am" "role \<in> set WORKSPACE_ROLES" "normalise_grants asked = Inr grants"
    "i_id i = next_id (map i_id (db_invitations d))" "i_workspace_id i = w" "i_role i = role" "i_vault_grants i = grants"
    "d' = workspace_event env now ''invitation_created'' w a p (d\<lparr>db_invitations := db_invitations d @ [i]\<rparr>)"
    using assms(1) by (auto simp: create_invitation_def bindE_Inr requireE_def Let_def split: option.splits if_splits prod.splits)
  have w: "w \<in> wids d" using require_manager_Inr [OF c(1)] member_workspace [OF assms(2)] by (auto simp: managed_by_def)
  have wd: "places d' = places d" by (simp add: c(8) places_def)
  have "i_id i \<notin> i_id ` set (db_invitations d)" using next_id_fresh [of "map i_id (db_invitations d)"] c(4) by simp
  moreover have "invitation_typed d i" using c w normalised_grants [OF c(3)] by (simp add: invitation_typed_def)
  ultimately have "invitations_typed d'"
    using assms(3) wd by (auto simp: invitations_typed_def invitation_typed_def wids_places c(8))
  then show ?thesis by (intro invitation_governed) (simp_all add: c(8) quiet_workspace_event)
qed

lemma revoke_governed:
  assumes "revoke_invitation env now i a d = Inr d'" "invitations_typed d"
  shows "governed (Some a) d d'"
proof -
  let ?d = "update_invitation (i_id i) (\<lambda>i. i\<lparr>i_revoked_at := Some now\<rparr>) d"
  obtain p where d': "d' = workspace_event env now ''invitation_revoked'' (i_workspace_id i) a p ?d"
    using assms(1) by (auto simp: revoke_invitation_def bindE_Inr)
  have "invitations_typed d'"
    by (rule invitation_updated_typed [OF assms(2), where f = "\<lambda>i. i\<lparr>i_revoked_at := Some now\<rparr>" and n = "i_id i"])
      (simp_all add: d' invitation_typed_def wids_def)
  then show ?thesis by (intro invitation_governed) (simp_all add: d' quiet_workspace_event)
qed

lemma resend_governed:
  assumes "resend_invitation env now raw refusal i a d = Inr (token, d')" "invitations_typed d"
  shows "governed (Some a) d d'"
proof -
  let ?f = "\<lambda>digest expires i. i\<lparr>i_inviter_id := a, i_token_hash := digest, i_expires_at := expires\<rparr>"
  obtain p digest expires where d': "d' = workspace_event env now ''invitation_resent'' (i_workspace_id i) a p
      (update_invitation (i_id i) (?f digest expires) d)"
    using assms(1) by (auto simp: resend_invitation_def bindE_Inr Let_def split: option.splits prod.splits)
  have "invitations_typed d'"
    by (rule invitation_updated_typed [OF assms(2), where f = "?f digest expires" and n = "i_id i"])
      (simp_all add: d' invitation_typed_def wids_def)
  then show ?thesis by (intro invitation_governed) (simp_all add: d' quiet_workspace_event)
qed

text \<open>Accepting: the workspace first, then each vault granted.\<close>

lemma join_vaults_step:
  assumes "join_vaults env now i u vs d = Inr d'" "set vs \<subseteq> set (db_vaults d)"
  shows "quiet d d' \<and> same_standing d d' \<and> db_invitations d' = db_invitations d \<and> db_vaults d' = db_vaults d
    \<and> vault_effect\<^sup>*\<^sup>* d d' \<and> new_signers d d'"
  using assms
proof (induction vs arbitrary: d)
  case Nil
  then show ?case by (simp add: same_standing_def new_signers_same)
next
  case (Cons v vs)
  show ?case
  proof (cases "is_member d (v_id v) (u_id u)")
    case True
    then show ?thesis using Cons by simp
  next
    case False
    then obtain m d1 where a: "add_member env now v (u_email u) (the (map_of (i_vault_grants i) (v_id v))) (i_inviter_id i) (Some (i_id i)) d
        = Inr (m, d1)" "join_vaults env now i u vs d1 = Inr d'"
      using Cons.prems(1) by (auto split: sum.splits)
    have v: "v \<in> set (db_vaults d)" using Cons.prems(2) by simp
    note one = add_member_step [OF a(1) v]
    have rest: "quiet d1 d' \<and> same_standing d1 d' \<and> db_invitations d' = db_invitations d1 \<and> db_vaults d' = db_vaults d1
        \<and> vault_effect\<^sup>*\<^sup>* d1 d' \<and> new_signers d1 d'"
      using Cons.prems(2) by (intro Cons.IH [OF a(2)]) (simp add: one(2))
    have "new_signers d d'"
      unfolding new_signers_def
    proof (intro ballI impI)
      fix m assume m: "m \<in> set (db_vault_members d')" "vm_member_role m = ''signer''"
      have later: "signer_entitled d1 m \<Longrightarrow> signer_entitled d' m" using rest entitled_cong by blast
      show "m \<in> set (db_vault_members d) \<or> signer_entitled d' m"
        using m rest one(1) later by (auto simp: new_signers_def vault_step_def)
    qed
    moreover have "vault_effect\<^sup>*\<^sup>* d d'"
      using one(1) rest converse_rtranclp_into_rtranclp [of vault_effect d d1 d'] by (simp add: vault_step_def)
    moreover have "quiet d d'" using one(1) rest quiet_trans by (auto simp: vault_step_def)
    ultimately show ?thesis using one rest by (simp add: vault_step_def same_standing_def)
  qed
qed

lemma check_each_grant_vaults: "check_each_grant d w a grants = Inr vs \<Longrightarrow> set vs \<subseteq> set (db_vaults d)"
proof (induction grants arbitrary: vs)
  case (Cons g grants)
  obtain vault role where g: "g = (vault, role)" by (cases g)
  obtain v vs' where c: "get_vault d vault = Some v" "check_each_grant d w a grants = Inr vs'" "vs = v # vs'"
    using Cons.prems by (auto simp: g bindE_Inr split: option.splits if_splits)
  then show ?case using Cons.IH by (auto simp: get_vault_def dest: find_Some_in)
qed simp

lemma check_grants_vaults: "check_grants d w a grants role = Inr vs \<Longrightarrow> set vs \<subseteq> set (db_vaults d)"
  by (auto simp: check_grants_def dest: check_each_grant_vaults split: if_splits)

lemma usable_Inr:
  assumes "usable env now d token = Inr i"
  shows "i \<in> set (db_invitations d)" "invitation_state now i = ''pending''"
    "\<exists>am. managed_by d (i_workspace_id i) (Some (i_inviter_id i)) am \<and> rank_of (i_role i) \<le> rank_of (wm_role am)"
    "token_digest (ce_hash env) token = Some (i_token_hash i)"
proof -
  have u: "invitation_for_token env d token = Some i" "check_usable now d i = Inr ()"
    using assms by (auto simp: usable_def bindE_Inr split: option.splits)
  then show "i \<in> set (db_invitations d)" "token_digest (ce_hash env) token = Some (i_token_hash i)"
    by (auto simp: invitation_for_token_def dest: find_Some_in split: option.splits)
  show "invitation_state now i = ''pending''" using u(2) by (auto simp: check_usable_def invitation_state_def split: if_splits)
  show "\<exists>am. managed_by d (i_workspace_id i) (Some (i_inviter_id i)) am \<and> rank_of (i_role i) \<le> rank_of (wm_role am)"
    using u(2) by (auto simp: check_usable_def inviter_still_entitled_def managed_by_def rank_of_def split: if_splits option.splits)
qed

lemma accept_cases:
  assumes "accept env now i u d = Inr d'"
  obtains left d1 d2 vs p where "u_email u = i_email i" "membership d (i_workspace_id i) (u_id u) = None"
    "make_room_to_join env now (u_id u) (i_workspace_id i) d = Inr (left, d1)"
    "d2 = workspace_event env now ''invitation_accepted'' (i_workspace_id i) (u_id u) p
       (update_invitation (i_id i) (\<lambda>i. i\<lparr>i_accepted_at := Some now, i_accepted_by_id := Some (u_id u)\<rparr>)
         (insert_member (i_workspace_id i) (u_id u) (i_role i) now d1))"
    "check_grants d2 (i_workspace_id i) (i_inviter_id i) (i_vault_grants i) (i_role i) = Inr vs"
    "join_vaults env now i u vs d2 = Inr d'"
  using assms that by (auto simp: accept_def bindE_Inr Let_def split: if_splits)

lemma accept_governed:
  assumes "usable env now d token = Inr i" "accept env now i u d = Inr d'" "members_typed d" "invitations_typed d"
  shows "governed (Some (i_inviter_id i)) d d'"
  using assms(2)
proof (cases rule: accept_cases)
  case (1 left d1 d2 vs p)
  note i = usable_Inr [OF assms(1)]
  have typed: "invitation_typed d i" using i(1) assms(4) by (simp add: invitations_typed_def)
  note room = 1(3) make_room_same [OF 1(3)]
  have j: "quiet d2 d' \<and> same_standing d2 d' \<and> db_invitations d' = db_invitations d2 \<and> db_vaults d' = db_vaults d2
    \<and> vault_effect\<^sup>*\<^sup>* d2 d' \<and> new_signers d2 d'"
    by (rule join_vaults_step [OF 1(6) check_grants_vaults [OF 1(5)]])
  have q2: "quiet d1 d2"
    unfolding 1(4) by (rule quiet_workspace_event, simp) (rule quiet_trans [OF quiet_tables(1) quiet_tables(5)])
  have w: "places d' = places d1" "db_workspace_members d' = db_workspace_members (insert_member (i_workspace_id i) (u_id u) (i_role i) now d1)"
    using j by (simp_all add: same_standing_def places_def 1(4))
  have s: "sound_step (Some (i_inviter_id i)) d d'"
    by (rule joined_step [OF 1(3) assms(3) 1(2) _ _ _ quiet_trans [OF q2 j [THEN conjunct1]] w])
      (use i(3) typed in \<open>auto simp: may_join_def invitation_typed_def\<close>)
  have same: "db_vaults d2 = db_vaults d" "db_vault_members d2 = db_vault_members d"
    "db_invitations d2 = db_invitations (update_invitation (i_id i) (\<lambda>i. i\<lparr>i_accepted_at := Some now, i_accepted_by_id := Some (u_id u)\<rparr>) d)"
    using room(2) by (simp_all add: 1(4) same_vaults_def update_invitation_def)
  have "vault_effect\<^sup>*\<^sup>* d d'"
    using vault_effect.same [OF same(1,2)] j by (blast intro: converse_rtranclp_into_rtranclp)
  moreover have "new_signers d d'" using j by (simp add: new_signers_def same)
  moreover have "invitations_typed d'"
  proof -
    have e: "invitations_typed (update_invitation (i_id i) (\<lambda>i. i\<lparr>i_accepted_at := Some now, i_accepted_by_id := Some (u_id u)\<rparr>) d)"
      (is "invitations_typed ?e")
      by (rule invitation_updated_typed [OF assms(4), where f = "\<lambda>i. i\<lparr>i_accepted_at := Some now, i_accepted_by_id := Some (u_id u)\<rparr>" and n = "i_id i"])
        (simp_all add: invitation_typed_def wids_def)
    have "wids ?e \<subseteq> wids d'" using s places_wids by (auto simp: sound_step_def)
    then show ?thesis using invitations_typed_mono [OF e] j same(3) by simp
  qed
  ultimately show ?thesis using s by (simp add: governed_def)
qed

section \<open>The step relation\<close>

text \<open>
  An operation, with the person on whose authority it happens; the operator's commands and the start of
  the program happen on nobody's.  Someone placed in the shared workspace is in no workspace yet (the pair
  of workspace and user is a key of the table), rows are those of the database, and user ids are distinct
  where the operation loops over all users.
\<close>

inductive membership_op :: "text_env \<Rightarrow> int option \<Rightarrow> db \<Rightarrow> db \<Rightarrow> bool" for env where
  role_changed: "change_role env now w u role a d = Inr d' \<Longrightarrow> membership_op env (Some a) d d'"
| removed: "remove_from_workspace env now w u a d = Inr d' \<Longrightarrow> membership_op env (Some a) d d'"
| suspended: "suspend_member env now w u a d = Inr d' \<Longrightarrow> membership_op env (Some a) d d'"
| reinstated: "reinstate_member env now w u a d = Inr d' \<Longrightarrow> membership_op env (Some a) d d'"
| left: "leave_workspace env now w u d = Inr d' \<Longrightarrow> membership_op env (Some u) d d'"
| renamed: "rename_workspace env now wr name a d = Inr d' \<Longrightarrow> membership_op env (Some a) d d'"
| defaults_set: "set_vault_defaults env now wr sod a d = Inr d' \<Longrightarrow> membership_op env (Some a) d d'"
| dismissed: "dismiss_checklist now w a d = Inr d' \<Longrightarrow> membership_op env (Some a) d d'"
| founded: "create_workspace env now name u d = Inr (wr, d') \<Longrightarrow> membership_op env (Some u) d d'"
| placed: "\<forall>w. shared_workspace d = Some w \<longrightarrow> membership d (w_id w) u = None
     \<Longrightarrow> join_shared_workspace now u d = d' \<Longrightarrow> membership_op env None d d'"
| adopted: "join_shared_workspace_from env now u d = Inr (left, d') \<Longrightarrow> membership_op env None d d'"
| seeded: "ensure_default_workspace d = (r, d') \<Longrightarrow> distinct (map u_id (db_users d)) \<Longrightarrow> membership_op env None d d'"
| invited: "create_invitation env now raw refusal w a email role asked d = Inr ((i, token), d') \<Longrightarrow> membership_op env (Some a) d d'"
| revoked: "revoke_invitation env now i a d = Inr d' \<Longrightarrow> membership_op env (Some a) d d'"
| resent: "resend_invitation env now raw refusal i a d = Inr (token, d') \<Longrightarrow> membership_op env (Some a) d d'"
| accepted: "usable env now d token = Inr i \<Longrightarrow> accept env now i u d = Inr d' \<Longrightarrow> membership_op env (Some (i_inviter_id i)) d d'"
| vault_created: "create_vault env now seed nonce a name about t d = Inr (v, d') \<Longrightarrow> membership_op env (Some a) d d'"
| vault_joined: "add_member env now v email role a inid d = Inr (m, d') \<Longrightarrow> v \<in> set (db_vaults d) \<Longrightarrow> membership_op env (Some a) d d'"
| vault_role_changed: "change_member_role env now v u role a d = Inr (m, d') \<Longrightarrow> v \<in> set (db_vaults d) \<Longrightarrow> membership_op env (Some a) d d'"
| vault_left: "remove_member env now v u a d = Inr d' \<Longrightarrow> v \<in> set (db_vaults d) \<Longrightarrow> membership_op env (Some a) d d'"
| threshold_set: "set_threshold env now v t a d = Inr d' \<Longrightarrow> v \<in> set (db_vaults d) \<Longrightarrow> membership_op env (Some a) d d'"
| requester_set: "set_requester_can_approve env now v permitted a d = (b, d') \<Longrightarrow> membership_op env (Some a) d d'"

definition tables_typed :: "db \<Rightarrow> bool" where
  "tables_typed d \<longleftrightarrow> members_typed d \<and> vaults_typed d \<and> invitations_typed d"

definition well_kept :: "db \<Rightarrow> bool" where
  "well_kept d \<longleftrightarrow> tables_typed d \<and> led d"

lemmas workspace_steps = change_role_step remove_step suspend_step reinstate_step leave_step rename_step defaults_step dismiss_step

lemmas vault_steps = create_vault_step change_member_role_step remove_member_step set_threshold_step set_requester_step

lemma op_governed:
  assumes "membership_op env who d d'" "well_kept d"
  shows "governed who d d'"
proof -
  have t: "members_typed d" "invitations_typed d" "led d" using assms(2) by (simp_all add: well_kept_def tables_typed_def)
  from assms(1) show ?thesis
  proof cases
    case founded
    then show ?thesis using same_vaults_governed [OF _ t(2)] create_workspace_step [OF _ t(1)] create_workspace_same by blast
  next
    case placed
    then show ?thesis using same_vaults_governed [OF _ t(2)] placed_step [OF t(1,3)] joined_same by blast
  next
    case adopted
    then show ?thesis using same_vaults_governed [OF _ t(2)] adopted_step [OF _ t(1,3)] adopted_same by blast
  next
    case seeded
    then show ?thesis using same_vaults_governed [OF _ t(2)] default_step [OF _ t(1)] default_same by blast
  next
    case invited
    then show ?thesis using create_invitation_governed [OF _ t(1,2)] by blast
  next
    case revoked
    then show ?thesis using revoke_governed [OF _ t(2)] by blast
  next
    case resent
    then show ?thesis using resend_governed [OF _ t(2)] by blast
  next
    case accepted
    then show ?thesis using accept_governed [OF _ _ t(1,2)] by blast
  next
    case vault_joined
    then show ?thesis using vault_governed [OF _ t(2)] add_member_step(1) by blast
  qed (simp_all, (blast intro: same_vaults_governed [OF _ t(2)] workspace_steps workspace_same_vaults
      vault_governed [OF _ t(2)] vault_steps)+)
qed

section \<open>What every step keeps\<close>

text \<open>The rest of the program (votes, keys, payments, registration) does not write these five tables.\<close>

definition untouched :: "db \<Rightarrow> db \<Rightarrow> bool" where
  "untouched d d' \<longleftrightarrow> db_workspaces d' = db_workspaces d \<and> db_workspace_members d' = db_workspace_members d
     \<and> db_vaults d' = db_vaults d \<and> db_vault_members d' = db_vault_members d \<and> db_invitations d' = db_invitations d"

inductive membership_step :: "text_env \<Rightarrow> db \<Rightarrow> db \<Rightarrow> bool" for env where
  operation: "membership_op env who d d' \<Longrightarrow> membership_step env d d'"
| rest: "untouched d d' \<Longrightarrow> membership_step env d d'"

lemma vault_effects_typed: "vault_effect\<^sup>*\<^sup>* d d' \<Longrightarrow> vaults_typed d \<Longrightarrow> vaults_typed d'"
  by (induction rule: rtranclp_induct) (auto intro: vault_effect_typed)

lemma vault_effects_quorum: "vault_effect\<^sup>*\<^sup>* d d' \<Longrightarrow> vaults_typed d \<Longrightarrow> quorum_reachable d i \<Longrightarrow> quorum_reachable d' i"
  by (induction rule: rtranclp_induct) (auto intro: vault_effect_quorum vault_effects_typed)

lemma untouched_keeps: "untouched d d' \<Longrightarrow> well_kept d' = well_kept d" "untouched d d' \<Longrightarrow> quorum_reachable d' i = quorum_reachable d i"
  by (simp_all add: untouched_def well_kept_def tables_typed_def members_typed_def vaults_typed_def invitations_typed_def
      invitation_typed_def wids_def led_def populated_def active_owner_def plain_shared_def places_def quorum_reachable_def approvers_count)

lemma op_well_kept:
  assumes "membership_op env who d d'" "well_kept d"
  shows "well_kept d'"
proof -
  have g: "governed who d d'" by (rule op_governed [OF assms])
  then have e: "effect who d d'" "places d \<subseteq> places d'" by (simp_all add: governed_def sound_step_def)
  have t: "members_typed d" "vaults_typed d" "led d" using assms(2) by (simp_all add: well_kept_def tables_typed_def)
  show ?thesis
    using effect_typed [OF e(1) t(1) places_wids [OF e(2)]] effect_led [OF e(1) t(1,3) e(2)] vault_effects_typed [OF _ t(2)] g
    by (simp add: well_kept_def tables_typed_def governed_def)
qed

interpretation upkeep: kept "membership_step env" well_kept
  by unfold_locales (auto elim!: membership_step.cases simp: untouched_keeps intro: op_well_kept)

lemma step_keeps_owner:
  assumes "membership_step env d d'" "well_kept d" "active_owner d w m" "populated d' w"
  shows "\<exists>m'. active_owner d' w m'"
  using assms(1)
proof cases
  case (operation who)
  then have "effect who d d'" using op_governed assms(2) by (simp add: governed_def sound_step_def)
  then show ?thesis using effect_keeps_owner assms(2-4) by (auto simp: well_kept_def tables_typed_def)
next
  case rest
  then show ?thesis using assms(3) by (auto simp: untouched_def active_owner_def)
qed

interpretation quorums: kept "membership_step env" "\<lambda>d. well_kept d \<and> quorum_reachable d i"
proof
  fix d d' assume d: "well_kept d \<and> quorum_reachable d i" "membership_step env d d'"
  have w: "well_kept d'" using upkeep.keep d by blast
  from d(2) have "quorum_reachable d' i"
  proof cases
    case (operation who)
    then have "vault_effect\<^sup>*\<^sup>* d d'" using op_governed d(1) by (auto simp: governed_def)
    then show ?thesis using vault_effects_quorum d(1) by (simp add: well_kept_def tables_typed_def)
  next
    case rest
    then show ?thesis using untouched_keeps(2) d(1) by simp
  qed
  with w show "well_kept d' \<and> quorum_reachable d' i" by simp
qed

end
