(* ===== verification/Membership_Theorems.thy ===== *)
theory Membership_Theorems
  imports Membership_Machine
begin

text \<open>
  The guarantees of the workspace and vault services: what holds of the membership tables in every state
  they reach, where ownership and approvers come from, and what an accepted invitation gave.
\<close>

section \<open>In every state\<close>

text \<open>C33: The tables stay typed.  From a well kept database (an empty one is), whatever the services do, every
  membership has a role and a status the code names, in a workspace there is, at most one per person;
  every vault has a threshold of at least one and its owner as its one member with the role of owner.\<close>

theorem tables_stay_typed:
  assumes "well_kept d0" "(membership_step env)\<^sup>*\<^sup>* d0 d"
  shows "(\<forall>m \<in> set (db_workspace_members d). wm_role m \<in> set WORKSPACE_ROLES \<and> wm_status m \<in> set MEMBER_STATUSES
      \<and> (\<exists>w \<in> set (db_workspaces d). w_id w = wm_workspace_id m))
    \<and> distinct (map (\<lambda>m. (wm_workspace_id m, wm_user_id m)) (db_workspace_members d))
    \<and> (\<forall>m \<in> set (db_vault_members d). vm_member_role m \<in> set VAULT_ROLES)
    \<and> distinct (map (\<lambda>m. (vm_vault_id m, vm_user_id m)) (db_vault_members d))
    \<and> (\<forall>v \<in> set (db_vaults d). 1 \<le> v_threshold_m v
        \<and> (\<exists>m. vault_member_of d (v_id v) (v_owner_id v) = Some m \<and> vm_member_role m = ''owner'')
        \<and> (\<forall>m \<in> set (db_vault_members d). vm_vault_id m = v_id v \<and> vm_member_role m = ''owner'' \<longrightarrow> vm_user_id m = v_owner_id v))"
proof -
  have t: "members_typed d" "vaults_typed d"
    using upkeep.always [OF assms(2,1)] by (simp_all add: well_kept_def tables_typed_def)
  have owner: "\<exists>m. vault_member_of d (v_id v) (v_owner_id v) = Some m \<and> vm_member_role m = ''owner''" if v: "v \<in> set (db_vaults d)" for v
  proof -
    obtain m where m: "m \<in> set (db_vault_members d)" "owner_row v m" using owner_exists [OF t(2) v] by blast
    then have "is_member d (v_id v) (v_owner_id v)" using not_member by (auto simp: owner_row_def)
    then obtain m' where m': "vault_member_of d (v_id v) (v_owner_id v) = Some m'" by (auto simp: is_member_def)
    then have "m' = m" using m vault_member_of_Some [OF m'] by (intro same_vm_key [OF t(2)]) (simp_all add: owner_row_def)
    then show ?thesis using m' m(2) by (simp add: owner_row_def)
  qed
  have keys: "wm_key = (\<lambda>m. (wm_workspace_id m, wm_user_id m))" "vm_key = (\<lambda>m. (vm_vault_id m, vm_user_id m))"
    by (intro ext, simp add: wm_key_def vm_key_def)+
  have ws: "\<exists>w \<in> set (db_workspaces d). w_id w = wm_workspace_id m" if "m \<in> set (db_workspace_members d)" for m
    using t(1) that by (force simp: members_typed_def member_typed_def)
  show ?thesis
    using t owner ws by (simp add: members_typed_def member_typed_def vaults_typed_def keys)
qed

text \<open>C27: A workspace has someone in charge.  In every state the services reach, a workspace that has any
  member has an active owner; the one exception is the shared workspace, where everyone is then a plain
  member, with no one to manage it.  And whatever happens next, a workspace that has an active owner still
  has one as long as it has any member: the exception is only entered where nobody was left.\<close>

theorem workspace_keeps_an_owner:
  assumes "well_kept d0" "(membership_step env)\<^sup>*\<^sup>* d0 d"
  shows "(\<forall>w. populated d w \<longrightarrow> (\<exists>m. active_owner d w m) \<or> plain_shared d w)
    \<and> (\<forall>w d'. membership_step env d d' \<and> (\<exists>m. active_owner d w m) \<and> populated d' w \<longrightarrow> (\<exists>m. active_owner d' w m))"
proof -
  have w: "well_kept d" by (rule upkeep.always [OF assms(2,1)])
  then have "led d" by (simp add: well_kept_def)
  then show ?thesis using step_keeps_owner [OF _ w] unfolding led_def by blast
qed

text \<open>C29: A vault's threshold stays within reach: once its approvers are as many as its threshold asks for, no
  operation of the services, in any order, takes it below that.\<close>

theorem quorum_stays_reachable:
  assumes "well_kept d0" "(membership_step env)\<^sup>*\<^sup>* d0 d" "v0 \<in> set (db_vaults d0)"
    "v_threshold_m v0 \<le> int (length (signer_members d0 (v_id v0)))"
  shows "\<exists>v \<in> set (db_vaults d). v_id v = v_id v0 \<and> v_threshold_m v \<le> int (length (signer_members d (v_id v0)))"
proof -
  have "quorum_reachable d0 (v_id v0)" using assms(3,4) by (auto simp: quorum_reachable_def approvers_def)
  then show ?thesis
    using quorums.always [OF assms(2), of "v_id v0"] assms(1) by (simp add: quorum_reachable_def approvers_def)
qed

section \<open>On whose authority\<close>

text \<open>C28: Ownership comes from owners.  In every state the services reach, whoever an operation makes an owner of a
  workspace that had members was made one by an active owner of it: by a change of role, or by an
  invitation that person sent and could still send when it was accepted.  The one exception: the operator
  adopts a newcomer into the shared workspace while it has no owner at all, only plain members.\<close>

theorem ownership_comes_from_owners:
  assumes "well_kept d0" "(membership_step env)\<^sup>*\<^sup>* d0 d" "membership_op env who d d'" "m0 \<in> set (db_workspace_members d)"
    "m \<in> set (db_workspace_members d')" "wm_workspace_id m = wm_workspace_id m0" "wm_role m = ''owner''"
    "\<forall>m1. membership d (wm_workspace_id m) (wm_user_id m) = Some m1 \<longrightarrow> wm_role m1 \<noteq> ''owner''"
  shows "(\<exists>a am. who = Some a \<and> membership d (wm_workspace_id m) a = Some am \<and> wm_role am = ''owner'' \<and> wm_status am = ''active'')
    \<or> (who = None \<and> plain_shared d (wm_workspace_id m) \<and> membership d (wm_workspace_id m) (wm_user_id m) = None)"
proof -
  have w: "well_kept d" by (rule upkeep.always [OF assms(2,1)])
  then have t: "members_typed d" by (simp add: well_kept_def tables_typed_def)
  have "effect who d d'" using op_governed [OF assms(3) w] by (simp add: governed_def sound_step_def)
  moreover have "populated d (wm_workspace_id m)" using assms(4,6) by (auto simp: populated_def)
  moreover have "owner_in d' (wm_workspace_id m) (wm_user_id m)" using assms(5,7) by (auto simp: owner_in_def wm_key_def)
  moreover have "\<not> owner_in d (wm_workspace_id m) (wm_user_id m)"
    using assms(8) membership_iff [OF t] by (auto simp: owner_in_def)
  ultimately show ?thesis
    using effect_new_owner [OF _ t] by (fastforce simp: managed_by_def can_manage_def is_active_def)
qed

text \<open>C30: An approver of a vault is someone who can approve: whoever an operation gives the role of signer is, right
  after it, an active member of the vault's workspace, not an auditor, with a signing key enrolled.\<close>

theorem new_approver_can_approve:
  assumes "well_kept d" "membership_op env who d d'" "m \<in> set (db_vault_members d')" "vm_member_role m = ''signer''"
    "m \<notin> set (db_vault_members d)"
  shows "\<exists>v w wm. v \<in> set (db_vaults d') \<and> v_id v = vm_vault_id m \<and> workspace_of_vault d' v = Some w
    \<and> membership d' (w_id w) (vm_user_id m) = Some wm \<and> wm_status wm = ''active'' \<and> wm_role wm \<noteq> ''auditor''
    \<and> has_enrolled_key d' (vm_user_id m)"
proof -
  have "new_signers d d'" using op_governed [OF assms(2,1)] by (simp add: governed_def)
  then have "signer_entitled d' m" using assms(3-5) by (auto simp: new_signers_def)
  then show ?thesis by (auto simp: signer_entitled_def can_approve_Inr is_active_def)
qed

text \<open>C32: Membership never touches a decision: after any operation of the services on anyone, every decision has the
  row, the votes and the binding to the ledger it had, and every vote that verified still does.\<close>

theorem membership_keeps_decisions:
  assumes "well_kept d" "membership_op env who d d'" "get_proposal d pid = Some p"
  shows "get_proposal d' pid = Some p \<and> signatures_of d' p = signatures_of d p \<and> (binding_ok e d p \<longrightarrow> binding_ok e d' p)
    \<and> (\<forall>s. verify_signature e d s p = Inr True \<longrightarrow> verify_signature e d' s p = Inr True)"
proof -
  have "quiet d d'" using op_governed [OF assms(2,1)] by (simp add: governed_def sound_step_def)
  then have "elsewhere pid d d'" by (rule quiet_elsewhere)
  then have k: "get_proposal d' pid = Some p" "signatures_of d' p = signatures_of d p" "evidence_kept p d d'"
    using assms(3) by (simp_all add: elsewhere_def)
  then show ?thesis using binding_kept [OF _ k(3)] vote_kept [OF _ k(3)] by simp
qed

section \<open>An accepted invitation\<close>

text \<open>The person's row in a vault the invitation grants, in the role it grants, in a vault of the inviter's.\<close>

definition granted_row :: "db \<Rightarrow> invitation_row \<Rightarrow> int \<Rightarrow> vault_member \<Rightarrow> bool" where
  "granted_row d i user_id m \<longleftrightarrow> vm_user_id m = user_id
     \<and> map_of (i_vault_grants i) (vm_vault_id m) = Some (vm_member_role m)
     \<and> (\<exists>v \<in> set (db_vaults d). v_id v = vm_vault_id m \<and> v_owner_id v = i_inviter_id i)"

text \<open>\<open>users.email\<close> is unique, and addresses are stored in lower case and stripped.\<close>

definition own_address :: "text_env \<Rightarrow> db \<Rightarrow> user_row \<Rightarrow> bool" where
  "own_address env d u \<longleftrightarrow> te_lower env (strip (u_email u)) = u_email u
     \<and> (\<forall>u' \<in> set (db_users d). u_email u' = u_email u \<longrightarrow> u_id u' = u_id u)"

lemma check_each_grant_means:
  "check_each_grant d w a grants = Inr vs \<Longrightarrow>
     map v_id vs = map fst grants \<and> (\<forall>v \<in> set vs. v \<in> set (db_vaults d) \<and> v_owner_id v = a)"
proof (induction grants arbitrary: vs)
  case (Cons g grants)
  obtain vault role where g: "g = (vault, role)" by (cases g)
  obtain v1 vs' where c: "get_vault d vault = Some v1" "v_owner_id v1 = a" "check_each_grant d w a grants = Inr vs'" "vs = v1 # vs'"
    using Cons.prems by (auto simp: g bindE_Inr split: option.splits if_splits)
  have "v1 \<in> set (db_vaults d) \<and> v_id v1 = vault" using c(1) by (auto simp: get_vault_def dest: find_Some_in)
  then show ?case using Cons.IH [OF c(3)] c(2,4) by (auto simp: g)
qed simp

lemma add_member_row:
  assumes "add_member env now v (u_email u) role a inid d = Inr (m, d')" "own_address env d u"
  shows "m = \<lparr>vm_vault_id = v_id v, vm_user_id = u_id u, vm_member_role = role\<rparr>"
    "db_vault_members d' = db_vault_members d @ [m]" "db_vaults d' = db_vaults d" "db_users d' = db_users d"
proof -
  obtain u' where u': "find_member_user env d (workspace_of_vault d v) (u_email u) = Some u'"
    "m = \<lparr>vm_vault_id = v_id v, vm_user_id = u_id u', vm_member_role = role\<rparr>"
    using assms(1) by (auto simp: add_member_def bindE_Inr Let_def split: option.splits if_splits)
  then have "u' \<in> set (db_users d)" "u_email u' = u_email u"
    using assms(2) by (auto simp: find_member_user_def own_address_def split: option.splits dest!: find_Some_in)
  then show "m = \<lparr>vm_vault_id = v_id v, vm_user_id = u_id u, vm_member_role = role\<rparr>"
    using u'(2) assms(2) by (simp add: own_address_def)
  show "db_vault_members d' = db_vault_members d @ [m]" "db_vaults d' = db_vaults d" "db_users d' = db_users d"
    using assms(1) by (auto simp: add_member_def bindE_Inr Let_def split: option.splits if_splits)
qed

lemma join_vaults_rows:
  assumes "join_vaults env now i u vs d = Inr d'" "own_address env d u"
    "\<forall>v \<in> set vs. v \<in> set (db_vaults d) \<and> v_owner_id v = i_inviter_id i \<and> v_id v \<in> fst ` set (i_vault_grants i)"
  shows "db_vaults d' = db_vaults d
    \<and> (\<exists>ms. db_vault_members d' = db_vault_members d @ ms \<and> (\<forall>m \<in> set ms. granted_row d i (u_id u) m))
    \<and> (\<forall>v \<in> set vs. is_member d' (v_id v) (u_id u))"
  using assms
proof (induction vs arbitrary: d)
  case Nil
  then show ?case by simp
next
  case (Cons v vs)
  have member: "is_member d' x y" if "is_member e x y" "db_vault_members d' = db_vault_members e @ ms" for e ms x y
    using that by (auto simp: is_member_def vault_member_of_def find_append split: option.split)
  show ?case
  proof (cases "is_member d (v_id v) (u_id u)")
    case True
    then have "join_vaults env now i u vs d = Inr d'" using Cons.prems(1) by simp
    from Cons.IH [OF this Cons.prems(2)] Cons.prems(3) show ?thesis using member [OF True] by auto
  next
    case False
    let ?role = "the (map_of (i_vault_grants i) (v_id v))"
    obtain m d1 where a: "add_member env now v (u_email u) ?role (i_inviter_id i) (Some (i_id i)) d = Inr (m, d1)"
      "join_vaults env now i u vs d1 = Inr d'"
      using Cons.prems(1) False by (auto split: sum.splits)
    note m = add_member_row [OF a(1) Cons.prems(2)]
    have "map_of (i_vault_grants i) (v_id v) = Some ?role"
      using Cons.prems(3) by (cases "map_of (i_vault_grants i) (v_id v)") (auto simp: map_of_eq_None_iff)
    then have new: "granted_row d i (u_id u) m" using Cons.prems(3) m(1) by (auto simp: granted_row_def)
    have same: "granted_row d1 i (u_id u) = granted_row d i (u_id u)" by (intro ext) (simp add: granted_row_def m(3))
    have "own_address env d1 u" using Cons.prems(2) m(4) by (simp add: own_address_def)
    from Cons.IH [OF a(2) this] Cons.prems(3) obtain ms where ms: "db_vaults d' = db_vaults d1"
      "db_vault_members d' = db_vault_members d1 @ ms" "\<forall>r \<in> set ms. granted_row d i (u_id u) r"
      "\<forall>v \<in> set vs. is_member d' (v_id v) (u_id u)" by (auto simp: m(3) same)
    have "is_member d1 (v_id v) (u_id u)"
      by (simp add: is_member_def vault_member_of_def m(1,2) find_append split: option.split)
    then have "is_member d' (v_id v) (u_id u)" using ms(2) by (rule member)
    moreover have "db_vault_members d' = db_vault_members d @ (m # ms)" using ms(2) m(2) by simp
    ultimately show ?thesis using ms m(3) new by (intro conjI exI [of _ "m # ms"]) auto
  qed
qed

lemma accepted_row:
  assumes "accept env now i u d = Inr d'" "invitations_typed d" "i \<in> set (db_invitations d)" "find (\<lambda>j. i_token_hash j = h) (db_invitations d) = Some i"
  shows "find (\<lambda>j. i_token_hash j = h) (db_invitations d') = Some (i\<lparr>i_accepted_at := Some now, i_accepted_by_id := Some (u_id u)\<rparr>)"
  using assms(1)
proof (cases rule: accept_cases)
  case (1 left d1 d2 vs p)
  let ?g = "\<lambda>j. if i_id j = i_id i then j\<lparr>i_accepted_at := Some now, i_accepted_by_id := Some (u_id u)\<rparr> else j"
  have "db_invitations d' = db_invitations d2" using join_vaults_step [OF 1(6) check_grants_vaults [OF 1(5)]] by blast
  then have rows: "db_invitations d' = map ?g (db_invitations d)"
    using make_room_same [OF 1(3)] by (simp add: 1(4) update_invitation_def same_vaults_def)
  have look: "find (\<lambda>j. i_token_hash j = h) (map ?g js) = map_option ?g (find (\<lambda>j. i_token_hash j = h) js)" for js
    by (induction js) auto
  show ?thesis unfolding rows look assms(4) by simp
qed

lemma accept_grants:
  assumes "accept env now i u d = Inr d'" "own_address env d u"
  shows "\<exists>rows. db_vault_members d' = db_vault_members d @ rows \<and> list_all (granted_row d' i (u_id u)) rows
    \<and> list_all (\<lambda>g. is_member d' (fst g) (u_id u)) (i_vault_grants i)"
  using assms(1)
proof (cases rule: accept_cases)
  case (1 left d1 d2 vs p)
  have "check_each_grant d2 (i_workspace_id i) (i_inviter_id i) (i_vault_grants i) = Inr vs"
    using 1(5) by (simp add: check_grants_def split: if_splits)
  note g = check_each_grant_means [OF this]
  have ids: "fst ` set (i_vault_grants i) = v_id ` set vs" using g by (metis list.set_map)
  have "db_users d2 = db_users d"
    using 1(3) by (auto simp: 1(4) make_room_to_join_def workspace_event_def split: option.splits if_splits)
  then have "own_address env d2 u" using assms(2) by (simp add: own_address_def)
  from join_vaults_rows [OF 1(6) this] g ids obtain rows where j: "db_vaults d' = db_vaults d2"
    "db_vault_members d' = db_vault_members d2 @ rows" "\<forall>m \<in> set rows. granted_row d2 i (u_id u) m"
    "\<forall>v \<in> set vs. is_member d' (v_id v) (u_id u)" by blast
  have "granted_row d' i (u_id u) = granted_row d2 i (u_id u)" by (intro ext) (simp add: granted_row_def j(1))
  moreover have "db_vault_members d2 = db_vault_members d" using make_room_same [OF 1(3)] by (simp add: 1(4) same_vaults_def)
  moreover have "is_member d' (fst x) (u_id u)" if "x \<in> set (i_vault_grants i)" for x
    using that ids j(4) by (metis imageE image_eqI)
  ultimately show ?thesis using j(2,3) by (auto simp: list_all_iff)
qed

text \<open>C31: An invitation is good once, for the person it was sent to, and gives what it says.  If accepting
  succeeds, the invitation was open, its inviter still managed the workspace and could give its role, the
  address is the one it was sent to and the person was not a member; they now are, with exactly its role,
  and a member of every vault it grants.  The only vault rows added are theirs, one for each vault they were
  not in, in the role granted, in vaults of the inviter's; and the link is used up for everyone.
  The person's address is stored as it is compared, and is nobody else's.\<close>

theorem invitation_good_once:
  assumes "well_kept d" "own_address env d u" "accept_invitation env now token u d = Inr d'"
  shows "\<exists>i am m rows. i \<in> set (db_invitations d) \<and> invitation_state now i = ''pending'' \<and> u_email u = i_email i
    \<and> membership d (i_workspace_id i) (i_inviter_id i) = Some am \<and> can_manage (Some am)
    \<and> rank_of (i_role i) \<le> rank_of (wm_role am)
    \<and> membership d (i_workspace_id i) (u_id u) = None \<and> membership d' (i_workspace_id i) (u_id u) = Some m
    \<and> wm_role m = i_role i \<and> wm_status m = ''active''
    \<and> db_vault_members d' = db_vault_members d @ rows \<and> list_all (granted_row d' i (u_id u)) rows
    \<and> list_all (\<lambda>g. is_member d' (fst g) (u_id u)) (i_vault_grants i)
    \<and> (\<forall>now' u'. accept_invitation env now' token u' d' = Inl Already_accepted)"
proof -
  obtain i where a: "usable env now d token = Inr i" "accept env now i u d = Inr d'"
    using assms(3) by (auto simp: accept_invitation_def bindE_Inr)
  note i = usable_Inr [OF a(1)]
  have t: "members_typed d" "invitations_typed d" using assms(1) by (simp_all add: well_kept_def tables_typed_def)
  obtain am where am: "membership d (i_workspace_id i) (i_inviter_id i) = Some am" "can_manage (Some am)"
    "rank_of (i_role i) \<le> rank_of (wm_role am)" using i(3) by (auto simp: managed_by_def)
  from a(2) obtain left d1 d2 vs p where c: "u_email u = i_email i" "membership d (i_workspace_id i) (u_id u) = None"
    "make_room_to_join env now (u_id u) (i_workspace_id i) d = Inr (left, d1)"
    "d2 = workspace_event env now ''invitation_accepted'' (i_workspace_id i) (u_id u) p
       (update_invitation (i_id i) (\<lambda>i. i\<lparr>i_accepted_at := Some now, i_accepted_by_id := Some (u_id u)\<rparr>)
         (insert_member (i_workspace_id i) (u_id u) (i_role i) now d1))"
    "check_grants d2 (i_workspace_id i) (i_inviter_id i) (i_vault_grants i) (i_role i) = Inr vs"
    "join_vaults env now i u vs d2 = Inr d'" by (rule accept_cases)
  have "db_workspace_members d' = db_workspace_members d2"
    using join_vaults_step [OF c(6) check_grants_vaults [OF c(5)]] by (simp add: same_standing_def)
  then have rows: "db_workspace_members d' = db_workspace_members d1 @ [\<lparr>wm_id = next_id (map wm_id (db_workspace_members d1)),
      wm_workspace_id = i_workspace_id i, wm_user_id = u_id u, wm_role = i_role i, wm_status = ''active'', wm_joined_at = now\<rparr>]"
    by (simp add: c(4))
  define m where "m = last (db_workspace_members d')"
  have m: "m \<in> set (db_workspace_members d')" "wm_key m = (i_workspace_id i, u_id u)" "wm_role m = i_role i" "wm_status m = ''active''"
    unfolding m_def rows by (simp_all add: wm_key_def)
  have "members_typed d'"
    using op_well_kept [OF membership_op.accepted [OF a] assms(1)] by (simp add: well_kept_def tables_typed_def)
  from membership_iff [OF this] have "membership d' (i_workspace_id i) (u_id u) = Some m" using m(1,2) by simp
  moreover obtain rows where "db_vault_members d' = db_vault_members d @ rows" "list_all (granted_row d' i (u_id u)) rows"
    "list_all (\<lambda>g. is_member d' (fst g) (u_id u)) (i_vault_grants i)"
    using accept_grants [OF a(2) assms(2)] by blast
  moreover have "accept_invitation env now' token u' d' = Inl Already_accepted" for now' u'
  proof -
    have "find (\<lambda>j. i_token_hash j = i_token_hash i) (db_invitations d) = Some i"
      using a(1) i(4) by (auto simp: usable_def invitation_for_token_def bindE_Inr split: option.splits)
    from accepted_row [OF a(2) t(2) i(1) this] show ?thesis
      using i(4) by (simp add: accept_invitation_def usable_def invitation_for_token_def check_usable_def invitation_state_def bindE_def)
  qed
  ultimately show ?thesis using i(1,2) c(1,2) am m(3,4) by blast
qed

section \<open>Where removal is not guarded\<close>

lemma vault_ids_owners: "i \<in> set (vault_ids_of d w) \<Longrightarrow> \<exists>v \<in> set (db_vaults d). v_id v = i \<and> current_membership d (v_owner_id v) \<noteq> None"
  by (auto simp: vault_ids_of_def Let_def current_workspace_def split: option.splits)

text \<open>C34: Removing someone from a workspace is meant to be refused while they belong to a vault.  It is not where the
  vault's owner has no active membership (is suspended): such a vault is counted nowhere, and the person
  goes, though still in the vault.\<close>

theorem suspended_owner_leaves_vault_open:
  assumes "membership d w a = Some am" "can_manage (Some am)" "membership d w u = Some m" "wm_role m \<noteq> ''owner''"
    "rank_of (wm_role m) \<le> rank_of (wm_role am)"
    "\<forall>v \<in> set (db_vaults d). is_member d (v_id v) u \<longrightarrow> current_membership d (v_owner_id v) = None"
  shows "\<exists>d'. remove_from_workspace env now w u a d = Inr d' \<and> membership d' w u = None
    \<and> (\<forall>v \<in> set (db_vaults d). is_member d (v_id v) u \<longrightarrow> is_member d' (v_id v) u)"
proof -
  have "vaults_of d u (Some w) = []"
  proof (rule ccontr)
    assume "vaults_of d u (Some w) \<noteq> []"
    then have "set (vaults_of d u (Some w)) \<noteq> {}" by simp
    then obtain v where v: "v \<in> set (db_vaults d)" "is_member d (v_id v) u" "v_id v \<in> set (vault_ids_of d w)"
      by (auto simp: vaults_of_def)
    then obtain v' where v': "v' \<in> set (db_vaults d)" "v_id v' = v_id v" "current_membership d (v_owner_id v') \<noteq> None"
      using vault_ids_owners by metis
    then show False using assms(6) v(2) by simp
  qed
  moreover have "guard_last_owner d w m = Inr ()" using assms(4) by (simp add: guard_last_owner_def)
  moreover have "require_manager d w a = Inr am" using assms(1,2) by (simp add: require_manager_def)
  moreover have "require_rank am (wm_role m) = Inr ()" using assms(5) by (simp add: require_rank_def rank_of_def requireE_def)
  ultimately have "\<exists>p. remove_from_workspace env now w u a d
      = Inr (workspace_event env now ''workspace_member_removed'' w a p (delete_membership w u d))"
    using assms(3) by (auto simp: remove_from_workspace_def require_member_def bindE_def)
  moreover have "membership (delete_membership w u d) w u = None"
    by (auto simp: membership_None delete_membership_def wm_key_def)
  ultimately show ?thesis by (auto simp: is_member_def vault_member_of_def)
qed

end
