(* ===== verification/Workspace_Names.thy ===== *)
theory Workspace_Names
  imports Workspace_Service
begin

text \<open>
  Two small loops of the workspace service: the slug of a new workspace is always found, and is free; a
  link's token leads back to the digest that was stored for it.
\<close>

section \<open>Slugs\<close>

definition slug_candidate :: "ustr \<Rightarrow> nat \<Rightarrow> ustr" where
  "slug_candidate base k = (if k = 1 then base else base @ ''-'' @ dec_nat k)"

lemma candidates_differ: "slug_candidate base j = slug_candidate base k \<Longrightarrow> j = k"
  by (auto simp: slug_candidate_def split: if_splits)

text \<open>The loop is a search through the candidates in order.\<close>

lemma slug_loop_search:
  "1 \<le> n \<Longrightarrow> slug_loop fuel d base n (slug_candidate base n)
     = map_option (slug_candidate base) (find (\<lambda>k. \<not> slug_taken d (slug_candidate base k)) [n..<n + fuel])"
proof (induction fuel arbitrary: n)
  case (Suc fuel)
  have n: "[n..<n + Suc fuel] = n # [Suc n..<Suc n + fuel]" using upt_rec [of n "n + Suc fuel"] by simp
  have step: "base @ ''-'' @ dec_nat (n + 1) = slug_candidate base (Suc n)" using Suc.prems by (simp add: slug_candidate_def)
  have IH: "slug_loop fuel d base (Suc n) (slug_candidate base (Suc n))
     = map_option (slug_candidate base) (find (\<lambda>k. \<not> slug_taken d (slug_candidate base k)) [Suc n..<Suc n + fuel])"
    by (rule Suc.IH) simp
  show ?case unfolding n slug_loop.simps step using IH by simp
qed simp

lemma taken_slugs: "{s. slug_taken d s} = set (DEFAULT_WORKSPACE_SLUG # map w_slug (db_workspaces d))"
  by (auto simp: slug_taken_def)

lemma some_candidate_free: "\<exists>k \<in> set [1..<1 + (length (db_workspaces d) + 2)]. \<not> slug_taken d (slug_candidate base k)"
proof (rule ccontr)
  let ?K = "set [1..<1 + (length (db_workspaces d) + 2)]"
  assume "\<not> ?thesis"
  then have "slug_candidate base ` ?K \<subseteq> {s. slug_taken d s}" by auto
  then have "card (slug_candidate base ` ?K) \<le> card {s. slug_taken d s}" unfolding taken_slugs by (intro card_mono) simp_all
  also have "\<dots> \<le> length (DEFAULT_WORKSPACE_SLUG # map w_slug (db_workspaces d))" unfolding taken_slugs by (rule card_length)
  finally have "card (slug_candidate base ` ?K) \<le> length (db_workspaces d) + 1" by simp
  moreover have "card (slug_candidate base ` ?K) = card ?K"
    by (rule card_image) (use candidates_differ in \<open>auto simp: inj_on_def\<close>)
  ultimately show False by (simp del: upt_Suc)
qed

text \<open>C35: Naming a workspace always ends: whatever the name and whatever slugs are in use, the loop finds one within
  as many tries as there are workspaces and two more, and it is the first of base, base-2, base-3 and
  so on that no workspace has and that is not the shared workspace's.\<close>

theorem slug_always_found:
  "\<exists>k. slug_for env d name = Some (slug_candidate (slug_base env name) k)
     \<and> 1 \<le> k \<and> k \<le> length (db_workspaces d) + 2
     \<and> \<not> slug_taken d (slug_candidate (slug_base env name) k)
     \<and> \<not> (\<exists>j \<in> {1..<k}. \<not> slug_taken d (slug_candidate (slug_base env name) j))"
proof -
  let ?base = "slug_base env name" and ?N = "length (db_workspaces d) + 2"
  let ?free = "\<lambda>k. \<not> slug_taken d (slug_candidate (slug_base env name) k)"
  have s: "slug_for env d name = map_option (slug_candidate ?base) (find ?free [1..<1 + ?N])"
  proof -
    have "slug_candidate ?base 1 = ?base" by (simp add: slug_candidate_def)
    then show ?thesis using slug_loop_search [OF order_refl, of ?N d ?base] unfolding slug_for_def Let_def by simp
  qed
  have "find ?free [1..<1 + ?N] \<noteq> None"
    using some_candidate_free [of d ?base] unfolding find_None_iff by blast
  then obtain k where f: "find ?free [1..<1 + ?N] = Some k" by blast
  then obtain i where i: "i < length [1..<1 + ?N]" "?free ([1..<1 + ?N] ! i)" "k = [1..<1 + ?N] ! i" "\<forall>j<i. \<not> ?free ([1..<1 + ?N] ! j)"
    unfolding find_Some_iff by blast
  then have k: "k = i + 1" "i < ?N" by (simp_all del: upt_Suc)
  have "\<not> ?free j" if j: "j \<in> {1..<k}" for j
  proof -
    have less: "j - 1 < i" using j k by auto
    then have "[1..<1 + ?N] ! (j - 1) = j" using j k by (simp del: upt_Suc)
    then show ?thesis using i(4) less by metis
  qed
  then show ?thesis using s f i(2,3) k by (intro exI [of _ k]) (simp del: upt_Suc)
qed

section \<open>The token of an invitation\<close>

lemma b64_digit_in: "n < 64 \<Longrightarrow> b64_digit n \<in> set b64_alphabet"
proof -
  assume "n < 64"
  moreover have "length b64_alphabet = 64" by (simp add: b64_alphabet_def)
  ultimately show ?thesis by (simp add: b64_digit_def)
qed

lemma b64encode_shape:
  "length bs mod 3 = 2 \<Longrightarrow> \<exists>s. b64encode bs = s @ ''='' \<and> set s \<subseteq> set b64_alphabet \<and> length s = 4 * (length bs div 3) + 3"
proof (induction bs rule: b64encode.induct)
  case (3 a b)
  show ?case
    by (intro exI [of _ "[b64_digit (code_of a div 4), b64_digit (code_of a mod 4 * 16 + code_of b div 16), b64_digit (code_of b mod 16 * 4)]"])
      (use code_bounds in \<open>simp add: b64_digit_in\<close>)
next
  case (4 a b c r)
  have "length r mod 3 = 2" and groups: "(3 + length r) div 3 = 1 + length r div 3" using 4(2) by simp_all
  then obtain s where s: "b64encode r = s @ ''=''" "set s \<subseteq> set b64_alphabet" "length s = 4 * (length r div 3) + 3" using 4(1) by blast
  show ?case
    by (intro exI [of _ "[b64_digit (code_of a div 4), b64_digit (code_of a mod 4 * 16 + code_of b div 16),
        b64_digit (code_of b mod 16 * 4 + code_of c div 64), b64_digit (code_of c mod 64)] @ s"])
      (use code_bounds s groups in \<open>simp add: b64_digit_in\<close>)
qed simp_all

lemma alphabet_chars:
  "\<forall>c \<in> set b64_alphabet. code_of c div 64 \<noteq> (2 :: nat) \<and> c \<noteq> CHR ''='' \<and> c \<noteq> CHR ''-'' \<and> c \<noteq> CHR ''_''"
  by (simp add: b64_alphabet_def)

text \<open>A link leads back to its invitation: the digest computed from the token that was sent is the one that was
  stored, for whatever 32 bytes were drawn; the token is 43 characters of the URL-safe alphabet.\<close>

theorem token_round_trip:
  assumes "length raw = TOKEN_BYTES"
  shows "token_digest H (fst (new_token H raw)) = Some (snd (new_token H raw))
    \<and> length (fst (new_token H raw)) = 43 \<and> CHR ''='' \<notin> set (fst (new_token H raw))"
proof -
  obtain s where s: "b64encode raw = s @ ''=''" "set s \<subseteq> set b64_alphabet" "length s = 43"
    using b64encode_shape [of raw] assms by (auto simp: TOKEN_BYTES_def)
  have c: "code_of c div 64 \<noteq> (2 :: nat)" "c \<noteq> CHR ''=''" "c \<noteq> CHR ''-''" "c \<noteq> CHR ''_''" if "c \<in> set s" for c
    using that s(2) alphabet_chars by blast+
  have no_eq: "CHR ''='' \<notin> set (url_safe s)" using c by (auto simp: url_safe_def split: if_splits)
  have "dropWhile (\<lambda>c. c = CHR ''='') (rev (url_safe s)) = rev (url_safe s)"
    using no_eq by (cases "rev (url_safe s)") (auto simp flip: set_rev [of "url_safe s"])
  then have t: "fst (new_token H raw) = url_safe s" by (simp add: new_token_def s(1) url_safe_def)
  have ascii: "code_of c div 64 \<noteq> (2 :: nat)" if "c \<in> set (url_safe s)" for c
    using that c by (auto simp: url_safe_def split: if_splits)
  have "str_len (url_safe s) = length (url_safe s)" using ascii by (simp add: str_len_def)
  then have len: "str_len (url_safe s) = 43" by (simp add: url_safe_def s(3))
  have "url_plain (url_safe s @ ''='') = s @ ''=''"
  proof -
    have "map ((\<lambda>c. if c = CHR ''-'' then CHR ''+'' else if c = CHR ''_'' then CHR ''/'' else c)
        \<circ> (\<lambda>c. if c = CHR ''+'' then CHR ''-'' else if c = CHR ''/'' then CHR ''_'' else c)) s = s"
      by (rule map_idI) (use c in auto)
    then show ?thesis by (simp add: url_plain_def url_safe_def)
  qed
  then have "b64decode (url_plain (url_safe s @ ''='')) = Some raw" by (simp flip: s(1))
  then show ?thesis using len no_eq assms unfolding t by (simp add: token_digest_def new_token_def url_safe_def s(3))
qed

lemma token_round_trip_witness:
  "token_digest (\<lambda>x. x) (fst (new_token (\<lambda>x. x) (replicate 32 CHR ''a''))) = Some (snd (new_token (\<lambda>x. x) (replicate 32 CHR ''a'')))"
  using token_round_trip [of "replicate 32 CHR ''a''" "\<lambda>x. x"] by (simp add: TOKEN_BYTES_def)

end
