(* ===== verification/Membership_Examples.thy ===== *)
theory Membership_Examples
  imports Membership_Theorems Workspace_Names Approval_Examples
begin

text \<open>
  The guarantees of the workspace and vault services applied to a small office: an owner, a member with
  an enrolled phone, a vault with the member as viewer, and an open invitation.  And two states the
  services reach that they mean to exclude.
\<close>

section \<open>An office\<close>

definition office_env :: text_env where
  "office_env = vault_env.extend vote_env \<lparr>te_lower = (\<lambda>s. s), te_invisible = (\<lambda>_. False)\<rparr>"

definition person :: "int \<Rightarrow> ustr \<Rightarrow> user_row" where
  "person i email = \<lparr>u_id = i, u_email = email, u_display_name = ''n'', u_password_hash = [], u_kek_salt = [], u_kdf_params = [],
     u_role = ''user'', u_created_at = 0\<rparr>"

definition seat :: "int \<Rightarrow> int \<Rightarrow> ustr \<Rightarrow> ustr \<Rightarrow> workspace_member" where
  "seat i u role status = \<lparr>wm_id = i, wm_workspace_id = 1, wm_user_id = u, wm_role = role, wm_status = status, wm_joined_at = 0\<rparr>"

definition office_workspace :: workspace_row where
  "office_workspace = \<lparr>w_id = 1, w_name = ''office'', w_slug = ''office'', w_created_at = 0, w_sod_default = True,
     w_checklist_dismissed_at = None\<rparr>"

definition office_token :: ustr where "office_token = fst (new_token (\<lambda>_. ''h'') (replicate 32 CHR ''a''))"

definition office_invitation :: invitation_row where
  "office_invitation = \<lparr>i_id = 1, i_workspace_id = 1, i_email = ''c@x.co'', i_role = ''member'', i_vault_grants = [(1, ''viewer'')],
     i_inviter_id = 1, i_token_hash = ''h'', i_created_at = 0, i_expires_at = 100, i_accepted_at = None, i_accepted_by_id = None,
     i_revoked_at = None\<rparr>"

definition office :: "workspace_member list \<Rightarrow> vault_member list \<Rightarrow> db" where
  "office seats vms = empty_db\<lparr>db_users := [person 1 ''a@x.co'', person 2 ''b@x.co'', person 3 ''c@x.co''],
     db_keys := [phone], db_workspaces := [office_workspace], db_workspace_members := seats, db_vaults := [vault_one],
     db_vault_members := vms, db_invitations := [office_invitation], db_proposals := [proposal_one]\<rparr>"

definition two_seats :: "workspace_member list" where "two_seats = [seat 1 1 ''owner'' ''active'', seat 2 2 ''member'' ''active'']"

definition two_members :: "vault_member list" where
  "two_members = [\<lparr>vm_vault_id = 1, vm_user_id = 1, vm_member_role = ''owner''\<rparr>, \<lparr>vm_vault_id = 1, vm_user_id = 2, vm_member_role = ''viewer''\<rparr>]"

lemma office_tables [simp]:
  "db_workspaces (office s m) = [office_workspace]" "db_workspace_members (office s m) = s" "db_vaults (office s m) = [vault_one]"
  "db_vault_members (office s m) = m" "db_invitations (office s m) = [office_invitation]" "db_keys (office s m) = [phone]"
  "db_users (office s m) = [person 1 ''a@x.co'', person 2 ''b@x.co'', person 3 ''c@x.co'']"
  "db_proposals (office s m) = [proposal_one]" "db_signatures (office s m) = []"
  by (simp_all add: office_def empty_db_def)

lemmas office_rows = two_seats_def two_members_def seat_def person_def office_workspace_def vault_one_def office_invitation_def

lemma office_kept: "well_kept (office two_seats two_members)"
proof -
  have "members_typed (office two_seats two_members)"
    by (simp add: members_typed_def member_typed_def office_rows wm_key_def WORKSPACE_ROLES_def MEMBER_STATUSES_def)
  moreover have "vaults_typed (office two_seats two_members)"
    by (simp add: vaults_typed_def office_rows vm_key_def owner_row_def VAULT_ROLES_def)
  moreover have "invitations_typed (office two_seats two_members)"
    by (simp add: invitations_typed_def invitation_typed_def office_rows wids_def WORKSPACE_ROLES_def INVITABLE_VAULT_ROLES_def)
  moreover have "led (office two_seats two_members)"
  proof -
    have "active_owner (office two_seats two_members) 1 (seat 1 1 ''owner'' ''active'')"
      by (simp add: active_owner_def is_active_def office_rows)
    moreover have "w = 1" if "populated (office two_seats two_members) w" for w
      using that by (simp add: populated_def office_rows)
    ultimately show ?thesis unfolding led_def by blast
  qed
  ultimately show ?thesis by (simp add: well_kept_def tables_typed_def)
qed

section \<open>The member is made an owner\<close>

definition promoted :: db where
  "promoted = projr (change_role office_env 5 1 2 ''owner'' 1 (office two_seats two_members))"

lemma promoted_result: "change_role office_env 5 1 2 ''owner'' 1 (office two_seats two_members) = Inr promoted"
  by (simp add: promoted_def change_role_def WORKSPACE_ROLES_def require_manager_def require_member_def membership_def can_manage_def
      is_active_def MANAGER_ROLES_def require_rank_def requireE_def role_rank_def guard_last_owner_def bindE_def two_seats_def seat_def)

lemma promoted_members: "db_workspace_members promoted = [seat 1 1 ''owner'' ''active'', seat 2 2 ''owner'' ''active'']"
  by (simp add: promoted_def change_role_def WORKSPACE_ROLES_def require_manager_def require_member_def membership_def can_manage_def
      is_active_def MANAGER_ROLES_def require_rank_def requireE_def role_rank_def guard_last_owner_def bindE_def two_seats_def seat_def
      update_membership_def)

lemma promoted_op: "membership_op office_env (Some 1) (office two_seats two_members) promoted"
  by (rule membership_op.role_changed [OF promoted_result])

lemma promoted_step: "(membership_step office_env)\<^sup>*\<^sup>* (office two_seats two_members) promoted"
  using membership_step.operation [OF promoted_op] by blast

lemma tables_stay_typed_witness:
  "list_all (\<lambda>m. wm_role m \<in> set WORKSPACE_ROLES) (db_workspace_members promoted)"
  using tables_stay_typed [OF office_kept promoted_step] by (simp add: list_all_iff)

lemma workspace_keeps_an_owner_witness:
  "\<exists>m'. active_owner promoted 1 m'"
proof -
  have "populated promoted 1" "\<not> plain_shared promoted 1"
    by (auto simp: populated_def promoted_members plain_shared_def seat_def)
  then show ?thesis using workspace_keeps_an_owner [OF office_kept promoted_step] by blast
qed

lemma quorum_stays_reachable_witness:
  "\<exists>v \<in> set (db_vaults promoted). v_id v = v_id vault_one \<and> v_threshold_m v \<le> int (length (signer_members promoted (v_id vault_one)))"
  by (rule quorum_stays_reachable [OF office_kept promoted_step])
    (simp_all add: signer_members_def vault_members_def is_approver_def SIGNER_ROLES_def two_members_def vault_one_def)

lemma ownership_comes_from_owners_witness:
  "\<exists>a am. Some 1 = Some a \<and> membership (office two_seats two_members) 1 a = Some am \<and> wm_role am = ''owner'' \<and> wm_status am = ''active''"
  using ownership_comes_from_owners [OF office_kept rtranclp.rtrancl_refl promoted_op, of "seat 1 1 ''owner'' ''active''" "seat 2 2 ''owner'' ''active''"]
  by (simp add: promoted_members two_seats_def seat_def membership_def)

lemma membership_keeps_decisions_witness:
  "get_proposal promoted 3 = Some proposal_one \<and> signatures_of promoted proposal_one = []"
  using membership_keeps_decisions [OF office_kept promoted_op, of 3 proposal_one vote_env]
  by (simp add: get_proposal_def proposal_one_fields signatures_of_def)

section \<open>The viewer is made an approver\<close>

definition approving :: "(vault_member \<times> db)" where
  "approving = projr (change_member_role office_env 5 vault_one 2 ''signer'' 1 (office two_seats two_members))"

lemmas approving_simps = change_member_role_def vault_member_of_def require_can_approve_def workspace_of_vault_def
  current_workspace_def current_membership_def membership_def is_active_def require_enrolled_key_def has_enrolled_key_def
  enrolled_key_def requireE_def bindE_def Let_def update_member_def office_rows phone_def

lemma approving_result:
  "change_member_role office_env 5 vault_one 2 ''signer'' 1 (office two_seats two_members) = Inr (fst approving, snd approving)"
  "db_vault_members (snd approving) = [\<lparr>vm_vault_id = 1, vm_user_id = 1, vm_member_role = ''owner''\<rparr>,
     \<lparr>vm_vault_id = 1, vm_user_id = 2, vm_member_role = ''signer''\<rparr>]"
  by (simp_all add: approving_def approving_simps)

lemma new_approver_can_approve_witness: "has_enrolled_key (snd approving) 2"
  using new_approver_can_approve [OF office_kept membership_op.vault_role_changed [OF approving_result(1)],
      of "\<lparr>vm_vault_id = 1, vm_user_id = 2, vm_member_role = ''signer''\<rparr>"]
  by (auto simp: approving_result two_members_def)

section \<open>The invitation is accepted\<close>

lemma office_digest: "token_digest (\<lambda>_. ''h'') office_token = Some ''h''"
  unfolding office_token_def by code_simp

definition joined :: db where
  "joined = projr (accept_invitation office_env 5 office_token (person 3 ''c@x.co'') (office two_seats two_members))"

lemma stripped_address: "strip ''c@x.co'' = ''c@x.co''"
  by code_simp

lemma joined_result: "accept_invitation office_env 5 office_token (person 3 ''c@x.co'') (office two_seats two_members) = Inr joined"
proof -
  have u: "usable office_env 5 (office two_seats two_members) office_token = Inr office_invitation"
    using office_digest
    by (simp add: usable_def invitation_for_token_def office_env_def vote_env_def vault_env.defs toy_env_def check_usable_def invitation_state_def
      inviter_still_entitled_def membership_def can_manage_def is_active_def MANAGER_ROLES_def role_rank_def bindE_def office_rows)
  have "\<exists>d'. accept office_env 5 office_invitation (person 3 ''c@x.co'') (office two_seats two_members) = Inr d'"
    by (simp add: bindE_def accept_def membership_def make_room_to_join_def workspace_to_leave_def
      memberships_of_def join_order_def office_rows check_grants_def get_vault_def workspace_of_vault_def current_workspace_def
      current_membership_def is_active_def insert_member_def update_invitation_def is_member_def vault_member_of_def add_member_def
      find_member_user_def Let_def office_env_def vault_env.defs stripped_address)
  then show ?thesis by (auto simp: joined_def accept_invitation_def u bindE_def)
qed

lemma own_person: "own_address office_env (office two_seats two_members) (person 3 ''c@x.co'')"
proof -
  have "te_lower office_env x = x" for x by (simp add: office_env_def vault_env.defs)
  then show ?thesis by (simp add: own_address_def person_def stripped_address)
qed

text \<open>The person sits in the vault that was granted, with the role that was granted.\<close>

lemma invitation_good_once_witness:
  "accept_invitation office_env 6 office_token (person 3 ''c@x.co'') joined = Inl Already_accepted \<and> is_member joined 1 3"
  using invitation_good_once [OF office_kept own_person joined_result] by (auto simp: office_rows)

section \<open>A suspended owner\<close>

text \<open>The office with its vault's owner suspended, by another owner who was there first.\<close>

definition suspended_seats :: "workspace_member list" where
  "suspended_seats = [seat 3 3 ''owner'' ''active'', seat 1 1 ''member'' ''suspended'', seat 2 2 ''member'' ''active'']"

lemma suspended_owner_leaves_vault_open_witness:
  "\<exists>d'. remove_from_workspace office_env 5 1 2 3 (office suspended_seats two_members) = Inr d'
     \<and> membership d' 1 2 = None \<and> is_member d' 1 2"
proof -
  have "\<exists>d'. remove_from_workspace office_env 5 1 2 3 (office suspended_seats two_members) = Inr d'
     \<and> membership d' 1 2 = None \<and> (\<forall>v \<in> set (db_vaults (office suspended_seats two_members)).
       is_member (office suspended_seats two_members) (v_id v) 2 \<longrightarrow> is_member d' (v_id v) 2)"
    by (rule suspended_owner_leaves_vault_open [where am = "seat 3 3 ''owner'' ''active''" and m = "seat 2 2 ''member'' ''active''"])
      (simp_all add: suspended_seats_def seat_def membership_def can_manage_def is_active_def MANAGER_ROLES_def role_rank_def rank_of_def
        current_membership_def vault_one_def)
  then show ?thesis by (auto simp: vault_one_def is_member_def vault_member_of_def two_members_def)
qed

text \<open>While the owner is active the same removal is refused, for the vault's sake.\<close>

lemma active_owner_keeps_members:
  "remove_from_workspace office_env 5 1 2 3 (office [seat 3 3 ''owner'' ''active'', seat 1 1 ''member'' ''active'', seat 2 2 ''member'' ''active''] two_members)
     = Inl (Still_in_vaults [''v''])"
  by code_simp

section \<open>A vacated shared workspace\<close>

text \<open>The operator's path joins as a member whenever there is a shared workspace, also when nobody is left in it:
  it then has a member and no owner.  This is the exception in the guarantees above, and the next person the
  operator adopts becomes its owner with no owner acting.\<close>

definition vacated :: db where
  "vacated = (office [] [])\<lparr>db_workspaces := [office_workspace\<lparr>w_slug := DEFAULT_WORKSPACE_SLUG\<rparr>], db_vaults := [], db_invitations := []\<rparr>"

lemma vacated_tables:
  "db_workspaces vacated = [office_workspace\<lparr>w_slug := DEFAULT_WORKSPACE_SLUG\<rparr>]" "db_workspace_members vacated = []"
  "db_vaults vacated = []" "db_vault_members vacated = []" "db_invitations vacated = []"
  by (simp_all add: vacated_def)

lemma vacated_joined: "join_shared_workspace 5 1 vacated = insert_member 1 1 ''member'' 5 vacated"
  by (simp add: join_shared_workspace_def shared_workspace_def vacated_tables office_workspace_def DEFAULT_WORKSPACE_SLUG_def)

lemma vacated_workspace_has_no_owner:
  "well_kept vacated \<and> membership_op office_env None vacated (join_shared_workspace 5 1 vacated)
    \<and> populated (join_shared_workspace 5 1 vacated) 1 \<and> (\<nexists>m. active_owner (join_shared_workspace 5 1 vacated) 1 m)"
proof -
  have "populated (join_shared_workspace 5 1 vacated) 1" "\<nexists>m. active_owner (join_shared_workspace 5 1 vacated) 1 m"
    unfolding vacated_joined by (simp_all add: populated_def active_owner_def vacated_tables)
  moreover have "well_kept vacated"
    by (simp add: vacated_tables well_kept_def tables_typed_def members_typed_def vaults_typed_def invitations_typed_def led_def populated_def)
  moreover have "membership_op office_env None vacated (join_shared_workspace 5 1 vacated)"
    by (rule membership_op.placed [OF _ refl]) (simp add: membership_def vacated_tables)
  ultimately show ?thesis by simp
qed

lemma adopted_without_an_owner:
  "\<exists>d'. join_shared_workspace_from office_env 6 2 (join_shared_workspace 5 1 vacated) = Inr (None, d')
    \<and> (\<exists>m. active_owner d' 1 m \<and> wm_user_id m = 2)"
proof -
  let ?d = "insert_member 1 1 ''member'' 5 vacated"
  have "shared_workspace ?d = Some (office_workspace\<lparr>w_slug := DEFAULT_WORKSPACE_SLUG\<rparr>)" "w_id office_workspace = 1"
    by (simp_all add: shared_workspace_def vacated_tables office_workspace_def)
  moreover have "membership ?d 1 2 = None" by (simp add: membership_def vacated_tables)
  moreover have "make_room_to_join office_env 6 2 1 ?d = Inr (None, ?d)"
    by (simp add: make_room_to_join_def workspace_to_leave_def memberships_of_def join_order_def vacated_tables)
  ultimately have "join_shared_workspace_from office_env 6 2 ?d = Inr (None, insert_member 1 2 ''owner'' 6 ?d)"
    by (simp add: join_shared_workspace_from_def bindE_def Let_def vacated_tables)
  moreover have "active_owner (insert_member 1 2 ''owner'' 6 ?d) 1 (last (db_workspace_members (insert_member 1 2 ''owner'' 6 ?d)))"
    "wm_user_id (last (db_workspace_members (insert_member 1 2 ''owner'' 6 ?d))) = 2"
    by (simp_all add: active_owner_def is_active_def)
  ultimately show ?thesis unfolding vacated_joined by blast
qed

end
