(* ===== verification/Decision_Types.thy ===== *)
theory Decision_Types
  imports Models
begin

text \<open>
  \<open>services/decision_types.py\<close>: the typed decisions (production access, contract), whose filled write the
  decision's text.  Fields come as JSON from a form, the API or a stored row.  A field's rules work on
  code points, read from the UTF-8 bytes by \<open>code_points\<close>.  The refusals in plain words are left out: a
  refusal is the field and its code.
\<close>

section \<open>Types, filled and labels\<close>

definition TEMPLATE_VERSION :: int where "TEMPLATE_VERSION = 1"
definition DECISION_TYPES :: "ustr list" where "DECISION_TYPES = [''general'', ''payment'', ''access'', ''contract'']"
definition STORED_TYPES :: "ustr list" where "STORED_TYPES = [''access'', ''contract'']"

definition ACCESS_LEVELS :: "(ustr \<times> ustr \<times> ustr) list" where
  "ACCESS_LEVELS = [(''read'', ''Read-only'', ''read-only''), (''write'', ''Read and write'', ''read and write''),
     (''admin'', ''Administrator'', ''administrator'')]"

datatype field_kind = Text_field | Choice_field | Datetime_field | Date_field | Amount_field | Currency_field

record field_spec =
  fs_key :: ustr
  fs_label :: ustr
  fs_kind :: field_kind
  fs_required :: bool
  fs_max_len :: nat

definition spec :: "ustr \<Rightarrow> ustr \<Rightarrow> field_kind \<Rightarrow> bool \<Rightarrow> nat \<Rightarrow> field_spec" where
  "spec key label kind required max_len =
     \<lparr>fs_key = key, fs_label = label, fs_kind = kind, fs_required = required, fs_max_len = max_len\<rparr>"

definition ACCESS_SPECS :: "field_spec list" where
  "ACCESS_SPECS =
     [spec ''person'' ''Person'' Text_field True 80, spec ''system'' ''System'' Text_field True 80,
      spec ''level'' ''Access'' Choice_field True 0, spec ''until'' ''Until'' Datetime_field True 0,
      spec ''reason'' ''Reason'' Text_field True 280, spec ''reference'' ''Reference'' Text_field False 80]"

definition CONTRACT_SPECS :: "field_spec list" where
  "CONTRACT_SPECS =
     [spec ''counterparty'' ''Counterparty'' Text_field True 120, spec ''subject'' ''Subject'' Text_field True 280,
      spec ''amount'' ''Value'' Amount_field False 0, spec ''currency'' ''Currency'' Currency_field False 0,
      spec ''starts'' ''Starts'' Date_field False 0, spec ''ends'' ''Ends'' Date_field False 0,
      spec ''reference'' ''Reference'' Text_field False 80]"

definition SPECS :: "(ustr \<times> field_spec list) list" where
  "SPECS = [(''access'', ACCESS_SPECS), (''contract'', CONTRACT_SPECS)]"

section \<open>The character rules\<close>

definition continuation :: "char \<Rightarrow> bool" where
  "continuation c \<longleftrightarrow> code_of c div 64 = (2 :: nat)"

definition lead_bits :: "char \<Rightarrow> nat" where
  "lead_bits c =
     (let n = code_of c in if n < 192 then n else if n < 224 then n mod 32 else if n < 240 then n mod 16 else n mod 8)"

lemma length_dropWhile_less [termination_simp]: "length (dropWhile P xs) < Suc (length xs)"
  using length_dropWhile_le [of P xs] by simp

fun code_points :: "ustr \<Rightarrow> nat list" where
  "code_points [] = []"
| "code_points (c # cs) =
     (if code_of c < (128 :: nat) then code_of c # code_points cs
      else foldl (\<lambda>n d. n * 64 + code_of d mod 64) (lead_bits c) (takeWhile continuation cs)
        # code_points (dropWhile continuation cs))"

definition LINE_BREAKS :: "nat list" where
  "LINE_BREAKS = [0x0A, 0x0B, 0x0C, 0x0D, 0x85, 0x2028, 0x2029]"

definition HIDDEN_RANGES :: "(nat \<times> nat) list" where
  "HIDDEN_RANGES =
     [(0x0000, 0x001F), (0x007F, 0x009F), (0x00AD, 0x00AD), (0x034F, 0x034F), (0x061C, 0x061C), (0x115F, 0x1160),
      (0x17B4, 0x17B5), (0x180B, 0x180F), (0x200B, 0x200F), (0x202A, 0x202E), (0x2060, 0x206F), (0x3164, 0x3164),
      (0xD800, 0xDFFF), (0xE000, 0xF8FF), (0xFDD0, 0xFDEF), (0xFE00, 0xFE0F), (0xFEFF, 0xFEFF), (0xFFA0, 0xFFA0),
      (0xFFF0, 0xFFFF), (0x1BCA0, 0x1BCA3), (0x1D173, 0x1D17A), (0xE0000, 0xE0FFF), (0xF0000, 0x10FFFF)]"

definition DOUBLE_QUOTES :: "nat list" where
  "DOUBLE_QUOTES =
     [0x0022, 0x00AB, 0x00BB, 0x02BA, 0x02DD, 0x02EE, 0x05F4, 0x201C, 0x201D, 0x201E, 0x201F, 0x2033, 0x2036, 0x275D,
      0x275E, 0x2E42, 0x3003, 0x301D, 0x301E, 0x301F, 0xFF02, 0x1F676, 0x1F677, 0x1F678]"

definition SINGLE_QUOTES :: "nat list" where
  "SINGLE_QUOTES =
     [0x0027, 0x0060, 0x00B4, 0x02B9, 0x02BB, 0x02BC, 0x02BD, 0x2018, 0x2019, 0x201A, 0x201B, 0x2032, 0x2035, 0x2039,
      0x203A, 0xFF07]"

definition OTHER_SPACES :: "nat list" where
  "OTHER_SPACES = [0x00A0, 0x1680, 0x202F, 0x205F, 0x2800, 0x3000] @ [0x2000..<0x200B]"

definition hidden :: "nat \<Rightarrow> bool" where
  "hidden cp \<longleftrightarrow> cp mod 0x10000 \<ge> 0xFFFE \<or> list_ex (\<lambda>(low, high). low \<le> cp \<and> cp \<le> high) HIDDEN_RANGES"

datatype problem_code =
    Unknown_type | Unknown_version | Not_an_object | Unknown_field | Missing | Not_text | Too_long | Line_break
  | Hidden_character | Spacing | Quote_mark | Label_in_value | Bad_choice | Bad_datetime | Bad_date | Bad_amount
  | Bad_currency | Value_pair | Wrong_order | In_past

record problem =
  pr_field :: "ustr option"
  pr_code :: problem_code

fun scan_text :: "bool \<Rightarrow> nat list \<Rightarrow> problem_code option" where
  "scan_text after_single [] = None"
| "scan_text after_single (cp # cps) =
     (if cp \<in> set LINE_BREAKS then Some Line_break
      else if hidden cp then Some Hidden_character
      else if cp \<in> set OTHER_SPACES then Some Spacing
      else if cp \<in> set DOUBLE_QUOTES \<or> after_single \<and> cp \<in> set SINGLE_QUOTES then Some Quote_mark
      else scan_text (cp \<in> set SINGLE_QUOTES) cps)"

fun occurs_in :: "ustr \<Rightarrow> ustr \<Rightarrow> bool" where
  "occurs_in part [] \<longleftrightarrow> part = []"
| "occurs_in part (c # cs) \<longleftrightarrow> take (length part) (c # cs) = part \<or> occurs_in part cs"

definition text_problem :: "ustr \<Rightarrow> nat \<Rightarrow> ustr list \<Rightarrow> problem_code option" where
  "text_problem value' max_len labels =
     (case scan_text False (code_points value') of
        Some code \<Rightarrow> Some code
      | None \<Rightarrow>
          if value' \<noteq> [] \<and> (hd value' = CHR '' '' \<or> last value' = CHR '' '') \<or> occurs_in ''  '' value' then Some Spacing
          else if str_len value' > max_len then Some Too_long
          else if list_ex (\<lambda>label. occurs_in (label @ '': '') value') labels then Some Label_in_value
          else None)"

section \<open>The other kinds of field\<close>

definition leap_year :: "nat \<Rightarrow> bool" where
  "leap_year y \<longleftrightarrow> y mod 4 = 0 \<and> (y mod 100 \<noteq> 0 \<or> y mod 400 = 0)"

definition days_in_month :: "nat \<Rightarrow> nat \<Rightarrow> nat" where
  "days_in_month y m = [31, if leap_year y then 29 else 28, 31, 30, 31, 30, 31, 31, 30, 31, 30, 31] ! (m - 1)"

definition real_date :: "ustr \<Rightarrow> bool" where
  "real_date s \<longleftrightarrow>
     (let year = dec_value (take 4 s); month = dec_value (take 2 (drop 5 s)); day = dec_value (take 2 (drop 8 s)) in
      2000 \<le> year \<and> 1 \<le> month \<and> month \<le> 12 \<and> 1 \<le> day \<and> day \<le> days_in_month year month)"

text \<open>A text of a given shape: a digit for \<open>9\<close>, itself for any other character.\<close>

definition shaped :: "ustr \<Rightarrow> ustr \<Rightarrow> bool" where
  "shaped shape s \<longleftrightarrow> list_all2 (\<lambda>p c. if p = CHR ''9'' then is_digit c else c = p) shape s"

definition date_text :: "ustr \<Rightarrow> bool" where "date_text s \<longleftrightarrow> shaped ''9999-99-99'' s"

definition datetime_text :: "ustr \<Rightarrow> bool" where "datetime_text s \<longleftrightarrow> shaped ''9999-99-99 99:99'' s"

definition amount_text :: "ustr \<Rightarrow> bool" where
  "amount_text s \<longleftrightarrow>
     (let whole = takeWhile is_digit s; rest = drop (length whole) s in
      (whole = ''0'' \<or> whole \<noteq> [] \<and> hd whole \<noteq> CHR ''0'' \<and> length whole \<le> 15)
      \<and> (rest = [] \<or> hd rest = CHR ''.'' \<and> list_all is_digit (tl rest) \<and> tl rest \<noteq> [] \<and> length (tl rest) \<le> 6))"

definition currency_text :: "ustr \<Rightarrow> bool" where
  "currency_text s \<longleftrightarrow> length s = 3 \<and> list_all (\<lambda>c. CHR ''A'' \<le> c \<and> c \<le> CHR ''Z'') s"

definition value_problem :: "field_spec \<Rightarrow> ustr \<Rightarrow> ustr list \<Rightarrow> problem_code option" where
  "value_problem f value' labels =
     (case fs_kind f of
        Text_field \<Rightarrow> text_problem value' (fs_max_len f) labels
      | Choice_field \<Rightarrow> if map_of ACCESS_LEVELS value' \<noteq> None then None else Some Bad_choice
      | Datetime_field \<Rightarrow>
          if \<not> datetime_text value' \<or> \<not> real_date (take 10 value') then Some Bad_datetime
          else if dec_value (take 2 (drop 11 value')) \<le> 23 \<and> dec_value (take 2 (drop 14 value')) \<le> 59 then None
          else Some Bad_datetime
      | Date_field \<Rightarrow> if date_text value' \<and> real_date value' then None else Some Bad_date
      | Amount_field \<Rightarrow>
          if amount_text value' \<and> list_ex (\<lambda>c. CHR ''1'' \<le> c \<and> c \<le> CHR ''9'') value' then None else Some Bad_amount
      | Currency_field \<Rightarrow> if currency_text value' then None else Some Bad_currency)"

section \<open>Whether filled write a text\<close>

definition given :: "(ustr \<times> json) list \<Rightarrow> ustr \<Rightarrow> bool" where
  "given filled key \<longleftrightarrow> dict_get key filled \<noteq> JNull \<and> dict_get key filled \<noteq> JStr []"

definition text_of :: "(ustr \<times> json) list \<Rightarrow> ustr \<Rightarrow> ustr" where
  "text_of filled key = (case dict_get key filled of JStr s \<Rightarrow> s | _ \<Rightarrow> [])"

definition field_problem :: "ustr list \<Rightarrow> field_spec \<Rightarrow> json \<Rightarrow> problem_code option" where
  "field_problem labels f value' =
     (if value' = JNull \<or> value' = JStr [] then (if fs_required f then Some Missing else None)
      else case value' of JStr s \<Rightarrow> value_problem f s labels | _ \<Rightarrow> Some Not_text)"

fun first_problem :: "ustr list \<Rightarrow> field_spec list \<Rightarrow> (ustr \<times> json) list \<Rightarrow> problem option" where
  "first_problem labels [] filled = None"
| "first_problem labels (f # fs) filled =
     (case field_problem labels f (dict_get (fs_key f) filled) of
        Some code \<Rightarrow> Some \<lparr>pr_field = Some (fs_key f), pr_code = code\<rparr>
      | None \<Rightarrow> first_problem labels fs filled)"

definition between_fields :: "ustr \<Rightarrow> (ustr \<times> json) list \<Rightarrow> problem option" where
  "between_fields decision_type filled =
     (if decision_type \<noteq> ''contract'' then None
      else if given filled ''amount'' \<noteq> given filled ''currency''
        then Some \<lparr>pr_field = Some (if given filled ''amount'' then ''currency'' else ''amount''), pr_code = Value_pair\<rparr>
      else if given filled ''starts'' \<and> given filled ''ends'' \<and> text_of filled ''ends'' < text_of filled ''starts''
        then Some \<lparr>pr_field = Some ''ends'', pr_code = Wrong_order\<rparr>
      else None)"

text \<open>Python compares the version by value, so \<open>1.0\<close> is the integer one; \<open>True\<close> is refused by name.\<close>

definition this_version :: "json \<Rightarrow> bool" where
  "this_version v \<longleftrightarrow> v = JInt TEMPLATE_VERSION \<or> v = JFloat ''1.0''"

definition specs_of :: "json \<Rightarrow> field_spec list option" where
  "specs_of decision_type = (case decision_type of JStr t \<Rightarrow> map_of SPECS t | _ \<Rightarrow> None)"

definition check_fields :: "json \<Rightarrow> json \<Rightarrow> json \<Rightarrow> problem option" where
  "check_fields decision_type filled version =
     (case specs_of decision_type of
        None \<Rightarrow> Some \<lparr>pr_field = None, pr_code = Unknown_type\<rparr>
      | Some specs \<Rightarrow>
          if \<not> this_version version then Some \<lparr>pr_field = None, pr_code = Unknown_version\<rparr>
          else case filled of
            JObj kvs \<Rightarrow>
              (if list_ex (\<lambda>(k, _). k \<notin> fs_key ` set specs) kvs then Some \<lparr>pr_field = None, pr_code = Unknown_field\<rparr>
               else case first_problem (map fs_label specs) specs kvs of
                 Some p \<Rightarrow> Some p
               | None \<Rightarrow> between_fields (case decision_type of JStr t \<Rightarrow> t | _ \<Rightarrow> []) kvs)
          | _ \<Rightarrow> Some \<lparr>pr_field = None, pr_code = Not_an_object\<rparr>)"

section \<open>The text\<close>

fun group_digits :: "nat \<Rightarrow> ustr \<Rightarrow> ustr" where
  "group_digits 0 whole = whole"
| "group_digits (Suc fuel) whole =
     (if length whole > 3
      then group_digits fuel (take (length whole - 3) whole) @ '','' @ drop (length whole - 3) whole
      else whole)"

definition grouped_amount :: "ustr \<Rightarrow> ustr" where
  "grouped_amount amount =
     (let whole = takeWhile (\<lambda>c. c \<noteq> CHR ''.'') amount; fraction = drop (Suc (length whole)) amount in
      group_digits (length whole) whole @ (if fraction = [] then [] else ''.'' @ fraction))"

definition row_value :: "(ustr \<times> json) list \<Rightarrow> field_spec \<Rightarrow> ustr" where
  "row_value filled f =
     (let s = text_of filled (fs_key f) in
      case fs_kind f of
        Choice_field \<Rightarrow> fst (the (map_of ACCESS_LEVELS s))
      | Datetime_field \<Rightarrow> s @ '' UTC''
      | Amount_field \<Rightarrow> text_of filled ''currency'' @ '' '' @ grouped_amount s
      | _ \<Rightarrow> s)"

definition field_rows :: "ustr \<Rightarrow> (ustr \<times> json) list \<Rightarrow> (ustr \<times> ustr) list" where
  "field_rows decision_type filled =
     map (\<lambda>f. (fs_label f, row_value filled f))
       (filter (\<lambda>f. given filled (fs_key f) \<and> fs_kind f \<noteq> Currency_field) (the (map_of SPECS decision_type)))"

definition open_quote :: ustr where "open_quote = [CHR 0xE2, CHR 0x80, CHR 0x9C]"
definition close_quote :: ustr where "close_quote = [CHR 0xE2, CHR 0x80, CHR 0x9D]"

definition quoted :: "ustr \<Rightarrow> ustr" where "quoted s = open_quote @ s @ close_quote"

definition first_line :: "ustr \<Rightarrow> (ustr \<times> json) list \<Rightarrow> ustr" where
  "first_line decision_type filled =
     (if decision_type = ''access'' then
        ''Grant '' @ quoted (text_of filled ''person'') @ '' '' @ snd (the (map_of ACCESS_LEVELS (text_of filled ''level'')))
        @ '' access to '' @ quoted (text_of filled ''system'') @ '' until '' @ text_of filled ''until'' @ '' UTC.''
      else
        ''Sign the contract with '' @ quoted (text_of filled ''counterparty'')
        @ (if given filled ''amount''
           then '' for '' @ text_of filled ''currency'' @ '' '' @ grouped_amount (text_of filled ''amount'') else [])
        @ ''.'')"

definition newline :: ustr where "newline = [CHR 0x0A]"

definition decision_text :: "json \<Rightarrow> json \<Rightarrow> json \<Rightarrow> ustr option" where
  "decision_text decision_type filled version =
     (if decision_type = JStr ''payment'' then payment_text filled
      else if check_fields decision_type filled version \<noteq> None then None
      else case (decision_type, filled) of
        (JStr t, JObj kvs) \<Rightarrow>
          Some (join newline (first_line t kvs # map (\<lambda>(label, value'). label @ '': '' @ value') (field_rows t kvs)))
      | _ \<Rightarrow> None)"

section \<open>What a person typed, made into filled\<close>

text \<open>The case foldings are Unicode's, so they are arguments.\<close>

record foldings =
  fo_lower :: "ustr \<Rightarrow> ustr"
  fo_upper :: "ustr \<Rightarrow> ustr"

text \<open>Digits in groups of three after commas, with an optional fraction.\<close>

fun comma_groups :: "nat \<Rightarrow> ustr \<Rightarrow> ustr option" where
  "comma_groups 0 s = Some s"
| "comma_groups (Suc fuel) s =
     (if 4 \<le> length s \<and> hd s = CHR '','' \<and> list_all is_digit (take 3 (tl s)) then comma_groups fuel (drop 4 s) else Some s)"

definition thousands_text :: "ustr \<Rightarrow> bool" where
  "thousands_text s \<longleftrightarrow>
     (let whole = takeWhile is_digit s; rest = drop (length whole) s in
      1 \<le> length whole \<and> length whole \<le> 3 \<and> 4 \<le> length rest \<and> hd rest = CHR '','' \<and> list_all is_digit (take 3 (tl rest))
      \<and> (let after = the (comma_groups (length rest) rest) in
         after = [] \<or> hd after = CHR ''.'' \<and> tl after \<noteq> [] \<and> list_all is_digit (tl after)))"

record moment =
  mo_year :: nat
  mo_month :: nat
  mo_day :: nat
  mo_hour :: nat
  mo_minute :: nat

text \<open>Days since 1970 of a civil date, the inverse of \<open>civil_from_days\<close>.\<close>

definition days_from_civil :: "int \<Rightarrow> int \<Rightarrow> int \<Rightarrow> int" where
  "days_from_civil y m d =
     (let y' = (if m \<le> 2 then y - 1 else y);
          era = y' div 400;
          yoe = y' mod 400;
          doy = (153 * (if m > 2 then m - 3 else m + 9) + 2) div 5 + d - 1;
          doe = yoe * 365 + yoe div 4 - yoe div 100 + doy
      in era * 146097 + doe - 719468)"

definition moment_minutes :: "moment \<Rightarrow> int" where
  "moment_minutes t =
     days_from_civil (int (mo_year t)) (int (mo_month t)) (int (mo_day t)) * 1440 + int (mo_hour t) * 60 + int (mo_minute t)"

definition moment_of_minutes :: "int \<Rightarrow> moment option" where
  "moment_of_minutes n =
     (let (y, m, d) = civil_from_days (n div 1440) in
      if y < 1 \<or> 9999 < y then None
      else Some \<lparr>mo_year = nat y, mo_month = nat m, mo_day = nat d, mo_hour = nat (n mod 1440 div 60), mo_minute = nat (n mod 60)\<rparr>)"

text \<open>\<open>strftime("%Y-%m-%d %H:%M")\<close>, with four digits of the year.\<close>

definition moment_text :: "moment \<Rightarrow> ustr" where
  "moment_text t =
     pad_left 4 (dec_nat (mo_year t)) @ ''-'' @ pad_left 2 (dec_nat (mo_month t)) @ ''-'' @ pad_left 2 (dec_nat (mo_day t)) @ '' ''
     @ pad_left 2 (dec_nat (mo_hour t)) @ '':'' @ pad_left 2 (dec_nat (mo_minute t))"

definition read_moment :: "ustr \<Rightarrow> ustr \<Rightarrow> moment option" where
  "read_moment day minute =
     (let t = \<lparr>mo_year = dec_value (take 4 day), mo_month = dec_value (take 2 (drop 5 day)), mo_day = dec_value (take 2 (drop 8 day)),
               mo_hour = dec_value (take 2 minute), mo_minute = dec_value (take 2 (drop 3 minute))\<rparr> in
      if 1 \<le> mo_year t \<and> 1 \<le> mo_month t \<and> mo_month t \<le> 12 \<and> 1 \<le> mo_day t
         \<and> mo_day t \<le> days_in_month (mo_year t) (mo_month t) \<and> mo_hour t \<le> 23 \<and> mo_minute t \<le> 59
      then Some t else None)"

text \<open>The tail of \<open>_LOCAL_TIME\<close> after the minute: optional seconds \<open>:00\<close>, an optional space, and a zone.\<close>

datatype zone = No_zone | Utc_zone | Offset_zone int

definition upper_ascii :: "ustr \<Rightarrow> ustr" where
  "upper_ascii s = map (\<lambda>c. if CHR ''a'' \<le> c \<and> c \<le> CHR ''z'' then byte_of (code_of c - 32) else c) s"

definition zone_text :: "ustr \<Rightarrow> zone option option" where
  "zone_text s =
     (if s = [] then Some (Some No_zone)
      else let z = (if hd s = CHR '' '' then tl s else s) in
        if upper_ascii z \<in> {''Z'', ''UTC''} then Some (Some Utc_zone)
        else if z \<noteq> [] \<and> hd z \<in> {CHR ''+'', CHR ''-''} \<and> shaped ''99:99'' (tl z) then
          (let h = int (dec_value (take 2 (tl z))); m = int (dec_value (drop 3 (tl z))); n = h * 60 + m in
           if 23 < h \<or> 59 < m then Some None
           else Some (Some (Offset_zone (if hd z = CHR ''+'' then n else - n))))
        else None)"

datatype fields_error = Refused problem | Overflow

text \<open>
  A time as a browser sends it, made UTC; one that cannot be read is returned as typed.  Python's
  \<open>astimezone\<close> raises \<open>OverflowError\<close> outside the years 1 to 9999, which the code does not catch: that is
  the left result.
\<close>

definition utc_minute :: "ustr \<Rightarrow> fields_error + ustr" where
  "utc_minute s =
     (let day = take 10 s; sep = take 1 (drop 10 s); minute = take 5 (drop 11 s); rest = drop 16 s;
          zone = (if take 3 rest = '':00'' then drop 3 rest else rest) in
      if \<not> (date_text day \<and> (sep = ''T'' \<or> sep = ''t'' \<or> sep = '' '') \<and> shaped ''99:99'' minute) then Inr s
      else case zone_text zone of
        None \<Rightarrow> Inr s
      | Some z \<Rightarrow>
          (case read_moment day minute of
             None \<Rightarrow> Inr s
           | Some t \<Rightarrow>
               (case z of
                  None \<Rightarrow> Inr s
                | Some No_zone \<Rightarrow> Inr (moment_text t)
                | Some Utc_zone \<Rightarrow> Inr (moment_text t)
                | Some (Offset_zone n) \<Rightarrow>
                    (case moment_of_minutes (moment_minutes t - n) of
                       None \<Rightarrow> Inl Overflow | Some t' \<Rightarrow> Inr (moment_text t')))))"

definition forgiven :: "foldings \<Rightarrow> field_spec \<Rightarrow> json \<Rightarrow> fields_error + json" where
  "forgiven fo f value' =
     (case value' of
        JStr raw \<Rightarrow>
          (let s = strip raw in
           case fs_kind f of
             Choice_field \<Rightarrow> Inr (JStr (fo_lower fo s))
           | Currency_field \<Rightarrow> Inr (JStr (fo_upper fo s))
           | Amount_field \<Rightarrow> Inr (JStr (if thousands_text s then filter (\<lambda>c. c \<noteq> CHR '','') s else s))
           | Datetime_field \<Rightarrow> if s = [] then Inr (JStr s) else bindE (utc_minute s) (\<lambda>t. Inr (JStr t))
           | _ \<Rightarrow> Inr (JStr s))
      | v \<Rightarrow> Inr v)"

fun normal_fields :: "foldings \<Rightarrow> field_spec list \<Rightarrow> (ustr \<times> json) list \<Rightarrow> fields_error + (ustr \<times> json) list" where
  "normal_fields fo [] raw = Inr []"
| "normal_fields fo (f # fs) raw =
     bindE (forgiven fo f (dict_get (fs_key f) raw)) (\<lambda>v.
     bindE (normal_fields fo fs raw) (\<lambda>rest.
       Inr (if v = JNull \<or> v = JStr [] then rest else (fs_key f, v) # rest)))"

definition normalise_fields :: "foldings \<Rightarrow> json \<Rightarrow> json \<Rightarrow> fields_error + (ustr \<times> json) list" where
  "normalise_fields fo decision_type raw =
     (case specs_of decision_type of
        None \<Rightarrow> Inl (Refused \<lparr>pr_field = None, pr_code = Unknown_type\<rparr>)
      | Some specs \<Rightarrow>
          (case raw of
             JObj kvs \<Rightarrow>
               (if list_ex (\<lambda>(k, _). k \<notin> fs_key ` set specs) kvs then Inl (Refused \<lparr>pr_field = None, pr_code = Unknown_field\<rparr>)
                else bindE (normal_fields fo specs kvs) (\<lambda>filled.
                  case check_fields decision_type (JObj filled) (JInt TEMPLATE_VERSION) of
                    Some p \<Rightarrow> Inl (Refused p) | None \<Rightarrow> Inr filled))
           | _ \<Rightarrow> Inl (Refused \<lparr>pr_field = None, pr_code = Not_an_object\<rparr>)))"

definition field_problems :: "foldings \<Rightarrow> json \<Rightarrow> json \<Rightarrow> fields_error + (ustr \<times> problem_code) list" where
  "field_problems fo decision_type raw =
     (case (specs_of decision_type, raw) of
        (Some specs, JObj kvs) \<Rightarrow>
          fold (\<lambda>f acc. bindE acc (\<lambda>out. bindE (forgiven fo f (dict_get (fs_key f) kvs)) (\<lambda>v.
            Inr (case field_problem (map fs_label specs) f v of None \<Rightarrow> out | Some code \<Rightarrow> out @ [(fs_key f, code)]))))
            specs (Inr [])
      | _ \<Rightarrow> Inr [])"

definition until_in_future :: "(ustr \<times> json) list \<Rightarrow> int \<Rightarrow> bool" where
  "until_in_future filled now \<longleftrightarrow>
     (let s = text_of filled ''until'' in
      case read_moment (take 10 s) (drop 11 s) of None \<Rightarrow> False | Some t \<Rightarrow> now < moment_minutes t * 60000000)"

section \<open>Reading a stored decision's type\<close>

definition stored_field_values :: "fields_row \<Rightarrow> json" where
  "stored_field_values r = (case loads (df_fields_json r) of Some (JObj kvs) \<Rightarrow> JObj kvs | _ \<Rightarrow> JNull)"

record typed_view =
  tv_type :: ustr
  tv_fields :: "json option"
  tv_rows :: "(ustr \<times> ustr) list"
  tv_version :: "int option"
  tv_mismatch :: bool

definition plain_view :: "ustr \<Rightarrow> bool \<Rightarrow> typed_view" where
  "plain_view t mismatch = \<lparr>tv_type = t, tv_fields = None, tv_rows = [], tv_version = None, tv_mismatch = mismatch\<rparr>"

text \<open>\<open>None\<close> is the \<open>KeyError\<close> of a stored row that says it is a payment and writes the decision's text.\<close>

definition view_type :: "db \<Rightarrow> proposal_row \<Rightarrow> fields_row option \<Rightarrow> typed_view option" where
  "view_type d p stored =
     (if action_of d p \<noteq> None then Some (plain_view ''payment'' False)
      else case stored of
        None \<Rightarrow> Some (plain_view ''general'' False)
      | Some r \<Rightarrow>
          (let filled = stored_field_values r in
           if decision_text (JStr (df_decision_type r)) filled (JInt (df_template_version r)) \<noteq> Some (p_action_text p)
           then Some (plain_view ''general'' True)
           else case (map_of SPECS (df_decision_type r), filled) of
             (Some _, JObj kvs) \<Rightarrow>
               Some \<lparr>tv_type = df_decision_type r, tv_fields = Some filled, tv_rows = field_rows (df_decision_type r) kvs,
                     tv_version = Some (df_template_version r), tv_mismatch = False\<rparr>
           | _ \<Rightarrow> None))"

end
