(* ===== verification/Decision_Types_Proofs.thy ===== *)
theory Decision_Types_Proofs
  imports Decision_Types
begin

text \<open>
  The text of a typed decision determines its type and its fields, and the two places where the code
  does not do what it says.
\<close>

section \<open>Lines\<close>

lemma join_first:
  assumes "CHR 0x0A \<notin> set x"
  shows "takeWhile (\<lambda>c. c \<noteq> CHR 0x0A) (join newline (x # xs)) = x"
    "drop (Suc (length x)) (join newline (x # xs)) = join newline xs"
proof -
  have all: "\<forall>c \<in> set x. c \<noteq> CHR 0x0A" using assms by auto
  show "takeWhile (\<lambda>c. c \<noteq> CHR 0x0A) (join newline (x # xs)) = x"
  proof (cases xs)
    case Nil
    then show ?thesis using all by (simp add: takeWhile_eq_all_conv)
  next
    case (Cons y ys)
    then show ?thesis using all takeWhile_append2 [of x "\<lambda>c. c \<noteq> CHR 0x0A"] by (simp add: newline_def)
  qed
  show "drop (Suc (length x)) (join newline (x # xs)) = join newline xs"
    by (cases xs) (simp_all add: newline_def)
qed

lemma join_lines_inj:
  "\<forall>x \<in> set xs. CHR 0x0A \<notin> set x \<Longrightarrow> \<forall>y \<in> set ys. CHR 0x0A \<notin> set y
     \<Longrightarrow> \<forall>x \<in> set xs. x \<noteq> [] \<Longrightarrow> \<forall>y \<in> set ys. y \<noteq> [] \<Longrightarrow> join newline xs = join newline ys \<Longrightarrow> xs = ys"
proof (induction xs arbitrary: ys)
  case Nil
  then show ?case by (cases ys) (auto simp: join_Cons)
next
  case (Cons x xs)
  then obtain y ys' where ys: "ys = y # ys'" by (cases ys) (auto simp: join_Cons)
  have nl: "CHR 0x0A \<notin> set x" "CHR 0x0A \<notin> set y" using Cons.prems ys by auto
  have "x = y" using join_first(1) [OF nl(1), of xs] join_first(1) [OF nl(2), of ys'] Cons.prems(5) ys by simp
  moreover have "join newline xs = join newline ys'"
    using join_first(2) [OF nl(1), of xs] join_first(2) [OF nl(2), of ys'] Cons.prems(5) ys \<open>x = y\<close> by simp
  then have "xs = ys'" using Cons.prems ys by (intro Cons.IH) auto
  ultimately show ?case using ys by simp
qed

text \<open>An ASCII byte is a code point of its own.\<close>

lemma ascii_code_point: "c \<in> set s \<Longrightarrow> code_of c < (128 :: nat) \<Longrightarrow> code_of c \<in> set (code_points s)"
proof (induction s rule: code_points.induct)
  case (2 d cs)
  show ?case
  proof (cases "code_of d < (128 :: nat)")
    case True
    then show ?thesis using 2 by auto
  next
    case False
    then have "c \<noteq> d" using 2(4) by auto
    then have "c \<in> set cs" using 2(3) by simp
    then have "c \<in> set (takeWhile continuation cs) \<union> set (dropWhile continuation cs)"
      unfolding set_append [symmetric] takeWhile_dropWhile_id .
    moreover have "c \<notin> set (takeWhile continuation cs)" using 2(4) by (auto simp: continuation_def dest: set_takeWhileD)
    ultimately have "c \<in> set (dropWhile continuation cs)" by blast
    then show ?thesis using 2(2) [OF False _ 2(4)] False by simp
  qed
qed simp

lemma scanned_no_line_break: "scan_text b cps = None \<Longrightarrow> cp \<in> set cps \<Longrightarrow> cp \<notin> set LINE_BREAKS"
  by (induction b cps rule: scan_text.induct) (auto split: if_splits)

lemma text_one_line: "text_problem s n ls = None \<Longrightarrow> CHR 0x0A \<notin> set s"
  using ascii_code_point [of "CHR 0x0A" s] scanned_no_line_break
  by (auto simp: text_problem_def LINE_BREAKS_def split: option.splits)

section \<open>Checked fields\<close>

lemma first_problem_None:
  "first_problem labels specs filled = None \<longleftrightarrow> (\<forall>f \<in> set specs. field_problem labels f (dict_get (fs_key f) filled) = None)"
  by (induction specs) (auto split: option.splits)

lemma checked:
  assumes "check_fields (JStr t) (JObj kvs) v = None"
  obtains specs where "map_of SPECS t = Some specs" "\<forall>k. given kvs k \<longrightarrow> k \<in> fs_key ` set specs"
    "\<forall>f \<in> set specs. field_problem (map fs_label specs) f (dict_get (fs_key f) kvs) = None" "between_fields t kvs = None"
proof -
  from assms obtain specs where c: "map_of SPECS t = Some specs" "\<not> list_ex (\<lambda>(k, _). k \<notin> fs_key ` set specs) kvs"
    "first_problem (map fs_label specs) specs kvs = None" "between_fields t kvs = None"
    by (auto simp: check_fields_def specs_of_def split: option.splits if_splits)
  have "k \<in> fs_key ` set specs" if "given kvs k" for k
  proof (cases "map_of kvs k")
    case None
    then show ?thesis using that by (simp add: given_def dict_get_def)
  next
    case (Some x)
    then have "(k, x) \<in> set kvs" by (rule map_of_SomeD)
    then show ?thesis using c(2) by (auto simp: list_ex_iff)
  qed
  then show thesis using that [OF c(1) _ _ c(4)] c(3) by (simp add: first_problem_None)
qed

lemma given_text:
  assumes "field_problem labels f (dict_get (fs_key f) kvs) = None" "given kvs (fs_key f)"
  shows "dict_get (fs_key f) kvs = JStr (text_of kvs (fs_key f)) \<and> value_problem f (text_of kvs (fs_key f)) labels = None"
  using assms by (auto simp: field_problem_def given_def text_of_def split: json.splits)

section \<open>The lines of the fields\<close>

lemma specs_labels:
  assumes "map_of SPECS t = Some specs"
  shows "distinct (map fs_label specs)" "\<forall>f \<in> set specs. CHR '':'' \<notin> set (fs_label f) \<and> CHR 0x0A \<notin> set (fs_label f)"
  using assms by (auto simp: SPECS_def ACCESS_SPECS_def CONTRACT_SPECS_def spec_def split: if_splits)

lemma label_ends: "CHR '':'' \<notin> set l \<Longrightarrow> takeWhile (\<lambda>c. c \<noteq> CHR '':'') (l @ '': '' @ s) = l"
  by (induction l) auto

lemma rows_inj:
  assumes "distinct (map fs_label specs)" "\<forall>f \<in> set specs. CHR '':'' \<notin> set (fs_label f)"
    "map (\<lambda>f. fs_label f @ '': '' @ v f) (filter P specs) = map (\<lambda>f. fs_label f @ '': '' @ v' f) (filter P' specs)"
  shows "\<forall>f \<in> set specs. P f = P' f \<and> (P f \<longrightarrow> v f = v' f)"
proof -
  let ?label = "takeWhile (\<lambda>c. c \<noteq> CHR '':'')"
  have "map ?label (map (\<lambda>f. fs_label f @ '': '' @ w f) (filter Q specs)) = map fs_label (filter Q specs)" for w Q
    unfolding map_map comp_def by (rule map_cong [OF refl], rule label_ends) (use assms(2) in auto)
  from this [of v P] this [of v' P'] have "map fs_label (filter P specs) = map fs_label (filter P' specs)"
    unfolding assms(3) by simp
  then have same: "filter P specs = filter P' specs"
    by (rule map_inj_on) (use assms(1) in \<open>auto simp: distinct_map intro: inj_on_subset\<close>)
  show ?thesis
  proof
    fix f assume f: "f \<in> set specs"
    have "f \<in> set (filter P specs) \<longleftrightarrow> f \<in> set (filter P' specs)" by (simp only: same)
    then have "P f = P' f" using f by simp
    moreover have "v f = v' f" if "P f"
    proof -
      have "f \<in> set (filter P specs)" using f that by simp
      then have "fs_label f @ '': '' @ v f = fs_label f @ '': '' @ v' f" using assms(3) unfolding same map_eq_conv by blast
      then show ?thesis by simp
    qed
    ultimately show "P f = P' f \<and> (P f \<longrightarrow> v f = v' f)" by blast
  qed
qed

text \<open>The values of the other kinds are one line too, and an amount loses nothing by its commas.\<close>

lemma shaped_set: "shaped p s \<Longrightarrow> c \<in> set s \<Longrightarrow> is_digit c \<or> c \<in> set p"
proof -
  assume a: "shaped p s" "c \<in> set s"
  then obtain i where i: "i < length s" "c = s ! i" by (auto simp: in_set_conv_nth)
  then have "p ! i \<in> set p" "if p ! i = CHR ''9'' then is_digit c else c = p ! i"
    using a(1) by (simp_all add: shaped_def list_all2_conv_all_nth)
  then show ?thesis by (metis (full_types))
qed

lemma amount_shape:
  assumes "amount_text s"
  obtains w r where "s = w @ r" "w \<noteq> []" "\<forall>c \<in> set w. is_digit c" "r = [] \<or> (\<exists>d. r = CHR ''.'' # d \<and> d \<noteq> [] \<and> (\<forall>c \<in> set d. is_digit c))"
proof -
  let ?w = "takeWhile is_digit s" and ?r = "dropWhile is_digit s"
  have r: "drop (length ?w) s = ?r" by (rule dropWhile_eq_drop [symmetric])
  have "?w \<noteq> []" using assms by (auto simp: amount_text_def Let_def)
  moreover have "?r = [] \<or> (\<exists>d. ?r = CHR ''.'' # d \<and> d \<noteq> [] \<and> (\<forall>c \<in> set d. is_digit c))"
    using assms unfolding amount_text_def Let_def r by (cases ?r) (auto simp: list_all_iff)
  moreover have "\<forall>c \<in> set ?w. is_digit c" by (auto dest: set_takeWhileD)
  moreover have "s = ?w @ ?r" by simp
  ultimately show thesis using that by blast
qed

lemma not_digits: "\<not> is_digit (CHR '','')" "\<not> is_digit (CHR ''.'')" "\<not> is_digit (CHR 0x0A)"
  by (simp_all add: is_digit_def)

lemma digits_plain: "\<forall>c \<in> set s. is_digit c \<Longrightarrow> CHR '','' \<notin> set s \<and> CHR ''.'' \<notin> set s \<and> CHR 0x0A \<notin> set s"
  using not_digits by blast

lemma ungroup: "filter (\<lambda>c. c \<noteq> CHR '','') (group_digits n w) = filter (\<lambda>c. c \<noteq> CHR '','') w"
proof (induction n arbitrary: w)
  case (Suc n)
  let ?k = "length w - 3" and ?P = "\<lambda>c. c \<noteq> CHR '',''"
  have parts: "filter ?P (take ?k w) @ filter ?P (drop ?k w) = filter ?P w" by (metis append_take_drop_id filter_append)
  have IH: "filter ?P (group_digits n (take ?k w)) = filter ?P (take ?k w)" by (rule Suc)
  show ?case
  proof (cases "length w > 3")
    case True
    then have "filter ?P (group_digits (Suc n) w) = filter ?P (group_digits n (take ?k w)) @ filter ?P (drop ?k w)" by simp
    then show ?thesis unfolding IH parts .
  qed simp
qed simp

lemma ungrouped_amount:
  assumes "amount_text s"
  shows "filter (\<lambda>c. c \<noteq> CHR '','') (grouped_amount s) = s"
proof -
  obtain w r where s: "s = w @ r" "\<forall>c \<in> set w. is_digit c"
    "r = [] \<or> (\<exists>d. r = CHR ''.'' # d \<and> d \<noteq> [] \<and> (\<forall>c \<in> set d. is_digit c))" using amount_shape [OF assms] by metis
  have w: "filter (\<lambda>c. c \<noteq> CHR '','') w = w" "\<forall>c \<in> set w. c \<noteq> CHR ''.''"
    using digits_plain [OF s(2)] by (auto simp: filter_id_conv)
  from s(3) show ?thesis
  proof (elim disjE exE conjE)
    assume r: "r = []"
    have t: "takeWhile (\<lambda>c. c \<noteq> CHR ''.'') w = w" using w(2) by (simp add: takeWhile_eq_all_conv)
    show ?thesis unfolding s(1) r append_Nil2 grouped_amount_def Let_def t by (simp add: ungroup w(1))
  next
    fix d assume d: "r = CHR ''.'' # d" "d \<noteq> []" "\<forall>c \<in> set d. is_digit c"
    have "takeWhile (\<lambda>c. c \<noteq> CHR ''.'') s = w" using w(2) s(1) d(1) by (simp add: takeWhile_append2)
    moreover have "filter (\<lambda>c. c \<noteq> CHR '','') d = d" using digits_plain [OF d(3)] by (auto simp: filter_id_conv)
    ultimately show ?thesis using w(1) s(1) d(1,2) by (simp add: grouped_amount_def ungroup Let_def)
  qed
qed

section \<open>What each line says\<close>

lemma level_inj: "map_of ACCESS_LEVELS a \<noteq> None \<Longrightarrow> map_of ACCESS_LEVELS b \<noteq> None
    \<Longrightarrow> fst (the (map_of ACCESS_LEVELS a)) = fst (the (map_of ACCESS_LEVELS b)) \<Longrightarrow> a = b"
  by (auto simp: ACCESS_LEVELS_def split: if_splits)

lemma level_line: "map_of ACCESS_LEVELS a \<noteq> None \<Longrightarrow> CHR 0x0A \<notin> set (fst (the (map_of ACCESS_LEVELS a)))"
  by (auto simp: ACCESS_LEVELS_def split: if_splits)

lemma amount_specs:
  assumes "map_of SPECS t = Some specs" "f \<in> set specs" "fs_kind f = Amount_field"
  shows "t = ''contract'' \<and> fs_key f = ''amount'' \<and> spec ''currency'' ''Currency'' Currency_field False 0 \<in> set specs"
  using assms by (auto simp: SPECS_def ACCESS_SPECS_def CONTRACT_SPECS_def spec_def split: if_splits)

lemma currency_specs:
  assumes "map_of SPECS t = Some specs" "f \<in> set specs" "fs_kind f = Currency_field"
  shows "t = ''contract'' \<and> fs_key f = ''currency'' \<and> spec ''amount'' ''Value'' Amount_field False 0 \<in> set specs"
  using assms by (auto simp: SPECS_def ACCESS_SPECS_def CONTRACT_SPECS_def spec_def split: if_splits)

lemma currency_checked:
  assumes "map_of SPECS t = Some specs" "f \<in> set specs" "fs_kind f = Amount_field" "given kvs (fs_key f)"
    "\<forall>f \<in> set specs. field_problem labels f (dict_get (fs_key f) kvs) = None" "between_fields t kvs = None"
  shows "given kvs ''currency'' \<and> currency_text (text_of kvs ''currency'')"
proof -
  note a = amount_specs [OF assms(1-3)]
  let ?c = "spec ''currency'' ''Currency'' Currency_field False 0"
  have g: "given kvs ''currency''" using a assms(4,6) by (simp add: between_fields_def split: if_splits)
  have "field_problem labels ?c (dict_get ''currency'' kvs) = None" using a assms(5) by (fastforce simp: spec_def)
  then show ?thesis using g given_text [of labels ?c kvs] by (simp add: spec_def value_problem_def split: if_splits)
qed

lemma currency_line: "currency_text c \<Longrightarrow> CHR 0x0A \<notin> set c"
proof
  assume "currency_text c" "CHR 0x0A \<in> set c"
  then have "CHR ''A'' \<le> (CHR 0x0A :: char)" by (auto simp: currency_text_def list_all_iff)
  then show False by (simp add: less_eq_char_def)
qed

lemma group_line: "CHR 0x0A \<notin> set w \<Longrightarrow> CHR 0x0A \<notin> set (group_digits n w)"
proof (induction n arbitrary: w)
  case (Suc n)
  have "CHR 0x0A \<notin> set (take k w)" "CHR 0x0A \<notin> set (drop k w)" for k
    using Suc.prems by (auto dest: in_set_takeD in_set_dropD)
  then show ?case using Suc by simp
qed simp

lemma amount_line: "amount_text s \<Longrightarrow> CHR 0x0A \<notin> set (grouped_amount s)"
proof -
  assume "amount_text s"
  then obtain w r where "s = w @ r" "\<forall>c \<in> set w. is_digit c"
    "r = [] \<or> (\<exists>d. r = CHR ''.'' # d \<and> d \<noteq> [] \<and> (\<forall>c \<in> set d. is_digit c))" using amount_shape by metis
  then have "CHR 0x0A \<notin> set s" using not_digits(3) by auto
  then have "CHR 0x0A \<notin> set (takeWhile P s)" "CHR 0x0A \<notin> set (drop k s)" for P k
    by (auto dest: set_takeWhileD in_set_dropD)
  then show ?thesis using group_line by (simp add: grouped_amount_def Let_def)
qed

lemma shaped_line: "shaped p s \<Longrightarrow> CHR 0x0A \<notin> set p \<Longrightarrow> CHR 0x0A \<notin> set s"
  using shaped_set not_digits(3) by metis

lemma date_lines: "date_text s \<Longrightarrow> CHR 0x0A \<notin> set s" "datetime_text s \<Longrightarrow> CHR 0x0A \<notin> set s"
  by (auto simp: date_text_def datetime_text_def dest: shaped_line)

lemma value_line:
  assumes "value_problem f (text_of kvs (fs_key f)) labels = None"
    "fs_kind f = Amount_field \<Longrightarrow> currency_text (text_of kvs ''currency'')"
  shows "CHR 0x0A \<notin> set (row_value kvs f)"
proof (cases "fs_kind f")
  case Text_field
  then show ?thesis using assms(1) text_one_line by (simp add: value_problem_def row_value_def Let_def)
next
  case Choice_field
  then have "map_of ACCESS_LEVELS (text_of kvs (fs_key f)) \<noteq> None" using assms(1) by (simp add: value_problem_def split: if_splits)
  from level_line [OF this] show ?thesis using Choice_field by (simp add: row_value_def Let_def)
next
  case Datetime_field
  then show ?thesis using assms(1) date_lines(2) by (auto simp: value_problem_def row_value_def Let_def split: if_splits)
next
  case Date_field
  then show ?thesis using assms(1) date_lines(1) by (auto simp: value_problem_def row_value_def Let_def split: if_splits)
next
  case Amount_field
  then have "amount_text (text_of kvs (fs_key f))" using assms(1) by (auto simp: value_problem_def split: if_splits)
  then show ?thesis using Amount_field assms(2) amount_line currency_line by (simp add: row_value_def Let_def)
next
  case Currency_field
  then show ?thesis using assms(1) currency_line by (auto simp: value_problem_def row_value_def Let_def split: if_splits)
qed

text \<open>The value can be read back from its line.\<close>

lemma value_back:
  assumes "value_problem f (text_of kvs (fs_key f)) labels = None" "value_problem f (text_of kvs' (fs_key f)) labels = None"
    "row_value kvs f = row_value kvs' f"
    "fs_kind f = Amount_field \<Longrightarrow> currency_text (text_of kvs ''currency'') \<and> currency_text (text_of kvs' ''currency'')"
  shows "text_of kvs (fs_key f) = text_of kvs' (fs_key f)
    \<and> (fs_kind f = Amount_field \<longrightarrow> text_of kvs ''currency'' = text_of kvs' ''currency'')"
proof (cases "fs_kind f")
  case Choice_field
  have "map_of ACCESS_LEVELS (text_of kvs (fs_key f)) \<noteq> None" "map_of ACCESS_LEVELS (text_of kvs' (fs_key f)) \<noteq> None"
    using assms(1,2) Choice_field by (simp_all add: value_problem_def split: if_splits)
  then show ?thesis using Choice_field assms(3) level_inj by (simp add: row_value_def Let_def)
next
  case Amount_field
  then have a: "amount_text (text_of kvs (fs_key f))" "amount_text (text_of kvs' (fs_key f))"
    using assms(1,2) by (simp_all add: value_problem_def split: if_splits)
  have "text_of kvs ''currency'' @ '' '' @ grouped_amount (text_of kvs (fs_key f))
      = text_of kvs' ''currency'' @ '' '' @ grouped_amount (text_of kvs' (fs_key f))"
    using assms(3) Amount_field by (simp add: row_value_def Let_def)
  moreover have "length (text_of kvs ''currency'') = length (text_of kvs' ''currency'')"
    using assms(4) Amount_field by (simp add: currency_text_def)
  ultimately have "text_of kvs ''currency'' = text_of kvs' ''currency''"
    "grouped_amount (text_of kvs (fs_key f)) = grouped_amount (text_of kvs' (fs_key f))" by simp_all
  then show ?thesis using ungrouped_amount a by metis
qed (use assms(3) in \<open>simp_all add: row_value_def Let_def\<close>)

section \<open>The text of a typed decision\<close>

definition written :: "(ustr \<times> json) list \<Rightarrow> field_spec \<Rightarrow> bool" where
  "written kvs f \<longleftrightarrow> given kvs (fs_key f) \<and> fs_kind f \<noteq> Currency_field"

definition row_line :: "(ustr \<times> json) list \<Rightarrow> field_spec \<Rightarrow> ustr" where
  "row_line kvs f = fs_label f @ '': '' @ row_value kvs f"

lemma decision_lines:
  assumes "decision_text (JStr t) (JObj kvs) v = Some s" "t \<in> set STORED_TYPES"
  obtains specs where "map_of SPECS t = Some specs" "\<forall>k. given kvs k \<longrightarrow> k \<in> fs_key ` set specs"
    "\<forall>f \<in> set specs. field_problem (map fs_label specs) f (dict_get (fs_key f) kvs) = None" "between_fields t kvs = None"
    "s = join newline (first_line t kvs # map (row_line kvs) (filter (written kvs) specs))"
proof -
  have c: "check_fields (JStr t) (JObj kvs) v = None" and s: "s = join newline (first_line t kvs
      # map (\<lambda>(label, value'). label @ '': '' @ value') (field_rows t kvs))"
    using assms by (auto simp: decision_text_def STORED_TYPES_def split: if_splits)
  from c obtain specs where specs: "map_of SPECS t = Some specs" "\<forall>k. given kvs k \<longrightarrow> k \<in> fs_key ` set specs"
    "\<forall>f \<in> set specs. field_problem (map fs_label specs) f (dict_get (fs_key f) kvs) = None" "between_fields t kvs = None"
    by (rule checked)
  have "map (\<lambda>(label, value'). label @ '': '' @ value') (field_rows t kvs) = map (row_line kvs) (filter (written kvs) specs)"
  proof -
    have "written kvs = (\<lambda>f. given kvs (fs_key f) \<and> fs_kind f \<noteq> Currency_field)" by (intro ext) (simp add: written_def)
    moreover have "row_line kvs = (\<lambda>f. fs_label f @ '': '' @ row_value kvs f)" by (intro ext) (simp add: row_line_def)
    ultimately show ?thesis by (simp add: field_rows_def specs(1) comp_def)
  qed
  then show thesis using that specs s by simp
qed

lemma row_lines:
  assumes "map_of SPECS t = Some specs" "f \<in> set specs" "written kvs f" "between_fields t kvs = None"
    "\<forall>f \<in> set specs. field_problem (map fs_label specs) f (dict_get (fs_key f) kvs) = None"
  shows "value_problem f (text_of kvs (fs_key f)) (map fs_label specs) = None"
    "fs_kind f = Amount_field \<Longrightarrow> currency_text (text_of kvs ''currency'')" "CHR 0x0A \<notin> set (row_line kvs f)"
proof -
  show v: "value_problem f (text_of kvs (fs_key f)) (map fs_label specs) = None"
    using assms given_text by (simp add: written_def)
  show c: "currency_text (text_of kvs ''currency'')" if "fs_kind f = Amount_field"
    using currency_checked [OF assms(1,2) that] assms(3-5) by (simp add: written_def)
  show "CHR 0x0A \<notin> set (row_line kvs f)"
    using value_line [OF v c] specs_labels(2) [OF assms(1)] assms(2) by (simp add: row_line_def)
qed

lemma phrase_line: "map_of ACCESS_LEVELS a \<noteq> None \<Longrightarrow> CHR 0x0A \<notin> set (snd (the (map_of ACCESS_LEVELS a)))"
  by (auto simp: ACCESS_LEVELS_def split: if_splits)

lemma spec_checked:
  assumes "map_of SPECS t = Some specs" "\<forall>f \<in> set specs. field_problem (map fs_label specs) f (dict_get (fs_key f) kvs) = None"
    "f \<in> set specs" "fs_required f \<or> given kvs (fs_key f)"
  shows "value_problem f (text_of kvs (fs_key f)) (map fs_label specs) = None"
proof -
  have "given kvs (fs_key f)" using assms(2-4) by (force simp: field_problem_def given_def)
  then show ?thesis using given_text assms(2,3) by blast
qed

lemma first_line_line:
  assumes "map_of SPECS t = Some specs" "between_fields t kvs = None" "t \<in> set STORED_TYPES"
    "\<forall>f \<in> set specs. field_problem (map fs_label specs) f (dict_get (fs_key f) kvs) = None"
  shows "CHR 0x0A \<notin> set (first_line t kvs)"
proof -
  note sc = spec_checked [OF assms(1,4)]
  consider "t = ''access''" "specs = ACCESS_SPECS" | "t = ''contract''" "specs = CONTRACT_SPECS"
    using assms(1,3) by (auto simp: STORED_TYPES_def SPECS_def)
  then show ?thesis
  proof cases
    case 1
    have "spec ''person'' ''Person'' Text_field True 80 \<in> set specs" "spec ''system'' ''System'' Text_field True 80 \<in> set specs"
      "spec ''level'' ''Access'' Choice_field True 0 \<in> set specs" "spec ''until'' ''Until'' Datetime_field True 0 \<in> set specs"
      by (simp_all add: 1 ACCESS_SPECS_def)
    note p = this [THEN sc, simplified spec_def, simplified]
    show ?thesis
      using p text_one_line phrase_line [of "text_of kvs ''level''"] date_lines(2)
      by (auto simp: first_line_def 1 quoted_def open_quote_def close_quote_def value_problem_def split: if_splits)
  next
    case 2
    have "spec ''counterparty'' ''Counterparty'' Text_field True 120 \<in> set specs" by (simp add: 2 CONTRACT_SPECS_def)
    note p = this [THEN sc, simplified spec_def, simplified]
    have "CHR 0x0A \<notin> set (text_of kvs ''currency'') \<and> CHR 0x0A \<notin> set (grouped_amount (text_of kvs ''amount''))"
      if g: "given kvs ''amount''"
    proof -
      let ?a = "spec ''amount'' ''Value'' Amount_field False 0"
      have a: "?a \<in> set specs" by (simp add: 2 CONTRACT_SPECS_def)
      have "amount_text (text_of kvs ''amount'')" using sc [OF a] g by (simp add: spec_def value_problem_def split: if_splits)
      moreover have "currency_text (text_of kvs ''currency'')"
        using currency_checked [OF assms(1) a _ _ assms(4,2)] g by (simp add: spec_def)
      ultimately show ?thesis using amount_line currency_line by blast
    qed
    then show ?thesis
      using p text_one_line by (auto simp: first_line_def 2 quoted_def open_quote_def close_quote_def value_problem_def split: if_splits)
  qed
qed

lemma first_line_nonempty: "first_line t kvs \<noteq> []"
  by (simp add: first_line_def)

lemma first_line_type:
  assumes "first_line t kvs = first_line t' kvs'" "t \<in> set STORED_TYPES" "t' \<in> set STORED_TYPES"
  shows "t = t'"
proof -
  have h: "hd (first_line t kvs) = (if t = ''access'' then CHR ''G'' else CHR ''S'')" for t kvs by (simp add: first_line_def)
  have "(t = ''access'') = (t' = ''access'')"
    using arg_cong [OF assms(1), of hd] by (simp only: h split: if_splits) simp_all
  moreover have "t = ''access'' \<or> t = ''contract''" "t' = ''access'' \<or> t' = ''contract''"
    using assms(2,3) by (simp_all add: STORED_TYPES_def)
  ultimately show ?thesis by blast
qed


text \<open>What the text says of one field of the form.\<close>

lemma same_field:
  assumes "map_of SPECS t = Some specs" "f \<in> set specs" "between_fields t kvs = None" "between_fields t kvs' = None"
    and fine: "\<forall>f \<in> set specs. field_problem (map fs_label specs) f (dict_get (fs_key f) kvs) = None"
    and fine': "\<forall>f \<in> set specs. field_problem (map fs_label specs) f (dict_get (fs_key f) kvs') = None"
    and same: "\<forall>f \<in> set specs. written kvs f = written kvs' f \<and> (written kvs f \<longrightarrow> row_value kvs f = row_value kvs' f)"
    and f: "fs_kind f \<noteq> Currency_field" "given kvs (fs_key f)"
  shows "given kvs' (fs_key f) \<and> text_of kvs (fs_key f) = text_of kvs' (fs_key f)
    \<and> (fs_kind f = Amount_field \<longrightarrow> text_of kvs ''currency'' = text_of kvs' ''currency'')"
proof -
  have w: "written kvs f" "written kvs' f" "row_value kvs f = row_value kvs' f"
    using same assms(2) f by (auto simp: written_def)
  note l = row_lines [OF assms(1,2) w(1) assms(3) fine] and l' = row_lines [OF assms(1,2) w(2) assms(4) fine']
  have "text_of kvs (fs_key f) = text_of kvs' (fs_key f)
      \<and> (fs_kind f = Amount_field \<longrightarrow> text_of kvs ''currency'' = text_of kvs' ''currency'')"
    by (rule value_back [OF l(1) l'(1) w(3)]) (use l(2) l'(2) in blast)
  with w(2) show ?thesis by (simp add: written_def)
qed

lemma currency_given_with_amount:
  assumes "between_fields ''contract'' kvs = None" shows "given kvs ''currency'' = given kvs ''amount''"
  using assms by (auto simp: between_fields_def split: if_splits)

lemma same_given:
  assumes "map_of SPECS t = Some specs" "between_fields t kvs = None" "between_fields t kvs' = None"
    and fine: "\<forall>f \<in> set specs. field_problem (map fs_label specs) f (dict_get (fs_key f) kvs) = None"
    and fine': "\<forall>f \<in> set specs. field_problem (map fs_label specs) f (dict_get (fs_key f) kvs') = None"
    and known: "\<forall>k. given kvs k \<longrightarrow> k \<in> fs_key ` set specs"
    and same: "\<forall>f \<in> set specs. written kvs f = written kvs' f \<and> (written kvs f \<longrightarrow> row_value kvs f = row_value kvs' f)"
    and k: "given kvs k"
  shows "given kvs' k \<and> dict_get k kvs = dict_get k kvs'"
proof -
  obtain f where f: "f \<in> set specs" "k = fs_key f" using known k by blast
  have given: "given kvs (fs_key f)" using k f(2) by simp
  have "given kvs' (fs_key f) \<and> text_of kvs (fs_key f) = text_of kvs' (fs_key f)"
  proof (cases "fs_kind f = Currency_field")
    case False
    then show ?thesis using same_field [OF assms(1) f(1) assms(2,3) fine fine' same False given] by blast
  next
    case True
    note c = currency_specs [OF assms(1) f(1) True]
    let ?a = "spec ''amount'' ''Value'' Amount_field False 0"
    have a: "?a \<in> set specs" "fs_kind ?a \<noteq> Currency_field" "fs_key ?a = ''amount''" "fs_kind ?a = Amount_field"
      using c by (simp_all add: spec_def)
    have "given kvs ''amount''" using currency_given_with_amount [of kvs] assms(2) c given by simp
    then have "given kvs (fs_key ?a)" using a(3) by simp
    from same_field [OF assms(1) a(1) assms(2,3) fine fine' same a(2) this] a(3,4)
    have "given kvs' ''amount''" "text_of kvs ''currency'' = text_of kvs' ''currency''" by simp_all
    then show ?thesis using currency_given_with_amount [of kvs'] assms(3) c by simp
  qed
  then show ?thesis using given_text fine fine' f given by metis
qed

text \<open>C22: The text everyone signs says everything.  Two typed decisions with the same text have the same type
  and the same fields: every field one of them gives is given by the other, with the same value.\<close>

theorem typed_text_binds:
  assumes "decision_text (JStr t) (JObj kvs) v = Some s" "decision_text (JStr t') (JObj kvs') v' = Some s"
    "t \<in> set STORED_TYPES" "t' \<in> set STORED_TYPES"
  shows "t = t' \<and> (\<forall>k. given kvs k = given kvs' k \<and> (given kvs k \<longrightarrow> dict_get k kvs = dict_get k kvs'))"
proof -
  from assms(1,3) obtain specs where d: "map_of SPECS t = Some specs" "\<forall>k. given kvs k \<longrightarrow> k \<in> fs_key ` set specs"
    "\<forall>f \<in> set specs. field_problem (map fs_label specs) f (dict_get (fs_key f) kvs) = None" "between_fields t kvs = None"
    "s = join newline (first_line t kvs # map (row_line kvs) (filter (written kvs) specs))" by (rule decision_lines)
  from assms(2,4) obtain specs' where d': "map_of SPECS t' = Some specs'" "\<forall>k. given kvs' k \<longrightarrow> k \<in> fs_key ` set specs'"
    "\<forall>f \<in> set specs'. field_problem (map fs_label specs') f (dict_get (fs_key f) kvs') = None" "between_fields t' kvs' = None"
    "s = join newline (first_line t' kvs' # map (row_line kvs') (filter (written kvs') specs'))" by (rule decision_lines)
  have nonempty: "row_line x f \<noteq> []" for x f by (simp add: row_line_def)
  have "first_line t kvs # map (row_line kvs) (filter (written kvs) specs)
      = first_line t' kvs' # map (row_line kvs') (filter (written kvs') specs')"
  proof (rule join_lines_inj)
    show "\<forall>x \<in> set (first_line t kvs # map (row_line kvs) (filter (written kvs) specs)). CHR 0x0A \<notin> set x"
      using first_line_line [OF d(1,4) assms(3) d(3)] row_lines(3) [OF d(1) _ _ d(4,3)] by auto
    show "\<forall>x \<in> set (first_line t' kvs' # map (row_line kvs') (filter (written kvs') specs')). CHR 0x0A \<notin> set x"
      using first_line_line [OF d'(1,4) assms(4) d'(3)] row_lines(3) [OF d'(1) _ _ d'(4,3)] by auto
  qed (use nonempty first_line_nonempty d(5) d'(5) in auto)
  then have lines: "first_line t kvs = first_line t' kvs'"
    "map (row_line kvs) (filter (written kvs) specs) = map (row_line kvs') (filter (written kvs') specs')" by simp_all
  have t: "t = t'" by (rule first_line_type [OF lines(1) assms(3,4)])
  have "specs = specs'" using d(1) d'(1) t by simp
  have r: "row_line x = (\<lambda>f. fs_label f @ '': '' @ row_value x f)" for x by (intro ext) (simp add: row_line_def)
  have "map (row_line kvs) (filter (written kvs) specs) = map (row_line kvs') (filter (written kvs') specs)"
    using lines(2) unfolding \<open>specs = specs'\<close> .
  from rows_inj [OF specs_labels(1) [OF d(1)] _ this [unfolded r]] specs_labels(2) [OF d(1)]
  have same: "\<forall>f \<in> set specs. written kvs f = written kvs' f \<and> (written kvs f \<longrightarrow> row_value kvs f = row_value kvs' f)"
    by blast
  from same have same': "\<forall>f \<in> set specs. written kvs' f = written kvs f \<and> (written kvs' f \<longrightarrow> row_value kvs' f = row_value kvs f)"
    by simp
  note e = d' [folded \<open>specs = specs'\<close> t]
  have "given kvs' k \<and> dict_get k kvs = dict_get k kvs'" if "given kvs k" for k
    by (rule same_given [OF d(1,4) e(4) d(3) e(3) d(2) same that])
  moreover have "given kvs k" if "given kvs' k" for k
    using same_given [OF d(1) e(4) d(4) e(3) d(3) e(2) same' that] by (rule conjunct1)
  ultimately show ?thesis using t by blast
qed

definition grant_fields :: "(ustr \<times> json) list" where
  "grant_fields = [(''person'', JStr ''a''), (''system'', JStr ''b''), (''level'', JStr ''read''),
     (''until'', JStr ''2030-01-02 03:04''), (''reason'', JStr ''c'')]"

lemma letter_scan: "0x61 \<le> n \<Longrightarrow> n \<le> 0x7A \<Longrightarrow> scan_text False [n] = None"
  by (auto simp: LINE_BREAKS_def hidden_def HIDDEN_RANGES_def OTHER_SPACES_def DOUBLE_QUOTES_def)

lemma letter_field:
  assumes "x \<in> {CHR ''a'', CHR ''b'', CHR ''c''}" "n > 0" "x \<noteq> CHR '':''"
  shows "field_problem ls (spec k l Text_field r n) (JStr [x]) = None"
proof -
  have c: "code_points [x] = [code_of x]" "0x61 \<le> (code_of x :: nat)" "code_of x \<le> (0x7A :: nat)" using assms(1) by auto
  have "scan_text False (code_points [x]) = None" unfolding c(1) by (rule letter_scan [OF c(2,3)])
  moreover have "\<not> occurs_in (l @ '': '') [x]" for l by (cases l) auto
  then have "\<not> list_ex (\<lambda>l. occurs_in (l @ '': '') [x]) ls" by (simp add: list_ex_iff)
  ultimately show ?thesis using assms
    by (auto simp: field_problem_def value_problem_def text_problem_def spec_def str_len_def continuation_def simp del: code_points.simps)
qed

lemma other_field: 
  "field_problem ls (spec k l Datetime_field r n) (JStr ''2030-01-02 03:04'') = None"
  "field_problem ls (spec k l Choice_field r n) (JStr ''read'') = None"
  "field_problem ls (spec k l kk False n) JNull = None"
 by code_simp+

lemma spec_key: "fs_key (spec k l kk r n) = k" by (simp add: spec_def)

lemma grant_check: "check_fields (JStr ''access'') (JObj grant_fields) (JInt 1) = None" 
"check_fields (JStr ''access'') (JObj (rev grant_fields)) (JInt 1) = None" 
  by (simp_all add: check_fields_def specs_of_def SPECS_def this_version_def grant_fields_def TEMPLATE_VERSION_def
     ACCESS_SPECS_def  dict_get_def letter_field other_field between_fields_def spec_key) 
lemma grant_decided:
  "decision_text (JStr ''access'') (JObj grant_fields) (JInt 1) = Some (join newline (first_line ''access'' grant_fields
     # map (\<lambda>(label, value'). label @ '': '' @ value') (field_rows ''access'' grant_fields)))"
  "decision_text (JStr ''access'') (JObj (rev grant_fields)) (JInt 1) = Some (join newline (first_line ''access'' (rev grant_fields)
     # map (\<lambda>(label, value'). label @ '': '' @ value') (field_rows ''access'' (rev grant_fields))))"
  by (simp_all add: decision_text_def grant_check)

lemma grant_same: "first_line ''access'' (rev grant_fields) = first_line ''access'' grant_fields"
  "field_rows ''access'' (rev grant_fields) = field_rows ''access'' grant_fields"
proof -
  have d: "dict_get k (rev grant_fields) = dict_get k grant_fields" for k by (simp add: grant_fields_def dict_get_def)
  then have e: "given (rev grant_fields) = given grant_fields" "text_of (rev grant_fields) = text_of grant_fields"
    by (auto simp: given_def text_of_def)
  then have "row_value (rev grant_fields) = row_value grant_fields" by (intro ext) (simp only: row_value_def)
  with e show "first_line ''access'' (rev grant_fields) = first_line ''access'' grant_fields"
    "field_rows ''access'' (rev grant_fields) = field_rows ''access'' grant_fields"
    by (simp_all add: first_line_def field_rows_def)
qed

lemma typed_text_binds_witness:
  "decision_text (JStr ''access'') (JObj grant_fields) (JInt 1)
     = decision_text (JStr ''access'') (JObj (rev grant_fields)) (JInt 1)
   \<and> given (rev grant_fields) ''person'' \<and> dict_get ''person'' grant_fields = dict_get ''person'' (rev grant_fields)"
proof -
  have "given grant_fields ''person''" by (simp add: given_def grant_fields_def dict_get_def)
  moreover have "''access'' \<in> set STORED_TYPES" by (simp add: STORED_TYPES_def)
  ultimately show ?thesis
    using typed_text_binds [OF grant_decided(1) grant_decided(2) [unfolded grant_same]] grant_decided by (simp add: grant_same)
qed

text \<open>The one reading of a date that escapes the refusal: a moment before the first year or after the last
  in UTC makes the conversion overflow.\<close>

lemma edge_of_the_calendar: "utc_minute ''0001-01-01T00:00+01:00'' = Inl Overflow"
  by code_simp

end
