(* ===== verification/File_Crypto.thy ===== *)
theory File_Crypto
  imports Ledger
begin

text \<open>
  \<open>services/file_crypto_service.py\<close>: an attachment is encrypted under a fresh key, which is wrapped by
  a key encapsulated to the vault.  The random values are arguments, the storage directory is a
  dictionary from relative paths to contents, and HKDF, a third-party function, is a field of the
  environment.  A refused tag is \<open>None\<close> of the cipher.

  Shown: what was encrypted for a vault is decrypted from its row, whatever else was stored since, as
  long as the key that encapsulated it is kept.
\<close>

record file_env = vault_env +
  fe_hkdf :: "bytes \<Rightarrow> bytes \<Rightarrow> bytes"

type_synonym disk = "(ustr \<times> bytes) list"

definition DEK_WRAP_INFO :: bytes where "DEK_WRAP_INFO = ''qvault:dek-wrap:v1''"

definition file_aad :: "int \<Rightarrow> bytes" where "file_aad vault_id = ''qvault:file:v1|vault='' @ dec_int vault_id"
definition dek_aad :: "int \<Rightarrow> bytes" where "dek_aad vault_id = ''qvault:dek:v1|vault='' @ dec_int vault_id"

datatype file_error =
    File_crypto ledger_error
  | Encapsulating_key_missing
  | Malformed_encapsulation
  | Not_authenticated
  | Ciphertext_missing ustr
  | Plaintext_hash_mismatch

definition of_file :: "ledger_error + 'a \<Rightarrow> file_error + 'a" where
  "of_file r = (case r of Inl e \<Rightarrow> Inl (if e = Ledger_invalid_tag then Not_authenticated else File_crypto e) | Inr x \<Rightarrow> Inr x)"

text \<open>The values the operating system's random source gives one call.\<close>

record file_random =
  fr_dek :: bytes
  fr_aes_nonce :: bytes
  fr_encapsulation :: bytes
  fr_wrap_nonce :: bytes

definition encrypt_and_store :: "file_env \<Rightarrow> file_random \<Rightarrow> vault_row \<Rightarrow> ustr \<Rightarrow> bytes \<Rightarrow> ustr \<Rightarrow> disk
    \<Rightarrow> file_error + file_columns \<times> disk" where
  "encrypt_and_store env rnd v filename plaintext storage_key disk =
     bindE (of_file (of_crypto (symmetric (ce_registry env) SYMMETRIC_ALG))) (\<lambda>cipher.
       let (aes_nonce, file_ct) = sy_encrypt cipher (fr_aes_nonce rnd) (fr_dek rnd) plaintext (file_aad (v_id v));
           content_hash = sha256_hex (ce_hash env) plaintext in
       bindE (of_file (of_crypto (kem (ce_registry env) (v_kem_alg_id v)))) (\<lambda>kem'.
         let (kem_ct, shared_secret) = kem_encapsulate kem' (fr_encapsulation rnd) (v_kem_public_key v);
             wrap_key = fe_hkdf env shared_secret DEK_WRAP_INFO;
             (dek_wrap_nonce, wrapped_dek) = sy_encrypt cipher (fr_wrap_nonce rnd) wrap_key (fr_dek rnd) (dek_aad (v_id v));
             rel_path = dec_int (v_id v) @ ''/'' @ storage_key @ ''.bin''
         in Inr (\<lparr>f_filename = filename, f_content_sha256 = content_hash, f_ciphertext_path = rel_path,
              f_size_bytes = int (length plaintext), f_aes_nonce = aes_nonce, f_kem_alg_id = v_kem_alg_id v,
              f_kem_key_id = v_kem_key_id v, f_kem_ciphertext = kem_ct, f_wrapped_dek = wrapped_dek,
              f_dek_wrap_nonce = dek_wrap_nonce\<rparr>, dict_set rel_path file_ct disk)))"

definition opened :: "bytes option \<Rightarrow> file_error + bytes" where
  "opened plain = (case plain of None \<Rightarrow> Inl Not_authenticated | Some m \<Rightarrow> Inr m)"

definition wrong_length :: "kem_provider \<Rightarrow> bytes \<Rightarrow> bool" where
  "wrong_length kem' ct \<longleftrightarrow>
     (case map_of (am_sizes (kem_meta kem')) ''ciphertext'' of Some n \<Rightarrow> length ct \<noteq> n | None \<Rightarrow> False)"

definition file_decrypt :: "file_env \<Rightarrow> db \<Rightarrow> disk \<Rightarrow> vault_row \<Rightarrow> file_columns \<Rightarrow> file_error + bytes" where
  "file_decrypt env d disk v f =
     bindE (of_file (of_crypto (symmetric (ce_registry env) SYMMETRIC_ALG))) (\<lambda>cipher.
     case get_key d (f_kem_key_id f) of
       None \<Rightarrow> Inl Encapsulating_key_missing
     | Some vault_key \<Rightarrow>
         bindE (of_file (of_crypto (kem (ce_registry env) (f_kem_alg_id f)))) (\<lambda>kem'.
           if wrong_length kem' (f_kem_ciphertext f)
           then Inl Malformed_encapsulation
           else
             bindE (of_file (unwrap_secret (vault_env.truncate env) (k_secret_key_nonce vault_key)
               (k_secret_key_wrapped vault_key))) (\<lambda>dk_vault.
             let shared_secret = kem_decapsulate kem' dk_vault (f_kem_ciphertext f);
                 wrap_key = fe_hkdf env shared_secret DEK_WRAP_INFO in
             bindE (opened (sy_decrypt cipher wrap_key (f_dek_wrap_nonce f) (f_wrapped_dek f) (dek_aad (v_id v)))) (\<lambda>dek.
             case map_of disk (f_ciphertext_path f) of
               None \<Rightarrow> Inl (Ciphertext_missing (f_ciphertext_path f))
             | Some ciphertext \<Rightarrow>
                 bindE (opened (sy_decrypt cipher dek (f_aes_nonce f) ciphertext (file_aad (v_id v)))) (\<lambda>plaintext.
                   if sha256_hex (ce_hash env) plaintext \<noteq> f_content_sha256 f then Inl Plaintext_hash_mismatch
                   else Inr plaintext)))))"

definition remove_ciphertext :: "ustr \<Rightarrow> disk \<Rightarrow> disk" where
  "remove_ciphertext rel_path disk = filter (\<lambda>(path, _). path \<noteq> rel_path) disk"

section \<open>Reading back what was stored\<close>

text \<open>What the libraries document of the cipher and of the encapsulation.\<close>

definition cipher_opens :: "symmetric_provider \<Rightarrow> bool" where
  "cipher_opens cipher \<longleftrightarrow>
     (\<forall>nonce key m aad. sy_decrypt cipher key (fst (sy_encrypt cipher nonce key m aad))
        (snd (sy_encrypt cipher nonce key m aad)) aad = Some m)"

definition kem_agrees :: "kem_provider \<Rightarrow> bytes \<Rightarrow> bytes \<Rightarrow> bool" where
  "kem_agrees kem' pk sk \<longleftrightarrow>
     (\<forall>r. case kem_encapsulate kem' r pk of (ct, ss) \<Rightarrow>
        kem_decapsulate kem' sk ct = ss \<and> \<not> wrong_length kem' ct)"

lemma cipher_opensD:
  assumes "cipher_opens cipher" "sy_encrypt cipher nonce key m aad = (n, c)"
  shows "sy_decrypt cipher key n c aad = Some m"
  using assms(1) assms(2) [THEN arg_cong, of fst] assms(2) [THEN arg_cong, of snd]
  unfolding cipher_opens_def by (metis fst_conv snd_conv)

lemma kem_agreesD:
  assumes "kem_agrees kem' pk sk" "kem_encapsulate kem' r pk = (ct, ss)"
  shows "kem_decapsulate kem' sk ct = ss" "\<not> wrong_length kem' ct"
  using spec [OF assms(1) [unfolded kem_agrees_def], of r] assms(2) by simp_all

text \<open>C9: A file can be read back.  What was encrypted for a vault decrypts from its row to exactly what was
  uploaded, however the vault's key is rotated and whatever else is stored afterwards, as long as the
  stored bytes at its path and the key that encapsulated it are kept.\<close>

theorem file_round_trip:
  assumes "encrypt_and_store env rnd v filename plaintext storage_key disk = Inr (f, disk1)"
    "symmetric (ce_registry env) SYMMETRIC_ALG = Inr cipher" "cipher_opens cipher"
    "kem (ce_registry env) (v_kem_alg_id v) = Inr kem'" "kem_agrees kem' (v_kem_public_key v) sk"
    "get_key d (v_kem_key_id v) = Some key"
    "unwrap_secret (vault_env.truncate env) (k_secret_key_nonce key) (k_secret_key_wrapped key) = Inr sk"
    "map_of disk2 (f_ciphertext_path f) = map_of disk1 (f_ciphertext_path f)" "v_id v' = v_id v"
  shows "file_decrypt env d disk2 v' f = Inr plaintext \<and> f_content_sha256 f = sha256_hex (ce_hash env) plaintext"
proof -
  obtain n1 c1 where e1: "sy_encrypt cipher (fr_aes_nonce rnd) (fr_dek rnd) plaintext (file_aad (v_id v)) = (n1, c1)" by fastforce
  obtain ct ss where e2: "kem_encapsulate kem' (fr_encapsulation rnd) (v_kem_public_key v) = (ct, ss)" by fastforce
  obtain n3 c3 where e3: "sy_encrypt cipher (fr_wrap_nonce rnd) (fe_hkdf env ss DEK_WRAP_INFO) (fr_dek rnd) (dek_aad (v_id v)) = (n3, c3)"
    by fastforce
  have f: "f = \<lparr>f_filename = filename, f_content_sha256 = sha256_hex (ce_hash env) plaintext,
      f_ciphertext_path = dec_int (v_id v) @ ''/'' @ storage_key @ ''.bin'', f_size_bytes = int (length plaintext),
      f_aes_nonce = n1, f_kem_alg_id = v_kem_alg_id v, f_kem_key_id = v_kem_key_id v, f_kem_ciphertext = ct,
      f_wrapped_dek = c3, f_dek_wrap_nonce = n3\<rparr>"
    and disk1: "disk1 = dict_set (f_ciphertext_path f) c1 disk"
    using assms(1) by (auto simp: encrypt_and_store_def assms(2,4) e1 e2 e3 of_file_def of_crypto_def Let_def)
  have "map_of disk2 (f_ciphertext_path f) = Some c1" unfolding assms(8) disk1 by (simp add: map_of_dict_set)
  moreover have "sy_decrypt cipher (fe_hkdf env ss DEK_WRAP_INFO) n3 c3 (dek_aad (v_id v)) = Some (fr_dek rnd)"
    "sy_decrypt cipher (fr_dek rnd) n1 c1 (file_aad (v_id v)) = Some plaintext"
    using cipher_opensD [OF assms(3)] e1 e3 by blast+
  moreover note kem_agreesD [OF assms(5) e2]
  ultimately show ?thesis
    using assms(2,4,6,7,9) by (simp add: f file_decrypt_def of_file_def of_crypto_def opened_def Let_def)
qed

end
