(* ===== verification/Proposal_Service.thy ===== *)
theory Proposal_Service
  imports File_Crypto Decision_Types Approval
begin

text \<open>
  \<open>services/proposal_service.py\<close>: raising a decision.  Every path to a decision comes through
  \<open>create_proposal\<close>, which checks who asks and whether the decision could pass, writes its text from a
  payment or from a form, encrypts its file, and stores the row whose bytes will be signed with the
  ledger entry that records them.

  The clock, the random values, Unicode's case folding and the third-party functions are arguments or
  fields of the environment; the sentences of the refusals are constructors.  A refused decision
  writes nothing: no check comes after the file is stored.  Notifications, and the failures of the commit
  itself, are left out.
\<close>

section \<open>\<open>json.dumps\<close> as it is by default\<close>

fun dumps_plain :: "json \<Rightarrow> ustr" where
  "dumps_plain (JList xs) = ''['' @ join '', '' (map dumps_plain xs) @ '']''"
| "dumps_plain (JObj kvs) = ''{'' @ join '', '' (map (\<lambda>kv. dumps_str (fst kv) @ '': '' @ dumps_plain (snd kv)) kvs) @ ''}''"
| "dumps_plain v = dumps v"

section \<open>Who may raise a decision\<close>

datatype proposal_error =
    Not_a_proposer | Proposer_standing standing_problem
  | Raise_again_not_here | Raise_again_not_closed
  | Policy_unsatisfiable int int | Could_never_pass ustr
  | Payments_disabled | Payment_with_text | No_treasury | Many_treasuries | Treasury_reconfiguring
  | Treasury_threshold int int | Treasury_signers_differ | Signer_key_missing | Too_few_usable_keys int int
  | Action_refused action_error | Action_undescribed action_error
  | Payment_with_form | Type_not_offered | Form_with_text | Form_refused problem | Form_overflow | Until_past
  | File_refused file_error

record raise_env = file_env +
  re_evm :: evm_lib
  re_foldings :: foldings
  re_onchain :: bool

definition why_cannot_propose :: "db \<Rightarrow> vault_row \<Rightarrow> int \<Rightarrow> proposal_error option" where
  "why_cannot_propose d v user_id =
     (if \<not> is_current_approver d (v_id v) user_id then Some Not_a_proposer
      else map_option Proposer_standing (signing_standing d v user_id))"

definition may_propose :: "db \<Rightarrow> vault_row \<Rightarrow> int \<Rightarrow> bool" where
  "may_propose d v user_id \<longleftrightarrow> why_cannot_propose d v user_id = None"

section \<open>Raising again\<close>

definition RAISE_AGAIN_FROM :: "ustr list" where "RAISE_AGAIN_FROM = [''withdrawn'', ''rejected'', ''expired'']"

text \<open>The snapshot of a stored decision is the list the code wrote; another one reads as empty here.\<close>

definition raise_again_source :: "db \<Rightarrow> int \<Rightarrow> vault_row \<Rightarrow> ustr \<Rightarrow> proposal_error + proposal_row" where
  "raise_again_source d now v proposal_uuid =
     (case (if proposal_uuid = [] then None
            else find (\<lambda>p. p_vault_id p = v_id v \<and> p_uuid p = proposal_uuid) (db_proposals d)) of
        None \<Rightarrow> Inl Raise_again_not_here
      | Some source \<Rightarrow>
          if effective_status d now source (case snapshot_ids source of Some ids \<Rightarrow> ids | None \<Rightarrow> []) \<notin> set RAISE_AGAIN_FROM
          then Inl Raise_again_not_closed else Inr source)"

definition raised_again_as :: "db \<Rightarrow> proposal_row \<Rightarrow> proposal_row list" where
  "raised_again_as d source =
     sort_key p_id (filter (\<lambda>p. case lifecycle_of d p of
        None \<Rightarrow> False | Some l \<Rightarrow> pl_raised_again_from_id l = Some (p_id source)) (db_proposals d))"

datatype prefill =
    Prefill_general ustr ustr
  | Prefill_typed ustr ustr json
  | Prefill_payment ustr json "ustr option"

definition raise_again_prefill :: "db \<Rightarrow> proposal_row \<Rightarrow> prefill option" where
  "raise_again_prefill d source =
     (case action_of d source of
        None \<Rightarrow>
          (case view_type d source (find (\<lambda>r. df_proposal_id r = p_id source) (db_decision_fields d)) of
             None \<Rightarrow> None
           | Some view \<Rightarrow>
               (case (tv_type view \<in> set STORED_TYPES, tv_fields view) of
                  (True, Some kvs) \<Rightarrow> Some (Prefill_typed (tv_type view) (p_title source) kvs)
                | _ \<Rightarrow> Some (Prefill_general (p_title source) (p_action_text source))))
      | Some action \<Rightarrow>
          Some (Prefill_payment (p_title source) (pa_to_address action)
            (case pa_value_wei action of
               JStr value \<Rightarrow>
                 (if value \<noteq> [] \<and> list_all is_digit value \<and> length value \<le> 78
                  then Some (let s = format_wei (int (dec_value value)) in take (length s - length '' ETH'') s)
                  else None)
             | _ \<Rightarrow> None)))"

section \<open>A payment\<close>

record payment_request =
  pq_to :: ustr
  pq_value_wei :: int

definition treasury_signers :: "db \<Rightarrow> treasury_row \<Rightarrow> treasury_signer list" where
  "treasury_signers d t = filter (\<lambda>s. ts_treasury_id s = t_id t) (db_treasury_signers d)"

definition usable_keys :: "db \<Rightarrow> treasury_row \<Rightarrow> proposal_error + int" where
  "usable_keys d t =
     (let keys = map (\<lambda>s. get_key d (ts_key_id s)) (treasury_signers d t) in
      if None \<in> set keys then Inl Signer_key_missing
      else Inr (int (length (filter (\<lambda>k. k_status (the k) = ''active'' \<and> k_can_sign (the k)) keys))))"

definition of_action :: "action_error + 'a \<Rightarrow> proposal_error + 'a" where
  "of_action r = (case r of Inl e \<Rightarrow> Inl (Action_refused e) | Inr x \<Rightarrow> Inr x)"

definition payment_action :: "raise_env \<Rightarrow> db \<Rightarrow> vault_row \<Rightarrow> payment_request \<Rightarrow> int \<Rightarrow> int \<Rightarrow> ustr \<Rightarrow> int \<Rightarrow> int option
    \<Rightarrow> proposal_error + eth_transfer \<times> treasury_row \<times> int" where
  "payment_action env d v payment required_m required_n action_text now deadline =
     (if \<not> re_onchain env then Inl Payments_disabled
      else if action_text \<noteq> [] then Inl Payment_with_text
      else case filter (\<lambda>t. t_vault_id t = v_id v \<and> t_status t = ''linked'') (db_treasuries d) of
        [] \<Rightarrow> Inl No_treasury
      | t # _ # _ \<Rightarrow> Inl Many_treasuries
      | [t] \<Rightarrow>
          if \<exists>r \<in> set (db_reconfigurations d). rc_treasury_id r = t_id t \<and> rc_state r \<in> set OPEN_STATES
          then Inl Treasury_reconfiguring
          else if t_threshold_m t \<noteq> required_m then Inl (Treasury_threshold required_m (t_threshold_m t))
          else if t_signer_count t \<noteq> required_n
               \<or> sort (map ts_user_id (treasury_signers d t)) \<noteq> vault_signer_ids d (v_id v)
          then Inl Treasury_signers_differ
          else bindE (usable_keys d t) (\<lambda>usable.
            if usable < required_m then Inl (Too_few_usable_keys usable required_m)
            else bindE (of_action (payment_deadline now deadline)) (\<lambda>at.
              bindE (of_action (build_eth_transfer (re_evm env) (t_chain_id t) (t_address t) (pq_to payment)
                (pq_value_wei payment) at (t_config_nonce t))) (\<lambda>action. Inr (action, t, at)))))"

section \<open>A form\<close>

record typed_request =
  tq_decision_type :: ustr
  tq_fields :: json

definition typed_fields :: "raise_env \<Rightarrow> typed_request \<Rightarrow> ustr \<Rightarrow> int \<Rightarrow> proposal_error + (ustr \<times> json) list" where
  "typed_fields env typed action_text now =
     (if tq_decision_type typed \<notin> set STORED_TYPES then Inl Type_not_offered
      else if action_text \<noteq> [] then Inl Form_with_text
      else case normalise_fields (re_foldings env) (JStr (tq_decision_type typed)) (tq_fields typed) of
        Inl (Refused p) \<Rightarrow> Inl (Form_refused p)
      | Inl Overflow \<Rightarrow> Inl Form_overflow
      | Inr filled \<Rightarrow>
          if tq_decision_type typed = ''access'' \<and> \<not> until_in_future filled now then Inl Until_past else Inr filled)"

section \<open>Raising it\<close>

record raise_random = file_random +
  rr_uuid :: ustr
  rr_nonce :: bytes

text \<open>What a decision says, and its deadline, once the payment or the form has written it.\<close>

record contents =
  co_text :: ustr
  co_action :: "(eth_transfer \<times> treasury_row) option"
  co_form :: "(ustr \<times> (ustr \<times> json) list) option"
  co_deadline :: "int option"

definition described :: "eth_transfer \<Rightarrow> proposal_error + ustr" where
  "described action = (case describe action of Inl e \<Rightarrow> Inl (Action_undescribed e) | Inr words \<Rightarrow> Inr words)"

definition written_contents :: "raise_env \<Rightarrow> db \<Rightarrow> vault_row \<Rightarrow> int \<Rightarrow> int \<Rightarrow> ustr \<Rightarrow> payment_request option
    \<Rightarrow> typed_request option \<Rightarrow> int option \<Rightarrow> int \<Rightarrow> proposal_error + contents" where
  "written_contents env d v required_m required_n action_text payment typed deadline now =
     bindE (case payment of
         None \<Rightarrow> Inr (action_text, None, deadline)
       | Some q \<Rightarrow> bindE (payment_action env d v q required_m required_n action_text now deadline) (\<lambda>(action, t, at).
           bindE (described action) (\<lambda>words. Inr (words, Some (action, t), Some at)))) (\<lambda>(words, action, at).
     case typed of
       None \<Rightarrow> Inr \<lparr>co_text = words, co_action = action, co_form = None, co_deadline = at\<rparr>
     | Some q \<Rightarrow>
         if payment \<noteq> None then Inl Payment_with_form
         else bindE (typed_fields env q words now) (\<lambda>filled.
           case decision_text (JStr (tq_decision_type q)) (JObj filled) (JInt TEMPLATE_VERSION) of
             None \<Rightarrow> Inl Type_not_offered
           | Some written_text \<Rightarrow> Inr \<lparr>co_text = written_text, co_action = action,
               co_form = Some (tq_decision_type q, filled), co_deadline = at\<rparr>))"

definition action_row_of :: "int \<Rightarrow> eth_transfer \<Rightarrow> treasury_row \<Rightarrow> action_row" where
  "action_row_of pid action t =
     \<lparr>pa_proposal_id = pid, pa_treasury_id = t_id t, pa_kind = JStr KIND_ETH_TRANSFER, pa_chain_id = JInt (et_chain_id action),
      pa_treasury_address = JStr (et_treasury action), pa_to_address = JStr (et_to action),
      pa_value_wei = JStr (dec_int (et_value_wei action)), pa_data_hex = JStr ''0x'', pa_call_gas = JInt (et_call_gas action),
      pa_valid_until = JInt (et_valid_until action), pa_config_nonce = JInt (et_config_nonce action)\<rparr>"

text \<open>The row of the decision, from what it says and from its file.\<close>

definition new_fields :: "raise_random \<Rightarrow> int \<Rightarrow> db \<Rightarrow> vault_row \<Rightarrow> contents \<Rightarrow> file_columns option \<Rightarrow> proposal_fields" where
  "new_fields rnd now d v c file =
     \<lparr>pf_vault_id = v_id v, pf_proposal_uuid = rr_uuid rnd, pf_action_text = co_text c,
      pf_file_sha256 = map_option f_content_sha256 file, pf_required_m = v_threshold_m v,
      pf_required_n = int (length (vault_signer_ids d (v_id v))), pf_signers = vault_signer_ids d (v_id v),
      pf_nonce_hex = to_hex (rr_nonce rnd), pf_created_at_iso = isoformat now,
      pf_action = map_option (\<lambda>(action, t). transfer_canonical action) (co_action c)\<rparr>"

definition new_proposal :: "raise_env \<Rightarrow> raise_random \<Rightarrow> int \<Rightarrow> db \<Rightarrow> vault_row \<Rightarrow> int \<Rightarrow> ustr \<Rightarrow> contents \<Rightarrow> file_columns option
    \<Rightarrow> proposal_row" where
  "new_proposal env rnd now d v creator_id title c file =
     (let signers = vault_signer_ids d (v_id v) in
      \<lparr>p_id = next_id (map p_id (db_proposals d)), p_uuid = rr_uuid rnd, p_vault_id = v_id v, p_creator_id = creator_id,
       p_title = title, p_action_text = co_text c, p_nonce = rr_nonce rnd,
       p_authorized_signers_snapshot = dumps_plain (JList (map JInt signers)), p_created_at_iso = isoformat now,
       p_payload_hash = sha256_hex (ce_hash env) (proposal_signing_bytes (new_fields rnd now d v c file)),
       p_required_m = v_threshold_m v, p_required_n = int (length signers), p_status = ''open'',
       p_expires_at = co_deadline c, p_approved_at = None, p_rejected_at = None\<rparr>)"

definition file_event :: "proposal_row \<Rightarrow> file_columns \<Rightarrow> ledger_event" where
  "file_event p f =
     \<lparr>ev_type = ''file_encrypted'',
      ev_payload = JObj [(''proposal_uuid'', JStr (p_uuid p)), (''filename'', JStr (f_filename f)),
        (''sha256'', JStr (f_content_sha256 f)), (''kem_alg'', JStr (f_kem_alg_id f))],
      ev_actor = user_actor (Some (p_creator_id p)), ev_actor_id = Some (p_creator_id p), ev_vault_id = Some (p_vault_id p),
      ev_ref_type = Some ''proposal'', ev_ref_id = Some (p_uuid p)\<rparr>"

definition created_event :: "proposal_row \<Rightarrow> bool \<Rightarrow> bool \<Rightarrow> ledger_event" where
  "created_event p has_file has_action =
     decision_event ''proposal_created''
       ([(''title'', JStr (p_title p)), (''M'', JInt (p_required_m p)), (''N'', JInt (p_required_n p)),
         (''payload_hash'', JStr (p_payload_hash p)), (''has_file'', JBool has_file)]
        @ (if has_action then [(''has_action'', JBool True)] else []))
       (Some (p_creator_id p)) p"

definition insert_rows :: "proposal_row \<Rightarrow> bool \<Rightarrow> int option \<Rightarrow> contents \<Rightarrow> file_columns option \<Rightarrow> db \<Rightarrow> db" where
  "insert_rows p requester_can_approve source_id c file d =
     d\<lparr>db_proposals := db_proposals d @ [p],
       db_lifecycles := db_lifecycles d
         @ [\<lparr>pl_proposal_id = p_id p, pl_requester_can_approve = Some requester_can_approve, pl_withdrawn_at = None,
             pl_withdrawn_by_id = None, pl_raised_again_from_id = source_id\<rparr>],
       db_decision_fields := db_decision_fields d
         @ (case co_form c of None \<Rightarrow> []
            | Some (t, filled) \<Rightarrow> [\<lparr>df_proposal_id = p_id p, df_decision_type = t, df_template_version = TEMPLATE_VERSION,
                df_fields_json = dumps_plain (JObj filled)\<rparr>]),
       db_actions := db_actions d
         @ (case co_action c of None \<Rightarrow> [] | Some (action, t) \<Rightarrow> [action_row_of (p_id p) action t]),
       db_files := db_files d
         @ (case file of None \<Rightarrow> [] | Some f \<Rightarrow> [file_columns.extend f (file_row.fields (p_id p))])\<rparr>"

definition record_creation :: "raise_env \<Rightarrow> int \<Rightarrow> proposal_row \<Rightarrow> contents \<Rightarrow> file_columns option \<Rightarrow> db \<Rightarrow> db" where
  "record_creation env now p c file d =
     (let d' = (case file of None \<Rightarrow> d | Some f \<Rightarrow> snd (ledger_append (vault_env.truncate env) now (file_event p f) d))
      in snd (ledger_append (vault_env.truncate env) now (created_event p (file \<noteq> None) (co_action c \<noteq> None)) d'))"

definition create_proposal :: "raise_env \<Rightarrow> raise_random \<Rightarrow> int \<Rightarrow> vault_row \<Rightarrow> int \<Rightarrow> ustr \<Rightarrow> ustr \<Rightarrow> int option
    \<Rightarrow> (ustr option \<times> bytes) option \<Rightarrow> payment_request option \<Rightarrow> typed_request option \<Rightarrow> ustr option \<Rightarrow> db \<Rightarrow> disk
    \<Rightarrow> proposal_error + proposal_row \<times> db \<times> disk" where
  "create_proposal env rnd now v creator_id title action_text deadline upload payment typed raised_again_from d disk =
     (case why_cannot_propose d v creator_id of
        Some refusal \<Rightarrow> Inl refusal
      | None \<Rightarrow>
          bindE (case raised_again_from of
              None \<Rightarrow> Inr None
            | Some uuid \<Rightarrow> if uuid = [] then Inr None
                else bindE (raise_again_source d now v uuid) (\<lambda>source. Inr (Some (p_id source)))) (\<lambda>source_id.
          let signers = vault_signer_ids d (v_id v); required_n = int (length signers); required_m = v_threshold_m v in
          if required_m > required_n then Inl (Policy_unsatisfiable required_m required_n)
          else case cannot_raise d v (Some creator_id) of
            Some refusal \<Rightarrow> Inl (Could_never_pass refusal)
          | None \<Rightarrow>
              bindE (written_contents env d v required_m required_n (strip action_text) payment typed deadline now) (\<lambda>c.
              bindE (case upload of
                  None \<Rightarrow> Inr (None, disk)
                | Some (filename, file_bytes) \<Rightarrow>
                    (case encrypt_and_store (file_env.truncate env) (file_random.truncate rnd) v
                       (case filename of Some (x # xs) \<Rightarrow> x # xs | _ \<Rightarrow> ''upload.bin'') file_bytes (rr_uuid rnd) disk of
                       Inl e \<Rightarrow> Inl (File_refused e) | Inr (f, disk') \<Rightarrow> Inr (Some f, disk'))) (\<lambda>(file, disk').
                let p = new_proposal env rnd now d v creator_id (strip title) c file
                in Inr (p, record_creation env now p c file
                     (insert_rows p (vault_allows_requester d (v_id v)) source_id c file d), disk')))))"

section \<open>The tamper demonstration of a decision\<close>

definition DEMO_TAMPERED_TEXT :: ustr where
  "DEMO_TAMPERED_TEXT = ''Wire 10,000,000 to account GB29-ATTACKER-0001.''"

type_synonym text_backup = "(ustr \<times> ustr) list"

definition demo_tamper_proposal :: "proposal_row \<Rightarrow> ustr option \<Rightarrow> text_backup \<Rightarrow> db \<Rightarrow> ustr \<times> text_backup \<times> db" where
  "demo_tamper_proposal p replacement backup d =
     (let text' = (case replacement of Some (x # xs) \<Rightarrow> x # xs | _ \<Rightarrow> DEMO_TAMPERED_TEXT) in
      (p_action_text p,
       (if map_of backup (p_uuid p) = None then dict_set (p_uuid p) (p_action_text p) backup else backup),
       update_proposal (p_id p) (p_action_text_update (\<lambda>_. text')) d))"

definition demo_restore_proposal :: "proposal_row \<Rightarrow> text_backup \<Rightarrow> db \<Rightarrow> bool \<times> text_backup \<times> db" where
  "demo_restore_proposal p backup d =
     (case map_of backup (p_uuid p) of
        None \<Rightarrow> (False, backup, d)
      | Some original \<Rightarrow> (True, filter (\<lambda>(uuid, _). uuid \<noteq> p_uuid p) backup,
          update_proposal (p_id p) (p_action_text_update (\<lambda>_. original)) d))"

definition demo_proposal_is_tampered :: "proposal_row \<Rightarrow> text_backup \<Rightarrow> bool" where
  "demo_proposal_is_tampered p backup \<longleftrightarrow> map_of backup (p_uuid p) \<noteq> None"

end
