(* ===== verification/Proposal_Proofs.thy ===== *)
theory Proposal_Proofs
  imports Proposal_Service Approval_Machine
begin

text \<open>
  What raising a decision establishes: the state from which the machine of \<open>Approval_Machine\<close> starts.
  A decision that was raised is the one recorded in the ledger, is read back from its rows as it was
  signed, and can still pass.
\<close>

section \<open>The snapshot of the signers reads back\<close>

lemma skip_space: "skip_ws (CHR '' '' # s) = skip_ws s"
  by (simp add: skip_ws_def json_ws_def)

lemma read_int_items:
  "\<lbrakk>ids \<noteq> []; length (join '', '' (map dec_int ids)) + 2 \<le> k\<rbrakk>
   \<Longrightarrow> read_items k (join '', '' (map dec_int ids) @ CHR '']'' # r) = Some (map JInt ids, r)"
proof (induction ids arbitrary: k)
  case (Cons i ids)
  from Cons.prems obtain k' where k: "k = Suc k'" by (cases k) auto
  have len: "length (dumps (JInt i)) < k'" using Cons.prems(2) k by (auto simp: join_Cons)
  have item: "read_val k' (dec_int i @ e) = Some (JInt i, e)" if "ends e" for e
    using readsD [OF reads_int that len] by simp
  show ?case
  proof (cases "ids = []")
    case True
    then show ?thesis using k item [of "CHR '']'' # r"] by simp
  next
    case False
    define t where "t = join '', '' (map dec_int ids) @ CHR '']'' # r"
    have "read_items k' t = Some (map JInt ids, r)"
      unfolding t_def using Cons.prems k False by (intro Cons.IH) (auto simp: join_Cons)
    moreover have "skip_ws t = t"
      using False skip_ws_dumps [of "JInt (hd ids)"] by (cases ids) (auto simp: t_def join_Cons)
    ultimately show ?thesis
      using False k item [of "CHR '','' # CHR '' '' # t"] by (simp add: join_Cons t_def skip_space)
  qed
qed simp

lemma loads_snapshot: "loads (dumps_plain (JList (map JInt ids))) = Some (JList (map JInt ids))"
proof (cases "ids = []")
  case True
  then show ?thesis by (simp add: loads_def skip_ws_def json_ws_def quote_def)
next
  case False
  let ?body = "join '', '' (map dec_int ids) @ '']''"
  have d: "dumps_plain (JList (map JInt ids)) = CHR ''['' # ?body" by (simp add: comp_def)
  have items: "read_items k ?body = Some (map JInt ids, [])" if "length ?body + 1 \<le> k" for k
    using read_int_items [OF False, of k "[]"] that by simp
  obtain i rest where ids: "ids = i # rest" using False by (cases ids) auto
  obtain c cs where c: "dec_int i = c # cs" "\<not> json_ws c" "c \<noteq> CHR '']''"
    using dumps_head [of "JInt i"] by auto
  define b where "b = tl ?body"
  have b: "?body = c # b" unfolding b_def ids using c(1) by (simp add: join_Cons)
  have "read_val (Suc (Suc (length ?body))) (CHR ''['' # ?body) = Some (JList (map JInt ids), [])"
    using items [of "Suc (length ?body)"] c(2,3) unfolding b by (simp add: skip_ws_nonspace quote_def)
  moreover have "skip_ws (CHR ''['' # ?body) = CHR ''['' # ?body" by (simp add: skip_ws_def json_ws_def)
  ultimately show ?thesis unfolding loads_def d by simp
qed

section \<open>The rows of a new decision\<close>

text \<open>Every row that names a decision names one that is stored: the foreign keys of the tables.\<close>

definition decision_rows_ok :: "db \<Rightarrow> bool" where
  "decision_rows_ok d \<longleftrightarrow>
     (let ids = p_id ` set (db_proposals d) in
      f_proposal_id ` set (db_files d) \<subseteq> ids \<and> pa_proposal_id ` set (db_actions d) \<subseteq> ids
      \<and> s_proposal_id ` set (db_signatures d) \<subseteq> ids \<and> pl_proposal_id ` set (db_lifecycles d) \<subseteq> ids)"

definition uuid_unused :: "ustr \<Rightarrow> db \<Rightarrow> bool" where
  "uuid_unused uuid d \<longleftrightarrow>
     (\<forall>e \<in> set (db_entries d). le_event_type e = ''proposal_created'' \<longrightarrow> le_ref_id e \<noteq> Some uuid)"

text \<open>A linked treasury is found by its id, and its address is stored in the checksummed form.\<close>

definition treasuries_ok :: "evm_lib \<Rightarrow> db \<Rightarrow> bool" where
  "treasuries_ok L d \<longleftrightarrow>
     distinct (map t_id (db_treasuries d))
     \<and> (\<forall>t \<in> set (db_treasuries d). checksum_address L (JStr (t_address t)) = Inr (t_address t))"

lemma find_new:
  assumes "\<forall>x \<in> set xs. f x \<noteq> i" shows "find (\<lambda>x. f x = i) (xs @ ys) = find (\<lambda>x. f x = i) ys"
  using assms by (induction xs) auto

lemma record_creation_tables [simp]:
  "db_keys (record_creation env now p c file d) = db_keys d"
  "db_proposals (record_creation env now p c file d) = db_proposals d"
  "db_lifecycles (record_creation env now p c file d) = db_lifecycles d"
  "db_files (record_creation env now p c file d) = db_files d"
  "db_signatures (record_creation env now p c file d) = db_signatures d"
  "db_treasuries (record_creation env now p c file d) = db_treasuries d"
  "db_actions (record_creation env now p c file d) = db_actions d"
  "db_vaults (record_creation env now p c file d) = db_vaults d"
  "db_vault_members (record_creation env now p c file d) = db_vault_members d"
  "db_vault_rules (record_creation env now p c file d) = db_vault_rules d"
  "db_workspaces (record_creation env now p c file d) = db_workspaces d"
  "db_workspace_members (record_creation env now p c file d) = db_workspace_members d"
  by (simp_all add: record_creation_def Let_def split: option.splits)

lemma dict_get_norm:
  assumes "distinct (map fst kvs)" "Canonical_Json.norm (JObj kvs) = JObj kvs'"
  shows "dict_get k kvs' = (case map_of kvs k of None \<Rightarrow> JNull | Some v \<Rightarrow> Canonical_Json.norm v)"
proof -
  let ?n = "map (\<lambda>kv. (fst kv, Canonical_Json.norm (snd kv))) kvs"
  have kvs': "kvs' = sort_key fst ?n" using assms(2) by simp
  have d: "distinct (map fst ?n)" using assms(1) by (simp add: comp_def)
  then have d': "distinct (map fst kvs')" unfolding kvs' distinct_map_sort_key .
  have "set kvs' = set ?n" unfolding kvs' by simp
  then have "map_of kvs' = map_of ?n" using d d' by (intro map_of_inject_set [THEN iffD2])
  moreover have "map_of ?n k = map_option Canonical_Json.norm (map_of kvs k)" by (induction kvs) auto
  ultimately show ?thesis by (simp add: dict_get_def split: option.splits)
qed

lemma created_payload:
  assumes "loads (canonical_json (ev_payload (created_event p has_file has_action))) = Some (JObj kvs)"
  shows "dict_get ''payload_hash'' kvs = JStr (p_payload_hash p)"
proof -
  let ?kvs = "[(''proposal_uuid'', JStr (p_uuid p)), (''vault_id'', JInt (p_vault_id p)), (''title'', JStr (p_title p)),
    (''M'', JInt (p_required_m p)), (''N'', JInt (p_required_n p)), (''payload_hash'', JStr (p_payload_hash p)),
    (''has_file'', JBool has_file)] @ (if has_action then [(''has_action'', JBool True)] else [])"
  have e: "ev_payload (created_event p has_file has_action) = JObj ?kvs"
    by (simp add: created_event_def decision_event_def)
  have d: "distinct (map fst ?kvs)" by simp
  then have "jwf (JObj ?kvs)" by auto
  from loads_canonical [OF this] assms have "Canonical_Json.norm (JObj ?kvs) = JObj kvs" unfolding e by simp
  from dict_get_norm [OF d this, of "''payload_hash''"] show ?thesis by simp
qed

lemma created_entry:
  assumes "uuid_unused (p_uuid p) d"
  shows "creation_ledger_hash (record_creation env now p c att d) p = JStr (p_payload_hash p)"
proof -
  let ?env = "vault_env.truncate env" and ?ev = "created_event p (att \<noteq> None) (co_action c \<noteq> None)"
  let ?P = "\<lambda>e. le_event_type e = ''proposal_created'' \<and> le_ref_type e = Some ''proposal'' \<and> le_ref_id e = Some (p_uuid p)"
  define d1 where "d1 = (case att of None \<Rightarrow> d | Some f \<Rightarrow> snd (ledger_append ?env now (file_event p f) d))"
  have d': "record_creation env now p c att d = snd (ledger_append ?env now ?ev d1)"
    by (simp add: record_creation_def d1_def Let_def)
  have "\<forall>e \<in> set (db_entries d1). \<not> ?P e"
  proof (cases "att :: file_columns option")
    case (Some f)
    obtain es where es: "snd (ledger_append ?env now (file_event p f) d) = d\<lparr>db_entries := db_entries d @ es\<rparr>"
      "\<forall>e \<in> set es. le_event_type e \<in> {''genesis'', ev_type (file_event p f)}" by (rule ledger_append_entries)
    then show ?thesis using assms Some by (auto simp: d1_def uuid_unused_def file_event_def)
  qed (use assms in \<open>auto simp: d1_def uuid_unused_def\<close>)
  then have old: "filter ?P (db_entries d1) = []" by (simp add: filter_empty_conv)
  obtain prev es where "db_entries (snd (ledger_append ?env now ?ev d1)) = db_entries d1 @ es @ [chained_entry (ce_hash ?env) now ?ev prev]"
    "filter ?P es = []"
  proof (cases "last_entry d1")
    case (Some h)
    then show ?thesis using that [of "[]" h] by (simp add: ledger_append_def Let_def)
  next
    case None
    then show ?thesis
      using that [of "[genesis_entry (ce_hash ?env) now]" "genesis_entry (ce_hash ?env) now"]
      by (simp add: ledger_append_def ensure_genesis_def last_entry_def Let_def genesis_entry_def)
  qed
  then have "creation_entry (record_creation env now p c att d) p = Some (chained_entry (ce_hash ?env) now ?ev prev)"
    unfolding creation_entry_def d' using old by (simp add: chained_entry_def created_event_def decision_event_def Let_def)
  moreover have "le_payload_json (chained_entry (ce_hash ?env) now ?ev prev) = canonical_json (ev_payload ?ev)"
    by (simp add: chained_entry_def Let_def)
  moreover have "\<exists>kvs. loads (canonical_json (ev_payload ?ev)) = Some (JObj kvs)"
    by (subst loads_canonical) (auto simp: created_event_def decision_event_def)
  ultimately show ?thesis using created_payload by (auto simp: creation_ledger_hash_def)
qed

definition raised :: "raise_env \<Rightarrow> int \<Rightarrow> proposal_row \<Rightarrow> bool \<Rightarrow> int option \<Rightarrow> contents \<Rightarrow> file_columns option \<Rightarrow> db \<Rightarrow> db" where
  "raised env now p allows source_id c att d = record_creation env now p c att (insert_rows p allows source_id c att d)"

lemma new_rows:
  assumes "decision_rows_ok d" "p_id p = next_id (map p_id (db_proposals d))"
  shows "get_proposal (raised env now p allows source_id c att d) (p_id p) = Some p"
    "file_of (raised env now p allows source_id c att d) p = map_option (\<lambda>f. file_columns.extend f (file_row.fields (p_id p))) att"
    "action_of (raised env now p allows source_id c att d) p = map_option (\<lambda>(a, t). action_row_of (p_id p) a t) (co_action c)"
    "signatures_of (raised env now p allows source_id c att d) p = []"
    "lifecycle_of (raised env now p allows source_id c att d) p = Some \<lparr>pl_proposal_id = p_id p,
       pl_requester_can_approve = Some allows, pl_withdrawn_at = None, pl_withdrawn_by_id = None, pl_raised_again_from_id = source_id\<rparr>"
proof -
  have new: "x \<in> set (db_proposals d) \<Longrightarrow> p_id x \<noteq> p_id p" for x
    using next_id_fresh [of "map p_id (db_proposals d)"] unfolding assms(2) by (metis image_eqI set_map)
  then have out: "p_id p \<notin> p_id ` set (db_proposals d)" unfolding image_iff by metis
  then have old: "\<forall>f \<in> set (db_files d). f_proposal_id f \<noteq> p_id p" "\<forall>a \<in> set (db_actions d). pa_proposal_id a \<noteq> p_id p"
    "\<forall>s \<in> set (db_signatures d). s_proposal_id s \<noteq> p_id p" "\<forall>l \<in> set (db_lifecycles d). pl_proposal_id l \<noteq> p_id p"
    using assms(1) unfolding decision_rows_ok_def Let_def by (metis image_eqI subsetD)+
  note defs = raised_def insert_rows_def
  show "get_proposal (raised env now p allows source_id c att d) (p_id p) = Some p"
    using new by (simp add: defs get_proposal_def find_new)
  show "file_of (raised env now p allows source_id c att d) p = map_option (\<lambda>f. file_columns.extend f (file_row.fields (p_id p))) att"
    using old(1) by (cases att) (simp_all add: defs file_of_def find_new find_None_iff file_columns.extend_def file_row.fields_def)
  show "action_of (raised env now p allows source_id c att d) p = map_option (\<lambda>(a, t). action_row_of (p_id p) a t) (co_action c)"
    using old(2) by (cases "co_action c") (auto simp: defs action_of_def find_new find_None_iff action_row_of_def)
  show "signatures_of (raised env now p allows source_id c att d) p = []"
    using old(3) by (simp add: defs signatures_of_def filter_empty_conv)
  show "lifecycle_of (raised env now p allows source_id c att d) p = Some \<lparr>pl_proposal_id = p_id p,
       pl_requester_can_approve = Some allows, pl_withdrawn_at = None, pl_withdrawn_by_id = None, pl_raised_again_from_id = source_id\<rparr>"
    using old(4) by (simp add: defs lifecycle_of_def find_new)
qed

lemma stored_action: "canonical_action (action_row_of pid a t) = transfer_canonical a"
  by (simp add: canonical_action_def action_row_of_def transfer_canonical_def text_column_def integer_column_def)

lemma action_row_parts:
  "pa_treasury_id (action_row_of pid a t) = t_id t" "pa_treasury_address (action_row_of pid a t) = JStr (et_treasury a)"
  "pa_chain_id (action_row_of pid a t) = JInt (et_chain_id a)"
  by (simp_all add: action_row_of_def)

lemma snapshot_new: "snapshot_ids (new_proposal env rnd now d v creator title c att) = Some (vault_signer_ids d (v_id v))"
proof -
  have "int_list (JList (map JInt ids)) = Some ids" for ids by (simp add: int_list_def list_all_iff comp_def)
  moreover have "p_authorized_signers_snapshot (new_proposal env rnd now d v creator title c att)
      = dumps_plain (JList (map JInt (vault_signer_ids d (v_id v))))" by (simp add: new_proposal_def Let_def)
  ultimately show ?thesis unfolding snapshot_ids_def by (simp only: loads_snapshot option.case)
qed

text \<open>The rows give back the fields that were hashed.\<close>

lemma stored_as_signed:
  assumes "decision_rows_ok d" "p = new_proposal env rnd now d v creator title c att"
  shows "signing_bytes_for (raised env now p allows source_id c att d) p = Some (proposal_signing_bytes (new_fields rnd now d v c att))"
proof -
  have pid: "p_id p = next_id (map p_id (db_proposals d))" by (simp add: assms(2) new_proposal_def Let_def)
  note rows = new_rows [OF assms(1) pid]
  have s: "snapshot_ids p = Some (vault_signer_ids d (v_id v))" unfolding assms(2) by (rule snapshot_new)
  have "map_option f_content_sha256 (file_of (raised env now p allows source_id c att d) p) = map_option f_content_sha256 att"
    unfolding rows by (cases "att :: file_columns option") (simp_all add: file_columns.extend_def)
  moreover have "map_option canonical_action (action_of (raised env now p allows source_id c att d) p)
      = map_option (\<lambda>(action, t). transfer_canonical action) (co_action c)"
    unfolding rows by (cases "co_action c") (auto simp: stored_action)
  ultimately have "stored_fields (raised env now p allows source_id c att d) p = Some (new_fields rnd now d v c att)"
    unfolding stored_fields_def s by (simp add: assms(2) new_fields_def new_proposal_def Let_def del: dumps_plain.simps)
  then show ?thesis by (simp add: signing_bytes_for_def)
qed

text \<open>A payment's text is the one its stored action writes, on the treasury it names.\<close>

definition contents_ok :: "db \<Rightarrow> contents \<Rightarrow> bool" where
  "contents_ok d c \<longleftrightarrow>
     (case co_action c of
        None \<Rightarrow> True
      | Some (a, t) \<Rightarrow> payment_text (transfer_canonical a) = Some (co_text c) \<and> get_treasury d (t_id t) = Some t
          \<and> et_treasury a = t_address t \<and> et_chain_id a = t_chain_id t)"

lemma raised_binding:
  assumes "decision_rows_ok d" "p = new_proposal env rnd now d v creator title c att" "uuid_unused (rr_uuid rnd) d" "contents_ok d c"
  shows "binding_ok (vault_env.truncate env) (raised env now p allows source_id c att d) p"
proof -
  let ?d = "raised env now p allows source_id c att d"
  have pid: "p_id p = next_id (map p_id (db_proposals d))" and said: "p_action_text p = co_text c" and
    uuid: "p_uuid p = rr_uuid rnd" by (simp_all add: assms(2) new_proposal_def Let_def)
  have h: "p_payload_hash p = sha256_hex (ce_hash env) (proposal_signing_bytes (new_fields rnd now d v c att))"
    by (simp add: assms(2) new_proposal_def Let_def)
  have "get_treasury ?d i = get_treasury d i" for i by (simp add: get_treasury_def raised_def insert_rows_def)
  then have "payment_problem ?d p = None"
    using assms(4) unfolding payment_problem_def new_rows(3) [OF assms(1) pid]
    by (cases "co_action c") (auto simp: contents_ok_def stored_action said action_row_parts)
  moreover have "uuid_unused (p_uuid p) (insert_rows p allows source_id c att d)"
    using assms(3) by (simp add: uuid uuid_unused_def insert_rows_def)
  then have "creation_ledger_hash ?d p = JStr (p_payload_hash p)" unfolding raised_def by (rule created_entry)
  ultimately show ?thesis
    unfolding binding_ok_iff using stored_as_signed [OF assms(1,2)] h by (simp add: vault_env.truncate_def)
qed

section \<open>What was checked before it was raised\<close>

lemma built_for_treasury:
  assumes "build_eth_transfer L chain address to wei due nonce = Inr a" "checksum_address L (JStr address) = Inr address"
  shows "et_treasury a = address \<and> et_chain_id a = chain"
proof -
  have "action_address L (JStr address) ''treasury'' False = Inr x \<Longrightarrow> x = address" for x
    using assms(2) by (simp add: action_address_def split: if_splits)
  moreover have "checked_transfer (JInt chain) tr rcpt wei g u n = Inr a \<Longrightarrow> et_treasury a = tr \<and> et_chain_id a = chain" for tr rcpt g u n
    by (auto simp: checked_transfer_def bindE_Inr safe_integer_def split: if_splits)
  ultimately show ?thesis using assms(1) by (auto simp: build_eth_transfer_def Let_def bindE_Inr)
qed

lemma payment_action_ok:
  assumes "payment_action env d v q m n s now deadline = Inr (a, t, due)" "treasuries_ok (re_evm env) d"
  shows "get_treasury d (t_id t) = Some t \<and> et_treasury a = t_address t \<and> et_chain_id a = t_chain_id t"
proof -
  let ?linked = "filter (\<lambda>t. t_vault_id t = v_id v \<and> t_status t = ''linked'') (db_treasuries d)"
  have f: "?linked = [t]" and b: "build_eth_transfer (re_evm env) (t_chain_id t) (t_address t) (pq_to q) (pq_value_wei q) due
      (t_config_nonce t) = Inr a"
    using assms(1) by (auto simp: payment_action_def bindE_Inr of_action_def split: list.splits if_splits sum.splits)
  have "t \<in> set ?linked" unfolding f by simp
  then have t: "t \<in> set (db_treasuries d)" by simp
  then have "get_treasury d (t_id t) = Some t"
    using assms(2) find_distinct [of t_id "db_treasuries d" t] by (simp add: treasuries_ok_def get_treasury_def)
  moreover have "checksum_address (re_evm env) (JStr (t_address t)) = Inr (t_address t)"
    using assms(2) t by (simp add: treasuries_ok_def)
  ultimately show ?thesis using built_for_treasury [OF b] by blast
qed

lemma described_Inr: "described a = Inr w \<longleftrightarrow> describe a = Inr w"
  by (simp add: described_def split: sum.splits)

lemma written_contents_ok:
  assumes "written_contents env d v m n s payment typed deadline now = Inr c" "treasuries_ok (re_evm env) d"
  shows "contents_ok d c"
proof (cases payment)
  case None
  then have "co_action c = None" using assms(1) by (auto simp: written_contents_def bindE_Inr split: option.splits)
  then show ?thesis by (simp add: contents_ok_def)
next
  case (Some q)
  then obtain a t due words where w: "payment_action env d v q m n s now deadline = Inr (a, t, due)" "describe a = Inr words"
    "c = \<lparr>co_text = words, co_action = Some (a, t), co_form = None, co_deadline = Some due\<rparr>"
    using assms(1) by (auto simp: written_contents_def bindE_Inr described_Inr split: option.splits)
  then show ?thesis
    using payment_action_ok [OF w(1) assms(2)] by (simp add: contents_ok_def describe_def split: option.splits)
qed

lemma created:
  assumes "create_proposal env rnd now v creator title s deadline upload payment typed again d disk = Inr (p, d', disk')"
  obtains c source_id att where "p = new_proposal env rnd now d v creator (strip title) c att"
    "d' = raised env now p (vault_allows_requester d (v_id v)) source_id c att d"
    "written_contents env d v (v_threshold_m v) (int (length (vault_signer_ids d (v_id v)))) (strip s) payment typed deadline now = Inr c"
    "v_threshold_m v \<le> int (length (vault_signer_ids d (v_id v)))" "cannot_raise d v (Some creator) = None" "may_propose d v creator"
proof -
  have "may_propose d v creator" using assms by (auto simp: create_proposal_def may_propose_def split: option.splits)
  moreover have "v_threshold_m v \<le> int (length (vault_signer_ids d (v_id v)))" "cannot_raise d v (Some creator) = None"
    using assms by (auto simp: create_proposal_def bindE_Inr Let_def split: option.splits if_splits)
  moreover obtain c source_id att where "p = new_proposal env rnd now d v creator (strip title) c att"
    "d' = raised env now p (vault_allows_requester d (v_id v)) source_id c att d"
    "written_contents env d v (v_threshold_m v) (int (length (vault_signer_ids d (v_id v)))) (strip s) payment typed deadline now = Inr c"
    using assms by (auto simp: create_proposal_def bindE_Inr Let_def raised_def split: option.splits if_splits)
  ultimately show thesis using that by blast
qed

section \<open>From being raised to being approved\<close>

lemma raised_just_now:
  assumes "create_proposal env rnd now v creator title s deadline upload payment typed again d disk = Inr (p, d', disk')"
    "decision_rows_ok d" "uuid_unused (rr_uuid rnd) d" "treasuries_ok (re_evm env) d"
  shows "just_raised (vault_env.truncate env) (p_id p) d' \<and> get_proposal d' (p_id p) = Some p
    \<and> snapshot_ids p = Some (vault_signer_ids d (v_id v)) \<and> p_required_m p = v_threshold_m v"
proof -
  obtain c source_id att where c: "p = new_proposal env rnd now d v creator (strip title) c att"
    "d' = raised env now p (vault_allows_requester d (v_id v)) source_id c att d"
    "written_contents env d v (v_threshold_m v) (int (length (vault_signer_ids d (v_id v)))) (strip s) payment typed deadline now = Inr c"
    by (rule created [OF assms(1)])
  have pid: "p_id p = next_id (map p_id (db_proposals d))" "p_status p = ''open''" "p_required_m p = v_threshold_m v"
    by (simp_all add: c(1) new_proposal_def Let_def)
  have snap: "snapshot_ids p = Some (vault_signer_ids d (v_id v))" unfolding c(1) by (rule snapshot_new)
  have "binding_ok (vault_env.truncate env) d' p"
    unfolding c(2) by (rule raised_binding [OF assms(2) c(1) assms(3) written_contents_ok [OF c(3) assms(4)]])
  then show ?thesis using new_rows(1,4) [OF assms(2) pid(1)] pid snap unfolding just_raised_def c(2) by blast
qed

text \<open>C7: Raising starts the machine.  A decision that was raised is in the state the theorems on decisions start
  from: it is stored and open, nobody has voted, its bytes, text and payment are the ones its ledger entry records, its
  frozen signer set is the vault's approvers and its M the vault's threshold; and who raised it was
  allowed to.\<close>

theorem raised_is_recorded:
  assumes "create_proposal env rnd now v creator title s deadline upload payment typed again d disk = Inr (p, d', disk')"
    "decision_rows_ok d" "uuid_unused (rr_uuid rnd) d" "treasuries_ok (re_evm env) d"
  shows "just_raised (vault_env.truncate env) (p_id p) d' \<and> snapshot_ids p = Some (vault_signer_ids d (v_id v))
    \<and> p_required_m p = v_threshold_m v \<and> is_current_approver d (v_id v) creator \<and> signing_standing d v creator = None"
proof -
  have "may_propose d v creator" by (rule created [OF assms(1)])
  then show ?thesis
    using raised_just_now [OF assms] by (simp add: may_propose_def why_cannot_propose_def split: if_splits)
qed

text \<open>C8: No decision is born stuck.  Right after it is raised, enough people who may still approve it have not
  voted: the check made before raising and the outlook computed from the stored rows agree.\<close>

theorem raised_can_pass:
  assumes "create_proposal env rnd now v creator title s deadline upload payment typed again d disk = Inr (p, d', disk')"
    "decision_rows_ok d"
  shows "\<not> cannot_pass d' v p (vault_signer_ids d (v_id v))"
proof -
  let ?ids = "vault_signer_ids d (v_id v)" and ?allows = "vault_allows_requester d (v_id v)"
  obtain c source_id att where c: "p = new_proposal env rnd now d v creator (strip title) c att"
    "d' = raised env now p ?allows source_id c att d" "cannot_raise d v (Some creator) = None"
    by (rule created [OF assms(1)])
  have pid: "p_id p = next_id (map p_id (db_proposals d))" "p_creator_id p = creator" "p_required_m p = v_threshold_m v"
    "p_vault_id p = v_id v" by (simp_all add: c(1) new_proposal_def Let_def)
  note rows = new_rows [OF assms(2) pid(1)]
  have tables: "db_vault_members d' = db_vault_members d" "db_vault_rules d' = db_vault_rules d"
    "db_workspaces d' = db_workspaces d" "db_workspace_members d' = db_workspace_members d" "db_vaults d' = db_vaults d"
    unfolding c(2) raised_def by (simp_all add: insert_rows_def)
  have standing: "current_signer_ids d' v = current_signer_ids d v" and rule: "vault_allows_requester d' (v_id v) = ?allows"
    unfolding current_signer_ids_def in_good_standing_def vault_signer_ids_def home_workspace_id_def
      owners_workspace_id_def current_membership_def vault_allows_requester_def tables by (rule refl)+
  have may: "requester_may_approve d' p = ?allows"
    using rows(5) rule pid(4) by (simp add: requester_may_approve_def frozen_allows_def c(2))
  have "set (eligible_ids d' v p ?ids) = set (able_to_approve d v (Some creator))"
    using pid(2) may standing
    by (auto simp: eligible_ids_def able_to_approve_def current_signer_ids_def in_good_standing_def split: if_splits option.splits)
  moreover have "distinct (eligible_ids d' v p ?ids)" "distinct (able_to_approve d v (Some creator))"
    by (simp_all add: eligible_ids_def able_to_approve_def)
  ultimately have "length (eligible_ids d' v p ?ids) = length (able_to_approve d v (Some creator))"
    by (metis distinct_card)
  moreover have "v_threshold_m v \<le> able_count d v (Some creator)"
    using c(3) by (simp add: cannot_raise_def why_cannot_pass_if_raised_def Let_def split: if_splits option.splits)
  moreover have "remdups (eligible_ids d' v p ?ids) = eligible_ids d' v p ?ids" by (simp add: eligible_ids_def)
  moreover have "signatures_of d' p = []" unfolding c(2) by (rule rows(4))
  ultimately show ?thesis
    by (simp add: cannot_pass_def reachable_outlook_def stored_outlook_def outlook_def able_count_def pid(3) Let_def distinct_remdups_id)
qed

text \<open>C1: From start to end.  Whatever happened since a decision was raised, if it is approved then at least
  as many different approvers of the vault as its threshold required when it was raised have each
  signed, with their own key, exactly the text, file, payment and rule it was raised with.\<close>

theorem raised_then_approved:
  assumes "create_proposal env rnd now v creator title s deadline upload payment typed again d0 disk = Inr (p, d1, disk')"
    "decision_rows_ok d0" "uuid_unused (rr_uuid rnd) d0" "treasuries_ok (re_evm env) d0"
    "(decision_step (vault_env.truncate env) (p_id p))\<^sup>*\<^sup>* d1 d" "get_proposal d (p_id p) = Some q" "p_status q = ''approved''"
  shows "core q = core p \<and> (\<exists>voters. distinct voters \<and> set voters \<subseteq> set (vault_signer_ids d0 (v_id v))
    \<and> v_threshold_m v \<le> int (length voters)
    \<and> (\<forall>i \<in> set voters. \<exists>g \<in> set (signatures_of d q). s_signer_id g = i \<and> s_decision g = ''approve''
         \<and> s_signed_payload_hash g = p_payload_hash p \<and> verify_signature (vault_env.truncate env) d g q = Inr True))"
proof -
  let ?env = "vault_env.truncate env"
  note r = raised_just_now [OF assms(1-4)]
  then have just: "just_raised ?env (p_id p) d1" and stored: "get_proposal d1 (p_id p) = Some p" by simp_all
  have "follows (p_id p) d1 d" by (rule history.evolve [OF assms(5) just_raised_ok [OF just]])
  then have core: "core q = core p" using stored assms(6) by (auto simp: follows_def)
  then have snap: "snapshot_ids q = Some (vault_signer_ids d0 (v_id v))" "p_required_m q = v_threshold_m v"
    "p_payload_hash q = p_payload_hash p"
    using r core_fields [OF core] by (simp_all add: snapshot_ids_def)
  from approved_voters [OF just assms(5-7)] obtain ids voters where v: "snapshot_ids q = Some ids" "distinct voters"
    "set voters \<subseteq> set ids" "p_required_m q \<le> int (length voters)"
    "\<forall>i \<in> set voters. \<exists>g \<in> set (signatures_of d q). s_signer_id g = i \<and> s_decision g = ''approve''
       \<and> verify_signature ?env d g q = Inr True" by blast
  have "verify_signature ?env d g q = Inr True \<Longrightarrow> s_signed_payload_hash g = p_payload_hash q" for g
    by (auto simp: verify_signature_def split: option.splits if_splits)
  with v(5) have signed: "\<forall>i \<in> set voters. \<exists>g \<in> set (signatures_of d q). s_signer_id g = i \<and> s_decision g = ''approve''
       \<and> s_signed_payload_hash g = p_payload_hash p \<and> verify_signature ?env d g q = Inr True"
    unfolding snap(3) by blast
  have ids: "ids = vault_signer_ids d0 (v_id v)" using v(1) snap(1) by simp
  show ?thesis
    by (intro conjI core exI [of _ voters] v(2) v(3) [unfolded ids] v(4) [unfolded snap(2)] signed)
qed

section \<open>Raising the next decision\<close>

text \<open>The foreign keys hold again, so decisions can be raised one after the other.\<close>

lemma raised_keeps_rows:
  assumes "create_proposal env rnd now v creator title s deadline upload payment typed again d disk = Inr (p, d', disk')"
    "decision_rows_ok d"
  shows "decision_rows_ok d'"
proof -
  obtain c source_id att where "d' = raised env now p (vault_allows_requester d (v_id v)) source_id c att d"
    by (rule created [OF assms(1)])
  then show ?thesis using assms(2)
    by (cases "att :: file_columns option"; cases "co_action c")
      (auto simp: decision_rows_ok_def Let_def raised_def insert_rows_def file_columns.extend_def file_row.fields_def action_row_of_def)
qed

text \<open>To the decisions already there, raising another one is a step elsewhere: the machine of one decision
  goes on while others are raised.\<close>

lemma record_creation_entry:
  assumes "p_uuid q \<noteq> p_uuid p"
  shows "creation_entry (record_creation env now p c att d) q = creation_entry d q"
proof -
  have other: "creation_entry (snd (ledger_append e now ev d)) q = creation_entry d q" if "ev_ref_id ev = Some (p_uuid p)" for e ev d
  proof (cases "last_entry d")
    case (Some h)
    then show ?thesis using that assms by (simp add: creation_entry_def ledger_append_def chained_entry_def Let_def)
  next
    case None
    then show ?thesis using that assms
      by (simp add: creation_entry_def ledger_append_def ensure_genesis_def last_entry_def genesis_entry_def chained_entry_def Let_def)
  qed
  have "ev_ref_id (created_event p x y) = Some (p_uuid p)" "ev_ref_id (file_event p f) = Some (p_uuid p)" for x y f
    by (simp_all add: created_event_def decision_event_def file_event_def)
  then show ?thesis by (cases "att :: file_columns option") (simp_all add: record_creation_def other)
qed

theorem raising_another_is_elsewhere:
  assumes "create_proposal env rnd now v creator title s deadline upload payment typed again d disk = Inr (p, d', disk')"
    "\<forall>q \<in> set (db_proposals d). p_uuid q \<noteq> rr_uuid rnd" "decision_rows_ok d"
  shows "elsewhere pid d d'"
  unfolding elsewhere_def
proof (intro allI impI)
  fix q assume q: "get_proposal d pid = Some q"
  obtain c source_id att where c: "p = new_proposal env rnd now d v creator (strip title) c att"
    "d' = raised env now p (vault_allows_requester d (v_id v)) source_id c att d" by (rule created [OF assms(1)])
  have p: "p_id p = next_id (map p_id (db_proposals d))" "p_uuid p = rr_uuid rnd" by (simp_all add: c(1) new_proposal_def Let_def)
  have in_d: "q \<in> set (db_proposals d)" "p_id q = pid" using q find_Some_in by (auto simp: get_proposal_def dest: find_Some_in)
  then have "p_id q \<in> set (map p_id (db_proposals d))" by auto
  then have ids: "p_id p \<noteq> p_id q" unfolding p(1) using next_id_fresh by metis
  have uuids: "p_uuid q \<noteq> p_uuid p" using assms(2) in_d p(2) by auto
  have "get_proposal d' pid = Some q"
    using q by (simp add: c(2) raised_def insert_rows_def get_proposal_def find_append)
  moreover have "signatures_of d' q = signatures_of d q" by (simp add: c(2) raised_def insert_rows_def signatures_of_def)
  moreover have "file_of d' q = file_of d q"
    using ids by (cases "att :: file_columns option")
      (simp_all add: c(2) raised_def insert_rows_def file_of_def find_append file_columns.extend_def file_row.fields_def split: option.splits)
  moreover have "action_of d' q = action_of d q"
    using ids by (cases "co_action c")
      (auto simp: c(2) raised_def insert_rows_def action_of_def find_append action_row_of_def split: option.splits)
  moreover have "creation_entry d' q = creation_entry d q"
    unfolding c(2) raised_def using record_creation_entry [OF uuids] by (simp add: creation_entry_def insert_rows_def)
  moreover have "key_material d' i = key_material d i" "treasury_place d' i = treasury_place d i" for i
    by (simp_all add: key_material_def get_key_def treasury_place_def get_treasury_def c(2) raised_def insert_rows_def)
  ultimately show "get_proposal d' pid = Some q \<and> signatures_of d' q = signatures_of d q \<and> evidence_kept q d d'"
    by (simp add: evidence_kept_def)
qed

end
