(* ===== verification/Proposal_Examples.thy ===== *)
theory Proposal_Examples
  imports Proposal_Proofs Approval_Examples
begin

text \<open>
  A second decision is raised in the vault of \<open>Approval_Examples\<close>, and the phone approves it.
\<close>

definition raise_example :: raise_env where
  "raise_example = \<lparr>ce_hash = ce_hash vote_env, ce_registry = ce_registry vote_env,
     ce_server_master_key = ce_server_master_key vote_env, ce_debug = ce_debug vote_env, ce_testing = ce_testing vote_env,
     ce_secret_key = ce_secret_key vote_env, ve_key_max_age_days = ve_key_max_age_days vote_env,
     fe_hkdf = (\<lambda>secret info. secret), re_evm = toy_evm, re_foldings = \<lparr>fo_lower = id, fo_upper = id\<rparr>, re_onchain = False\<rparr>"

definition raise_rnd :: raise_random where
  "raise_rnd = \<lparr>fr_dek = [], fr_aes_nonce = [], fr_encapsulation = [], fr_wrap_nonce = [], rr_uuid = ''w'', rr_nonce = ''n''\<rparr>"

lemma example_env: "vault_env.truncate raise_example = vote_env"
  by (simp add: raise_example_def vault_env.truncate_def)

lemma example_signers: "vault_signer_ids raised_db 1 = [1, 2]"
  by (simp add: vault_signer_ids_def is_approver_def SIGNER_ROLES_def)

definition example_contents :: contents where
  "example_contents = \<lparr>co_text = ''Do it'', co_action = None, co_form = None, co_deadline = None\<rparr>"

definition example_proposal :: proposal_row where
  "example_proposal = new_proposal raise_example raise_rnd 0 raised_db vault_one 1 ''Title'' example_contents None"

definition example_db :: db where
  "example_db = raised raise_example 0 example_proposal True None example_contents None raised_db"

lemma example_created:
  "create_proposal raise_example raise_rnd 0 vault_one 1 '' Title'' ''Do it '' None None None None None raised_db []
     = Inr (example_proposal, example_db, [])"
proof -
  have v: "v_id vault_one = 1" "v_threshold_m vault_one = 1" by (simp_all add: vault_one_def)
  have "is_current_approver raised_db 1 1"
    by (simp add: is_current_approver_def vault_member_of_def is_approver_def SIGNER_ROLES_def)
  then have w: "why_cannot_propose raised_db vault_one 1 = None"
    by (simp add: why_cannot_propose_def v signing_standing_def raised_rows)
  have "current_signer_ids raised_db vault_one = [1, 2]"
    by (simp add: current_signer_ids_def in_good_standing_def v example_signers raised_rows)
  then have c: "cannot_raise raised_db vault_one (Some 1) = None"
    by (simp add: cannot_raise_def why_cannot_pass_if_raised_def able_count_def able_to_approve_def v raised_rows Let_def)
  have s: "strip '' Title'' = ''Title''" "strip ''Do it '' = ''Do it''" by code_simp+
  show ?thesis
    by (simp add: create_proposal_def w c s v example_signers raised_rows written_contents_def example_contents_def [symmetric]
        example_proposal_def [symmetric] example_db_def raised_def Let_def)
qed

lemma example_rows_ok: "decision_rows_ok raised_db" "uuid_unused (rr_uuid raise_rnd) raised_db" "treasuries_ok L raised_db"
proof -
  show "decision_rows_ok raised_db"
    by (simp add: decision_rows_ok_def) (simp add: raised_db_def empty_db_def)
  show "treasuries_ok L raised_db" by (simp add: treasuries_ok_def raised_db_def empty_db_def)
  have "list_all (\<lambda>e. le_ref_id e \<noteq> Some ''w'') (db_entries raised_db)" by code_simp
  then show "uuid_unused (rr_uuid raise_rnd) raised_db" by (auto simp: uuid_unused_def raise_rnd_def list_all_iff)
qed

lemma example_fields: "p_id example_proposal = 4" "p_status example_proposal = ''open''" "p_vault_id example_proposal = 1"
  "p_required_m example_proposal = 1" "p_required_n example_proposal = 2" "p_expires_at example_proposal = None"
  "p_creator_id example_proposal = 1" "p_payload_hash example_proposal = ''68''"
proof -
  have v: "v_id vault_one = 1" "v_threshold_m vault_one = 1" by (simp_all add: vault_one_def)
  have n: "next_id (map p_id (db_proposals raised_db)) = 4" by (simp add: next_id_def proposal_one_fields)
  have h: "sha256_hex (ce_hash raise_example) m = ''68''" for m
    by (simp add: sha256_hex_def raise_example_def vote_env_def) code_simp
  note e = example_proposal_def new_proposal_def Let_def
  show "p_id example_proposal = 4" using n by (simp add: e)
  show "p_status example_proposal = ''open''" "p_vault_id example_proposal = 1" "p_required_m example_proposal = 1"
    "p_required_n example_proposal = 2" "p_expires_at example_proposal = None" "p_creator_id example_proposal = 1"
    by (simp_all add: e v example_signers example_contents_def)
  show "p_payload_hash example_proposal = ''68''" by (simp add: e h)
qed

lemma example_just_raised: "just_raised vote_env 4 example_db" "get_proposal example_db 4 = Some example_proposal"
  "snapshot_ids example_proposal = Some [1, 2]"
  using raised_just_now [OF example_created example_rows_ok] by (simp_all add: example_env example_fields vault_one_def example_signers)

lemma example_ready: "phone_ready example_db 4 example_proposal"
proof -
  have pid: "p_id example_proposal = next_id (map p_id (db_proposals raised_db))"
    by (simp add: example_proposal_def new_proposal_def Let_def)
  note rows = new_rows [OF example_rows_ok(1) pid, where env = raise_example and now = 0 and allows = True and source_id = None
      and c = example_contents and att = None, folded example_db_def]
  have tables: "db_keys example_db = [phone]" "db_vaults example_db = [vault_one]" "db_workspaces example_db = []"
    "db_workspace_members example_db = []" "db_vault_rules example_db = []" "db_vault_members example_db = db_vault_members raised_db"
    by (simp_all add: example_db_def raised_def insert_rows_def)
  have sound: "sound_decision vote_env 4 example_proposal [1, 2] example_db"
    using example_just_raised rows(4) by (auto simp: just_raised_def sound_decision_def votes_sound_def)
  moreover have allows: "vault_allows_requester example_db 1" by (simp add: vault_allows_requester_def tables)
  have "requester_may_approve example_db example_proposal"
    using rows(5) allows by (simp add: requester_may_approve_def frozen_allows_def example_fields)
  moreover have "action_of example_db example_proposal = None" using rows(3) by (simp add: example_contents_def)
  moreover have "is_current_approver example_db 1 2"
    using raised_approver by (simp add: is_current_approver_def vault_member_of_def tables)
  moreover have "get_vault example_db 1 = Some vault_one" "get_key example_db 7 = Some phone"
    by (simp_all add: get_vault_def get_key_def tables vault_one_def phone_def)
  moreover have "current_signer_ids example_db vault_one = [1, 2]"
    using example_signers by (simp add: current_signer_ids_def in_good_standing_def vault_signer_ids_def home_workspace_id_def
        owners_workspace_id_def current_membership_def tables vault_one_def)
  then have "\<not> cannot_pass example_db vault_one example_proposal [1, 2]"
    using calculation(2) rows(4) by (simp add: cannot_pass_def reachable_outlook_def stored_outlook_def outlook_def
        eligible_ids_def example_fields)
  ultimately show ?thesis
    using rows(4) unfolding phone_ready_def example_fields by (simp add: tables)
qed

section \<open>Witnesses\<close>

lemma raised_is_recorded_witness:
  "\<exists>p d. create_proposal raise_example raise_rnd 0 vault_one 1 '' Title'' ''Do it '' None None None None None raised_db [] = Inr (p, d, [])
    \<and> just_raised vote_env 4 d \<and> snapshot_ids p = Some [1, 2]"
  using raised_is_recorded [OF example_created example_rows_ok] example_created
  by (simp add: example_env example_fields vault_one_def example_signers)

lemma raised_can_pass_witness: "\<not> cannot_pass example_db vault_one example_proposal [1, 2]"
  using raised_can_pass [OF example_created example_rows_ok(1)] by (simp add: vault_one_def example_signers)

lemma raised_then_approved_witness:
  "\<exists>d q g. get_proposal d 4 = Some q \<and> p_status q = ''approved'' \<and> core q = core example_proposal
    \<and> g \<in> set (signatures_of d q) \<and> s_signed_payload_hash g = p_payload_hash example_proposal"
proof (rule phone_vote [OF example_ready, of "''approve''"])
  fix s d q
  assume v: "get_proposal d 4 = Some q" "p_status q = (if ''approve'' = ''approve'' then ''approved'' else ''open'')"
    "decision_step vote_env 4 example_db d"
  have st: "p_status q = ''approved''" using v(2) by simp
  have steps: "(decision_step (vault_env.truncate raise_example) (p_id example_proposal))\<^sup>*\<^sup>* example_db d"
    unfolding example_env example_fields by (rule step_star [OF v(3)])
  from raised_then_approved [OF example_created example_rows_ok steps _ st] v(1)
  obtain voters where q: "core q = core example_proposal" and w: "1 \<le> int (length voters)" "\<forall>i \<in> set voters. \<exists>g \<in> set (signatures_of d q).
      s_signer_id g = i \<and> s_decision g = ''approve'' \<and> s_signed_payload_hash g = p_payload_hash example_proposal
      \<and> verify_signature (vault_env.truncate raise_example) d g q = Inr True"
    unfolding example_fields(1) by (auto simp: vault_one_def)
  from w(1) have "hd voters \<in> set voters" by (cases voters) auto
  with w(2) show ?thesis using v(1) st q by blast
qed simp

text \<open>An encapsulation that satisfies the round trip, and a vault key of its own.\<close>

definition toy_kem :: kem_provider where
  "toy_kem = \<lparr>kem_meta = \<lparr>am_alg_id = ''ML-KEM-768'', am_family = ''ML-KEM'', am_security_category = 3, am_backend = ''toy'',
       am_sizes = [(''ciphertext'', 2)], am_quantum_vulnerable = False\<rparr>,
     kem_keygen = (\<lambda>r. \<lparr>kp_public_key = [], kp_secret_key = ''s'', kp_alg_id = ''ML-KEM-768''\<rparr>),
     kem_encapsulate = (\<lambda>r pk. (''ct'', ''ss'')),
     kem_decapsulate = (\<lambda>sk ct. ''ss'')\<rparr>"

definition file_example :: file_env where
  "file_example = file_env.truncate (raise_example\<lparr>ce_hash := id, ce_registry := register_kem toy_registry toy_kem\<rparr>)"

definition vault_key :: key_row where
  "vault_key = phone\<lparr>k_id := 5, k_owner_id := None, k_role := ''kem'', k_secret_key_nonce := Some [],
     k_secret_key_wrapped := Some (''qvault-dev-master:dev'' @ ''s'')\<rparr>"

lemma file_round_trip_witness:
  "\<exists>f disk. encrypt_and_store file_example (file_random.truncate raise_rnd) vault_one ''n'' ''content'' ''w'' [] = Inr (f, disk)
    \<and> file_decrypt file_example (empty_db\<lparr>db_keys := [vault_key]\<rparr>) ((''other'', []) # disk) vault_one f = Inr ''content''"
proof -
  note env = file_example_def file_env.truncate_def raise_example_def vote_env_def toy_env_def
  note reg = toy_registry_def register_kem_def register_signature_def register_symmetric_def empty_registry_def
    toy_signature_def toy_symmetric_def toy_kem_def resolve_def
  have cipher: "symmetric (ce_registry file_example) SYMMETRIC_ALG = Inr toy_symmetric"
    and kem: "kem (ce_registry file_example) (v_kem_alg_id vault_one) = Inr toy_kem"
    by (simp_all add: env reg symmetric_def kem_def SYMMETRIC_ALG_def vault_one_def)
  have opens: "cipher_opens toy_symmetric" by (simp add: cipher_opens_def toy_symmetric_def)
  have agrees: "kem_agrees toy_kem pk sk" for pk sk by (simp add: kem_agrees_def toy_kem_def wrong_length_def)
  let ?d = "empty_db\<lparr>db_keys := [vault_key]\<rparr>"
  have key: "get_key ?d (v_kem_key_id vault_one) = Some vault_key" by (simp add: get_key_def vault_key_def vault_one_def)
  have master: "get_master_key (crypto_env.truncate (vault_env.truncate file_example)) = Inr ''qvault-dev-master:dev''"
    by (simp add: env get_master_key_def vault_env.truncate_def crypto_env.truncate_def)
  have registry: "ce_registry (vault_env.truncate file_example) = ce_registry file_example" by (simp add: vault_env.truncate_def)
  have sk: "unwrap_secret (vault_env.truncate file_example) (k_secret_key_nonce vault_key) (k_secret_key_wrapped vault_key) = Inr ''s''"
    by (simp add: unwrap_secret_def registry cipher master of_crypto_def of_master_def vault_key_def) (simp add: toy_symmetric_def)
  have e: "sy_encrypt toy_symmetric n k m x = (n, k @ m)" "kem_encapsulate toy_kem r pk = (''ct'', ''ss'')" for n k m x r pk
    by (simp_all add: toy_symmetric_def toy_kem_def)
  have one: "v_id vault_one = 1" "dec_int 1 = ''1''" by (simp add: vault_one_def) code_simp
  have "\<exists>f disk. encrypt_and_store file_example (file_random.truncate raise_rnd) vault_one ''n'' ''content'' ''w'' [] = Inr (f, disk)
      \<and> f_ciphertext_path f \<noteq> ''other''"
    by (simp add: encrypt_and_store_def cipher kem of_file_def of_crypto_def e one Let_def)
  then obtain f disk where f: "encrypt_and_store file_example (file_random.truncate raise_rnd) vault_one ''n'' ''content'' ''w'' [] = Inr (f, disk)"
    and path: "f_ciphertext_path f \<noteq> ''other''" by blast
  from path have "map_of ((''other'', []) # disk) (f_ciphertext_path f) = map_of disk (f_ciphertext_path f)" by simp
  from file_round_trip [OF f cipher opens kem agrees key sk this refl] f show ?thesis by blast
qed

end
