(* ===== verification/Spec2Isabelle.thy ===== *)
theory Spec2Isabelle
  imports Merkle_Proofs Kit_Code Ledger_Demo Witness_Examples Approval_Examples Shor_Proofs Rate_Limit_Proofs Membership_Examples Decision_Types_Proofs Proposal_Examples
begin

text \<open>
  Q-Vault is a service in which teams approve decisions by M of N signatures with post-quantum keys.
  People belong to \<^emph>\<open>workspaces\<close>, which hold \<^emph>\<open>vaults\<close>; a vault has members, some of them approvers, and a
  threshold.  A \<^emph>\<open>decision\<close> (a row of \<open>proposals\<close>) carries a text, perhaps a file and perhaps a payment; its
  approvers sign its bytes, and it closes as approved, rejected, withdrawn or expired.  Everything that
  happens is recorded in a hash-chained \<^emph>\<open>ledger\<close>, whose head is signed now and then (an \<^emph>\<open>anchor\<close>); its
  entries are the leaves of a Merkle log, whose checkpoints an independent \<^emph>\<open>witness\<close> co-signs.

  \<^bold>\<open>How the code is modelled.\<close>  A Python \<open>str\<close> is its UTF-8 encoding (\<open>ustr\<close>, a list of characters), lengths
  are of code points where the code counts those (\<open>str_len\<close>), integers are \<open>int\<close> or \<open>nat\<close>, and the words of
  SHA-256 are \<open>32 word\<close>.  Values read from JSON are the datatype \<open>json\<close>.  Tables are the lists of rows of the
  record \<open>db\<close>.  An operation that may fail returns a sum, the exception on the left; one whose rows survive
  the exception returns the sum beside the database (\<open>('e + 'a) \<times> db\<close>), one that is rolled back returns
  \<open>'e + ('a \<times> db)\<close>.  Clocks and random values are arguments.  The algorithms of third-party packages
  (ML-DSA, AES-GCM, Argon2, keccak-256, the ABI encoder, RSA of the platform) are fields of records
  (\<open>vault_env\<close>, \<open>crypto_env\<close>, \<open>password_env\<close>, \<open>evm_lib\<close>), and so is the hash where a theorem is about any hash; what a theorem
  needs of them is a named hypothesis and has an instance in the witnesses.  Not being able to forge is
  never assumed: theorems say what holds unless two different inputs that are named collide.

  \<^bold>\<open>The library.\<close>
  \<^item> \<open>Vault_Prelude\<close>: the error monad (\<open>bindE\<close>), text, hexadecimal, decimal and big-endian conversions and
    their round trips.  \<open>Transitions\<close>: the locales \<open>kept\<close> (an invariant of a step relation) and \<open>evolving\<close> (a
    reflexive and transitive comparison of states along its runs), interpreted for decisions, for the
    witness, and for membership.
  \<^item> \<open>Base64\<close>: Python's encoder and lenient decoder.  \<open>Sha256\<close>: FIPS 180-4, computing; the locale
    \<open>hash_function\<close> is all the Merkle theorems use of it.

  \<^bold>\<open>Cryptographic core.\<close>
  \<^item> \<open>Canonical_Json\<close> (\<open>crypto/hashing.py\<close>): \<open>canonical_json\<close> and the reader \<open>json.loads\<close>; the round trip, hence
    that the bytes determine the value.
  \<^item> \<open>Kit_Code\<close> (\<open>crypto/kit_code.py\<close>): the Recovery Kit's code, the equivalence of the table-driven CRC with
    the bitwise one, the round trip and the detection of one wrong symbol.
  \<^item> \<open>Crypto_Registry\<close> (\<open>crypto/interfaces.py\<close>, \<open>crypto/registry.py\<close>, \<open>security/master_key.py\<close>): providers by
    name (an instance of the locale \<open>dictionary\<close>), the master key and its tagged MACs.
  \<^item> \<open>Merkle\<close>, \<open>Merkle_Proofs\<close> (\<open>transparency/merkle.py\<close>): roots, inclusion and consistency proofs; a proof that
    verifies is sound, and one the program makes verifies.  \<open>Statement\<close> (\<open>transparency/statement.py\<close>): the bytes of
    entries and checkpoints.

  \<^bold>\<open>The ledger.\<close>  \<open>Ledger\<close> (\<open>services/ledger_service.py\<close>, \<open>rotation_policy.py\<close>): append, the chain check, anchors, the
  report and the tamper demonstration.  \<open>Ledger_Proofs\<close>: appending keeps the verdict, one head hash commits
  to the whole history.  \<open>Ledger_Anchors\<close>: no run of the service ever signs over a changed history, and a
  fresh anchor makes an intact ledger verify.  \<open>Ledger_Demo\<close>: the demonstration is caught and undone.

  \<^bold>\<open>The witness.\<close>  \<open>Witness\<close> (\<open>src/witness\<close>): the store of pinned logs and checkpoints, the identity file, and the
  co-signing route with every refusal.  \<open>Witness_Proofs\<close>, \<open>Witness_Examples\<close>: over any sequence of requests it
  never co-signs a fork or a smaller tree, pins are permanent, and the one weakness found.

  \<^bold>\<open>Decisions.\<close>
  \<^item> \<open>Models\<close> (\<open>models/*.py\<close>): the rows.  \<open>Signing\<close> (\<open>services/signing.py\<close>): the bytes that are signed.
    \<open>Decision_Types\<close>, \<open>Decision_Types_Proofs\<close> (\<open>services/decision_types.py\<close>): the forms of typed decisions and
    the text they write; equal texts come from equal fields.
  \<^item> \<open>File_Crypto\<close> (\<open>services/file_crypto_service.py\<close>): attachments encrypted under a key wrapped for the vault,
    and read back.  \<open>Proposal_Service\<close> (\<open>services/proposal_service.py\<close>): raising a decision, which puts eligibility,
    payments, forms, files, signing and the ledger together.  \<open>Proposal_Proofs\<close>: what is raised is the start of
    the machine of \<open>Approval_Machine\<close>, it can pass, and if it is ever approved then enough of the approvers it
    was raised for signed exactly it; to other decisions, raising is a step elsewhere.  \<open>Proposal_Examples\<close>.
  \<^item> \<open>Chain_Action\<close>, \<open>Chain_Proofs\<close> (\<open>chain/action.py\<close>, \<open>digest.py\<close>, \<open>evm.py\<close>): payments, their single canonical
    form, and that the digest a treasury checks determines the payment.
  \<^item> \<open>Eligibility\<close>, \<open>Eligibility_Proofs\<close> (\<open>services/eligibility.py\<close> and the standing rules of
    \<open>workspace_service.py\<close>): who may sign; the gate and the screens agree.
  \<^item> \<open>Execution\<close> (\<open>services/execution_service.py\<close>): the second signature of a payment.
  \<^item> \<open>Approval\<close> (\<open>services/approval_service.py\<close>): the gate, the vote from a phone, the write, the tally, closing,
    expiry, withdrawal.  \<open>Approval_Proofs\<close>: each operation keeps the decision sound.
  \<^item> The vote from the browser unlocks a key the server holds wrapped.  \<open>Password_Attempts\<close>
    (\<open>security/password_attempts.py\<close>): wrong passwords counted in the process, and the refusal.
    \<open>Recovery_Cancel\<close> (\<open>models/recovery.py\<close> and the cancelling part of \<open>services/recovery_service.py\<close>,
    \<open>recovery_kit.py\<close>, \<open>recovery_phone.py\<close>): a proven password cancels the account's recoveries.
    \<open>Key_Service\<close> (\<open>services/key_service.py\<close>, \<open>crypto/kdf.py\<close>): choosing, unlocking and using the key.
    \<open>Browser_Vote\<close>, \<open>Browser_Vote_Proofs\<close> (\<open>cast_vote\<close>): the whole vote, what it needed and what it changed.
  \<^item> \<open>Approval_Machine\<close>: a \<open>decision_step\<close> is a vote from the browser, with the cancelled recoveries that are made
    to stick after it, a vote from a phone, a look that may close the decision, a sweep, a withdrawal, or
    any other change that leaves the decision's evidence.  Over every run: what \<open>approved\<close> means, that a
    closed decision stays closed, that a run refines an abstract M-of-N ballot.  \<open>Approval_Examples\<close>: the
    theorems applied to a decision, voted on from a phone and from the browser.

  \<^bold>\<open>People.\<close>
  \<^item> \<open>Vault_Service\<close> (\<open>services/vault_service.py\<close>), \<open>Vault_Proofs\<close>, \<open>Vault_Steps\<close>: vaults, members, thresholds.
  \<^item> \<open>Workspace_Service\<close> (\<open>services/workspace_service.py\<close>, \<open>models/workspace.py\<close>, \<open>services/mail.py\<close>):
    workspaces, roles, invitations.  \<open>Workspace_Names\<close>: the search for a free slug ends.  \<open>Workspace_Proofs\<close>: what
    each operation needs and changes.
  \<^item> \<open>Membership\<close>, \<open>Membership_Machine\<close>, \<open>Membership_Theorems\<close>, \<open>Membership_Examples\<close>: every operation on workspaces and
    vaults as one state machine, with the person on whose authority it happens; each is one of a few
    \<open>effect\<close>s on the tables.  A workspace keeps an owner and ownership comes from owners, with one exception the
    code has and both theorems state: a shared workspace that everyone left takes the next person as a
    plain member.  A quorum stays reachable, an accepted invitation gives exactly its role and vaults, the
    tables keep their types, and nothing here touches a decision.

  \<^bold>\<open>Around it.\<close>  \<open>Rate_Limit\<close>, \<open>Rate_Limit_Proofs\<close> (\<open>security/rate_limit.py\<close>): the sliding window refines the log
  of all attempts, and the store is bounded.  \<open>Shor\<close>, \<open>Shor_Proofs\<close> (\<open>attack/toy_rsa.py\<close>, \<open>attack/shor.py\<close>): scaled
  RSA and the classical part of the attack on it; every measurement is an arbitrary argument.

  \<^bold>\<open>Loops and fuel.\<close>  Readers recurse on fuel of the length of what is left (\<open>loads\<close> gives one more than the
  length of its input; the round trip shows that enough).  The slug search has the number of workspaces
  and two as fuel, which \<open>slug_always_found\<close> proves enough; the order loop has the modulus, which
  \<open>true_order_total\<close> proves enough.  Grouping digits has the length of the number.  All other loops are
  structural or have a termination proof, and a function without a value is \<open>None\<close> and never assumed away.

  \<^bold>\<open>Not modelled.\<close>  The web layer (\<open>blueprints\<close>, \<open>forms.py\<close>, \<open>ui.py\<close>, templates) turns requests into calls of the
  services.  Notifications, delivery, mail, push and comments never decide a vote or a membership, and
  their calls are left out of the operations.  The races the database's unique constraints end are left
  out: operations run one after the other, in any order.  Not modelled either, for their size and not for
  their nature: starting and completing a recovery (cancelling is modelled), devices and pairing, making,
  changing and rotating keys (unlocking and signing are modelled), the rows that end a web session after
  too many wrong passwords, treasuries and the transactions sent to a chain, the exported evidence and its
  stand-alone verifier, and the publishing of checkpoints.
  The attack laboratory and the benchmarks measure; the simulated distribution of quantum measurements
  is floating-point.
\<close>

end
